(* ===== verification/Prelude.thy ===== *)
theory Prelude
  imports Main "HOL-Library.Word"
begin

text \<open>
  Material shared by every component of the development: the machine integer
  types of the firmware, doubly linked lists described by their next and
  previous links, ordered insertion, ring-buffer windows, and the shape of a
  bounded queue as an interface.
\<close>

unbundle bit_operations_syntax

section \<open>Machine types and collections of facts\<close>

type_synonym U8 = "8 word"
type_synonym U16 = "16 word"
type_synonym U32 = "32 word"
type_synonym U64 = "64 word"

text \<open>Pointers into a table are indices; \<open>None\<close> is the null pointer.\<close>

type_synonym ptr = "nat option"

named_theorems link_simps \<open>link functions of an updated table\<close>
named_theorems kdefs \<open>definitions of kernel operations\<close>

section \<open>Heads and ends of lists as pointers\<close>

definition first_or :: "nat list \<Rightarrow> ptr \<Rightarrow> ptr" where
  "first_or xs b = (case xs of [] \<Rightarrow> b | x # _ \<Rightarrow> Some x)"

definition last_or :: "ptr \<Rightarrow> nat list \<Rightarrow> ptr" where
  "last_or a xs = (if xs = [] then a else Some (last xs))"

lemma first_or_simps [simp]:
  "first_or [] b = b" "first_or (x # xs) b = Some x"
  "first_or (xs @ ys) b = first_or xs (first_or ys b)"
  by (auto simp: first_or_def split: list.splits)

lemma last_or_simps [simp]:
  "last_or a [] = a" "last_or a (x # xs) = last_or (Some x) xs"
  "last_or a (xs @ ys) = last_or (last_or a xs) ys"
  by (auto simp: last_or_def)

lemma first_or_eq_None [simp]:
  "first_or xs None = None \<longleftrightarrow> xs = []" "None = first_or xs None \<longleftrightarrow> xs = []"
  by (cases xs; simp)+

lemma last_or_eq_None [simp]:
  "last_or None xs = None \<longleftrightarrow> xs = []" "None = last_or None xs \<longleftrightarrow> xs = []"
  by (auto simp: last_or_def)

lemma first_or_Some_in: "first_or xs None = Some x \<Longrightarrow> x \<in> set xs"
  by (cases xs) auto

lemma last_or_Some_in: "last_or None xs = Some x \<Longrightarrow> x \<in> set xs"
  by (auto simp: last_or_def split: if_splits)

section \<open>Doubly linked lists\<close>

text \<open>
  \<open>dlseg n p a xs b\<close>: the cells \<open>xs\<close> are chained by the next links \<open>n\<close> and the
  previous links \<open>p\<close>; the first cell points back to \<open>a\<close> and the last one on to
  \<open>b\<close>. \<open>dll n p h xs\<close>: \<open>h\<close> heads the null-terminated list \<open>xs\<close>.
\<close>

primrec dlseg :: "(nat \<Rightarrow> ptr) \<Rightarrow> (nat \<Rightarrow> ptr) \<Rightarrow> ptr \<Rightarrow> nat list \<Rightarrow> ptr \<Rightarrow> bool" where
  "dlseg n p a [] b \<longleftrightarrow> True"
| "dlseg n p a (x # xs) b \<longleftrightarrow>
     p x = a \<and> n x = first_or xs b \<and> dlseg n p (Some x) xs b"

definition dll :: "(nat \<Rightarrow> ptr) \<Rightarrow> (nat \<Rightarrow> ptr) \<Rightarrow> ptr \<Rightarrow> nat list \<Rightarrow> bool" where
  "dll n p h xs \<longleftrightarrow> distinct xs \<and> h = first_or xs None \<and> dlseg n p None xs None"

lemma dlseg_append [simp]:
  "dlseg n p a (xs @ ys) b \<longleftrightarrow>
     dlseg n p a xs (first_or ys b) \<and> dlseg n p (last_or a xs) ys b"
  by (induction xs arbitrary: a) auto

lemma dlseg_upd_next [simp]:
  "x \<notin> set xs \<Longrightarrow> dlseg (n(x := v)) p a xs b = dlseg n p a xs b"
  by (induction xs arbitrary: a) auto

lemma dlseg_upd_prev [simp]:
  "x \<notin> set xs \<Longrightarrow> dlseg n (p(x := v)) a xs b = dlseg n p a xs b"
  by (induction xs arbitrary: a) auto

lemma dlseg_cong:
  "(\<And>x. x \<in> set xs \<Longrightarrow> n x = n' x \<and> p x = p' x) \<Longrightarrow>
     dlseg n p a xs b = dlseg n' p' a xs b"
  by (induction xs arbitrary: a) auto

lemma dll_Nil [simp]: "dll n p h [] \<longleftrightarrow> h = None"
  by (simp add: dll_def)

lemma dll_distinct: "dll n p h xs \<Longrightarrow> distinct xs"
  by (simp add: dll_def)

lemma dll_head: "dll n p h xs \<Longrightarrow> h = first_or xs None"
  by (simp add: dll_def)

lemma dll_frame:
  "dll n p h xs \<Longrightarrow> (\<And>x. x \<in> set xs \<Longrightarrow> n' x = n x \<and> p' x = p x) \<Longrightarrow> dll n' p' h xs"
  unfolding dll_def using dlseg_cong [of xs n' n p' p] by blast

lemma dll_links:
  "dll n p h (us @ x # vs) \<Longrightarrow> n x = first_or vs None \<and> p x = last_or None us"
  by (simp add: dll_def)

lemma dll_inj:
  "dll n p h xs \<Longrightarrow> dll n p h ys \<Longrightarrow> xs = ys"
proof -
  have "dlseg n p a xs None \<Longrightarrow> dlseg n p a ys None \<Longrightarrow>
      first_or xs None = first_or ys None \<Longrightarrow> xs = ys" for a
  proof (induction xs arbitrary: ys a)
    case Nil
    then show ?case by (cases ys) auto
  next
    case (Cons x xs)
    then show ?case by (cases ys) auto
  qed
  then show "dll n p h xs \<Longrightarrow> dll n p h ys \<Longrightarrow> xs = ys"
    by (auto simp: dll_def)
qed

text \<open>The four shapes of removing a cell, as one lemma on the resulting links.\<close>

lemma dll_remove_only:
  assumes "dll n p h xs" "x \<in> set xs" "n x = None" "p x = None"
  shows "xs = [x]"
proof -
  from assms(2) obtain us vs where xs: "xs = us @ x # vs"
    by (meson split_list)
  with dll_links [of n p h us x vs] assms show ?thesis by simp
qed

lemma dll_split_cases:
  assumes "dll n p h xs" "x \<in> set xs"
  obtains us vs where "xs = us @ x # vs" "n x = first_or vs None" "p x = last_or None us"
    "x \<notin> set us" "x \<notin> set vs"
proof -
  from assms(2) obtain us vs where xs: "xs = us @ x # vs" by (meson split_list)
  with assms(1) show ?thesis
    by (intro that [of us vs]) (auto simp: dll_def)
qed

lemma dll_insert_empty:
  "n x = None \<Longrightarrow> p x = None \<Longrightarrow> dll n p (Some x) [x]"
  by (simp add: dll_def)

lemma dll_insert_front:
  assumes "dll n p h (y # ys)" "x \<notin> set (y # ys)" "p x = None"
  shows "dll (n(x := Some y)) (p(y := Some x)) (Some x) (x # y # ys)"
  using assms by (auto simp: dll_def)

lemma dll_insert_last:
  assumes "dll n p h us" "us \<noteq> []" "x \<notin> set us" "n x = None"
  shows "dll (n(last us := Some x)) (p(x := Some (last us))) h (us @ [x])"
proof -
  from assms(2) obtain us' u where us: "us = us' @ [u]" by (metis rev_exhaust)
  with assms show ?thesis by (auto simp: dll_def)
qed

lemma dll_insert_middle:
  assumes "dll n p h (us @ v # vs)" "us \<noteq> []" "x \<notin> set (us @ v # vs)"
  shows "dll ((n(x := Some v))(last us := Some x)) ((p(x := Some (last us)))(v := Some x)) h
           (us @ x # v # vs)"
proof -
  from assms(2) obtain us' u where us: "us = us' @ [u]" by (metis rev_exhaust)
  with assms show ?thesis by (auto simp: dll_def)
qed

lemma dll_remove_front:
  assumes "dll n p h (x # y # ys)"
  shows "dll (n(x := None)) (p(y := None)) (Some y) (y # ys)"
  using assms by (auto simp: dll_def)

lemma dll_remove_last:
  assumes "dll n p h (us @ [k, x])"
  shows "dll (n(k := None)) (p(x := None)) h (us @ [k])"
  using assms by (auto simp: dll_def)

lemma dll_remove_middle:
  assumes "dll n p h (us @ k # x # j # vs)"
  shows "dll ((n(k := Some j))(x := None)) ((p(j := Some k))(x := None)) h (us @ k # j # vs)"
  using assms by (auto simp: dll_def)

text \<open>Following at most \<open>k\<close> next links: the list as the program can walk it.\<close>

fun chain :: "nat \<Rightarrow> (nat \<Rightarrow> ptr) \<Rightarrow> ptr \<Rightarrow> nat list" where
  "chain 0 n h = []"
| "chain (Suc k) n None = []"
| "chain (Suc k) n (Some x) = x # chain k n (n x)"

lemma chain_None [simp]: "chain k n None = []"
  by (cases k) auto

lemma chain_dlseg:
  "dlseg n p a xs None \<Longrightarrow> length xs \<le> k \<Longrightarrow> chain k n (first_or xs None) = xs"
proof (induction xs arbitrary: a k)
  case (Cons x xs)
  then show ?case by (cases k) auto
qed simp

lemma chain_dll: "dll n p h xs \<Longrightarrow> length xs \<le> k \<Longrightarrow> chain k n h = xs"
  by (auto simp: dll_def intro: chain_dlseg)

lemma length_bounded:
  "distinct xs \<Longrightarrow> set xs \<subseteq> {..<m} \<Longrightarrow> length xs \<le> (m::nat)"
  by (metis card_lessThan card_mono distinct_card finite_lessThan)

lemma filter_key_absent:
  "i \<notin> fst ` set xs \<Longrightarrow> filter (\<lambda>(x, _). x \<noteq> i) xs = xs"
  by (induction xs) auto

section \<open>Ordered insertion\<close>

text \<open>
  Insertion into a list ordered by a key, after the elements with an equal key:
  what the kernel's ready list and its priority-sorted waiting lists promise.
\<close>

fun insert_by :: "('a \<Rightarrow> 'k::linorder) \<Rightarrow> 'a \<Rightarrow> 'a list \<Rightarrow> 'a list" where
  "insert_by k x [] = [x]"
| "insert_by k x (y # ys) = (if k x < k y then x # y # ys else y # insert_by k x ys)"

lemma set_insert_by [simp]: "set (insert_by k x xs) = insert x (set xs)"
  by (induction xs) auto

lemma length_insert_by [simp]: "length (insert_by k x xs) = Suc (length xs)"
  by (induction xs) auto

lemma distinct_insert_by [simp]:
  "distinct (insert_by k x xs) \<longleftrightarrow> x \<notin> set xs \<and> distinct xs"
  by (induction xs) auto

lemma sorted_insert_by:
  "sorted (map k xs) \<Longrightarrow> sorted (map k (insert_by k x xs))"
  by (induction xs) auto

lemma insert_by_append:
  "\<forall>y \<in> set us. k y \<le> k x \<Longrightarrow> insert_by k x (us @ vs) = us @ insert_by k x vs"
  by (induction us) auto

lemma insert_by_all_le:
  "\<forall>y \<in> set xs. k y \<le> k x \<Longrightarrow> insert_by k x xs = xs @ [x]"
  using insert_by_append [of xs k x "[]"] by simp

lemma insert_by_cong:
  "k x = k' x \<Longrightarrow> (\<And>y. y \<in> set xs \<Longrightarrow> k y = k' y) \<Longrightarrow> insert_by k x xs = insert_by k' x xs"
  by (induction xs) auto

lemma insert_by_hd_le:
  "sorted (map k xs) \<Longrightarrow> y \<in> set (insert_by k x xs) \<Longrightarrow> k (hd (insert_by k x xs)) \<le> k y"
  by (cases xs) (auto dest: less_imp_le order.strict_trans1 order.strict_implies_order
      intro: order.trans less_imp_le split: if_splits)

text \<open>
  The search loop of the kernel's priority-ordered lists: from a cell and its
  successor, move on while the successor's key is not greater. The first argument
  bounds the number of rounds; a list that outlasts it does not end.
\<close>

fun scan_prio :: "nat \<Rightarrow> (nat \<Rightarrow> ptr) \<Rightarrow> (nat \<Rightarrow> U8) \<Rightarrow> U8 \<Rightarrow> nat \<Rightarrow> ptr \<Rightarrow> (nat \<times> ptr) option" where
  "scan_prio 0 n key pr cur nxt = None"
| "scan_prio (Suc k) n key pr cur nxt =
     (case nxt of None \<Rightarrow> Some (cur, None)
      | Some j \<Rightarrow> if pr < key j then Some (cur, Some j) else scan_prio k n key pr j (n j))"

lemma scan_prio_correct:
  "dlseg n p a (x # ys) None \<Longrightarrow> length ys < k \<Longrightarrow>
   \<exists>us vs. ys = us @ vs \<and> (\<forall>y \<in> set us. \<not> pr < key y) \<and> (vs \<noteq> [] \<longrightarrow> pr < key (hd vs))
     \<and> scan_prio k n key pr x (n x) = Some (last (x # us), first_or vs None)"
proof (induction k arbitrary: a x ys)
  case (Suc k)
  show ?case
  proof (cases ys)
    case Nil
    with Suc.prems show ?thesis by simp
  next
    case (Cons y zs)
    with Suc.prems have nx: "n x = Some y" by simp
    show ?thesis
    proof (cases "pr < key y")
      case True
      with Cons nx show ?thesis
        by (intro exI [of _ "[]"] exI [of _ ys]) simp
    next
      case False
      from Suc.prems Cons have "dlseg n p (Some x) (y # zs) None" "length zs < k" by auto
      from Suc.IH [OF this] obtain us vs where IH: "zs = us @ vs"
        "\<forall>y \<in> set us. \<not> pr < key y" "vs \<noteq> [] \<longrightarrow> pr < key (hd vs)"
        "scan_prio k n key pr y (n y) = Some (last (y # us), first_or vs None)"
        by blast
      with Cons nx False show ?thesis
        by (intro exI [of _ "y # us"] exI [of _ vs]) simp
    qed
  qed
qed simp

text \<open>Linking a new cell in at the place found is ordered insertion.\<close>

lemma dll_ordered_insert:
  assumes d: "dll n p h (x # ys)" and new: "i \<notin> set (x # ys)" "n i = None"
    and le: "\<not> key i < key x" and len: "length ys < k"
  shows "\<exists>q nx. scan_prio k n key (key i) x (n x) = Some (q, nx) \<and> q \<in> set (x # ys)
    \<and> (case nx of
         None \<Rightarrow> dll ((n(i := None))(q := Some i)) (p(i := Some q)) h (insert_by key i (x # ys))
       | Some j \<Rightarrow> j \<in> set ys \<and> dll ((n(i := Some j))(q := Some i))
           ((p(i := Some q))(j := Some i)) h (insert_by key i (x # ys)))"
proof -
  have "dlseg n p None (x # ys) None" using d by (simp add: dll_def)
  from scan_prio_correct [OF this len, of "key i" key] obtain us vs where
    S: "ys = us @ vs" "\<forall>y \<in> set us. \<not> key i < key y" "vs \<noteq> [] \<longrightarrow> key i < key (hd vs)"
      "scan_prio k n key (key i) x (n x) = Some (last (x # us), first_or vs None)"
    by auto
  have ins: "insert_by key i (x # ys) = (x # us) @ insert_by key i vs"
    using insert_by_append [of "x # us" key i vs] S(1,2) le by (auto simp: not_less)
  have nn: "n(i := None) = n" using new(2) by auto
  show ?thesis
  proof (cases vs)
    case Nil
    have "dll (n(last (x # us) := Some i)) (p(i := Some (last (x # us)))) h ((x # us) @ [i])"
      using dll_insert_last [of n p h "x # us" i] d S(1) Nil new by simp
    with Nil S ins nn show ?thesis by auto
  next
    case (Cons v ws)
    have "dll ((n(i := Some v))(last (x # us) := Some i))
        ((p(i := Some (last (x # us))))(v := Some i)) h ((x # us) @ i # v # ws)"
      using dll_insert_middle [of n p h "x # us" v ws i] d S(1) Cons new by simp
    with Cons S ins show ?thesis by auto
  qed
qed

text \<open>The walk to the last cell of a list.\<close>

fun scan_last :: "nat \<Rightarrow> (nat \<Rightarrow> ptr) \<Rightarrow> nat \<Rightarrow> nat option" where
  "scan_last 0 n x = None"
| "scan_last (Suc k) n x = (case n x of None \<Rightarrow> Some x | Some y \<Rightarrow> scan_last k n y)"

lemma scan_last_correct:
  "dlseg n p a (x # ys) None \<Longrightarrow> length ys < k \<Longrightarrow> scan_last k n x = Some (last (x # ys))"
proof (induction k arbitrary: a x ys)
  case (Suc k)
  then show ?case by (cases ys) auto
qed simp

end
