(* ===== verification/CoOS_State.thy ===== *)
theory CoOS_State
  imports Prelude
begin

text \<open>
  The data of the CoOS kernel: task, event, mutex, flag, queue and timer
  control blocks (\<open>OsTask.h\<close>, \<open>OsEvent.h\<close>, \<open>OsMutex.h\<close>, \<open>OsFlag.h\<close>,
  \<open>OsQueue.h\<close>, \<open>OsTimer.h\<close>, \<open>OsServiceReq.h\<close>) and one record holding the kernel's
  global variables. Pointers to control blocks are indices into their table.
  A table is a total function; the cells at and above the table's size stand for
  the memory behind it, so that an out-of-range index is visible as such.
\<close>

section \<open>Configuration (OsConfig.h)\<close>

definition CFG_LOWEST_PRIO :: U8 where "CFG_LOWEST_PRIO = 64"
definition CFG_MAX_USER_TASKS :: nat where "CFG_MAX_USER_TASKS = 5"
definition SYS_TASK_NUM :: nat where "SYS_TASK_NUM = 1"
definition CFG_SYSTICK_FREQ :: nat where "CFG_SYSTICK_FREQ = 100"
definition CFG_MAX_SERVICE_REQUEST :: nat where "CFG_MAX_SERVICE_REQUEST = 5"
definition CFG_TIME_SLICE :: U16 where "CFG_TIME_SLICE = 10"
definition CFG_MAX_EVENT :: nat where "CFG_MAX_EVENT = 20"
definition CFG_MAX_QUEUE :: nat where "CFG_MAX_QUEUE = 2"
definition CFG_MAX_TMR :: nat where "CFG_MAX_TMR = 2"
definition CFG_MAX_MUTEX :: nat where "CFG_MAX_MUTEX = 10"
definition CFG_MAX_MM :: nat where "CFG_MAX_MM = 2"
definition FLAG_MAX_NUM :: nat where "FLAG_MAX_NUM = 32"

abbreviation TASK_NUM :: nat where
  "TASK_NUM \<equiv> CFG_MAX_USER_TASKS + SYS_TASK_NUM"

lemmas cfg_defs = CFG_LOWEST_PRIO_def CFG_MAX_USER_TASKS_def SYS_TASK_NUM_def
  CFG_SYSTICK_FREQ_def CFG_MAX_SERVICE_REQUEST_def CFG_TIME_SLICE_def CFG_MAX_EVENT_def
  CFG_MAX_QUEUE_def CFG_MAX_TMR_def CFG_MAX_MUTEX_def CFG_MAX_MM_def FLAG_MAX_NUM_def

lemma TASK_NUM_eq: "TASK_NUM = 6"
  by (simp add: cfg_defs)

section \<open>Status codes and other constants\<close>

abbreviation (input) E_CREATE_FAIL :: U8 where "E_CREATE_FAIL \<equiv> 255"
abbreviation (input) E_OK :: U8 where "E_OK \<equiv> 0"
abbreviation (input) E_INVALID_ID :: U8 where "E_INVALID_ID \<equiv> 1"
abbreviation (input) E_INVALID_PARAMETER :: U8 where "E_INVALID_PARAMETER \<equiv> 2"
abbreviation (input) E_CALL :: U8 where "E_CALL \<equiv> 3"
abbreviation (input) E_TASK_WAITING :: U8 where "E_TASK_WAITING \<equiv> 4"
abbreviation (input) E_TIMEOUT :: U8 where "E_TIMEOUT \<equiv> 5"
abbreviation (input) E_SEM_FULL :: U8 where "E_SEM_FULL \<equiv> 6"
abbreviation (input) E_MBOX_FULL :: U8 where "E_MBOX_FULL \<equiv> 7"
abbreviation (input) E_QUEUE_FULL :: U8 where "E_QUEUE_FULL \<equiv> 8"
abbreviation (input) E_SEM_EMPTY :: U8 where "E_SEM_EMPTY \<equiv> 9"
abbreviation (input) E_MBOX_EMPTY :: U8 where "E_MBOX_EMPTY \<equiv> 10"
abbreviation (input) E_QUEUE_EMPTY :: U8 where "E_QUEUE_EMPTY \<equiv> 11"
abbreviation (input) E_FLAG_NOT_READY :: U8 where "E_FLAG_NOT_READY \<equiv> 12"
abbreviation (input) E_ALREADY_IN_WAITING :: U8 where "E_ALREADY_IN_WAITING \<equiv> 13"
abbreviation (input) E_TASK_NOT_WAITING :: U8 where "E_TASK_NOT_WAITING \<equiv> 14"
abbreviation (input) E_TASK_WAIT_OTHER :: U8 where "E_TASK_WAIT_OTHER \<equiv> 15"
abbreviation (input) E_NOT_IN_DELAY_LIST :: U8 where "E_NOT_IN_DELAY_LIST \<equiv> 17"
abbreviation (input) E_SEV_REQ_FULL :: U8 where "E_SEV_REQ_FULL \<equiv> 18"
abbreviation (input) E_PROTECTED_TASK :: U8 where "E_PROTECTED_TASK \<equiv> 20"
abbreviation (input) E_OS_IN_LOCK :: U8 where "E_OS_IN_LOCK \<equiv> 21"

abbreviation (input) INVALID_ID :: U8 where "INVALID_ID \<equiv> 255"
abbreviation (input) INVALID_VALUE :: U32 where "INVALID_VALUE \<equiv> 0xffffffff"
abbreviation (input) MAGIC_WORD :: U32 where "MAGIC_WORD \<equiv> 0x5a5aa5a5"

abbreviation (input) OPT_WAIT_ALL :: U8 where "OPT_WAIT_ALL \<equiv> 0"
abbreviation (input) OPT_WAIT_ANY :: U8 where "OPT_WAIT_ANY \<equiv> 1"
abbreviation (input) OPT_WAIT_ONE :: U8 where "OPT_WAIT_ONE \<equiv> 2"
abbreviation (input) OPT_DEL_NO_PEND :: U8 where "OPT_DEL_NO_PEND \<equiv> 0"
abbreviation (input) OPT_DEL_ANYWAY :: U8 where "OPT_DEL_ANYWAY \<equiv> 1"
abbreviation (input) EVENT_SORT_TYPE_FIFO :: U8 where "EVENT_SORT_TYPE_FIFO \<equiv> 1"
abbreviation (input) EVENT_SORT_TYPE_PRIO :: U8 where "EVENT_SORT_TYPE_PRIO \<equiv> 2"

section \<open>Control blocks\<close>

datatype task_state = TASK_READY | TASK_RUNNING | TASK_WAITING | TASK_DORMANT

text \<open>
  \<open>pnode\<close> is null, the flag node in the stack frame of the blocked call, or the
  marker \<open>0xffffffff\<close> that tells a resumed task that its flag was set.
\<close>

datatype pnode_ptr = PnodeNull | PnodeAt nat | PnodeWoken

record tcb =
  stkPtr :: U32
  prio :: U8
  state :: task_state
  taskID :: U8
  mutexID :: U8
  eventID :: U8
  timeSlice :: U16
  stack :: U32
  pmail :: U32
  waitNext :: ptr
  waitPrev :: ptr
  pnode :: pnode_ptr
  delayTick :: U32
  TCBnext :: ptr
  TCBprev :: ptr

datatype event_type =
  EVENT_TYPE_SEM | EVENT_TYPE_MBOX | EVENT_TYPE_QUEUE | EVENT_TYPE_INVALID

text \<open>
  \<open>eventPtr\<close> is a link of the free list, the mail of a mailbox or the control
  block of a queue, according to the event type.
\<close>

datatype event_ptr = EvNull | EvFree nat | EvMail U32 | EvQueue nat

record ecb =
  eventPtr :: event_ptr
  ecb_id :: U8
  eventType :: event_type
  eventSortType :: U8
  eventCounter :: U16
  initialEventCounter :: U16
  eventTCBList :: ptr

datatype mutex_flag = MUTEX_FREE | MUTEX_OCCUPY

record mutex =
  originalPrio :: U8
  mutexFlag :: mutex_flag
  mtx_taskID :: U8
  hipriTaskID :: U8
  waittingList :: ptr

record flag_node =
  nextNode :: ptr
  prevNode :: ptr
  waitFlags :: U32
  waitTask :: nat
  waitType :: U8

record fcb =
  flagRdy :: U32
  resetOpt :: U32
  flagActive :: U32
  headNode :: ptr
  tailNode :: ptr

record qcb =
  qStart :: U32
  qcb_id :: U8
  q_head :: U16
  q_tail :: U16
  qMaxSize :: U16
  qSize :: U16

datatype tmr_type = TMR_TYPE_ONE_SHOT | TMR_TYPE_PERIODIC
datatype tmr_state = TMR_STATE_RUNNING | TMR_STATE_STOPPED

record tmrctrl =
  tmrID :: U8
  tmrType :: tmr_type
  tmrState :: tmr_state
  tmrCnt :: U32
  tmrReload :: U32
  tmrCallBack :: U32
  tmrNext :: ptr
  tmrPrev :: ptr

datatype req_type = SEM_REQ | MBOX_REQ | FLAG_REQ | QUEUE_REQ

record sqc =
  sq_type :: req_type
  sq_id :: U8
  sq_arg :: U32

record srq =
  srq_cnt :: U8
  srq_head :: U8
  srq_cell :: "nat \<Rightarrow> sqc"

section \<open>The kernel's global state\<close>

text \<open>
  Beside the C globals: \<open>NullTCB\<close> is what a read through a null task pointer finds
  at address 0 (the flash vector table, readable on the LPC17xx), \<open>Mem\<close> is the
  word-addressed memory behind user pointers, \<open>PendSV\<close> is the pending bit of the
  context-switch exception, \<open>fault\<close> records a write through a null pointer and
  \<open>hang\<close> a loop of the kernel that never ends.
\<close>

record kernel =
  TCBTbl :: "nat \<Rightarrow> tcb"
  NullTCB :: tcb
  FreeTCB :: ptr
  TCBRdy :: ptr
  TCBNext :: ptr
  TCBRunning :: ptr
  OSCheckTime :: U64
  OSTickCnt :: U64
  OSIntNesting :: U8
  OSSchedLock :: U8
  TaskSchedReq :: bool
  DlyList :: ptr
  EventTbl :: "nat \<Rightarrow> ecb"
  FreeEventList :: ptr
  MutexTbl :: "nat \<Rightarrow> mutex"
  MutexFreeID :: U8
  FlagCrl :: fcb
  FlagNodes :: "nat \<Rightarrow> flag_node"
  QueueTbl :: "nat \<Rightarrow> qcb"
  QueueIDVessel :: U32
  TmrTbl :: "nat \<Rightarrow> tmrctrl"
  TmrList :: ptr
  TmrIDVessel :: U32
  ServiceReq :: srq
  IsrReq :: bool
  TimeReq :: bool
  TimerReq :: bool
  Mem :: "U32 \<Rightarrow> U32"
  PendSV :: bool
  fault :: bool
  hang :: bool

text \<open>The static initial values: everything zero (\<open>TASK_READY\<close>, \<open>TMR_STATE_RUNNING\<close> and so on are 0).\<close>

definition tcb0 :: tcb where
  "tcb0 = \<lparr>stkPtr = 0, prio = 0, state = TASK_READY, taskID = 0, mutexID = 0, eventID = 0,
     timeSlice = 0, stack = 0, pmail = 0, waitNext = None, waitPrev = None, pnode = PnodeNull,
     delayTick = 0, TCBnext = None, TCBprev = None\<rparr>"

definition ecb0 :: ecb where
  "ecb0 = \<lparr>eventPtr = EvNull, ecb_id = 0, eventType = EVENT_TYPE_INVALID, eventSortType = 0,
     eventCounter = 0, initialEventCounter = 0, eventTCBList = None\<rparr>"

definition mutex0 :: mutex where
  "mutex0 = \<lparr>originalPrio = 0, mutexFlag = MUTEX_FREE, mtx_taskID = 0, hipriTaskID = 0, waittingList = None\<rparr>"

definition kernel0 :: kernel where
  "kernel0 = \<lparr>TCBTbl = (\<lambda>_. tcb0), NullTCB = tcb0, FreeTCB = None, TCBRdy = None, TCBNext = None,
     TCBRunning = None, OSCheckTime = 0, OSTickCnt = 0, OSIntNesting = 0, OSSchedLock = 0,
     TaskSchedReq = False, DlyList = None, EventTbl = (\<lambda>_. ecb0), FreeEventList = None,
     MutexTbl = (\<lambda>_. mutex0), MutexFreeID = 0,
     FlagCrl = \<lparr>flagRdy = 0, resetOpt = 0, flagActive = 0, headNode = None, tailNode = None\<rparr>,
     FlagNodes = (\<lambda>_. \<lparr>nextNode = None, prevNode = None, waitFlags = 0, waitTask = 0, waitType = 0\<rparr>),
     QueueTbl = (\<lambda>_. \<lparr>qStart = 0, qcb_id = 0, q_head = 0, q_tail = 0, qMaxSize = 0, qSize = 0\<rparr>),
     QueueIDVessel = 0,
     TmrTbl = (\<lambda>_. \<lparr>tmrID = 0, tmrType = TMR_TYPE_ONE_SHOT, tmrState = TMR_STATE_RUNNING, tmrCnt = 0,
       tmrReload = 0, tmrCallBack = 0, tmrNext = None, tmrPrev = None\<rparr>),
     TmrList = None, TmrIDVessel = 0,
     ServiceReq = \<lparr>srq_cnt = 0, srq_head = 0,
       srq_cell = (\<lambda>_. \<lparr>sq_type = SEM_REQ, sq_id = 0, sq_arg = 0\<rparr>)\<rparr>,
     IsrReq = False, TimeReq = False, TimerReq = False, Mem = (\<lambda>_. 0), PendSV = False,
     fault = False, hang = False\<rparr>"

section \<open>Access through pointers\<close>

definition tcb_at :: "kernel \<Rightarrow> ptr \<Rightarrow> tcb" where
  "tcb_at s p = (case p of None \<Rightarrow> NullTCB s | Some i \<Rightarrow> TCBTbl s i)"

definition upd :: "nat \<Rightarrow> (tcb \<Rightarrow> tcb) \<Rightarrow> kernel \<Rightarrow> kernel" where
  "upd i f s = TCBTbl_update (\<lambda>t. t(i := f (t i))) s"

definition updp :: "ptr \<Rightarrow> (tcb \<Rightarrow> tcb) \<Rightarrow> kernel \<Rightarrow> kernel" where
  "updp p f s = (case p of None \<Rightarrow> s\<lparr>fault := True\<rparr> | Some i \<Rightarrow> upd i f s)"

definition set_next :: "nat \<Rightarrow> ptr \<Rightarrow> kernel \<Rightarrow> kernel" where
  "set_next i v = upd i (TCBnext_update (\<lambda>_. v))"

definition set_prev :: "nat \<Rightarrow> ptr \<Rightarrow> kernel \<Rightarrow> kernel" where
  "set_prev i v = upd i (TCBprev_update (\<lambda>_. v))"

definition set_state :: "nat \<Rightarrow> task_state \<Rightarrow> kernel \<Rightarrow> kernel" where
  "set_state i v = upd i (state_update (\<lambda>_. v))"

definition upd_ecb :: "nat \<Rightarrow> (ecb \<Rightarrow> ecb) \<Rightarrow> kernel \<Rightarrow> kernel" where
  "upd_ecb e f s = EventTbl_update (\<lambda>t. t(e := f (t e))) s"

lemmas access_defs = tcb_at_def upd_def updp_def set_next_def set_prev_def set_state_def
  upd_ecb_def

text \<open>The links of the task table as functions, and how updates change them.\<close>

definition tnext :: "kernel \<Rightarrow> nat \<Rightarrow> ptr" where "tnext s i = TCBnext (TCBTbl s i)"
definition tprev :: "kernel \<Rightarrow> nat \<Rightarrow> ptr" where "tprev s i = TCBprev (TCBTbl s i)"
definition wnext :: "kernel \<Rightarrow> nat \<Rightarrow> ptr" where "wnext s i = waitNext (TCBTbl s i)"
definition wprev :: "kernel \<Rightarrow> nat \<Rightarrow> ptr" where "wprev s i = waitPrev (TCBTbl s i)"

lemmas link_defs = tnext_def tprev_def wnext_def wprev_def

lemma link_upd [link_simps]:
  "tnext (upd i f s) = (tnext s)(i := TCBnext (f (TCBTbl s i)))"
  "tprev (upd i f s) = (tprev s)(i := TCBprev (f (TCBTbl s i)))"
  "wnext (upd i f s) = (wnext s)(i := waitNext (f (TCBTbl s i)))"
  "wprev (upd i f s) = (wprev s)(i := waitPrev (f (TCBTbl s i)))"
  by (auto simp: link_defs upd_def)

lemma link_upd_same [simp]:
  "(\<And>t. TCBnext (f t) = TCBnext t) \<Longrightarrow> tnext (upd i f s) = tnext s"
  "(\<And>t. TCBprev (f t) = TCBprev t) \<Longrightarrow> tprev (upd i f s) = tprev s"
  "(\<And>t. waitNext (f t) = waitNext t) \<Longrightarrow> wnext (upd i f s) = wnext s"
  "(\<And>t. waitPrev (f t) = waitPrev t) \<Longrightarrow> wprev (upd i f s) = wprev s"
  by (auto simp: link_defs upd_def)

lemma link_upd_field [simp]:
  "tnext (upd i (TCBnext_update g) s) = (tnext s)(i := g (TCBnext (TCBTbl s i)))"
  "tprev (upd i (TCBprev_update g) s) = (tprev s)(i := g (TCBprev (TCBTbl s i)))"
  "wnext (upd i (waitNext_update g) s) = (wnext s)(i := g (waitNext (TCBTbl s i)))"
  "wprev (upd i (waitPrev_update g) s) = (wprev s)(i := g (waitPrev (TCBTbl s i)))"
  by (auto simp: link_defs upd_def)

lemma link_triv [simp]:
  "(tnext s)(i := TCBnext (TCBTbl s i)) = tnext s" "(tprev s)(i := TCBprev (TCBTbl s i)) = tprev s"
  "(wnext s)(i := waitNext (TCBTbl s i)) = wnext s" "(wprev s)(i := waitPrev (TCBTbl s i)) = wprev s"
  by (auto simp: link_defs)

lemma link_cong:
  "TCBTbl s = TCBTbl t \<Longrightarrow> tnext s = tnext t" "TCBTbl s = TCBTbl t \<Longrightarrow> tprev s = tprev t"
  "TCBTbl s = TCBTbl t \<Longrightarrow> wnext s = wnext t" "TCBTbl s = TCBTbl t \<Longrightarrow> wprev s = wprev t"
  by (auto simp: link_defs)

lemma links_other [simp]:
  "tnext (set_state i v s) = tnext s" "tprev (set_state i v s) = tprev s"
  "wnext (set_state i v s) = wnext s" "wprev (set_state i v s) = wprev s"
  "tnext (set_next i w s) = (tnext s)(i := w)" "tprev (set_next i w s) = tprev s"
  "tnext (set_prev i w s) = tnext s" "tprev (set_prev i w s) = (tprev s)(i := w)"
  "wnext (set_next i w s) = wnext s" "wprev (set_next i w s) = wprev s"
  "wnext (set_prev i w s) = wnext s" "wprev (set_prev i w s) = wprev s"
  by (auto simp: set_next_def set_prev_def set_state_def)

text \<open>A task control block without its list links.\<close>

definition strip :: "tcb \<Rightarrow> tcb" where
  "strip t = t\<lparr>TCBnext := None, TCBprev := None\<rparr>"

lemma strip_links [simp]:
  "strip (TCBTbl (set_next i v s) j) = strip (TCBTbl s j)"
  "strip (TCBTbl (set_prev i v s) j) = strip (TCBTbl s j)"
  by (auto simp: strip_def access_defs)

lemma strip_fields:
  assumes "strip t = strip t'"
  shows "prio t = prio t'" "state t = state t'" "taskID t = taskID t'" "mutexID t = mutexID t'"
    "eventID t = eventID t'" "timeSlice t = timeSlice t'" "stack t = stack t'"
    "stkPtr t = stkPtr t'" "pmail t = pmail t'" "waitNext t = waitNext t'"
    "waitPrev t = waitPrev t'" "pnode t = pnode t'" "delayTick t = delayTick t'"
proof -
  from assms show "prio t = prio t'" "state t = state t'" "taskID t = taskID t'" "mutexID t = mutexID t'"
    "eventID t = eventID t'" "timeSlice t = timeSlice t'" "stack t = stack t'"
    "stkPtr t = stkPtr t'" "pmail t = pmail t'" "waitNext t = waitNext t'"
    "waitPrev t = waitPrev t'" "pnode t = pnode t'" "delayTick t = delayTick t'"
    by (cases t; cases t'; simp add: strip_def)+
qed

text \<open>The other fields of the kernel do not touch the links.\<close>

lemma tnext_frame [simp]:
  "tnext (NullTCB_update f0 s) = tnext s" "tnext (FreeTCB_update f1 s) = tnext s"
  "tnext (TCBRdy_update f2 s) = tnext s" "tnext (TCBNext_update f3 s) = tnext s"
  "tnext (TCBRunning_update f4 s) = tnext s" "tnext (OSCheckTime_update f5 s) = tnext s"
  "tnext (OSTickCnt_update f6 s) = tnext s" "tnext (OSIntNesting_update f7 s) = tnext s"
  "tnext (OSSchedLock_update f8 s) = tnext s" "tnext (TaskSchedReq_update f9 s) = tnext s"
  "tnext (DlyList_update f10 s) = tnext s" "tnext (EventTbl_update f11 s) = tnext s"
  "tnext (FreeEventList_update f12 s) = tnext s" "tnext (MutexTbl_update f13 s) = tnext s"
  "tnext (MutexFreeID_update f14 s) = tnext s" "tnext (FlagCrl_update f15 s) = tnext s"
  "tnext (FlagNodes_update f16 s) = tnext s" "tnext (QueueTbl_update f17 s) = tnext s"
  "tnext (QueueIDVessel_update f18 s) = tnext s" "tnext (TmrTbl_update f19 s) = tnext s"
  "tnext (TmrList_update f20 s) = tnext s" "tnext (TmrIDVessel_update f21 s) = tnext s"
  "tnext (ServiceReq_update f22 s) = tnext s" "tnext (IsrReq_update f23 s) = tnext s"
  "tnext (TimeReq_update f24 s) = tnext s" "tnext (TimerReq_update f25 s) = tnext s"
  "tnext (Mem_update f26 s) = tnext s" "tnext (PendSV_update f27 s) = tnext s"
  "tnext (fault_update f28 s) = tnext s" "tnext (hang_update f29 s) = tnext s"
  by (simp_all add: tnext_def fun_eq_iff)

lemma tprev_frame [simp]:
  "tprev (NullTCB_update f0 s) = tprev s" "tprev (FreeTCB_update f1 s) = tprev s"
  "tprev (TCBRdy_update f2 s) = tprev s" "tprev (TCBNext_update f3 s) = tprev s"
  "tprev (TCBRunning_update f4 s) = tprev s" "tprev (OSCheckTime_update f5 s) = tprev s"
  "tprev (OSTickCnt_update f6 s) = tprev s" "tprev (OSIntNesting_update f7 s) = tprev s"
  "tprev (OSSchedLock_update f8 s) = tprev s" "tprev (TaskSchedReq_update f9 s) = tprev s"
  "tprev (DlyList_update f10 s) = tprev s" "tprev (EventTbl_update f11 s) = tprev s"
  "tprev (FreeEventList_update f12 s) = tprev s" "tprev (MutexTbl_update f13 s) = tprev s"
  "tprev (MutexFreeID_update f14 s) = tprev s" "tprev (FlagCrl_update f15 s) = tprev s"
  "tprev (FlagNodes_update f16 s) = tprev s" "tprev (QueueTbl_update f17 s) = tprev s"
  "tprev (QueueIDVessel_update f18 s) = tprev s" "tprev (TmrTbl_update f19 s) = tprev s"
  "tprev (TmrList_update f20 s) = tprev s" "tprev (TmrIDVessel_update f21 s) = tprev s"
  "tprev (ServiceReq_update f22 s) = tprev s" "tprev (IsrReq_update f23 s) = tprev s"
  "tprev (TimeReq_update f24 s) = tprev s" "tprev (TimerReq_update f25 s) = tprev s"
  "tprev (Mem_update f26 s) = tprev s" "tprev (PendSV_update f27 s) = tprev s"
  "tprev (fault_update f28 s) = tprev s" "tprev (hang_update f29 s) = tprev s"
  by (simp_all add: tprev_def fun_eq_iff)

lemma wnext_frame [simp]:
  "wnext (NullTCB_update f0 s) = wnext s" "wnext (FreeTCB_update f1 s) = wnext s"
  "wnext (TCBRdy_update f2 s) = wnext s" "wnext (TCBNext_update f3 s) = wnext s"
  "wnext (TCBRunning_update f4 s) = wnext s" "wnext (OSCheckTime_update f5 s) = wnext s"
  "wnext (OSTickCnt_update f6 s) = wnext s" "wnext (OSIntNesting_update f7 s) = wnext s"
  "wnext (OSSchedLock_update f8 s) = wnext s" "wnext (TaskSchedReq_update f9 s) = wnext s"
  "wnext (DlyList_update f10 s) = wnext s" "wnext (EventTbl_update f11 s) = wnext s"
  "wnext (FreeEventList_update f12 s) = wnext s" "wnext (MutexTbl_update f13 s) = wnext s"
  "wnext (MutexFreeID_update f14 s) = wnext s" "wnext (FlagCrl_update f15 s) = wnext s"
  "wnext (FlagNodes_update f16 s) = wnext s" "wnext (QueueTbl_update f17 s) = wnext s"
  "wnext (QueueIDVessel_update f18 s) = wnext s" "wnext (TmrTbl_update f19 s) = wnext s"
  "wnext (TmrList_update f20 s) = wnext s" "wnext (TmrIDVessel_update f21 s) = wnext s"
  "wnext (ServiceReq_update f22 s) = wnext s" "wnext (IsrReq_update f23 s) = wnext s"
  "wnext (TimeReq_update f24 s) = wnext s" "wnext (TimerReq_update f25 s) = wnext s"
  "wnext (Mem_update f26 s) = wnext s" "wnext (PendSV_update f27 s) = wnext s"
  "wnext (fault_update f28 s) = wnext s" "wnext (hang_update f29 s) = wnext s"
  by (simp_all add: wnext_def fun_eq_iff)

lemma wprev_frame [simp]:
  "wprev (NullTCB_update f0 s) = wprev s" "wprev (FreeTCB_update f1 s) = wprev s"
  "wprev (TCBRdy_update f2 s) = wprev s" "wprev (TCBNext_update f3 s) = wprev s"
  "wprev (TCBRunning_update f4 s) = wprev s" "wprev (OSCheckTime_update f5 s) = wprev s"
  "wprev (OSTickCnt_update f6 s) = wprev s" "wprev (OSIntNesting_update f7 s) = wprev s"
  "wprev (OSSchedLock_update f8 s) = wprev s" "wprev (TaskSchedReq_update f9 s) = wprev s"
  "wprev (DlyList_update f10 s) = wprev s" "wprev (EventTbl_update f11 s) = wprev s"
  "wprev (FreeEventList_update f12 s) = wprev s" "wprev (MutexTbl_update f13 s) = wprev s"
  "wprev (MutexFreeID_update f14 s) = wprev s" "wprev (FlagCrl_update f15 s) = wprev s"
  "wprev (FlagNodes_update f16 s) = wprev s" "wprev (QueueTbl_update f17 s) = wprev s"
  "wprev (QueueIDVessel_update f18 s) = wprev s" "wprev (TmrTbl_update f19 s) = wprev s"
  "wprev (TmrList_update f20 s) = wprev s" "wprev (TmrIDVessel_update f21 s) = wprev s"
  "wprev (ServiceReq_update f22 s) = wprev s" "wprev (IsrReq_update f23 s) = wprev s"
  "wprev (TimeReq_update f24 s) = wprev s" "wprev (TimerReq_update f25 s) = wprev s"
  "wprev (Mem_update f26 s) = wprev s" "wprev (PendSV_update f27 s) = wprev s"
  "wprev (fault_update f28 s) = wprev s" "wprev (hang_update f29 s) = wprev s"
  by (simp_all add: wprev_def fun_eq_iff)

text \<open>The setters of task fields leave every other kernel variable alone.\<close>

lemma upd_frame [simp]:
  "NullTCB (upd i f s) = NullTCB s" "FreeTCB (upd i f s) = FreeTCB s"
  "TCBRdy (upd i f s) = TCBRdy s" "TCBNext (upd i f s) = TCBNext s"
  "TCBRunning (upd i f s) = TCBRunning s" "OSCheckTime (upd i f s) = OSCheckTime s"
  "OSTickCnt (upd i f s) = OSTickCnt s" "OSIntNesting (upd i f s) = OSIntNesting s"
  "OSSchedLock (upd i f s) = OSSchedLock s" "TaskSchedReq (upd i f s) = TaskSchedReq s"
  "DlyList (upd i f s) = DlyList s" "EventTbl (upd i f s) = EventTbl s"
  "FreeEventList (upd i f s) = FreeEventList s" "MutexTbl (upd i f s) = MutexTbl s"
  "MutexFreeID (upd i f s) = MutexFreeID s" "FlagCrl (upd i f s) = FlagCrl s"
  "FlagNodes (upd i f s) = FlagNodes s" "QueueTbl (upd i f s) = QueueTbl s"
  "QueueIDVessel (upd i f s) = QueueIDVessel s" "TmrTbl (upd i f s) = TmrTbl s"
  "TmrList (upd i f s) = TmrList s" "TmrIDVessel (upd i f s) = TmrIDVessel s"
  "ServiceReq (upd i f s) = ServiceReq s" "IsrReq (upd i f s) = IsrReq s"
  "TimeReq (upd i f s) = TimeReq s" "TimerReq (upd i f s) = TimerReq s" "Mem (upd i f s) = Mem s"
  "PendSV (upd i f s) = PendSV s" "fault (upd i f s) = fault s" "hang (upd i f s) = hang s"
  by (simp_all add: upd_def)

lemma set_next_frame [simp]:
  "NullTCB (set_next i v s) = NullTCB s" "FreeTCB (set_next i v s) = FreeTCB s"
  "TCBRdy (set_next i v s) = TCBRdy s" "TCBNext (set_next i v s) = TCBNext s"
  "TCBRunning (set_next i v s) = TCBRunning s" "OSCheckTime (set_next i v s) = OSCheckTime s"
  "OSTickCnt (set_next i v s) = OSTickCnt s" "OSIntNesting (set_next i v s) = OSIntNesting s"
  "OSSchedLock (set_next i v s) = OSSchedLock s" "TaskSchedReq (set_next i v s) = TaskSchedReq s"
  "DlyList (set_next i v s) = DlyList s" "EventTbl (set_next i v s) = EventTbl s"
  "FreeEventList (set_next i v s) = FreeEventList s" "MutexTbl (set_next i v s) = MutexTbl s"
  "MutexFreeID (set_next i v s) = MutexFreeID s" "FlagCrl (set_next i v s) = FlagCrl s"
  "FlagNodes (set_next i v s) = FlagNodes s" "QueueTbl (set_next i v s) = QueueTbl s"
  "QueueIDVessel (set_next i v s) = QueueIDVessel s" "TmrTbl (set_next i v s) = TmrTbl s"
  "TmrList (set_next i v s) = TmrList s" "TmrIDVessel (set_next i v s) = TmrIDVessel s"
  "ServiceReq (set_next i v s) = ServiceReq s" "IsrReq (set_next i v s) = IsrReq s"
  "TimeReq (set_next i v s) = TimeReq s" "TimerReq (set_next i v s) = TimerReq s"
  "Mem (set_next i v s) = Mem s" "PendSV (set_next i v s) = PendSV s"
  "fault (set_next i v s) = fault s" "hang (set_next i v s) = hang s"
  by (simp_all add: set_next_def)

lemma set_prev_frame [simp]:
  "NullTCB (set_prev i v s) = NullTCB s" "FreeTCB (set_prev i v s) = FreeTCB s"
  "TCBRdy (set_prev i v s) = TCBRdy s" "TCBNext (set_prev i v s) = TCBNext s"
  "TCBRunning (set_prev i v s) = TCBRunning s" "OSCheckTime (set_prev i v s) = OSCheckTime s"
  "OSTickCnt (set_prev i v s) = OSTickCnt s" "OSIntNesting (set_prev i v s) = OSIntNesting s"
  "OSSchedLock (set_prev i v s) = OSSchedLock s" "TaskSchedReq (set_prev i v s) = TaskSchedReq s"
  "DlyList (set_prev i v s) = DlyList s" "EventTbl (set_prev i v s) = EventTbl s"
  "FreeEventList (set_prev i v s) = FreeEventList s" "MutexTbl (set_prev i v s) = MutexTbl s"
  "MutexFreeID (set_prev i v s) = MutexFreeID s" "FlagCrl (set_prev i v s) = FlagCrl s"
  "FlagNodes (set_prev i v s) = FlagNodes s" "QueueTbl (set_prev i v s) = QueueTbl s"
  "QueueIDVessel (set_prev i v s) = QueueIDVessel s" "TmrTbl (set_prev i v s) = TmrTbl s"
  "TmrList (set_prev i v s) = TmrList s" "TmrIDVessel (set_prev i v s) = TmrIDVessel s"
  "ServiceReq (set_prev i v s) = ServiceReq s" "IsrReq (set_prev i v s) = IsrReq s"
  "TimeReq (set_prev i v s) = TimeReq s" "TimerReq (set_prev i v s) = TimerReq s"
  "Mem (set_prev i v s) = Mem s" "PendSV (set_prev i v s) = PendSV s"
  "fault (set_prev i v s) = fault s" "hang (set_prev i v s) = hang s"
  by (simp_all add: set_prev_def)

lemma set_state_frame [simp]:
  "NullTCB (set_state i v s) = NullTCB s" "FreeTCB (set_state i v s) = FreeTCB s"
  "TCBRdy (set_state i v s) = TCBRdy s" "TCBNext (set_state i v s) = TCBNext s"
  "TCBRunning (set_state i v s) = TCBRunning s" "OSCheckTime (set_state i v s) = OSCheckTime s"
  "OSTickCnt (set_state i v s) = OSTickCnt s" "OSIntNesting (set_state i v s) = OSIntNesting s"
  "OSSchedLock (set_state i v s) = OSSchedLock s"
  "TaskSchedReq (set_state i v s) = TaskSchedReq s" "DlyList (set_state i v s) = DlyList s"
  "EventTbl (set_state i v s) = EventTbl s" "FreeEventList (set_state i v s) = FreeEventList s"
  "MutexTbl (set_state i v s) = MutexTbl s" "MutexFreeID (set_state i v s) = MutexFreeID s"
  "FlagCrl (set_state i v s) = FlagCrl s" "FlagNodes (set_state i v s) = FlagNodes s"
  "QueueTbl (set_state i v s) = QueueTbl s" "QueueIDVessel (set_state i v s) = QueueIDVessel s"
  "TmrTbl (set_state i v s) = TmrTbl s" "TmrList (set_state i v s) = TmrList s"
  "TmrIDVessel (set_state i v s) = TmrIDVessel s" "ServiceReq (set_state i v s) = ServiceReq s"
  "IsrReq (set_state i v s) = IsrReq s" "TimeReq (set_state i v s) = TimeReq s"
  "TimerReq (set_state i v s) = TimerReq s" "Mem (set_state i v s) = Mem s"
  "PendSV (set_state i v s) = PendSV s" "fault (set_state i v s) = fault s"
  "hang (set_state i v s) = hang s"
  by (simp_all add: set_state_def)

lemma upd_ecb_frame [simp]:
  "TCBTbl (upd_ecb e f s) = TCBTbl s" "NullTCB (upd_ecb e f s) = NullTCB s"
  "FreeTCB (upd_ecb e f s) = FreeTCB s" "TCBRdy (upd_ecb e f s) = TCBRdy s"
  "TCBNext (upd_ecb e f s) = TCBNext s" "TCBRunning (upd_ecb e f s) = TCBRunning s"
  "OSCheckTime (upd_ecb e f s) = OSCheckTime s" "OSTickCnt (upd_ecb e f s) = OSTickCnt s"
  "OSIntNesting (upd_ecb e f s) = OSIntNesting s" "OSSchedLock (upd_ecb e f s) = OSSchedLock s"
  "TaskSchedReq (upd_ecb e f s) = TaskSchedReq s" "DlyList (upd_ecb e f s) = DlyList s"
  "FreeEventList (upd_ecb e f s) = FreeEventList s" "MutexTbl (upd_ecb e f s) = MutexTbl s"
  "MutexFreeID (upd_ecb e f s) = MutexFreeID s" "FlagCrl (upd_ecb e f s) = FlagCrl s"
  "FlagNodes (upd_ecb e f s) = FlagNodes s" "QueueTbl (upd_ecb e f s) = QueueTbl s"
  "QueueIDVessel (upd_ecb e f s) = QueueIDVessel s" "TmrTbl (upd_ecb e f s) = TmrTbl s"
  "TmrList (upd_ecb e f s) = TmrList s" "TmrIDVessel (upd_ecb e f s) = TmrIDVessel s"
  "ServiceReq (upd_ecb e f s) = ServiceReq s" "IsrReq (upd_ecb e f s) = IsrReq s"
  "TimeReq (upd_ecb e f s) = TimeReq s" "TimerReq (upd_ecb e f s) = TimerReq s"
  "Mem (upd_ecb e f s) = Mem s" "PendSV (upd_ecb e f s) = PendSV s"
  "fault (upd_ecb e f s) = fault s" "hang (upd_ecb e f s) = hang s"
  by (simp_all add: upd_ecb_def)

lemma links_upd_ecb [simp]:
  "tnext (upd_ecb e f s) = tnext s" "tprev (upd_ecb e f s) = tprev s"
  "wnext (upd_ecb e f s) = wnext s" "wprev (upd_ecb e f s) = wprev s"
  by (simp_all add: upd_ecb_def)

lemma TCBTbl_upd [simp]: "TCBTbl (upd i f s) = (TCBTbl s)(i := f (TCBTbl s i))"
  by (simp add: upd_def)

lemma EventTbl_upd_ecb [simp]: "EventTbl (upd_ecb e f s) = (EventTbl s)(e := f (EventTbl s e))"
  by (simp add: upd_ecb_def)

end
