(* ===== verification/Linked_List.thy ===== *)
theory Linked_List
  imports Prelude
begin

text \<open>
  The interface of the kernel's doubly linked lists. Every list of CoOS (ready,
  delay, event waiting, flag waiting, timer) is unlinked by its own copy of the same
  four-way case distinction; \<open>linked_list\<close> states what each branch does to the
  head and the links of the other cells, and shows once that the list loses just
  that cell.
\<close>

locale linked_list =
  fixes nxt :: "'s \<Rightarrow> nat \<Rightarrow> ptr" and prv :: "'s \<Rightarrow> nat \<Rightarrow> ptr" and hdp :: "'s \<Rightarrow> ptr"
    and owner :: "nat \<Rightarrow> 's \<Rightarrow> bool" and rem :: "nat \<Rightarrow> 's \<Rightarrow> 's"
  assumes rem_only: "owner i s \<Longrightarrow> prv s i = None \<Longrightarrow> nxt s i = None \<Longrightarrow> hdp (rem i s) = None
      \<and> (\<forall>x. x \<noteq> i \<longrightarrow> nxt (rem i s) x = nxt s x \<and> prv (rem i s) x = prv s x)"
    and rem_front: "owner i s \<Longrightarrow> prv s i = None \<Longrightarrow> nxt s i = Some j \<Longrightarrow> i \<noteq> j \<Longrightarrow>
      hdp (rem i s) = Some j
      \<and> (\<forall>x. x \<noteq> i \<longrightarrow> nxt (rem i s) x = nxt s x \<and> prv (rem i s) x = ((prv s)(j := None)) x)"
    and rem_last: "owner i s \<Longrightarrow> prv s i = Some k \<Longrightarrow> nxt s i = None \<Longrightarrow> i \<noteq> k \<Longrightarrow>
      hdp (rem i s) = hdp s
      \<and> (\<forall>x. x \<noteq> i \<longrightarrow> nxt (rem i s) x = ((nxt s)(k := None)) x \<and> prv (rem i s) x = prv s x)"
    and rem_middle: "owner i s \<Longrightarrow> prv s i = Some k \<Longrightarrow> nxt s i = Some j \<Longrightarrow>
      i \<noteq> k \<Longrightarrow> i \<noteq> j \<Longrightarrow> k \<noteq> j \<Longrightarrow> hdp (rem i s) = hdp s
      \<and> (\<forall>x. x \<noteq> i \<longrightarrow> nxt (rem i s) x = ((nxt s)(k := Some j)) x
            \<and> prv (rem i s) x = ((prv s)(j := Some k)) x)"
begin

lemma rem_refines:
  assumes d: "dll (nxt s) (prv s) (hdp s) xs" and i: "i \<in> set xs" "owner i s"
  shows "dll (nxt (rem i s)) (prv (rem i s)) (hdp (rem i s)) (remove1 i xs)
    \<and> (\<forall>x. x \<notin> set xs \<longrightarrow> nxt (rem i s) x = nxt s x \<and> prv (rem i s) x = prv s x)"
proof -
  from dll_split_cases [OF d i(1)] obtain us vs where
    S: "xs = us @ i # vs" "nxt s i = first_or vs None" "prv s i = last_or None us"
      "i \<notin> set us" "i \<notin> set vs" .
  have rm: "remove1 i xs = us @ vs" using S by (simp add: remove1_append)
  have dist: "distinct (us @ i # vs)" using d S(1) by (simp add: dll_def)
  show ?thesis
  proof (cases us rule: rev_cases)
    case Nil
    show ?thesis
    proof (cases vs)
      case Nil
      with \<open>us = []\<close> S rm rem_only [of i s] i(2) show ?thesis by simp
    next
      case (Cons j ws)
      have R: "hdp (rem i s) = Some j \<and> (\<forall>x. x \<noteq> i \<longrightarrow> nxt (rem i s) x = nxt s x
          \<and> prv (rem i s) x = ((prv s)(j := None)) x)"
        using rem_front [OF i(2), of j] S Cons \<open>us = []\<close> by simp
      have "dll ((nxt s)(i := None)) ((prv s)(j := None)) (Some j) (j # ws)"
        using dll_remove_front [of "nxt s" "prv s" "hdp s" i j ws] d S(1) Cons \<open>us = []\<close> by simp
      then have "dll (nxt (rem i s)) (prv (rem i s)) (Some j) (j # ws)"
        by (rule dll_frame) (use R dist Cons in auto)
      with R show ?thesis using rm Cons \<open>us = []\<close> S(1) by simp
    qed
  next
    case (snoc us' k)
    show ?thesis
    proof (cases vs)
      case Nil
      have R: "hdp (rem i s) = hdp s \<and> (\<forall>x. x \<noteq> i \<longrightarrow> nxt (rem i s) x = ((nxt s)(k := None)) x
          \<and> prv (rem i s) x = prv s x)"
        using rem_last [OF i(2), of k] S Nil snoc by simp
      have "dll ((nxt s)(k := None)) ((prv s)(i := None)) (hdp s) (us' @ [k])"
        using dll_remove_last [of "nxt s" "prv s" "hdp s" us' k i] d S(1) snoc Nil by simp
      then have "dll (nxt (rem i s)) (prv (rem i s)) (hdp s) (us' @ [k])"
        by (rule dll_frame) (use R dist snoc in auto)
      with R show ?thesis using rm snoc Nil S(1) by simp
    next
      case (Cons j ws)
      have R: "hdp (rem i s) = hdp s \<and> (\<forall>x. x \<noteq> i \<longrightarrow> nxt (rem i s) x = ((nxt s)(k := Some j)) x
          \<and> prv (rem i s) x = ((prv s)(j := Some k)) x)"
        using rem_middle [OF i(2), of k j] S Cons snoc dist by simp
      have "dll ((nxt s)(k := Some j, i := None)) ((prv s)(j := Some k, i := None)) (hdp s) (us' @ k # j # ws)"
        using dll_remove_middle [of "nxt s" "prv s" "hdp s" us' k i j ws] d S(1) Cons snoc by simp
      then have "dll (nxt (rem i s)) (prv (rem i s)) (hdp s) (us' @ k # j # ws)"
        by (rule dll_frame) (use R dist snoc Cons in auto)
      with R show ?thesis using rm snoc Cons S(1) by simp
    qed
  qed
qed

end

end
