(* ===== verification/CoOS_Ready.thy ===== *)
theory CoOS_Ready
  imports CoOS_State Linked_List
begin

text \<open>
  The ready list of \<open>task.c\<close> (order-list scheduling, \<open>CFG_ORDER_LIST_SCHEDULE_EN\<close>
  = 1), the scheduler, and the context switch of \<open>port.c\<close>.
\<close>

section \<open>InsertToTCBRdyList and RemoveFromTCBRdyList\<close>

text \<open>The round-robin deadline set when a task of the running task's priority gets ready.\<close>

definition robin_time :: "nat \<Rightarrow> kernel \<Rightarrow> U64" where
  "robin_time i s =
     (let ptcb = TCBRunning s in
      if prio (TCBTbl s i) = prio (tcb_at s ptcb) \<and> ptcb \<noteq> Some i \<and> ptcb \<noteq> None
         \<and> OSCheckTime s < OSTickCnt s
      then OSTickCnt s + ucast (timeSlice (tcb_at s ptcb))
      else OSCheckTime s)"

definition robin_deadline :: "nat \<Rightarrow> kernel \<Rightarrow> kernel" where
  "robin_deadline i s = s\<lparr>OSCheckTime := robin_time i s\<rparr>"

definition InsertToTCBRdyList :: "nat \<Rightarrow> kernel \<Rightarrow> kernel" where
  "InsertToTCBRdyList i s0 =
     (let pr = prio (TCBTbl s0 i);
          s = robin_deadline i (set_state i TASK_READY s0)
      in case TCBRdy s of
           None \<Rightarrow> s\<lparr>TaskSchedReq := True, TCBRdy := Some i\<rparr>
         | Some h \<Rightarrow>
             if pr < prio (TCBTbl s h) then
               (let s = s\<lparr>TaskSchedReq := True\<rparr>;
                    s = set_next i (Some h) s;
                    s = set_prev h (Some i) s
                in s\<lparr>TCBRdy := Some i\<rparr>)
             else
               (case scan_prio TASK_NUM (tnext s) (\<lambda>j. prio (TCBTbl s j)) pr h (tnext s h) of
                  None \<Rightarrow> s\<lparr>hang := True\<rparr>
                | Some (ptcb, nxt) \<Rightarrow>
                    (let s = set_next i nxt s;
                         s = set_next ptcb (Some i) s;
                         s = set_prev i (Some ptcb) s
                     in case nxt of None \<Rightarrow> s | Some j \<Rightarrow> set_prev j (Some i) s)))"

definition RemoveFromTCBRdyList :: "nat \<Rightarrow> kernel \<Rightarrow> kernel" where
  "RemoveFromTCBRdyList i s =
     (case (TCBprev (TCBTbl s i), TCBnext (TCBTbl s i)) of
        (None, None) \<Rightarrow> s\<lparr>TCBRdy := None\<rparr>
      | (None, Some j) \<Rightarrow>
          (let s = s\<lparr>TCBRdy := Some j\<rparr>;
               s = set_next i None s
           in set_prev j None s)
      | (Some k, None) \<Rightarrow>
          (let s = set_next k None s
           in set_prev i None s)
      | (Some k, Some j) \<Rightarrow>
          (let s = set_next k (Some j) s;
               s = set_prev j (Some k) s;
               s = set_next i None s
           in set_prev i None s))"

section \<open>Schedule and the context switch\<close>

text \<open>\<open>CoStkOverflowHook\<close> (\<open>hook.c\<close>) is an endless loop.\<close>

definition CoStkOverflowHook :: "U8 \<Rightarrow> kernel \<Rightarrow> kernel" where
  "CoStkOverflowHook tid s = s\<lparr>hang := True\<rparr>"

definition SwitchContext :: "kernel \<Rightarrow> kernel" where
  "SwitchContext s = s\<lparr>PendSV := True\<rparr>"

text \<open>
  The exception that performs the switch pushes eight registers below the process
  stack pointer \<open>psp\<close>, saves it in the task it leaves, makes \<open>TCBNext\<close> the running task and unlocks the scheduler.
\<close>

definition PendSV_Handler :: "U32 \<Rightarrow> kernel \<Rightarrow> kernel" where
  "PendSV_Handler psp s =
     (let s = (if TCBRunning s = TCBNext s then s
               else (updp (TCBRunning s) (stkPtr_update (\<lambda>_. psp - 32)) s)\<lparr>TCBRunning := TCBNext s\<rparr>)
      in s\<lparr>OSSchedLock := 0, PendSV := False\<rparr>)"

definition InsertRdyPtr :: "ptr \<Rightarrow> kernel \<Rightarrow> kernel" where
  "InsertRdyPtr p s = (case p of None \<Rightarrow> s\<lparr>fault := True\<rparr> | Some i \<Rightarrow> InsertToTCBRdyList i s)"

text \<open>
  The choice of the next task (\<open>None\<close>: \<open>Schedule\<close> returns without a switch) and the
  work done once a task has been chosen. The comparison \<open>TCBNext->prio == TCBRdy->prio\<close>
  reads through a null pointer when the chosen task was the last ready one.
\<close>

definition sched_choose :: "nat \<Rightarrow> kernel \<Rightarrow> kernel option" where
  "sched_choose rdy s =
     (let cur = TCBRunning s;
          RunPrio = prio (tcb_at s cur);
          RdyPrio = prio (TCBTbl s rdy)
      in if state (tcb_at s cur) \<noteq> TASK_RUNNING then
           Some (RemoveFromTCBRdyList rdy (set_state rdy TASK_RUNNING (s\<lparr>TCBNext := Some rdy\<rparr>)))
         else if RdyPrio < RunPrio \<or> (RunPrio = RdyPrio \<and> OSCheckTime s = OSTickCnt s) then
           Some (set_state rdy TASK_RUNNING
                  (RemoveFromTCBRdyList rdy (InsertRdyPtr cur (s\<lparr>TCBNext := Some rdy\<rparr>))))
         else None)"

definition sched_finish :: "ptr \<Rightarrow> kernel \<Rightarrow> kernel" where
  "sched_finish cur s =
     (let s = s\<lparr>OSCheckTime :=
                  (if prio (tcb_at s (TCBNext s)) = prio (tcb_at s (TCBRdy s))
                   then OSTickCnt s + ucast (timeSlice (tcb_at s (TCBNext s)))
                   else OSCheckTime s)\<rparr>;
          c = tcb_at s cur
      in if stkPtr c < stack c \<or> Mem s (stack c) \<noteq> MAGIC_WORD
         then CoStkOverflowHook (taskID c) s
         else SwitchContext s)"

definition Schedule :: "kernel \<Rightarrow> kernel" where
  "Schedule s =
     (case TCBRdy s of
        None \<Rightarrow> s
      | Some rdy \<Rightarrow>
          if TCBRunning s \<noteq> TCBNext s \<or> OSSchedLock s > 1 \<or> OSIntNesting s > 0 then s
          else
            (let s = s\<lparr>TaskSchedReq := False\<rparr>
             in case sched_choose rdy s of
                  None \<Rightarrow> s
                | Some s' \<Rightarrow> sched_finish (TCBRunning s) s'))"

section \<open>The ready list as a list of task indices\<close>

definition task_prio :: "kernel \<Rightarrow> nat \<Rightarrow> U8" where
  "task_prio s i = prio (TCBTbl s i)"

definition ready_list :: "kernel \<Rightarrow> nat list" where
  "ready_list s = chain TASK_NUM (tnext s) (TCBRdy s)"

definition ready_ok :: "kernel \<Rightarrow> bool" where
  "ready_ok s \<longleftrightarrow> dll (tnext s) (tprev s) (TCBRdy s) (ready_list s)
     \<and> set (ready_list s) \<subseteq> {..<TASK_NUM}
     \<and> sorted (map (task_prio s) (ready_list s))"

text \<open>A task outside every list: its links are null.\<close>

definition unlinked :: "kernel \<Rightarrow> nat \<Rightarrow> bool" where
  "unlinked s i \<longleftrightarrow> tnext s i = None \<and> tprev s i = None"

lemma ready_listI:
  "dll (tnext s) (tprev s) (TCBRdy s) xs \<Longrightarrow> set xs \<subseteq> {..<TASK_NUM} \<Longrightarrow> ready_list s = xs"
  unfolding ready_list_def by (blast intro: chain_dll length_bounded dll_distinct)

lemma ready_okI:
  assumes "dll (tnext s) (tprev s) (TCBRdy s) xs" "set xs \<subseteq> {..<TASK_NUM}"
    "sorted (map (task_prio s) xs)"
  shows "ready_ok s \<and> ready_list s = xs"
  using assms ready_listI [OF assms(1,2)] by (simp add: ready_ok_def)

lemma ready_okD:
  assumes "ready_ok s"
  shows "dll (tnext s) (tprev s) (TCBRdy s) (ready_list s)"
    "set (ready_list s) \<subseteq> {..<TASK_NUM}" "sorted (map (task_prio s) (ready_list s))"
    "distinct (ready_list s)" "TCBRdy s = first_or (ready_list s) None"
  using assms by (auto simp: ready_ok_def dll_def)

lemma InsertToTCBRdyList_frame [simp]:
  "NullTCB (InsertToTCBRdyList i s) = NullTCB s" "FreeTCB (InsertToTCBRdyList i s) = FreeTCB s"
  "TCBNext (InsertToTCBRdyList i s) = TCBNext s"
  "TCBRunning (InsertToTCBRdyList i s) = TCBRunning s"
  "OSTickCnt (InsertToTCBRdyList i s) = OSTickCnt s"
  "OSIntNesting (InsertToTCBRdyList i s) = OSIntNesting s"
  "OSSchedLock (InsertToTCBRdyList i s) = OSSchedLock s"
  "DlyList (InsertToTCBRdyList i s) = DlyList s"
  "EventTbl (InsertToTCBRdyList i s) = EventTbl s"
  "FreeEventList (InsertToTCBRdyList i s) = FreeEventList s"
  "MutexTbl (InsertToTCBRdyList i s) = MutexTbl s"
  "MutexFreeID (InsertToTCBRdyList i s) = MutexFreeID s"
  "FlagCrl (InsertToTCBRdyList i s) = FlagCrl s" "FlagNodes (InsertToTCBRdyList i s) = FlagNodes s"
  "QueueTbl (InsertToTCBRdyList i s) = QueueTbl s"
  "QueueIDVessel (InsertToTCBRdyList i s) = QueueIDVessel s"
  "TmrTbl (InsertToTCBRdyList i s) = TmrTbl s" "TmrList (InsertToTCBRdyList i s) = TmrList s"
  "TmrIDVessel (InsertToTCBRdyList i s) = TmrIDVessel s"
  "ServiceReq (InsertToTCBRdyList i s) = ServiceReq s"
  "IsrReq (InsertToTCBRdyList i s) = IsrReq s" "TimeReq (InsertToTCBRdyList i s) = TimeReq s"
  "TimerReq (InsertToTCBRdyList i s) = TimerReq s" "Mem (InsertToTCBRdyList i s) = Mem s"
  "PendSV (InsertToTCBRdyList i s) = PendSV s" "fault (InsertToTCBRdyList i s) = fault s"
  by (simp_all add: InsertToTCBRdyList_def Let_def robin_deadline_def access_defs
      split: option.split)

lemma TaskSchedReq_Insert:
  "TaskSchedReq (InsertToTCBRdyList i s) \<longleftrightarrow>
     TaskSchedReq s \<or> (case TCBRdy s of None \<Rightarrow> True | Some h \<Rightarrow> prio (TCBTbl s i) < prio (TCBTbl s h))"
proof -
  have "prio (TCBTbl (robin_deadline i (set_state i TASK_READY s)) j) = prio (TCBTbl s j)" for j
    by (simp add: robin_deadline_def set_state_def)
  then show ?thesis
    by (simp add: InsertToTCBRdyList_def Let_def robin_deadline_def split: option.split)
qed

lemma RemoveFromTCBRdyList_frame [simp]:
  "NullTCB (RemoveFromTCBRdyList i s) = NullTCB s"
  "FreeTCB (RemoveFromTCBRdyList i s) = FreeTCB s"
  "TCBNext (RemoveFromTCBRdyList i s) = TCBNext s"
  "TCBRunning (RemoveFromTCBRdyList i s) = TCBRunning s"
  "OSCheckTime (RemoveFromTCBRdyList i s) = OSCheckTime s"
  "OSTickCnt (RemoveFromTCBRdyList i s) = OSTickCnt s"
  "OSIntNesting (RemoveFromTCBRdyList i s) = OSIntNesting s"
  "OSSchedLock (RemoveFromTCBRdyList i s) = OSSchedLock s"
  "TaskSchedReq (RemoveFromTCBRdyList i s) = TaskSchedReq s"
  "DlyList (RemoveFromTCBRdyList i s) = DlyList s"
  "EventTbl (RemoveFromTCBRdyList i s) = EventTbl s"
  "FreeEventList (RemoveFromTCBRdyList i s) = FreeEventList s"
  "MutexTbl (RemoveFromTCBRdyList i s) = MutexTbl s"
  "MutexFreeID (RemoveFromTCBRdyList i s) = MutexFreeID s"
  "FlagCrl (RemoveFromTCBRdyList i s) = FlagCrl s"
  "FlagNodes (RemoveFromTCBRdyList i s) = FlagNodes s"
  "QueueTbl (RemoveFromTCBRdyList i s) = QueueTbl s"
  "QueueIDVessel (RemoveFromTCBRdyList i s) = QueueIDVessel s"
  "TmrTbl (RemoveFromTCBRdyList i s) = TmrTbl s" "TmrList (RemoveFromTCBRdyList i s) = TmrList s"
  "TmrIDVessel (RemoveFromTCBRdyList i s) = TmrIDVessel s"
  "ServiceReq (RemoveFromTCBRdyList i s) = ServiceReq s"
  "IsrReq (RemoveFromTCBRdyList i s) = IsrReq s" "TimeReq (RemoveFromTCBRdyList i s) = TimeReq s"
  "TimerReq (RemoveFromTCBRdyList i s) = TimerReq s" "Mem (RemoveFromTCBRdyList i s) = Mem s"
  "PendSV (RemoveFromTCBRdyList i s) = PendSV s" "fault (RemoveFromTCBRdyList i s) = fault s"
  "hang (RemoveFromTCBRdyList i s) = hang s"
  by (simp_all add: RemoveFromTCBRdyList_def Let_def access_defs split: option.split)

lemma RemoveFromTCBRdyList_eq:
  "RemoveFromTCBRdyList i s =
     s\<lparr>TCBTbl := TCBTbl (RemoveFromTCBRdyList i s), TCBRdy := TCBRdy (RemoveFromTCBRdyList i s)\<rparr>"
  by (simp add: RemoveFromTCBRdyList_def Let_def access_defs split: option.splits)

lemma InsertToTCBRdyList_strip:
  "strip (TCBTbl (InsertToTCBRdyList i s) j) =
     strip (if j = i then (TCBTbl s i)\<lparr>state := TASK_READY\<rparr> else TCBTbl s j)"
proof -
  have "strip (TCBTbl (robin_deadline i (set_state i TASK_READY s)) j) =
     strip (if j = i then (TCBTbl s i)\<lparr>state := TASK_READY\<rparr> else TCBTbl s j)"
    by (simp add: robin_deadline_def access_defs)
  then show ?thesis
    by (cases "j = i") (simp_all add: InsertToTCBRdyList_def Let_def split: option.split)
qed

lemma task_prio_Insert [simp]: "task_prio (InsertToTCBRdyList i s) = task_prio s"
  using strip_fields(1) [OF InsertToTCBRdyList_strip] by (auto simp: task_prio_def)

lemma state_Insert [simp]:
  "state (TCBTbl (InsertToTCBRdyList i s) j) = (if j = i then TASK_READY else state (TCBTbl s j))"
  using strip_fields(2) [OF InsertToTCBRdyList_strip] by auto

lemma RemoveFromTCBRdyList_strip [simp]:
  "strip (TCBTbl (RemoveFromTCBRdyList i s) j) = strip (TCBTbl s j)"
proof -
  have "strip (TCBTbl (TCBRdy_update f t) j) = strip (TCBTbl t j)" for f t by simp
  then show ?thesis
    by (simp add: RemoveFromTCBRdyList_def Let_def split: option.split)
qed

lemma task_prio_Remove [simp]: "task_prio (RemoveFromTCBRdyList i s) = task_prio s"
  using strip_fields(1) [OF RemoveFromTCBRdyList_strip] by (auto simp: task_prio_def)

text \<open>Insertion into the pointer structure is ordered insertion into the list.\<close>

lemma insert_dll:
  assumes ok: "ready_ok s" and new: "i < TASK_NUM" "i \<notin> set (ready_list s)" "unlinked s i"
  defines "s' \<equiv> InsertToTCBRdyList i s"
  shows "dll (tnext s') (tprev s') (TCBRdy s') (insert_by (task_prio s) i (ready_list s))
    \<and> hang s' = hang s
    \<and> (\<forall>j. j \<notin> insert i (set (ready_list s)) \<longrightarrow> tnext s' j = tnext s j \<and> tprev s' j = tprev s j)"
proof -
  define r where "r = robin_deadline i (set_state i TASK_READY s)"
  note okD = ready_okD [OF ok]
  have r: "tnext r = tnext s" "tprev r = tprev s" "TCBRdy r = TCBRdy s" "task_prio r = task_prio s"
    "hang r = hang s"
    by (auto simp: r_def robin_deadline_def task_prio_def access_defs link_defs)
  have p: "prio (TCBTbl r j) = task_prio s j" for j using r(4) by (simp add: task_prio_def fun_eq_iff)
  have pi: "prio (TCBTbl s i) = task_prio s i" by (simp add: task_prio_def)
  note unf = s'_def InsertToTCBRdyList_def Let_def r_def [symmetric] pi
  show ?thesis
  proof (cases "ready_list s")
    case Nil
    with okD(5) new(3) show ?thesis
      by (auto simp: unf r unlinked_def intro: dll_insert_empty)
  next
    case (Cons h ys)
    show ?thesis
    proof (cases "task_prio s i < task_prio s h")
      case True
      have "dll ((tnext s)(i := Some h)) ((tprev s)(h := Some i)) (Some i) (i # h # ys)"
        using dll_insert_front okD(1) Cons new by (simp add: unlinked_def)
      with True Cons okD(5) show ?thesis
        by (simp add: unf r p)
    next
      case False
      have len: "length ys < TASK_NUM"
        using length_bounded [OF okD(4,2)] Cons by simp
      have rdy: "TCBRdy s = Some h" using okD(5) Cons by simp
      have "\<exists>q nx. scan_prio TASK_NUM (tnext s) (task_prio s) (task_prio s i) h (tnext s h) = Some (q, nx)
          \<and> q \<in> set (h # ys) \<and> (case nx of
            None \<Rightarrow> dll (((tnext s)(i := None))(q := Some i)) ((tprev s)(i := Some q)) (Some h)
              (insert_by (task_prio s) i (h # ys))
          | Some j \<Rightarrow> j \<in> set ys \<and> dll (((tnext s)(i := Some j))(q := Some i))
              (((tprev s)(i := Some q))(j := Some i)) (Some h) (insert_by (task_prio s) i (h # ys)))"
        using dll_ordered_insert [of "tnext s" "tprev s" "Some h" h ys i "task_prio s" TASK_NUM]
          okD(1) Cons new False len rdy by (simp add: unlinked_def)
      then obtain q nx where sc: "scan_prio TASK_NUM (tnext s) (task_prio s) (task_prio s i) h (tnext s h)
          = Some (q, nx)" and q: "q \<in> set (h # ys)" and d: "case nx of
            None \<Rightarrow> dll (((tnext s)(i := None))(q := Some i)) ((tprev s)(i := Some q)) (Some h)
              (insert_by (task_prio s) i (h # ys))
          | Some j \<Rightarrow> j \<in> set ys \<and> dll (((tnext s)(i := Some j))(q := Some i))
              (((tprev s)(i := Some q))(j := Some i)) (Some h) (insert_by (task_prio s) i (h # ys))"
        by blast
      have eq: "s' = (let s = set_prev i (Some q) (set_next q (Some i) (set_next i nx r))
          in case nx of None \<Rightarrow> s | Some j \<Rightarrow> set_prev j (Some i) s)"
        using sc False by (simp add: unf r p rdy)
      show ?thesis
        using d q Cons rdy by (cases nx) (auto simp: eq r Let_def)
    qed
  qed
qed

lemma InsertToTCBRdyList_refines:
  assumes "ready_ok s" "i < TASK_NUM" "i \<notin> set (ready_list s)" "unlinked s i"
  shows "ready_ok (InsertToTCBRdyList i s)"
    "ready_list (InsertToTCBRdyList i s) = insert_by (task_prio s) i (ready_list s)"
    "hang (InsertToTCBRdyList i s) = hang s"
    "j \<notin> insert i (set (ready_list s)) \<Longrightarrow>
       tnext (InsertToTCBRdyList i s) j = tnext s j \<and> tprev (InsertToTCBRdyList i s) j = tprev s j"
proof -
  note D = insert_dll [OF assms]
  have "ready_ok (InsertToTCBRdyList i s)
      \<and> ready_list (InsertToTCBRdyList i s) = insert_by (task_prio s) i (ready_list s)"
    using D assms ready_okD [OF assms(1)]
    by (intro ready_okI) (auto intro: sorted_insert_by)
  with D show "ready_ok (InsertToTCBRdyList i s)"
    "ready_list (InsertToTCBRdyList i s) = insert_by (task_prio s) i (ready_list s)"
    "hang (InsertToTCBRdyList i s) = hang s"
    "j \<notin> insert i (set (ready_list s)) \<Longrightarrow>
       tnext (InsertToTCBRdyList i s) j = tnext s j \<and> tprev (InsertToTCBRdyList i s) j = tprev s j"
    by auto
qed

text \<open>Removal from the pointer structure removes the task from the list.\<close>

interpretation rdy: linked_list tnext tprev TCBRdy "\<lambda>_ _. True" RemoveFromTCBRdyList
  by unfold_locales (auto simp: RemoveFromTCBRdyList_def Let_def tnext_def tprev_def access_defs)

lemma RemoveFromTCBRdyList_unlinks:
  assumes "dll (tnext s) (tprev s) (TCBRdy s) xs" "i \<in> set xs"
  shows "unlinked (RemoveFromTCBRdyList i s) i"
proof -
  from dll_split_cases [OF assms] obtain us vs where "i \<notin> set us" "i \<notin> set vs"
    "tnext s i = first_or vs None" "tprev s i = last_or None us" .
  then have "tnext s i \<noteq> Some i" "tprev s i \<noteq> Some i"
    by (auto dest: first_or_Some_in last_or_Some_in)
  then show ?thesis
    by (auto simp: RemoveFromTCBRdyList_def Let_def unlinked_def link_defs access_defs
        split: option.split)
qed

lemma RemoveFromTCBRdyList_refines:
  assumes "ready_ok s" "i \<in> set (ready_list s)"
  shows "ready_ok (RemoveFromTCBRdyList i s)"
    "ready_list (RemoveFromTCBRdyList i s) = remove1 i (ready_list s)"
    "unlinked (RemoveFromTCBRdyList i s) i"
    "j \<notin> set (ready_list s) \<Longrightarrow> tnext (RemoveFromTCBRdyList i s) j = tnext s j
       \<and> tprev (RemoveFromTCBRdyList i s) j = tprev s j"
proof -
  note okD = ready_okD [OF assms(1)]
  note D = rdy.rem_refines [OF okD(1) assms(2) TrueI] RemoveFromTCBRdyList_unlinks [OF okD(1) assms(2)]
  have "ready_ok (RemoveFromTCBRdyList i s)
      \<and> ready_list (RemoveFromTCBRdyList i s) = remove1 i (ready_list s)"
    using D okD set_remove1_subset [of i "ready_list s"]
    by (intro ready_okI) (auto simp: sorted_map_remove1)
  with D show "ready_ok (RemoveFromTCBRdyList i s)"
    "ready_list (RemoveFromTCBRdyList i s) = remove1 i (ready_list s)"
    "unlinked (RemoveFromTCBRdyList i s) i"
    "j \<notin> set (ready_list s) \<Longrightarrow> tnext (RemoveFromTCBRdyList i s) j = tnext s j
       \<and> tprev (RemoveFromTCBRdyList i s) j = tprev s j"
    by auto
qed

section \<open>What the scheduler guarantees\<close>

text \<open>
  Where the scheduler may run: the ready list is well formed and the running task
  is outside it, with null links while it is still runnable.
\<close>

definition sched_pre :: "kernel \<Rightarrow> nat \<Rightarrow> bool" where
  "sched_pre s r \<longleftrightarrow> ready_ok s \<and> TCBRunning s = Some r \<and> TCBNext s = Some r
     \<and> r < TASK_NUM \<and> r \<notin> set (ready_list s)
     \<and> (state (TCBTbl s r) = TASK_RUNNING \<longrightarrow> unlinked s r)"

lemma ready_ok_cong:
  assumes "tnext s = tnext t" "tprev s = tprev t" "TCBRdy s = TCBRdy t" "task_prio s = task_prio t"
  shows "ready_ok s = ready_ok t" "ready_list s = ready_list t"
  using assms by (simp_all add: ready_ok_def ready_list_def)

lemma task_prio_frame [simp]:
  "task_prio (s\<lparr>TaskSchedReq := a\<rparr>) = task_prio s" "task_prio (s\<lparr>TCBNext := b\<rparr>) = task_prio s"
  "task_prio (s\<lparr>OSCheckTime := c\<rparr>) = task_prio s" "task_prio (s\<lparr>PendSV := d\<rparr>) = task_prio s"
  "task_prio (s\<lparr>hang := e\<rparr>) = task_prio s" "task_prio (set_state i v s) = task_prio s"
  "task_prio (upd_ecb n g s) = task_prio s" "task_prio (OSSchedLock_update h s) = task_prio s"
  "(\<And>t. prio (f t) = prio t) \<Longrightarrow> task_prio (upd i f s) = task_prio s"
  by (auto simp: task_prio_def set_state_def)

lemma sched_finish_frame [simp]:
  "TCBTbl (sched_finish c s) = TCBTbl s" "TCBRdy (sched_finish c s) = TCBRdy s"
  "TCBNext (sched_finish c s) = TCBNext s" "TCBRunning (sched_finish c s) = TCBRunning s"
  "TaskSchedReq (sched_finish c s) = TaskSchedReq s"
  "OSSchedLock (sched_finish c s) = OSSchedLock s"
  by (simp_all add: sched_finish_def Let_def CoStkOverflowHook_def SwitchContext_def)

lemma sched_finish_ready [simp]:
  "ready_ok (sched_finish c s) = ready_ok s" "ready_list (sched_finish c s) = ready_list s"
  "task_prio (sched_finish c s) = task_prio s"
proof -
  show p: "task_prio (sched_finish c s) = task_prio s" by (simp add: task_prio_def fun_eq_iff)
  show "ready_ok (sched_finish c s) = ready_ok s" "ready_list (sched_finish c s) = ready_list s"
    by (rule ready_ok_cong; simp add: p link_cong(1,2) [of "sched_finish c s" s])+
qed

lemma ready_hd_least:
  "ready_ok s \<Longrightarrow> ready_list s = x # xs \<Longrightarrow> j \<in> set xs \<Longrightarrow> task_prio s x \<le> task_prio s j"
  using ready_okD(3) [of s] by auto

lemma sched_choose_blocked:
  assumes pre: "sched_pre s r" and xs: "ready_list s = h # xs"
    and st: "state (TCBTbl s r) \<noteq> TASK_RUNNING"
  shows "\<exists>s'. sched_choose h s = Some s' \<and> ready_ok s' \<and> ready_list s' = xs
    \<and> TCBNext s' = Some h \<and> TCBRunning s' = Some r \<and> task_prio s' = task_prio s
    \<and> state (TCBTbl s' h) = TASK_RUNNING \<and> unlinked s' h \<and> TaskSchedReq s' = TaskSchedReq s"
proof -
  define t where "t = set_state h TASK_RUNNING (s\<lparr>TCBNext := Some h\<rparr>)"
  have t: "ready_ok t = ready_ok s" "ready_list t = ready_list s"
    unfolding t_def by (rule ready_ok_cong; simp)+
  have okt: "ready_ok t" using pre t by (simp add: sched_pre_def)
  have h: "h \<in> set (ready_list t)" using xs t by simp
  note R = RemoveFromTCBRdyList_refines [OF okt h]
  have tp: "task_prio t = task_prio s" by (simp add: t_def)
  have sth: "state (TCBTbl (RemoveFromTCBRdyList h t) h) = TASK_RUNNING"
    using strip_fields(2) [OF RemoveFromTCBRdyList_strip, of h t h]
    by (simp add: t_def set_state_def)
  have eq: "sched_choose h s = Some (RemoveFromTCBRdyList h t)"
    using pre st by (simp add: sched_choose_def Let_def tcb_at_def sched_pre_def t_def)
  have fr: "TCBNext (RemoveFromTCBRdyList h t) = TCBNext t"
    "TCBRunning (RemoveFromTCBRdyList h t) = TCBRunning t"
    "TaskSchedReq (RemoveFromTCBRdyList h t) = TaskSchedReq t"
    by (subst RemoveFromTCBRdyList_eq, simp)+
  show ?thesis
    using R eq xs t tp sth fr pre by (auto simp: t_def sched_pre_def)
qed

lemma sched_choose_preempt:
  assumes pre: "sched_pre s r" and xs: "ready_list s = h # xs"
    and st: "state (TCBTbl s r) = TASK_RUNNING"
    and sw: "task_prio s h < task_prio s r
      \<or> (task_prio s r = task_prio s h \<and> OSCheckTime s = OSTickCnt s)"
  shows "\<exists>s'. sched_choose h s = Some s' \<and> ready_ok s'
    \<and> ready_list s' = insert_by (task_prio s) r xs
    \<and> TCBNext s' = Some h \<and> TCBRunning s' = Some r \<and> task_prio s' = task_prio s
    \<and> state (TCBTbl s' h) = TASK_RUNNING \<and> state (TCBTbl s' r) = TASK_READY \<and> unlinked s' h
    \<and> TaskSchedReq s' = TaskSchedReq s"
proof -
  define t where "t = s\<lparr>TCBNext := Some h\<rparr>"
  have t: "ready_ok t = ready_ok s" "ready_list t = ready_list s"
    unfolding t_def by (rule ready_ok_cong; simp)+
  have okt: "ready_ok t" "r < TASK_NUM" "r \<notin> set (ready_list t)" "unlinked t r"
    using pre t st by (auto simp: sched_pre_def t_def unlinked_def)
  have tp: "task_prio t = task_prio s" by (simp add: t_def)
  note I = InsertToTCBRdyList_refines [OF okt]
  define u where "u = InsertToTCBRdyList r t"
  have ins: "ready_list u = h # insert_by (task_prio s) r xs"
    using I(2) tp t xs sw by (auto simp: u_def)
  have hr: "h \<noteq> r" using pre xs by (auto simp: sched_pre_def)
  have oku: "ready_ok u" "h \<in> set (ready_list u)" using I(1) ins by (auto simp: u_def)
  note R = RemoveFromTCBRdyList_refines [OF oku]
  define v where "v = RemoveFromTCBRdyList h u"
  define w where "w = set_state h TASK_RUNNING v"
  have w: "ready_ok w = ready_ok v" "ready_list w = ready_list v"
    unfolding w_def by (rule ready_ok_cong; simp)+
  have eq: "sched_choose h s = Some w"
    using pre st sw
    by (simp add: sched_choose_def Let_def tcb_at_def sched_pre_def w_def v_def u_def t_def
        InsertRdyPtr_def task_prio_def disj_commute)
  have fr: "TCBNext v = TCBNext u" "TCBRunning v = TCBRunning u"
    unfolding v_def by (subst RemoveFromTCBRdyList_eq, simp)+
  have "TCBNext w = Some h" "TCBRunning w = Some r" "task_prio w = task_prio s"
    using fr pre by (simp_all add: w_def u_def t_def sched_pre_def) (simp add: v_def u_def t_def)
  moreover have "state (TCBTbl w h) = TASK_RUNNING" by (simp add: w_def set_state_def)
  moreover have "state (TCBTbl w r) = TASK_READY"
    using hr strip_fields(2) [OF RemoveFromTCBRdyList_strip, of h u r]
    by (simp add: w_def v_def set_state_def u_def)
  moreover have "unlinked w h" using R(3) by (simp add: unlinked_def w_def v_def)
  moreover have "TaskSchedReq w = TaskSchedReq s"
  proof -
    have "TCBRdy t = Some h" using ready_okD(5) [OF okt(1)] t xs by simp
    then have "TaskSchedReq u = TaskSchedReq t"
      using sw by (auto simp: u_def TaskSchedReq_Insert t_def task_prio_def)
    moreover have "TaskSchedReq v = TaskSchedReq u"
      unfolding v_def by (subst RemoveFromTCBRdyList_eq, simp)
    ultimately show ?thesis by (simp add: w_def t_def)
  qed
  ultimately show ?thesis using eq w R(1,2) ins by (simp add: v_def)
qed

text \<open>
  When \<open>Schedule\<close> may act, it selects a task that no ready task
  beats: the head of the ready list if the running task blocked or is to be
  preempted (the running task then goes back behind the tasks of its own
  priority), and the running task otherwise.
\<close>

lemma Schedule_selects:
  assumes "sched_pre s r" "ready_list s = h # xs" "OSSchedLock s \<le> 1" "OSIntNesting s = 0"
  shows "\<exists>n. TCBNext (Schedule s) = Some n \<and> ready_ok (Schedule s)
    \<and> n \<notin> set (ready_list (Schedule s))
    \<and> (\<forall>j \<in> set (ready_list (Schedule s)). task_prio s n \<le> task_prio s j)
    \<and> state (TCBTbl (Schedule s) n) = TASK_RUNNING
    \<and> ready_list (Schedule s) =
        (if n = r then h # xs
         else if state (TCBTbl s r) = TASK_RUNNING then insert_by (task_prio s) r xs else xs)
    \<and> TaskSchedReq (Schedule s) = False"
proof -
  define t where "t = s\<lparr>TaskSchedReq := False\<rparr>"
  have t: "ready_ok t = ready_ok s" "ready_list t = ready_list s"
    unfolding t_def by (rule ready_ok_cong; simp)+
  have pre: "sched_pre t r" using assms(1) t by (simp add: sched_pre_def t_def unlinked_def)
  have xs: "ready_list t = h # xs" using t assms(2) by simp
  have tp: "task_prio t = task_prio s" by (simp add: t_def)
  have ok: "ready_ok s" "distinct (h # xs)" "r \<notin> set (h # xs)"
    using assms(1,2) ready_okD(4) [of s] by (auto simp: sched_pre_def)
  have rdy: "TCBRdy s = Some h" using ready_okD(5) [OF ok(1)] assms(2) by simp
  have eq: "Schedule s = (case sched_choose h t of None \<Rightarrow> t
      | Some s' \<Rightarrow> sched_finish (TCBRunning t) s')"
    using assms rdy leD [OF assms(3)] by (simp add: Schedule_def Let_def sched_pre_def flip: t_def)
  consider (blocked) "state (TCBTbl t r) \<noteq> TASK_RUNNING"
    | (preempt) "state (TCBTbl t r) = TASK_RUNNING" "task_prio t h < task_prio t r
        \<or> (task_prio t r = task_prio t h \<and> OSCheckTime t = OSTickCnt t)"
    | (stay) "state (TCBTbl t r) = TASK_RUNNING" "\<not> (task_prio t h < task_prio t r
        \<or> (task_prio t r = task_prio t h \<and> OSCheckTime t = OSTickCnt t))"
    by blast
  then show ?thesis
  proof cases
    case blocked
    from sched_choose_blocked [OF pre xs blocked] eq show ?thesis
      using ready_hd_least [OF ok(1) assms(2)] ok blocked tp
      by (intro exI [of _ h]) (auto simp: t_def)
  next
    case preempt
    have "\<forall>j \<in> set (insert_by (task_prio s) r xs). task_prio s h \<le> task_prio s j"
      using ready_hd_least [OF ok(1) assms(2)] preempt(2) tp by auto
    with sched_choose_preempt [OF pre xs preempt] eq show ?thesis
      using ok preempt(1) tp by (intro exI [of _ h]) (auto simp: t_def)
  next
    case stay
    have "sched_choose h t = None"
      using stay pre by (auto simp: sched_choose_def Let_def tcb_at_def sched_pre_def task_prio_def)
    moreover have "\<forall>j \<in> set (h # xs). task_prio s r \<le> task_prio s j"
      using stay(2) ready_hd_least [OF ok(1) assms(2)] tp by (fastforce simp: not_less)
    ultimately show ?thesis
      using eq stay(1) ok t pre xs tp
      by (intro exI [of _ r]) (simp add: t_def sched_pre_def)
  qed
qed

end
