(* ===== verification/Delta_List.thy ===== *)
theory Delta_List
  imports Linked_List
begin

text \<open>
  Delta lists: a doubly linked list whose cells carry the number of ticks after
  their predecessor at which they are due. The delay list of \<open>time.c\<close> and the timer
  list of \<open>timer.c\<close> are both kept this way, by two copies of the same code. The
  interface \<open>delta_list\<close> states what one insertion and one removal do to the links
  and counts, and shows once that this is insertion into, and removal from, a list
  ordered by the time at which a cell is due.
\<close>

section \<open>The search loop\<close>

text \<open>
  From cell \<open>cur\<close>, subtract the counts from \<open>d\<close> (a signed 32-bit variable) until it gets
  negative (result \<open>True\<close>: insert before that cell) or the list ends (result
  \<open>False\<close>: insert after it). The first argument bounds the rounds.
\<close>

fun delta_scan :: "nat \<Rightarrow> (nat \<Rightarrow> ptr) \<Rightarrow> (nat \<Rightarrow> U32) \<Rightarrow> U32 \<Rightarrow> nat \<Rightarrow> (nat \<times> U32 \<times> bool) option" where
  "delta_scan 0 n t d cur = None"
| "delta_scan (Suc k) n t d cur =
     (let d = d - t cur in
      if sint d < 0 then Some (cur, d, True)
      else case n cur of None \<Rightarrow> Some (cur, d, False) | Some j \<Rightarrow> delta_scan k n t d j)"

lemma delta_scan_upd:
  "i \<notin> set (chain k n (Some h)) \<Longrightarrow> delta_scan k n (t(i := v)) d h = delta_scan k n t d h"
  by (induction k n t d h rule: delta_scan.induct) (auto simp: Let_def split: option.split)

section \<open>When the cells are due\<close>

fun expiry :: "(nat \<Rightarrow> nat) \<Rightarrow> nat \<Rightarrow> nat list \<Rightarrow> (nat \<times> nat) list" where
  "expiry t a [] = []"
| "expiry t a (x # xs) = (x, a + t x) # expiry t (a + t x) xs"

definition ticks_of :: "(nat \<Rightarrow> U32) \<Rightarrow> nat \<Rightarrow> nat" where
  "ticks_of t x = unat (t x)"

definition delta_wf :: "nat \<Rightarrow> (nat \<Rightarrow> ptr) \<Rightarrow> (nat \<Rightarrow> ptr) \<Rightarrow> (nat \<Rightarrow> U32) \<Rightarrow> ptr \<Rightarrow> nat list \<Rightarrow> bool" where
  "delta_wf N n p t h xs \<longleftrightarrow> dll n p h xs \<and> set xs \<subseteq> {..<N}
     \<and> sum_list (map (ticks_of t) xs) < 2 ^ 31"

lemma expiry_append:
  "expiry t a (xs @ ys) = expiry t a xs @ expiry t (a + sum_list (map t xs)) ys"
  by (induction xs arbitrary: a) (auto simp: add.assoc)

lemma fst_expiry [simp]: "map fst (expiry t a xs) = xs"
  by (induction xs arbitrary: a) auto

lemma expiry_cong: "(\<And>x. x \<in> set xs \<Longrightarrow> t x = t' x) \<Longrightarrow> expiry t a xs = expiry t' a xs"
  by (induction xs arbitrary: a) auto

lemma expiry_ge: "(x, e) \<in> set (expiry t a xs) \<Longrightarrow> a \<le> e"
proof (induction xs arbitrary: a)
  case (Cons y ys)
  then show ?case by (auto intro: order.trans [OF le_add1 Cons.IH])
qed simp

lemma expiry_le: "(x, e) \<in> set (expiry t a xs) \<Longrightarrow> e \<le> a + sum_list (map t xs)"
  by (induction xs arbitrary: a) force+

lemma sorted_expiry: "sorted (map snd (expiry t a xs))"
  by (induction xs arbitrary: a) (auto dest: expiry_ge)

lemma expiry_inj:
  "expiry t a xs = expiry t' a xs' \<Longrightarrow> xs = xs'"
  by (metis fst_expiry)

text \<open>One tick: the count of the first cell goes down and every cell is due one tick earlier.\<close>

lemma expiry_shift: "expiry t (a + d) xs = map (apsnd (\<lambda>e. e + d)) (expiry t a xs)"
proof (induction xs arbitrary: a)
  case (Cons x xs)
  have "expiry t (a + d + t x) xs = expiry t (a + t x + d) xs" by (simp add: add.commute add.left_commute)
  with Cons.IH [of "a + t x"] show ?case by simp
qed simp

lemma expiry_tick:
  assumes "distinct (x # xs)" "0 < t x" "t' x = t x - 1" "\<And>y. y \<noteq> x \<Longrightarrow> t' y = t y"
  shows "expiry t' 0 (x # xs) = map (apsnd (\<lambda>e. e - 1)) (expiry t 0 (x # xs))"
proof -
  have "expiry t' (t' x) xs = expiry t (t' x) xs"
    using assms(1) by (auto intro!: expiry_cong assms(4))
  moreover have "expiry t (t x) xs = map (apsnd (\<lambda>e. e + 1)) (expiry t (t' x) xs)"
    using expiry_shift [of t "t' x" 1 xs] assms(2,3) by simp
  ultimately show ?thesis using assms(3) by (simp add: comp_def apsnd_def map_prod_def prod.case_eq_if)
qed

lemma expiry_pos:
  "0 < t x \<Longrightarrow> (y, e) \<in> set (expiry t 0 (x # xs)) \<Longrightarrow> 0 < e"
  using expiry_ge [of y e t "t x" xs] by auto

lemma takeWhile_sorted_filter:
  "sorted (map snd xs) \<Longrightarrow> \<forall>(y, e) \<in> set xs. (m::nat) \<le> e \<Longrightarrow>
    takeWhile (\<lambda>(_, e). e = m) xs = filter (\<lambda>(_, e). e = m) xs"
proof (induction xs)
  case (Cons p xs)
  obtain y e where p: "p = (y, e)" by (cases p)
  show ?case
  proof (cases "e = m")
    case False
    then have "m < e" using Cons.prems(2) p by auto
    then have "\<forall>(z, f) \<in> set xs. f \<noteq> m" using Cons.prems(1) p by fastforce
    then have "filter (\<lambda>(_, e). e = m) xs = []" by (auto simp: filter_empty_conv)
    with False p show ?thesis by simp
  qed (use Cons p in auto)
qed simp

lemma dropWhile_sorted_filter:
  "sorted (map snd xs) \<Longrightarrow> \<forall>(y, e) \<in> set xs. (m::nat) \<le> e \<Longrightarrow>
    dropWhile (\<lambda>(_, e). e = m) xs = filter (\<lambda>(_, e). e \<noteq> m) xs"
proof (induction xs)
  case (Cons p xs)
  obtain y e where p: "p = (y, e)" by (cases p)
  show ?case
  proof (cases "e = m")
    case False
    then have "m < e" using Cons.prems(2) p by auto
    then have "\<forall>(z, f) \<in> set xs. f \<noteq> m" using Cons.prems(1) p by fastforce
    then have "filter (\<lambda>(_, e). e \<noteq> m) xs = xs" by (auto simp: filter_id_conv)
    with False p show ?thesis by simp
  qed (use Cons p in auto)
qed simp

text \<open>Inserting before a cell that is due later, and at the end.\<close>

lemma expiry_insert_before:
  assumes "i \<notin> set (us @ v # vs)" "distinct (us @ v # vs)"
    "sum_list (map t us) \<le> tk" "tk < sum_list (map t us) + t v"
    "t' i = tk - sum_list (map t us)" "t' v = t v - t' i"
    "\<And>x. x \<noteq> i \<Longrightarrow> x \<noteq> v \<Longrightarrow> t' x = t x"
  shows "expiry t' 0 (us @ i # v # vs) = insert_by snd (i, tk) (expiry t 0 (us @ v # vs))"
    "sum_list (map t' (us @ i # v # vs)) = sum_list (map t (us @ v # vs))"
proof -
  have us: "expiry t' a us = expiry t a us" "map t' us = map t us" for a
    using assms(1,2) by (auto intro!: expiry_cong assms(7))
  have vs: "expiry t' a vs = expiry t a vs" "map t' vs = map t vs" for a
    using assms(1,2) by (auto intro!: expiry_cong assms(7))
  have le: "\<forall>y \<in> set (expiry t 0 us). snd y \<le> tk"
    using expiry_le [of _ _ t 0 us] assms(3) by fastforce
  show "expiry t' 0 (us @ i # v # vs) = insert_by snd (i, tk) (expiry t 0 (us @ v # vs))"
    using insert_by_append [of "expiry t 0 us" snd "(i, tk)"] le assms(3-6)
    by (simp add: expiry_append us vs add.commute)
  show "sum_list (map t' (us @ i # v # vs)) = sum_list (map t (us @ v # vs))"
    using assms(3-6) by (simp add: us vs)
qed

lemma expiry_insert_last:
  assumes "i \<notin> set us" "sum_list (map t us) \<le> tk" "t' i = tk - sum_list (map t us)"
    "\<And>x. x \<noteq> i \<Longrightarrow> t' x = t x"
  shows "expiry t' 0 (us @ [i]) = insert_by snd (i, tk) (expiry t 0 us)"
    "sum_list (map t' (us @ [i])) = tk"
proof -
  have us: "expiry t' a us = expiry t a us" "map t' us = map t us" for a
    using assms(1) by (auto intro!: expiry_cong assms(4))
  have le: "\<forall>y \<in> set (expiry t 0 us). snd y \<le> tk"
    using expiry_le [of _ _ t 0 us] assms(2) by fastforce
  show "expiry t' 0 (us @ [i]) = insert_by snd (i, tk) (expiry t 0 us)"
    using insert_by_all_le [of "expiry t 0 us" snd "(i, tk)"] le assms(2,3)
    by (simp add: expiry_append us)
  show "sum_list (map t' (us @ [i])) = tk" using assms(2,3) by (simp add: us)
qed

text \<open>Removing a cell and giving its count to the next one.\<close>

lemma expiry_remove_before:
  assumes "distinct (us @ i # v # vs)" "t' v = t v + t i" "\<And>x. x \<noteq> i \<Longrightarrow> x \<noteq> v \<Longrightarrow> t' x = t x"
  shows "expiry t' 0 (us @ v # vs) = filter (\<lambda>(x, _). x \<noteq> i) (expiry t 0 (us @ i # v # vs))"
    "sum_list (map t' (us @ v # vs)) = sum_list (map t (us @ i # v # vs))"
proof -
  have us: "expiry t' a us = expiry t a us" "map t' us = map t us" for a
    using assms(1) by (auto intro!: expiry_cong assms(3))
  have vs: "expiry t' a vs = expiry t a vs" "map t' vs = map t vs" for a
    using assms(1) by (auto intro!: expiry_cong assms(3))
  have keep: "filter (\<lambda>(x, _). x \<noteq> i) (expiry t a ws) = expiry t a ws" if "i \<notin> set ws" for a ws
    using that by (induction ws arbitrary: a) auto
  show "expiry t' 0 (us @ v # vs) = filter (\<lambda>(x, _). x \<noteq> i) (expiry t 0 (us @ i # v # vs))"
    using assms by (simp add: expiry_append us vs keep add.assoc add.commute [of "t i"])
  show "sum_list (map t' (us @ v # vs)) = sum_list (map t (us @ i # v # vs))"
    using assms(2) by (simp add: us vs)
qed

lemma expiry_remove_last:
  assumes "i \<notin> set us" "\<And>x. x \<noteq> i \<Longrightarrow> t' x = t x"
  shows "expiry t' 0 us = filter (\<lambda>(x, _). x \<noteq> i) (expiry t 0 (us @ [i]))"
    "sum_list (map t' us) \<le> sum_list (map t (us @ [i]))"
proof -
  have us: "expiry t' a us = expiry t a us" "map t' us = map t us" for a
    using assms(1) by (auto intro!: expiry_cong assms(2))
  have keep: "filter (\<lambda>(x, _). x \<noteq> i) (expiry t a ws) = expiry t a ws" if "i \<notin> set ws" for a ws
    using that by (induction ws arbitrary: a) auto
  show "expiry t' 0 us = filter (\<lambda>(x, _). x \<noteq> i) (expiry t 0 (us @ [i]))"
    using assms by (simp add: expiry_append us keep)
  show "sum_list (map t' us) \<le> sum_list (map t (us @ [i]))" by (simp add: us)
qed

section \<open>What the search finds\<close>

lemma sint_nonneg_iff: "a < 2 ^ 31 \<Longrightarrow> b < 2 ^ 31 \<Longrightarrow>
    sint (word_of_nat a - word_of_nat b :: U32) < 0 \<longleftrightarrow> a < (b::nat)"
proof -
  assume *: "a < 2 ^ 31" "b < 2 ^ 31"
  have "(word_of_nat a - word_of_nat b :: U32) = word_of_int (int a - int b)" by simp
  moreover have "sint (word_of_int (int a - int b) :: U32) = int a - int b"
    using * by (subst sint_sbintrunc', intro signed_take_bit_int_eq_self) auto
  ultimately show ?thesis by auto
qed

lemma delta_scan_correct:
  "dlseg n p a (x # ys) None \<Longrightarrow> length ys < k \<Longrightarrow> unat d < 2 ^ 31 \<Longrightarrow>
   sum_list (map (ticks_of t) (x # ys)) < 2 ^ 31 \<Longrightarrow>
   \<exists>us vs e b. x # ys = us @ vs \<and> b = (vs \<noteq> [])
     \<and> sum_list (map (ticks_of t) us) \<le> unat d
     \<and> (vs \<noteq> [] \<longrightarrow> unat d < sum_list (map (ticks_of t) us) + ticks_of t (hd vs))
     \<and> delta_scan k n t d x = Some (if vs = [] then last us else hd vs, e, b)
     \<and> e = d - word_of_nat (sum_list (map (ticks_of t) us)) - (if vs = [] then 0 else t (hd vs))"
proof (induction k arbitrary: a x ys d)
  case (Suc k)
  have tx: "t x = word_of_nat (ticks_of t x)" "ticks_of t x < 2 ^ 31"
    using Suc.prems(4) by (auto simp: ticks_of_def)
  have neg: "sint (d - t x) < 0 \<longleftrightarrow> unat d < ticks_of t x"
  proof -
    have "d = word_of_nat (unat d)" by simp
    then show ?thesis using sint_nonneg_iff [OF Suc.prems(3) tx(2)] tx(1) by metis
  qed
  show ?case
  proof (cases "unat d < ticks_of t x")
    case True
    with neg show ?thesis
      by - (rule exI [of _ "[]"], rule exI [of _ "x # ys"], auto)
  next
    case False
    then have le: "t x \<le> d" by (simp add: ticks_of_def word_le_nat_alt)
    have ud: "unat (d - t x) = unat d - ticks_of t x"
      using le by (simp add: ticks_of_def unat_sub)
    show ?thesis
    proof (cases ys)
      case Nil
      with False neg Suc.prems(1) tx(1) show ?thesis
        by - (rule exI [of _ "[x]"], rule exI [of _ "[]"], auto)
    next
      case (Cons y zs)
      with Suc.prems have "dlseg n p (Some x) (y # zs) None" "length zs < k"
        "unat (d - t x) < 2 ^ 31" "sum_list (map (ticks_of t) (y # zs)) < 2 ^ 31"
        by (auto simp: ud)
      from Suc.IH [OF this] obtain us vs where IH: "y # zs = us @ vs"
        "sum_list (map (ticks_of t) us) \<le> unat (d - t x)"
        "vs \<noteq> [] \<longrightarrow> unat (d - t x) < sum_list (map (ticks_of t) us) + ticks_of t (hd vs)"
        "delta_scan k n t (d - t x) y = Some (if vs = [] then last us else hd vs,
           d - t x - word_of_nat (sum_list (map (ticks_of t) us)) - (if vs = [] then 0 else t (hd vs)),
           vs \<noteq> [])"
        by blast
      have nx: "n x = Some y" using Suc.prems(1) Cons by simp
      have e: "d - t x - word_of_nat S - r = d - word_of_nat (ticks_of t x + S) - r" for S r
        using tx(1) by (simp add: algebra_simps)
      have ne: "us = [] \<Longrightarrow> vs \<noteq> []" using IH(1) by auto
      have sc: "delta_scan (Suc k) n t d x = Some (if vs = [] then last (x # us) else hd vs,
          d - word_of_nat (sum_list (map (ticks_of t) (x # us))) - (if vs = [] then 0 else t (hd vs)),
          vs \<noteq> [])"
        using False neg IH(4) nx ne by (auto simp: e)
      show ?thesis
        using IH(1-3) Cons ud False sc
        by - (rule exI [of _ "x # us"], rule exI [of _ vs], auto)
    qed
  qed
qed simp


section \<open>The interface of a delta list\<close>

text \<open>
  \<open>ins i tk s\<close> links the free cell \<open>i\<close> in, to be due in \<open>tk\<close> ticks, \<open>del i s\<close> takes it out; the laws say
  what the two do to the head, the links and the counts in each of their branches.
\<close>

locale delta_list =
  fixes nxt :: "'s \<Rightarrow> nat \<Rightarrow> ptr" and prv :: "'s \<Rightarrow> nat \<Rightarrow> ptr" and cnt :: "'s \<Rightarrow> nat \<Rightarrow> U32"
    and hdp :: "'s \<Rightarrow> ptr" and N :: nat
    and ins :: "nat \<Rightarrow> U32 \<Rightarrow> 's \<Rightarrow> 's" and del :: "nat \<Rightarrow> 's \<Rightarrow> 's"
  assumes ins_empty: "tk \<noteq> 0 \<Longrightarrow> hdp s = None \<Longrightarrow>
      hdp (ins i tk s) = Some i \<and> nxt (ins i tk s) = nxt s \<and> prv (ins i tk s) = prv s
      \<and> cnt (ins i tk s) = (cnt s)(i := tk)"
    and ins_front: "tk \<noteq> 0 \<Longrightarrow> hdp s = Some h \<Longrightarrow> i \<notin> set (chain N (nxt s) (Some h)) \<Longrightarrow> i \<noteq> h \<Longrightarrow>
      delta_scan N (nxt s) (cnt s) tk h = Some (h, d, True) \<Longrightarrow> prv s h = None \<Longrightarrow>
      hdp (ins i tk s) = Some i \<and> nxt (ins i tk s) = (nxt s)(i := Some h)
      \<and> prv (ins i tk s) = (prv s)(h := Some i)
      \<and> cnt (ins i tk s) = (cnt s)(i := cnt s h + d, h := cnt s h - (cnt s h + d))"
    and ins_middle: "tk \<noteq> 0 \<Longrightarrow> hdp s = Some h \<Longrightarrow> i \<notin> set (chain N (nxt s) (Some h)) \<Longrightarrow> i \<noteq> v \<Longrightarrow> i \<noteq> q \<Longrightarrow>
      delta_scan N (nxt s) (cnt s) tk h = Some (v, d, True) \<Longrightarrow> prv s v = Some q \<Longrightarrow>
      hdp (ins i tk s) = hdp s \<and> nxt (ins i tk s) = (nxt s)(i := Some v, q := Some i)
      \<and> prv (ins i tk s) = (prv s)(i := Some q, v := Some i)
      \<and> cnt (ins i tk s) = (cnt s)(i := cnt s v + d, v := cnt s v - (cnt s v + d))"
    and ins_last: "tk \<noteq> 0 \<Longrightarrow> hdp s = Some h \<Longrightarrow> i \<notin> set (chain N (nxt s) (Some h)) \<Longrightarrow> i \<noteq> v \<Longrightarrow>
      delta_scan N (nxt s) (cnt s) tk h = Some (v, d, False) \<Longrightarrow>
      hdp (ins i tk s) = hdp s \<and> nxt (ins i tk s) = (nxt s)(v := Some i)
      \<and> prv (ins i tk s) = (prv s)(i := Some v) \<and> cnt (ins i tk s) = (cnt s)(i := d)"
    and del_only: "prv s i = None \<Longrightarrow> nxt s i = None \<Longrightarrow>
      hdp (del i s) = None \<and> nxt (del i s) = nxt s \<and> prv (del i s) = prv s
      \<and> (\<forall>x. x \<noteq> i \<longrightarrow> cnt (del i s) x = cnt s x)"
    and del_front: "prv s i = None \<Longrightarrow> nxt s i = Some j \<Longrightarrow> i \<noteq> j \<Longrightarrow>
      hdp (del i s) = Some j \<and> nxt (del i s) = (nxt s)(i := None) \<and> prv (del i s) = (prv s)(j := None)
      \<and> (\<forall>x. x \<noteq> i \<longrightarrow> cnt (del i s) x = ((cnt s)(j := cnt s j + cnt s i)) x)"
    and del_last: "prv s i = Some k \<Longrightarrow> nxt s i = None \<Longrightarrow> i \<noteq> k \<Longrightarrow>
      hdp (del i s) = hdp s \<and> nxt (del i s) = (nxt s)(k := None) \<and> prv (del i s) = (prv s)(i := None)
      \<and> (\<forall>x. x \<noteq> i \<longrightarrow> cnt (del i s) x = cnt s x)"
    and del_middle: "prv s i = Some k \<Longrightarrow> nxt s i = Some j \<Longrightarrow> i \<noteq> k \<Longrightarrow> i \<noteq> j \<Longrightarrow> k \<noteq> j \<Longrightarrow>
      hdp (del i s) = hdp s \<and> nxt (del i s) = (nxt s)(k := Some j, i := None)
      \<and> prv (del i s) = (prv s)(j := Some k, i := None)
      \<and> (\<forall>x. x \<noteq> i \<longrightarrow> cnt (del i s) x = ((cnt s)(j := cnt s j + cnt s i)) x)"
begin

lemma ins_links:
  assumes wf: "delta_wf N (nxt s) (prv s) (cnt s) (hdp s) xs"
    and new: "i < N" "i \<notin> set xs" "nxt s i = None" "prv s i = None"
    and tk: "tk \<noteq> 0" "unat tk < 2 ^ 31"
  obtains us vs where "xs = us @ vs" "sum_list (map (ticks_of (cnt s)) us) \<le> unat tk"
    "vs \<noteq> [] \<longrightarrow> unat tk < sum_list (map (ticks_of (cnt s)) us) + ticks_of (cnt s) (hd vs)"
    "dll (nxt (ins i tk s)) (prv (ins i tk s)) (hdp (ins i tk s)) (us @ i # vs)"
    "cnt (ins i tk s) i = tk - word_of_nat (sum_list (map (ticks_of (cnt s)) us))"
    "vs \<noteq> [] \<longrightarrow> cnt (ins i tk s) (hd vs) = cnt s (hd vs) - cnt (ins i tk s) i"
    "\<And>x. x \<noteq> i \<Longrightarrow> vs = [] \<or> x \<noteq> hd vs \<Longrightarrow> cnt (ins i tk s) x = cnt s x"
    "\<And>x. x \<notin> insert i (set xs) \<Longrightarrow> nxt (ins i tk s) x = nxt s x \<and> prv (ins i tk s) x = prv s x"
proof (cases xs)
  case Nil
  with wf have "hdp s = None" by (simp add: delta_wf_def)
  from ins_empty [OF tk(1) this, of i] show thesis
    using Nil new by (intro that [of "[]" "[]"]) (auto intro: dll_insert_empty)
next
  case (Cons h ys)
  have d: "dll (nxt s) (prv s) (hdp s) xs" "hdp s = Some h" "dlseg (nxt s) (prv s) None (h # ys) None"
    using wf Cons by (auto simp: delta_wf_def dll_def)
  have ch: "i \<notin> set (chain N (nxt s) (Some h))"
    using chain_dll [OF d(1), of N] length_bounded [of xs N] wf d(2) new(2)
    by (auto simp: delta_wf_def dll_def)
  have "length ys < N"
    using length_bounded [of xs N] wf Cons by (auto simp: delta_wf_def dll_def)
  moreover have "sum_list (map (ticks_of (cnt s)) (h # ys)) < 2 ^ 31"
    using wf Cons by (simp add: delta_wf_def)
  ultimately obtain us vs e where S: "h # ys = us @ vs"
    "sum_list (map (ticks_of (cnt s)) us) \<le> unat tk"
    "vs \<noteq> [] \<longrightarrow> unat tk < sum_list (map (ticks_of (cnt s)) us) + ticks_of (cnt s) (hd vs)"
    "delta_scan N (nxt s) (cnt s) tk h = Some (if vs = [] then last us else hd vs, e, vs \<noteq> [])"
    "e = tk - word_of_nat (sum_list (map (ticks_of (cnt s)) us)) - (if vs = [] then 0 else cnt s (hd vs))"
    using delta_scan_correct [OF d(3) _ tk(2)] by blast
  show thesis
  proof (cases vs)
    case Nil
    then have us: "us = xs" "us \<noteq> []" "last us \<in> set xs" using S(1) Cons by (auto simp: last_in_set)
    then have "i \<noteq> last us" using new by blast
    from ins_last [OF tk(1) d(2) ch this] S(4) Nil
    have I: "hdp (ins i tk s) = hdp s" "nxt (ins i tk s) = (nxt s)(last us := Some i)"
      "prv (ins i tk s) = (prv s)(i := Some (last us))" "cnt (ins i tk s) = (cnt s)(i := e)" by auto
    have "dll ((nxt s)(last us := Some i)) ((prv s)(i := Some (last us))) (hdp s) (us @ [i])"
      using dll_insert_last [OF d(1)] us(1,2) new(2,3) by simp
    moreover have "x \<noteq> last us" if "x \<notin> insert i (set xs)" for x using that us(3) by blast
    ultimately show thesis
      using us(1) S(2,5) Nil by (intro that [of us vs]) (simp_all add: I)
  next
    case (Cons v ws)
    have iv: "i \<noteq> v" using S(1) \<open>xs = h # ys\<close> Cons new by auto
    show thesis
    proof (cases us rule: rev_cases)
      case Nil
      then have v: "v = h" "ws = ys" using S(1) Cons by auto
      have "prv s h = None" using d(3) by simp
      then have I: "hdp (ins i tk s) = Some i" "nxt (ins i tk s) = (nxt s)(i := Some h)"
        "prv (ins i tk s) = (prv s)(h := Some i)"
        "cnt (ins i tk s) = (cnt s)(i := cnt s h + e, h := cnt s h - (cnt s h + e))"
        using ins_front [OF tk(1) d(2) ch, of e] S(4) v Cons iv by auto
      have "dll ((nxt s)(i := Some h)) ((prv s)(h := Some i)) (Some i) (i # h # ys)"
        using dll_insert_front [of "nxt s" "prv s" "hdp s" h ys i] d(1) \<open>xs = h # ys\<close> new(2,4) by simp
      moreover have "x \<noteq> h" if "x \<notin> insert i (set xs)" for x using that \<open>xs = h # ys\<close> by auto
      ultimately show thesis
        using v Nil iv S(3,5) Cons \<open>xs = h # ys\<close> by (intro that [of us vs]) (simp_all add: I)
    next
      case (snoc us' q)
      have iq: "i \<noteq> q" using S(1) \<open>xs = h # ys\<close> snoc new by auto
      have xs: "xs = us @ v # ws" using S(1) \<open>xs = h # ys\<close> Cons by simp
      have "prv s v = Some q" using d(1) xs snoc dll_links [of "nxt s" "prv s" "hdp s" us v ws] by simp
      then have I: "hdp (ins i tk s) = hdp s" "nxt (ins i tk s) = (nxt s)(i := Some v, q := Some i)"
        "prv (ins i tk s) = (prv s)(i := Some q, v := Some i)"
        "cnt (ins i tk s) = (cnt s)(i := cnt s v + e, v := cnt s v - (cnt s v + e))"
        using ins_middle [OF tk(1) d(2) ch iv iq, of e] S(4) Cons by auto
      have "dll ((nxt s)(i := Some v, q := Some i)) ((prv s)(i := Some q, v := Some i)) (hdp s) (us @ i # v # ws)"
        using dll_insert_middle [of "nxt s" "prv s" "hdp s" us v ws i] d(1) xs new(2) snoc by simp
      moreover have "x \<noteq> v \<and> x \<noteq> q" if "x \<notin> insert i (set xs)" for x using that xs snoc by auto
      ultimately show thesis
        using iv S(2,3,5) Cons xs by (intro that [of us vs]) (simp_all add: I)
    qed
  qed
qed

lemma ins_refines:
  assumes wf: "delta_wf N (nxt s) (prv s) (cnt s) (hdp s) xs"
    and new: "i < N" "i \<notin> set xs" "nxt s i = None" "prv s i = None"
    and tk: "tk \<noteq> 0" "unat tk < 2 ^ 31"
  shows "\<exists>ys. delta_wf N (nxt (ins i tk s)) (prv (ins i tk s)) (cnt (ins i tk s)) (hdp (ins i tk s)) ys
    \<and> expiry (ticks_of (cnt (ins i tk s))) 0 ys
        = insert_by snd (i, unat tk) (expiry (ticks_of (cnt s)) 0 xs)
    \<and> (\<forall>x. x \<notin> insert i (set xs) \<longrightarrow> nxt (ins i tk s) x = nxt s x \<and> prv (ins i tk s) x = prv s x)"
proof -
  let ?t = "ticks_of (cnt s)" and ?t' = "ticks_of (cnt (ins i tk s))"
  obtain us vs where L: "xs = us @ vs" "sum_list (map ?t us) \<le> unat tk"
    "vs \<noteq> [] \<longrightarrow> unat tk < sum_list (map ?t us) + ?t (hd vs)"
    "dll (nxt (ins i tk s)) (prv (ins i tk s)) (hdp (ins i tk s)) (us @ i # vs)"
    "cnt (ins i tk s) i = tk - word_of_nat (sum_list (map ?t us))"
    "vs \<noteq> [] \<longrightarrow> cnt (ins i tk s) (hd vs) = cnt s (hd vs) - cnt (ins i tk s) i"
    "\<And>x. x \<noteq> i \<Longrightarrow> vs = [] \<or> x \<noteq> hd vs \<Longrightarrow> cnt (ins i tk s) x = cnt s x"
    "\<And>x. x \<notin> insert i (set xs) \<Longrightarrow> nxt (ins i tk s) x = nxt s x \<and> prv (ins i tk s) x = prv s x"
    by (rule ins_links [OF assms], rule that)
  have ti: "?t' i = unat tk - sum_list (map ?t us)"
    using L(2) tk(2) unfolding ticks_of_def L(5)
    by (subst unat_sub) (auto simp: word_le_nat_alt unat_of_nat)
  have same: "?t' x = ?t x" if "x \<noteq> i" "vs = [] \<or> x \<noteq> hd vs" for x
    using L(7) [OF that] by (simp add: ticks_of_def)
  have xs: "distinct xs" "set xs \<subseteq> {..<N}" "sum_list (map ?t xs) < 2 ^ 31"
    using wf by (auto simp: delta_wf_def dll_def)
  have "expiry ?t' 0 (us @ i # vs) = insert_by snd (i, unat tk) (expiry ?t 0 xs)
      \<and> sum_list (map ?t' (us @ i # vs)) < 2 ^ 31"
  proof (cases vs)
    case Nil
    with expiry_insert_last [of i us ?t "unat tk" ?t'] L(1,2) new ti same tk show ?thesis by simp
  next
    case (Cons v ws)
    have le: "cnt (ins i tk s) i \<le> cnt s v"
      using ti L(3) Cons by (simp add: word_le_nat_alt ticks_of_def)
    have "?t' v = ?t v - ?t' i"
      using L(6) Cons le by (simp add: ticks_of_def unat_sub)
    with expiry_insert_before [of i us v ws ?t "unat tk" ?t'] L(1-3) new ti same xs Cons
    show ?thesis by simp
  qed
  then show ?thesis
    using L(1,4,8) xs new by (intro exI [of _ "us @ i # vs"]) (auto simp: delta_wf_def)
qed

end

text \<open>A delta list is in particular a linked list.\<close>

sublocale delta_list \<subseteq> links: linked_list nxt prv hdp "\<lambda>_ _. True" del
proof (unfold_locales, goal_cases)
  case (1 i s) then show ?case using del_only by simp
next
  case (2 i s j) then show ?case using del_front by simp
next
  case (3 i s k) then show ?case using del_last by simp
next
  case (4 i s k j) then show ?case using del_middle by simp
qed

context delta_list
begin

lemma del_unlinks:
  assumes "dll (nxt s) (prv s) (hdp s) xs" "i \<in> set xs"
  shows "nxt (del i s) i = None \<and> prv (del i s) i = None"
proof -
  from dll_split_cases [OF assms] obtain us vs where S: "xs = us @ i # vs" "i \<notin> set us" "i \<notin> set vs"
    "nxt s i = first_or vs None" "prv s i = last_or None us" .
  then have ne: "nxt s i \<noteq> Some i" "prv s i \<noteq> Some i"
    by (auto dest: first_or_Some_in last_or_Some_in)
  have kj: "k \<noteq> j" if "prv s i = Some k" "nxt s i = Some j" for k j
  proof -
    have "k \<in> set us" "j \<in> set vs" using S that last_or_Some_in first_or_Some_in by metis+
    then show ?thesis using assms(1) S(1) by (auto simp: dll_def)
  qed
  show ?thesis
  proof (cases "prv s i")
    case None
    then show ?thesis
      using del_only [OF None] del_front [OF None] ne by (cases "nxt s i") simp_all
  next
    case (Some k)
    then show ?thesis
      using del_last [OF Some] del_middle [OF Some] ne kj [OF Some] by (cases "nxt s i") simp_all
  qed
qed

lemma del_expiry:
  assumes d: "dll (nxt s) (prv s) (hdp s) xs" "i \<in> set xs"
    and sum: "sum_list (map (ticks_of (cnt s)) xs) < 2 ^ 31"
  shows "expiry (ticks_of (cnt (del i s))) 0 (remove1 i xs)
        = filter (\<lambda>(x, _). x \<noteq> i) (expiry (ticks_of (cnt s)) 0 xs)
    \<and> sum_list (map (ticks_of (cnt (del i s))) (remove1 i xs)) < 2 ^ 31"
proof -
  let ?t = "ticks_of (cnt s)" and ?t' = "ticks_of (cnt (del i s))"
  from dll_split_cases [OF d] obtain us vs where S: "xs = us @ i # vs" "i \<notin> set us" "i \<notin> set vs"
    "nxt s i = first_or vs None" "prv s i = last_or None us" .
  have rm: "remove1 i xs = us @ vs" using S by (simp add: remove1_append)
  show ?thesis
  proof (cases vs)
    case Nil
    have "?t' x = ?t x" if "x \<noteq> i" for x
    proof (cases "prv s i")
      case None
      with del_only [OF None] S Nil that show ?thesis by (simp add: ticks_of_def)
    next
      case (Some k)
      then have "i \<noteq> k" using S(2,5) last_or_Some_in by metis
      with del_last [OF Some] S Nil that show ?thesis by (simp add: ticks_of_def)
    qed
    from expiry_remove_last [of i us ?t' ?t, OF S(2) this] show ?thesis
      using sum S rm Nil by simp
  next
    case (Cons j ws)
    have dist: "distinct (us @ i # j # ws)" using d S(1) Cons by (simp add: dll_def)
    have cnt: "\<forall>x. x \<noteq> i \<longrightarrow> cnt (del i s) x = ((cnt s)(j := cnt s j + cnt s i)) x"
    proof (cases "prv s i")
      case None
      with del_front [OF None] S Cons dist show ?thesis by simp
    next
      case (Some k)
      then have "i \<noteq> k" "k \<noteq> j" using S(2,5) last_or_Some_in [of us k] dist by auto
      with del_middle [OF Some] S Cons dist show ?thesis by simp
    qed
    have "?t i + ?t j < 2 ^ 31" using sum S(1) Cons by simp
    then have "unat (cnt s j + cnt s i) = unat (cnt s j) + unat (cnt s i)"
      by (intro unat_add_lem [THEN iffD1]) (simp add: ticks_of_def)
    then have "?t' j = ?t j + ?t i" "\<And>x. x \<noteq> i \<Longrightarrow> x \<noteq> j \<Longrightarrow> ?t' x = ?t x"
      using cnt dist by (auto simp: ticks_of_def)
    from expiry_remove_before [OF dist this] show ?thesis
      using sum S rm Cons by simp
  qed
qed

lemma del_refines:
  assumes wf: "delta_wf N (nxt s) (prv s) (cnt s) (hdp s) xs" and i: "i \<in> set xs"
  shows "delta_wf N (nxt (del i s)) (prv (del i s)) (cnt (del i s)) (hdp (del i s)) (remove1 i xs)
    \<and> expiry (ticks_of (cnt (del i s))) 0 (remove1 i xs)
        = filter (\<lambda>(x, _). x \<noteq> i) (expiry (ticks_of (cnt s)) 0 xs)
    \<and> nxt (del i s) i = None \<and> prv (del i s) i = None
    \<and> (\<forall>x. x \<notin> set xs \<longrightarrow> nxt (del i s) x = nxt s x \<and> prv (del i s) x = prv s x)"
proof -
  have d: "dll (nxt s) (prv s) (hdp s) xs" "set xs \<subseteq> {..<N}"
    "sum_list (map (ticks_of (cnt s)) xs) < 2 ^ 31"
    using wf by (auto simp: delta_wf_def)
  show ?thesis
    using links.rem_refines [OF d(1) i TrueI] del_unlinks [OF d(1) i] del_expiry [OF d(1) i d(3)]
      d(2) set_remove1_subset [of i xs] by (auto simp: delta_wf_def)
qed

end

end
