(* ===== verification/CoOS_Delay.thy ===== *)
theory CoOS_Delay
  imports CoOS_Ready Delta_List
begin

text \<open>
  The delay list of \<open>time.c\<close>: tasks that wait for a number of system ticks, kept
  as a delta list through the same links as the ready list.
\<close>

section \<open>InsertDelayList and RemoveDelayList\<close>

definition delay_of :: "kernel \<Rightarrow> nat \<Rightarrow> U32" where
  "delay_of s i = delayTick (TCBTbl s i)"

abbreviation set_delay :: "nat \<Rightarrow> U32 \<Rightarrow> kernel \<Rightarrow> kernel" where
  "set_delay i v \<equiv> upd i (delayTick_update (\<lambda>_. v))"

definition dly_link_before :: "nat \<Rightarrow> nat \<Rightarrow> nat \<Rightarrow> U32 \<Rightarrow> kernel \<Rightarrow> kernel" where
  "dly_link_before i h v deltaTicks s =
     (let s = (case TCBprev (TCBTbl s v) of
                 Some q \<Rightarrow>
                   (let s = set_next q (Some i) s;
                        s = set_prev i (Some q) s;
                        s = set_next i (Some v) s
                    in set_prev v (Some i) s)
               | None \<Rightarrow>
                   (let s = set_next i (Some h) s;
                        s = set_prev h (Some i) s
                    in s\<lparr>DlyList := Some i\<rparr>));
          nx = TCBnext (TCBTbl s i);
          s = set_delay i (delayTick (tcb_at s nx) + deltaTicks) s
      in updp nx (\<lambda>t. t\<lparr>delayTick := delayTick t - delayTick (TCBTbl s i)\<rparr>) s)"

definition InsertDelayList :: "nat \<Rightarrow> U32 \<Rightarrow> kernel \<Rightarrow> kernel" where
  "InsertDelayList i ticks s =
     (if ticks = 0 then s
      else
        (let s = (case DlyList s of
                    None \<Rightarrow> (set_delay i ticks s)\<lparr>DlyList := Some i\<rparr>
                  | Some h \<Rightarrow>
                      (case delta_scan TASK_NUM (tnext s) (delay_of s) ticks h of
                         None \<Rightarrow> s\<lparr>hang := True\<rparr>
                       | Some (v, deltaTicks, before) \<Rightarrow>
                           if before then dly_link_before i h v deltaTicks s
                           else (let s = set_prev i (Some v) s;
                                     s = set_next v (Some i) s
                                 in set_delay i deltaTicks s)))
         in (set_state i TASK_WAITING s)\<lparr>TaskSchedReq := True\<rparr>))"

definition RemoveDelayList :: "nat \<Rightarrow> kernel \<Rightarrow> kernel" where
  "RemoveDelayList i s =
     (let t = TCBTbl s i;
          s = (case (TCBprev t, TCBnext t) of
                 (None, None) \<Rightarrow> s\<lparr>DlyList := None\<rparr>
               | (None, Some j) \<Rightarrow>
                   (let s = s\<lparr>DlyList := Some j\<rparr>;
                        s = upd j (\<lambda>x. x\<lparr>delayTick := delayTick x + delayTick (TCBTbl s i)\<rparr>) s;
                        s = set_prev j None s
                    in set_next i None s)
               | (Some k, None) \<Rightarrow>
                   (let s = set_next k None s
                    in set_prev i None s)
               | (Some k, Some j) \<Rightarrow>
                   (let s = set_next k (Some j) s;
                        s = set_prev j (Some k) s;
                        s = upd j (\<lambda>x. x\<lparr>delayTick := delayTick x + delayTick (TCBTbl s i)\<rparr>) s;
                        s = set_next i None s
                    in set_prev i None s))
      in set_delay i INVALID_VALUE s)"

lemma delay_of_upd [simp]:
  "(\<And>t. delayTick (f t) = delayTick t) \<Longrightarrow> delay_of (upd i f s) = delay_of s"
  "delay_of (upd i (delayTick_update g) s) = (delay_of s)(i := g (delayTick (TCBTbl s i)))"
  "delay_of (set_next i p s) = delay_of s" "delay_of (set_prev i p s) = delay_of s"
  "delay_of (set_state i v s) = delay_of s"
  by (auto simp: delay_of_def access_defs)

lemma delay_of_frame [simp]:
  "delay_of (DlyList_update f s) = delay_of s" "delay_of (TaskSchedReq_update g s) = delay_of s"
  "delay_of (hang_update h s) = delay_of s" "delay_of (fault_update h s) = delay_of s"
  "delay_of (OSSchedLock_update k s) = delay_of s"
  by (auto simp: delay_of_def)

lemma delayTick_setters [simp]:
  "delayTick (TCBTbl (set_next i p s) j) = delayTick (TCBTbl s j)"
  "delayTick (TCBTbl (set_prev i p s) j) = delayTick (TCBTbl s j)"
  "delayTick (TCBTbl (set_state i v s) j) = delayTick (TCBTbl s j)"
  by (auto simp: access_defs)

lemma TCBnext_setters [simp]:
  "TCBnext (TCBTbl (set_next i p s) j) = (if j = i then p else TCBnext (TCBTbl s j))"
  "TCBnext (TCBTbl (set_prev i p s) j) = TCBnext (TCBTbl s j)"
  by (auto simp: access_defs)

lemma TCBprev_setters [simp]:
  "TCBprev (TCBTbl (set_prev i p s) j) = (if j = i then p else TCBprev (TCBTbl s j))"
  "TCBprev (TCBTbl (set_next i p s) j) = TCBprev (TCBTbl s j)"
  by (auto simp: access_defs)

interpretation dly: delta_list tnext tprev delay_of DlyList TASK_NUM InsertDelayList RemoveDelayList
proof (unfold_locales, goal_cases)
  case (1 tk s i)
  then show ?case by (simp add: InsertDelayList_def Let_def)
next
  case (2 tk s h i d)
  then show ?case
    by (auto simp: InsertDelayList_def dly_link_before_def Let_def tcb_at_def updp_def link_defs
        delay_of_def fun_eq_iff)
next
  case (3 tk s h i v q d)
  then show ?case
    by (auto simp: InsertDelayList_def dly_link_before_def Let_def tcb_at_def updp_def link_defs
        delay_of_def fun_eq_iff)
next
  case (4 tk s h i v d)
  then show ?case by (auto simp: InsertDelayList_def Let_def link_defs fun_eq_iff)
next
  case (5 s i)
  then show ?case by (auto simp: RemoveDelayList_def link_defs fun_eq_iff)
next
  case (6 s i j)
  then show ?case
    by (auto simp: RemoveDelayList_def Let_def link_defs delay_of_def fun_eq_iff)
next
  case (7 s i k)
  then show ?case by (auto simp: RemoveDelayList_def Let_def link_defs fun_eq_iff)
next
  case (8 s i k j)
  then show ?case
    by (auto simp: RemoveDelayList_def Let_def link_defs delay_of_def fun_eq_iff)
qed


section \<open>The delay list as a list of tasks and the ticks after which they are due\<close>

definition delay_list :: "kernel \<Rightarrow> nat list" where
  "delay_list s = chain TASK_NUM (tnext s) (DlyList s)"

definition delays :: "kernel \<Rightarrow> (nat \<times> nat) list" where
  "delays s = expiry (ticks_of (delay_of s)) 0 (delay_list s)"

definition delay_ok :: "kernel \<Rightarrow> bool" where
  "delay_ok s \<longleftrightarrow> delta_wf TASK_NUM (tnext s) (tprev s) (delay_of s) (DlyList s) (delay_list s)"

text \<open>Ready list and delay list share the links of the task table but no task.\<close>

definition lists_ok :: "kernel \<Rightarrow> bool" where
  "lists_ok s \<longleftrightarrow> ready_ok s \<and> delay_ok s \<and> set (ready_list s) \<inter> set (delay_list s) = {}"

lemma map_fst_delays [simp]: "map fst (delays s) = delay_list s"
  by (simp add: delays_def)

lemma delay_listI:
  assumes "delta_wf TASK_NUM (tnext s) (tprev s) (delay_of s) (DlyList s) xs"
  shows "delay_ok s" "delay_list s = xs"
proof -
  from assms have "dll (tnext s) (tprev s) (DlyList s) xs" "set xs \<subseteq> {..<TASK_NUM}"
    by (auto simp: delta_wf_def)
  then show "delay_list s = xs"
    unfolding delay_list_def by (blast intro: chain_dll length_bounded dll_distinct)
  with assms show "delay_ok s" by (simp add: delay_ok_def)
qed

lemma delay_ok_cong:
  assumes "DlyList s = DlyList t" "\<And>x. x \<in> set (delay_list t) \<Longrightarrow>
      tnext s x = tnext t x \<and> tprev s x = tprev t x \<and> delay_of s x = delay_of t x" "delay_ok t"
  shows "delay_ok s" "delay_list s = delay_list t" "delays s = delays t"
proof -
  have "delta_wf TASK_NUM (tnext t) (tprev t) (delay_of t) (DlyList t) (delay_list t)"
    using assms(3) by (simp add: delay_ok_def)
  then have "delta_wf TASK_NUM (tnext s) (tprev s) (delay_of s) (DlyList s) (delay_list t)"
    using assms(1,2) by (auto simp: delta_wf_def ticks_of_def intro: dll_frame cong: map_cong)
  from delay_listI [OF this] show ok: "delay_ok s" "delay_list s = delay_list t" .
  show "delays s = delays t"
    unfolding delays_def ok(2) using assms(2) by (auto intro: expiry_cong simp: ticks_of_def)
qed

lemma ready_ok_frame:
  assumes "TCBRdy s = TCBRdy t" "task_prio s = task_prio t" "\<And>x. x \<in> set (ready_list t) \<Longrightarrow>
      tnext s x = tnext t x \<and> tprev s x = tprev t x" "ready_ok t"
  shows "ready_ok s" "ready_list s = ready_list t"
proof -
  note D = ready_okD [OF assms(4)]
  have "dll (tnext s) (tprev s) (TCBRdy s) (ready_list t)"
    using D(1) assms(1,3) by (auto intro: dll_frame)
  from ready_okI [OF this D(2)] show "ready_ok s" "ready_list s = ready_list t"
    using D(3) assms(2) by auto
qed

text \<open>A task control block without list links, delay and state.\<close>

definition strip_dly :: "tcb \<Rightarrow> tcb" where
  "strip_dly t = t\<lparr>TCBnext := None, TCBprev := None, delayTick := 0, state := TASK_READY\<rparr>"

lemma strip_dly_fields:
  assumes "strip_dly t = strip_dly t'"
  shows "prio t = prio t'" "taskID t = taskID t'" "mutexID t = mutexID t'"
    "eventID t = eventID t'" "timeSlice t = timeSlice t'" "stack t = stack t'"
    "stkPtr t = stkPtr t'" "pmail t = pmail t'" "waitNext t = waitNext t'"
    "waitPrev t = waitPrev t'" "pnode t = pnode t'"
  using assms by (cases t; cases t'; simp add: strip_dly_def)+

lemma strip_dly_upd [simp]:
  "strip_dly (TCBTbl (set_next i v s) j) = strip_dly (TCBTbl s j)"
  "strip_dly (TCBTbl (set_prev i v s) j) = strip_dly (TCBTbl s j)"
  "strip_dly (TCBTbl (set_state i w s) j) = strip_dly (TCBTbl s j)"
  by (auto simp: strip_dly_def access_defs)

lemma InsertDelayList_strip [simp]:
  "strip_dly (TCBTbl (InsertDelayList i tk s) j) = strip_dly (TCBTbl s j)"
proof -
  have d: "strip_dly (t\<lparr>delayTick := v\<rparr>) = strip_dly t" for t v by (simp add: strip_dly_def)
  show ?thesis
    by (simp add: InsertDelayList_def dly_link_before_def Let_def updp_def d
        split: option.split prod.split)
qed

lemma RemoveDelayList_strip [simp]:
  "strip_dly (TCBTbl (RemoveDelayList i s) j) = strip_dly (TCBTbl s j)"
proof -
  have d: "strip_dly (t\<lparr>delayTick := v\<rparr>) = strip_dly t" for t v by (simp add: strip_dly_def)
  show ?thesis by (simp add: RemoveDelayList_def Let_def d split: option.split)
qed

lemma task_prio_Delay [simp]:
  "task_prio (InsertDelayList i tk s) = task_prio s" "task_prio (RemoveDelayList i s) = task_prio s"
  using strip_dly_fields(1) [OF InsertDelayList_strip] strip_dly_fields(1) [OF RemoveDelayList_strip]
  by (auto simp: task_prio_def)

lemma InsertDelayList_frame [simp]:
  "NullTCB (InsertDelayList i tk s) = NullTCB s" "FreeTCB (InsertDelayList i tk s) = FreeTCB s"
  "TCBRdy (InsertDelayList i tk s) = TCBRdy s" "TCBNext (InsertDelayList i tk s) = TCBNext s"
  "TCBRunning (InsertDelayList i tk s) = TCBRunning s"
  "OSCheckTime (InsertDelayList i tk s) = OSCheckTime s"
  "OSTickCnt (InsertDelayList i tk s) = OSTickCnt s"
  "OSIntNesting (InsertDelayList i tk s) = OSIntNesting s"
  "OSSchedLock (InsertDelayList i tk s) = OSSchedLock s"
  "EventTbl (InsertDelayList i tk s) = EventTbl s"
  "FreeEventList (InsertDelayList i tk s) = FreeEventList s"
  "MutexTbl (InsertDelayList i tk s) = MutexTbl s"
  "MutexFreeID (InsertDelayList i tk s) = MutexFreeID s"
  "FlagCrl (InsertDelayList i tk s) = FlagCrl s"
  "FlagNodes (InsertDelayList i tk s) = FlagNodes s"
  "QueueTbl (InsertDelayList i tk s) = QueueTbl s"
  "QueueIDVessel (InsertDelayList i tk s) = QueueIDVessel s"
  "TmrTbl (InsertDelayList i tk s) = TmrTbl s" "TmrList (InsertDelayList i tk s) = TmrList s"
  "TmrIDVessel (InsertDelayList i tk s) = TmrIDVessel s"
  "ServiceReq (InsertDelayList i tk s) = ServiceReq s"
  "IsrReq (InsertDelayList i tk s) = IsrReq s" "TimeReq (InsertDelayList i tk s) = TimeReq s"
  "TimerReq (InsertDelayList i tk s) = TimerReq s" "Mem (InsertDelayList i tk s) = Mem s"
  "PendSV (InsertDelayList i tk s) = PendSV s"
  by (simp_all add: InsertDelayList_def dly_link_before_def Let_def updp_def
      split: option.split prod.split)

lemma RemoveDelayList_frame [simp]:
  "NullTCB (RemoveDelayList i s) = NullTCB s" "FreeTCB (RemoveDelayList i s) = FreeTCB s"
  "TCBRdy (RemoveDelayList i s) = TCBRdy s" "TCBNext (RemoveDelayList i s) = TCBNext s"
  "TCBRunning (RemoveDelayList i s) = TCBRunning s"
  "OSCheckTime (RemoveDelayList i s) = OSCheckTime s"
  "OSTickCnt (RemoveDelayList i s) = OSTickCnt s"
  "OSIntNesting (RemoveDelayList i s) = OSIntNesting s"
  "OSSchedLock (RemoveDelayList i s) = OSSchedLock s"
  "TaskSchedReq (RemoveDelayList i s) = TaskSchedReq s"
  "EventTbl (RemoveDelayList i s) = EventTbl s"
  "FreeEventList (RemoveDelayList i s) = FreeEventList s"
  "MutexTbl (RemoveDelayList i s) = MutexTbl s"
  "MutexFreeID (RemoveDelayList i s) = MutexFreeID s" "FlagCrl (RemoveDelayList i s) = FlagCrl s"
  "FlagNodes (RemoveDelayList i s) = FlagNodes s" "QueueTbl (RemoveDelayList i s) = QueueTbl s"
  "QueueIDVessel (RemoveDelayList i s) = QueueIDVessel s"
  "TmrTbl (RemoveDelayList i s) = TmrTbl s" "TmrList (RemoveDelayList i s) = TmrList s"
  "TmrIDVessel (RemoveDelayList i s) = TmrIDVessel s"
  "ServiceReq (RemoveDelayList i s) = ServiceReq s" "IsrReq (RemoveDelayList i s) = IsrReq s"
  "TimeReq (RemoveDelayList i s) = TimeReq s" "TimerReq (RemoveDelayList i s) = TimerReq s"
  "Mem (RemoveDelayList i s) = Mem s" "PendSV (RemoveDelayList i s) = PendSV s"
  "fault (RemoveDelayList i s) = fault s" "hang (RemoveDelayList i s) = hang s"
  by (simp_all add: RemoveDelayList_def Let_def split: option.split)

lemma InsertDelayList_state:
  "tk \<noteq> 0 \<Longrightarrow> state (TCBTbl (InsertDelayList i tk s) i) = TASK_WAITING"
  "tk \<noteq> 0 \<Longrightarrow> TaskSchedReq (InsertDelayList i tk s)"
  by (simp_all add: InsertDelayList_def Let_def set_state_def)

lemma RemoveDelayList_delay [simp]: "delayTick (TCBTbl (RemoveDelayList i s) i) = INVALID_VALUE"
  by (simp add: RemoveDelayList_def Let_def)

text \<open>
  Inserting a task into the delay list files it by the tick at which it is
  due, behind the tasks due at the same tick, keeps every other task's due time,
  blocks the task and leaves the ready list alone.
\<close>

lemma InsertDelayList_refines:
  assumes "lists_ok s" "i < TASK_NUM" "i \<notin> set (ready_list s)" "i \<notin> set (delay_list s)"
    "unlinked s i" "tk \<noteq> 0" "unat tk < 2 ^ 31"
  shows "lists_ok (InsertDelayList i tk s)
    \<and> delays (InsertDelayList i tk s) = insert_by snd (i, unat tk) (delays s)
    \<and> ready_list (InsertDelayList i tk s) = ready_list s
    \<and> state (TCBTbl (InsertDelayList i tk s) i) = TASK_WAITING
    \<and> TaskSchedReq (InsertDelayList i tk s)"
proof -
  let ?s = "InsertDelayList i tk s"
  have wf: "delta_wf TASK_NUM (tnext s) (tprev s) (delay_of s) (DlyList s) (delay_list s)"
    "ready_ok s" "set (ready_list s) \<inter> set (delay_list s) = {}"
    using assms(1) by (auto simp: lists_ok_def delay_ok_def)
  obtain ys where ys: "delta_wf TASK_NUM (tnext ?s) (tprev ?s) (delay_of ?s) (DlyList ?s) ys"
    "expiry (ticks_of (delay_of ?s)) 0 ys = insert_by snd (i, unat tk) (delays s)"
    "\<forall>x. x \<notin> insert i (set (delay_list s)) \<longrightarrow> tnext ?s x = tnext s x \<and> tprev ?s x = tprev s x"
    using dly.ins_refines [OF wf(1) assms(2,4) _ _ assms(6,7)] assms(5)
    by (auto simp: unlinked_def delays_def)
  note dl = delay_listI [OF ys(1)]
  have "set ys = insert i (set (delay_list s))"
    using arg_cong [OF ys(2), of "\<lambda>l. fst ` set l"] by (simp flip: set_map)
  moreover have "tnext ?s x = tnext s x \<and> tprev ?s x = tprev s x" if "x \<in> set (ready_list s)" for x
    using that ys(3) wf(3) assms(3) by (metis IntI empty_iff insertE)
  note ready_ok_frame [OF InsertDelayList_frame(3) task_prio_Delay(1) this wf(2)]
  ultimately show ?thesis
    using dl wf assms(3) ys(2) InsertDelayList_state [OF assms(6)]
    by (auto simp: lists_ok_def delays_def)
qed

text \<open>
  Removing a task from the delay list (on a wake-up before the delay is over)
  leaves the due times of all the other tasks as they were, frees the links of the
  task and marks it as not delayed.
\<close>

lemma RemoveDelayList_refines:
  assumes "lists_ok s" "i \<in> set (delay_list s)"
  shows "lists_ok (RemoveDelayList i s)
    \<and> delays (RemoveDelayList i s) = filter (\<lambda>(x, _). x \<noteq> i) (delays s)
    \<and> ready_list (RemoveDelayList i s) = ready_list s
    \<and> unlinked (RemoveDelayList i s) i
    \<and> delayTick (TCBTbl (RemoveDelayList i s) i) = INVALID_VALUE"
proof -
  let ?s = "RemoveDelayList i s"
  have wf: "delta_wf TASK_NUM (tnext s) (tprev s) (delay_of s) (DlyList s) (delay_list s)"
    "ready_ok s" "set (ready_list s) \<inter> set (delay_list s) = {}"
    using assms(1) by (auto simp: lists_ok_def delay_ok_def)
  note D = dly.del_refines [OF wf(1) assms(2)]
  note dl = delay_listI [OF D [THEN conjunct1]]
  have "tnext ?s x = tnext s x \<and> tprev ?s x = tprev s x" if "x \<in> set (ready_list s)" for x
    using that D wf(3) by blast
  note ready_ok_frame [OF RemoveDelayList_frame(3) task_prio_Delay(2) this wf(2)]
  moreover have "set (remove1 i (delay_list s)) \<subseteq> set (delay_list s)" by (rule set_remove1_subset)
  ultimately show ?thesis
    using dl wf D by (auto simp: lists_ok_def delays_def unlinked_def)
qed

end
