(* ===== verification/CoOS_Event.thy ===== *)
theory CoOS_Event
  imports CoOS_Delay
begin

text \<open>
  Event control blocks of \<open>event.c\<close>: the free list, creation and deletion, and the
  waiting list of an event in FIFO or priority order. \<open>OsSchedUnlock\<close> ends every
  critical section and may run deferred interrupt requests, which post events
  again; the operations below therefore take the unlock function as a parameter
  \<open>u\<close>, which \<open>CoOS_Service\<close> instantiates.
\<close>

type_synonym unlock = "kernel \<Rightarrow> kernel"

definition OsSchedLock :: "kernel \<Rightarrow> kernel" where
  "OsSchedLock s = s\<lparr>OSSchedLock := OSSchedLock s + 1\<rparr>"

abbreviation set_wnext :: "nat \<Rightarrow> ptr \<Rightarrow> kernel \<Rightarrow> kernel" where
  "set_wnext i v \<equiv> upd i (waitNext_update (\<lambda>_. v))"

abbreviation set_wprev :: "nat \<Rightarrow> ptr \<Rightarrow> kernel \<Rightarrow> kernel" where
  "set_wprev i v \<equiv> upd i (waitPrev_update (\<lambda>_. v))"

abbreviation set_eventID :: "nat \<Rightarrow> U8 \<Rightarrow> kernel \<Rightarrow> kernel" where
  "set_eventID i v \<equiv> upd i (eventID_update (\<lambda>_. v))"

abbreviation set_pmail :: "nat \<Rightarrow> U32 \<Rightarrow> kernel \<Rightarrow> kernel" where
  "set_pmail i v \<equiv> upd i (pmail_update (\<lambda>_. v))"

abbreviation set_waiters :: "nat \<Rightarrow> ptr \<Rightarrow> kernel \<Rightarrow> kernel" where
  "set_waiters e v \<equiv> upd_ecb e (eventTCBList_update (\<lambda>_. v))"

section \<open>The free list of event control blocks\<close>

definition ev_link :: "event_ptr \<Rightarrow> ptr" where
  "ev_link p = (case p of EvFree n \<Rightarrow> Some n | _ \<Rightarrow> None)"

definition ev_of_link :: "ptr \<Rightarrow> event_ptr" where
  "ev_of_link p = (case p of None \<Rightarrow> EvNull | Some n \<Rightarrow> EvFree n)"

definition ev_mail :: "event_ptr \<Rightarrow> U32" where
  "ev_mail p = (case p of EvMail m \<Rightarrow> m | _ \<Rightarrow> 0)"

text \<open>A message stored in the event pointer; the null message is the null pointer.\<close>

definition ev_of_mail :: "U32 \<Rightarrow> event_ptr" where
  "ev_of_mail m = (if m = 0 then EvNull else EvMail m)"

lemma ev_inverse [simp]: "ev_link (ev_of_link p) = p" "ev_mail (ev_of_mail m) = m"
  by (auto simp: ev_link_def ev_of_link_def ev_mail_def ev_of_mail_def split: option.split)

definition event_init :: "nat \<Rightarrow> kernel \<Rightarrow> kernel" where
  "event_init i = upd_ecb i (\<lambda>e. e\<lparr>eventPtr := EvFree (i + 1), ecb_id := word_of_nat i,
     eventType := EVENT_TYPE_INVALID\<rparr>)"

definition CreateEventList :: "kernel \<Rightarrow> kernel" where
  "CreateEventList s =
     (let s = fold event_init [0..<CFG_MAX_EVENT - 1] s;
          s = upd_ecb (CFG_MAX_EVENT - 1) (\<lambda>e. e\<lparr>eventType := EVENT_TYPE_INVALID, eventPtr := EvNull,
                ecb_id := word_of_nat (CFG_MAX_EVENT - 1)\<rparr>) s
      in s\<lparr>FreeEventList := Some 0\<rparr>)"

definition ReleaseECB :: "unlock \<Rightarrow> nat \<Rightarrow> kernel \<Rightarrow> kernel" where
  "ReleaseECB u e s =
     (let s = upd_ecb e (eventType_update (\<lambda>_. EVENT_TYPE_INVALID)) s;
          s = OsSchedLock s;
          s = upd_ecb e (eventPtr_update (\<lambda>_. ev_of_link (FreeEventList s))) s;
          s = s\<lparr>FreeEventList := Some e\<rparr>
      in u s)"

definition CreatEvent :: "unlock \<Rightarrow> event_type \<Rightarrow> U8 \<Rightarrow> event_ptr \<Rightarrow> kernel \<Rightarrow> ptr \<times> kernel" where
  "CreatEvent u ty sortType p s =
     (let s = OsSchedLock s
      in case FreeEventList s of
           None \<Rightarrow> (None, u s)
         | Some e \<Rightarrow>
             (let s = s\<lparr>FreeEventList := ev_link (eventPtr (EventTbl s e))\<rparr>;
                  s = u s;
                  s = upd_ecb e (\<lambda>x. x\<lparr>eventType := ty, eventSortType := sortType, eventPtr := p,
                        eventTCBList := None\<rparr>) s
              in (Some e, s)))"

section \<open>Waiting lists\<close>

definition fifo_wait :: "nat \<Rightarrow> nat \<Rightarrow> kernel \<Rightarrow> kernel" where
  "fifo_wait e i s =
     (case eventTCBList (EventTbl s e) of
        None \<Rightarrow> set_waiters e (Some i) s
      | Some h \<Rightarrow>
          (case scan_last TASK_NUM (wnext s) h of
             None \<Rightarrow> s\<lparr>hang := True\<rparr>
           | Some l \<Rightarrow> set_wprev i (Some l) (set_wnext l (Some i) s)))"

definition prio_wait :: "nat \<Rightarrow> nat \<Rightarrow> kernel \<Rightarrow> kernel" where
  "prio_wait e i s =
     (case eventTCBList (EventTbl s e) of
        None \<Rightarrow> set_waiters e (Some i) s
      | Some h \<Rightarrow>
          if prio (TCBTbl s h) > prio (TCBTbl s i) then
            (let s = set_waiters e (Some i) s;
                 s = set_wnext i (Some h) s
             in set_wprev h (Some i) s)
          else
            (case scan_prio TASK_NUM (wnext s) (task_prio s) (task_prio s i) h (wnext s h) of
               None \<Rightarrow> s\<lparr>hang := True\<rparr>
             | Some (ptcb1, ptcb2) \<Rightarrow>
                 (let s = set_wnext ptcb1 (Some i) s;
                      s = set_wprev i (Some ptcb1) s;
                      s = set_wnext i ptcb2 s
                  in case ptcb2 of None \<Rightarrow> s | Some j \<Rightarrow> set_wprev j (Some i) s)))"

text \<open>The body of \<open>EventTaskToWait\<close> between the lock and the unlock.\<close>

definition wait_body :: "nat \<Rightarrow> nat \<Rightarrow> kernel \<Rightarrow> kernel" where
  "wait_body e i s =
     (let s = set_eventID i (ecb_id (EventTbl s e)) s;
          s = (if eventSortType (EventTbl s e) = EVENT_SORT_TYPE_FIFO then fifo_wait e i s
               else if eventSortType (EventTbl s e) = EVENT_SORT_TYPE_PRIO then prio_wait e i s
               else s);
          s = set_state i TASK_WAITING s
      in s\<lparr>TaskSchedReq := True\<rparr>)"

definition EventTaskToWait :: "unlock \<Rightarrow> nat \<Rightarrow> nat \<Rightarrow> kernel \<Rightarrow> kernel" where
  "EventTaskToWait u e i s = u (wait_body e i (OsSchedLock s))"

text \<open>Taking the oldest message out of a queue control block.\<close>

definition q_addr :: "U32 \<Rightarrow> U16 \<Rightarrow> U32" where
  "q_addr start i = start + 4 * ucast i"

definition upd_qcb :: "nat \<Rightarrow> (qcb \<Rightarrow> qcb) \<Rightarrow> kernel \<Rightarrow> kernel" where
  "upd_qcb q f = QueueTbl_update (\<lambda>t. t(q := f (t q)))"

definition qcb_front :: "nat \<Rightarrow> kernel \<Rightarrow> U32" where
  "qcb_front q s = Mem s (q_addr (qStart (QueueTbl s q)) (q_head (QueueTbl s q)))"

definition qcb_pop :: "nat \<Rightarrow> kernel \<Rightarrow> kernel" where
  "qcb_pop q =
     upd_qcb q (\<lambda>c. let c = c\<lparr>q_head := q_head c + 1, qSize := qSize c - 1\<rparr>
                    in if q_head c = qMaxSize c then c\<lparr>q_head := 0\<rparr> else c)"

text \<open>What the woken task receives, by the type of the event.\<close>

definition deliver :: "nat \<Rightarrow> nat \<Rightarrow> kernel \<Rightarrow> kernel" where
  "deliver e i s =
     (let ec = EventTbl s e
      in case eventType ec of
           EVENT_TYPE_MBOX \<Rightarrow>
             upd_ecb e (\<lambda>x. x\<lparr>eventPtr := EvNull, eventCounter := eventCounter x - 1\<rparr>)
               (set_pmail i (ev_mail (eventPtr ec)) s)
         | EVENT_TYPE_QUEUE \<Rightarrow>
             (case eventPtr ec of
                EvQueue q \<Rightarrow> qcb_pop q (set_pmail i (qcb_front q s) s)
              | _ \<Rightarrow> s\<lparr>fault := True\<rparr>)
         | EVENT_TYPE_SEM \<Rightarrow>
             set_pmail i 0xffffffff (upd_ecb e (\<lambda>x. x\<lparr>eventCounter := eventCounter x - 1\<rparr>) s)
         | EVENT_TYPE_INVALID \<Rightarrow> s)"

definition wait_unlink_head :: "nat \<Rightarrow> nat \<Rightarrow> kernel \<Rightarrow> kernel" where
  "wait_unlink_head e i s =
     (let s = set_waiters e (waitNext (TCBTbl s i)) s;
          s = (case eventTCBList (EventTbl s e) of None \<Rightarrow> s | Some j \<Rightarrow> set_wprev j None s);
          s = set_wnext i None s
      in set_eventID i INVALID_ID s)"

definition wake :: "nat \<Rightarrow> kernel \<Rightarrow> kernel" where
  "wake i s =
     (if TCBRunning s = Some i then set_state i TASK_RUNNING s else InsertToTCBRdyList i s)"

definition leave_delay :: "nat \<Rightarrow> kernel \<Rightarrow> kernel" where
  "leave_delay i s = (if delayTick (TCBTbl s i) \<noteq> INVALID_VALUE then RemoveDelayList i s else s)"

definition EventTaskToRdy :: "nat \<Rightarrow> kernel \<Rightarrow> kernel" where
  "EventTaskToRdy e s =
     (case eventTCBList (EventTbl s e) of
        None \<Rightarrow> s
      | Some i \<Rightarrow> wake i (deliver e i (leave_delay i (wait_unlink_head e i s))))"

definition RemoveEventWaittingList :: "nat \<Rightarrow> kernel \<Rightarrow> kernel" where
  "RemoveEventWaittingList i s =
     (let e = unat (eventID (TCBTbl s i));
          s = (case (waitPrev (TCBTbl s i), waitNext (TCBTbl s i)) of
                 (None, None) \<Rightarrow> set_waiters e None s
               | (None, Some j) \<Rightarrow>
                   (let s = set_wprev j None s;
                        s = set_waiters e (Some j) s
                    in set_wnext i None s)
               | (Some k, None) \<Rightarrow>
                   (let s = set_wnext k None s
                    in set_wprev i None s)
               | (Some k, Some j) \<Rightarrow>
                   (let s = set_wnext k (Some j) s;
                        s = set_wprev j (Some k) s;
                        s = set_wprev i None s
                    in set_wnext i None s))
      in set_eventID i INVALID_ID s)"

section \<open>Deleting an event\<close>

fun del_waiters :: "nat \<Rightarrow> nat \<Rightarrow> kernel \<Rightarrow> kernel" where
  "del_waiters k e s =
     (case eventTCBList (EventTbl s e) of
        None \<Rightarrow> s
      | Some i \<Rightarrow>
          (case k of
             0 \<Rightarrow> s\<lparr>hang := True\<rparr>
           | Suc k \<Rightarrow>
               (let s = leave_delay i s;
                    s = set_waiters e (waitNext (TCBTbl s i)) s;
                    s = set_wnext i None s;
                    s = set_eventID i INVALID_ID s
                in del_waiters k e (InsertToTCBRdyList i s))))"

declare del_waiters.simps [simp del]

definition DeleteEvent :: "unlock \<Rightarrow> nat \<Rightarrow> U8 \<Rightarrow> kernel \<Rightarrow> U8 \<times> kernel" where
  "DeleteEvent u e opt s =
     (if opt = OPT_DEL_NO_PEND then
        (if eventTCBList (EventTbl s e) \<noteq> None then (E_TASK_WAITING, s)
         else (E_OK, ReleaseECB u e s))
      else if opt = OPT_DEL_ANYWAY then
        (E_OK, ReleaseECB u e (u (del_waiters TASK_NUM e (OsSchedLock s))))
      else (E_OK, s))"


section \<open>The waiting list of an event as a list of tasks\<close>

definition wait_list :: "nat \<Rightarrow> kernel \<Rightarrow> nat list" where
  "wait_list e s = chain TASK_NUM (wnext s) (eventTCBList (EventTbl s e))"

definition wait_ok :: "nat \<Rightarrow> kernel \<Rightarrow> bool" where
  "wait_ok e s \<longleftrightarrow> dll (wnext s) (wprev s) (eventTCBList (EventTbl s e)) (wait_list e s)
     \<and> set (wait_list e s) \<subseteq> {..<TASK_NUM}
     \<and> (eventSortType (EventTbl s e) = EVENT_SORT_TYPE_PRIO \<longrightarrow>
          sorted (map (task_prio s) (wait_list e s)))"

text \<open>What the order of the event promises for a new waiter.\<close>

definition enlist :: "U8 \<Rightarrow> (nat \<Rightarrow> U8) \<Rightarrow> nat \<Rightarrow> nat list \<Rightarrow> nat list" where
  "enlist sortType key i xs =
     (if sortType = EVENT_SORT_TYPE_FIFO then xs @ [i] else insert_by key i xs)"

lemma wait_listI:
  assumes "dll (wnext s) (wprev s) (eventTCBList (EventTbl s e)) xs" "set xs \<subseteq> {..<TASK_NUM}"
    "eventSortType (EventTbl s e) = EVENT_SORT_TYPE_PRIO \<longrightarrow> sorted (map (task_prio s) xs)"
  shows "wait_ok e s \<and> wait_list e s = xs"
proof -
  have "wait_list e s = xs"
    unfolding wait_list_def using assms by (blast intro: chain_dll length_bounded dll_distinct)
  with assms show ?thesis by (simp add: wait_ok_def)
qed

lemma wait_okD:
  assumes "wait_ok e s"
  shows "dll (wnext s) (wprev s) (eventTCBList (EventTbl s e)) (wait_list e s)"
    "set (wait_list e s) \<subseteq> {..<TASK_NUM}" "distinct (wait_list e s)"
    "eventTCBList (EventTbl s e) = first_or (wait_list e s) None"
    "eventSortType (EventTbl s e) = EVENT_SORT_TYPE_PRIO \<Longrightarrow> sorted (map (task_prio s) (wait_list e s))"
    "length (wait_list e s) \<le> TASK_NUM"
  using assms length_bounded [of "wait_list e s" TASK_NUM] by (auto simp: wait_ok_def dll_def)

interpretation ev: linked_list wnext wprev "\<lambda>s. eventTCBList (EventTbl s e)"
    "\<lambda>i s. unat (eventID (TCBTbl s i)) = e" RemoveEventWaittingList for e
  by unfold_locales (auto simp: RemoveEventWaittingList_def Let_def wnext_def wprev_def)

lemma fifo_wait_dll:
  assumes ok: "wait_ok e s" and new: "i \<notin> set (wait_list e s)" "wnext s i = None" "wprev s i = None"
  defines "s' \<equiv> fifo_wait e i s"
  shows "dll (wnext s') (wprev s') (eventTCBList (EventTbl s' e)) (wait_list e s @ [i])
    \<and> hang s' = hang s"
proof (cases "wait_list e s")
  case Nil
  with wait_okD(4) [OF ok] new show ?thesis
    by (simp add: s'_def fifo_wait_def dll_insert_empty)
next
  case (Cons h ys)
  note D = wait_okD [OF ok]
  have "scan_last TASK_NUM (wnext s) h = Some (last (h # ys))"
    using scan_last_correct [of "wnext s" "wprev s" None h ys TASK_NUM] D(1,6) Cons
    by (simp add: dll_def)
  moreover have "dll ((wnext s)(last (h # ys) := Some i)) ((wprev s)(i := Some (last (h # ys))))
      (Some h) (h # ys @ [i])"
    using dll_insert_last [of "wnext s" "wprev s" "Some h" "h # ys" i] D(1,4) Cons new by simp
  ultimately show ?thesis
    using D(4) Cons by (simp add: s'_def fifo_wait_def)
qed

lemma prio_wait_dll:
  assumes ok: "wait_ok e s" and new: "i \<notin> set (wait_list e s)" "wnext s i = None" "wprev s i = None"
  defines "s' \<equiv> prio_wait e i s"
  shows "dll (wnext s') (wprev s') (eventTCBList (EventTbl s' e)) (insert_by (task_prio s) i (wait_list e s))
    \<and> hang s' = hang s"
proof (cases "wait_list e s")
  case Nil
  with wait_okD(4) [OF ok] new show ?thesis
    by (simp add: s'_def prio_wait_def dll_insert_empty)
next
  case (Cons h ys)
  note D = wait_okD [OF ok]
  have hd: "eventTCBList (EventTbl s e) = Some h" using D(4) Cons by simp
  show ?thesis
  proof (cases "task_prio s i < task_prio s h")
    case True
    have "dll ((wnext s)(i := Some h)) ((wprev s)(h := Some i)) (Some i) (i # h # ys)"
      using dll_insert_front [of "wnext s" "wprev s" "Some h" h ys i] D(1) hd Cons new by simp
    with True hd Cons show ?thesis by (simp add: s'_def prio_wait_def Let_def task_prio_def)
  next
    case False
    have "dll (wnext s) (wprev s) (Some h) (h # ys)" "length ys < TASK_NUM"
      using D(1,6) hd Cons by simp_all
    from dll_ordered_insert [OF this(1) _ new(2) _ this(2), of "task_prio s"] False new(1) Cons
    obtain q nx where sc: "scan_prio TASK_NUM (wnext s) (task_prio s) (task_prio s i) h (wnext s h)
          = Some (q, nx)" and q: "q \<in> set (h # ys)" and d: "case nx of
            None \<Rightarrow> dll (((wnext s)(i := None))(q := Some i)) ((wprev s)(i := Some q)) (Some h)
              (insert_by (task_prio s) i (h # ys))
          | Some j \<Rightarrow> j \<in> set ys \<and> dll (((wnext s)(i := Some j))(q := Some i))
              (((wprev s)(i := Some q))(j := Some i)) (Some h) (insert_by (task_prio s) i (h # ys))"
      by auto
    have iq: "i \<noteq> q" using q new(1) Cons by auto
    have "\<not> prio (TCBTbl s i) < prio (TCBTbl s h)" using False by (simp add: task_prio_def)
    then show ?thesis
      using d sc hd Cons fun_upd_twist [OF iq, of "wnext s"]
      by (cases nx) (simp_all add: s'_def prio_wait_def Let_def)
  qed
qed


section \<open>What the event operations leave alone\<close>

text \<open>Two states with the same ready list and the same delay list.\<close>

definition same_lists :: "kernel \<Rightarrow> kernel \<Rightarrow> bool" where
  "same_lists s t \<longleftrightarrow> tnext s = tnext t \<and> tprev s = tprev t \<and> delay_of s = delay_of t
     \<and> task_prio s = task_prio t \<and> TCBRdy s = TCBRdy t \<and> DlyList s = DlyList t"

lemma same_lists_refl [simp]: "same_lists s s"
  by (simp add: same_lists_def)

lemma same_lists_trans: "same_lists r s \<Longrightarrow> same_lists s t \<Longrightarrow> same_lists r t"
  by (simp add: same_lists_def)

lemma same_listsD:
  assumes "same_lists s t"
  shows "lists_ok s = lists_ok t" "ready_list s = ready_list t" "delay_list s = delay_list t"
    "delays s = delays t" "unlinked s = unlinked t" "task_prio s = task_prio t" "ready_ok s = ready_ok t"
    "delay_of s = delay_of t"
proof -
  have "unlinked x = (\<lambda>i. tnext x i = None \<and> tprev x i = None)" for x
    by (simp add: unlinked_def fun_eq_iff)
  then show "lists_ok s = lists_ok t" "ready_list s = ready_list t" "delay_list s = delay_list t"
    "delays s = delays t" "unlinked s = unlinked t" "task_prio s = task_prio t" "ready_ok s = ready_ok t"
    "delay_of s = delay_of t"
    using assms by (simp_all add: same_lists_def lists_ok_def ready_ok_def ready_list_def delay_ok_def
        delay_list_def delays_def)
qed

lemma wait_links_ready [simp]:
  "wnext (InsertToTCBRdyList i s) = wnext s" "wprev (InsertToTCBRdyList i s) = wprev s"
  using strip_fields(10,11) [OF InsertToTCBRdyList_strip] by (auto simp: link_defs fun_eq_iff)

lemma wait_links_delay [simp]:
  "wnext (RemoveDelayList i s) = wnext s" "wprev (RemoveDelayList i s) = wprev s"
  "wnext (InsertDelayList i tk s) = wnext s" "wprev (InsertDelayList i tk s) = wprev s"
  using strip_dly_fields(9,10) [OF RemoveDelayList_strip] strip_dly_fields(9,10) [OF InsertDelayList_strip]
  by (auto simp: link_defs fun_eq_iff)

lemma wait_ok_cong:
  assumes "wnext s = wnext t" "wprev s = wprev t" "eventTCBList (EventTbl s e) = eventTCBList (EventTbl t e)"
    "eventSortType (EventTbl s e) = eventSortType (EventTbl t e)" "task_prio s = task_prio t"
  shows "wait_ok e s = wait_ok e t" "wait_list e s = wait_list e t"
  using assms by (simp_all add: wait_ok_def wait_list_def)

lemma task_prio_more [simp]:
  "task_prio (s\<lparr>fault := b\<rparr>) = task_prio s" "task_prio (QueueTbl_update f s) = task_prio s"
  "task_prio (FreeEventList_update g s) = task_prio s" "task_prio (Mem_update h s) = task_prio s"
  "task_prio (set_next i p s) = task_prio s" "task_prio (set_prev i p s) = task_prio s"
  "task_prio (DlyList_update l s) = task_prio s"
  by (auto simp: task_prio_def access_defs)

lemma delay_of_more [simp]:
  "delay_of (upd_ecb e f s) = delay_of s" "delay_of (QueueTbl_update g s) = delay_of s"
  "delay_of (Mem_update h s) = delay_of s" "delay_of (FreeEventList_update k s) = delay_of s"
  by (auto simp: delay_of_def)

lemma wait_body_same: "same_lists (wait_body e i s) s"
  by (simp add: same_lists_def wait_body_def fifo_wait_def prio_wait_def Let_def
      split: option.split prod.split)

lemma wait_unlink_head_same: "same_lists (wait_unlink_head e i s) s"
  by (simp add: same_lists_def wait_unlink_head_def Let_def split: option.split)

lemma deliver_same: "same_lists (deliver e i s) s"
  by (simp add: same_lists_def deliver_def Let_def qcb_pop_def upd_qcb_def
      split: event_type.split event_ptr.split)

lemma deliver_links [simp]:
  "wnext (deliver e i s) = wnext s" "wprev (deliver e i s) = wprev s"
  by (simp_all add: deliver_def Let_def qcb_pop_def upd_qcb_def
      split: event_type.split event_ptr.split)

lemma deliver_event [simp]:
  "eventTCBList (EventTbl (deliver e i s) f) = eventTCBList (EventTbl s f)"
  "eventSortType (EventTbl (deliver e i s) f) = eventSortType (EventTbl s f)"
  "ecb_id (EventTbl (deliver e i s) f) = ecb_id (EventTbl s f)"
  by (auto simp: deliver_def Let_def qcb_pop_def upd_qcb_def
      split: event_type.split event_ptr.split)

lemma deliver_eventID [simp]: "eventID (TCBTbl (deliver e i s) j) = eventID (TCBTbl s j)"
  by (simp add: deliver_def Let_def qcb_pop_def upd_qcb_def
      split: event_type.split event_ptr.split)

text \<open>
  A task that starts to wait for an event is filed by the order of the event,
  behind all waiters (FIFO) or behind the waiters of its own or a higher priority
  (priority order); it is marked as waiting for that event, a schedule is requested
  and neither the ready list nor the delay list changes.
\<close>

lemma wait_body_refines:
  assumes ok: "wait_ok e s" and new: "i < TASK_NUM" "i \<notin> set (wait_list e s)" "wnext s i = None" "wprev s i = None"
    and sort: "eventSortType (EventTbl s e) \<in> {EVENT_SORT_TYPE_FIFO, EVENT_SORT_TYPE_PRIO}"
  shows "wait_ok e (wait_body e i s)
    \<and> wait_list e (wait_body e i s)
        = enlist (eventSortType (EventTbl s e)) (task_prio s) i (wait_list e s)
    \<and> eventID (TCBTbl (wait_body e i s) i) = ecb_id (EventTbl s e)
    \<and> state (TCBTbl (wait_body e i s) i) = TASK_WAITING
    \<and> TaskSchedReq (wait_body e i s)
    \<and> hang (wait_body e i s) = hang s
    \<and> same_lists (wait_body e i s) s"
proof -
  define r where "r = set_eventID i (ecb_id (EventTbl s e)) s"
  have r: "wait_ok e r = wait_ok e s" "wait_list e r = wait_list e s"
    unfolding r_def by (rule wait_ok_cong; simp)+
  have rp: "task_prio r = task_prio s" "wnext r i = None" "wprev r i = None" "EventTbl r = EventTbl s"
    "hang r = hang s" using new by (simp_all add: r_def)
  define w where "w = (if eventSortType (EventTbl s e) = EVENT_SORT_TYPE_FIFO then fifo_wait e i r
      else prio_wait e i r)"
  have body: "wait_body e i s = (set_state i TASK_WAITING w)\<lparr>TaskSchedReq := True\<rparr>"
    using sort by (auto simp: wait_body_def w_def r_def Let_def)
  have okr: "wait_ok e r" "i \<notin> set (wait_list e r)" using ok new r by simp_all
  have d: "dll (wnext w) (wprev w) (eventTCBList (EventTbl w e))
      (enlist (eventSortType (EventTbl s e)) (task_prio s) i (wait_list e s)) \<and> hang w = hang s"
    using fifo_wait_dll [OF okr rp(2,3)] prio_wait_dll [OF okr rp(2,3)] r rp
    by (simp add: w_def enlist_def)
  have tp: "task_prio w = task_prio s" "eventSortType (EventTbl w e) = eventSortType (EventTbl s e)"
    "eventID (TCBTbl w i) = ecb_id (EventTbl s e)"
    using rp by (auto simp: w_def fifo_wait_def prio_wait_def Let_def r_def split: option.split prod.split)
  have "wait_ok e w \<and> wait_list e w
      = enlist (eventSortType (EventTbl s e)) (task_prio s) i (wait_list e s)"
    using d new(1) wait_okD(2,5) [OF ok] tp sort
    by (intro wait_listI) (auto simp: enlist_def sorted_insert_by)
  moreover have "wait_ok e (wait_body e i s) = wait_ok e w" "wait_list e (wait_body e i s) = wait_list e w"
    unfolding body by (rule wait_ok_cong; simp)+
  ultimately show ?thesis
    using d tp(3) wait_body_same [of e i s, unfolded body] by (simp add: body set_state_def)
qed


text \<open>Taking the head of the waiting list.\<close>

lemma wait_unlink_head_refines:
  assumes ok: "wait_ok e s" and w: "wait_list e s = i # ws"
  defines "s' \<equiv> wait_unlink_head e i s"
  shows "wait_ok e s' \<and> wait_list e s' = ws"
proof -
  note D = wait_okD [OF ok]
  have nx: "waitNext (TCBTbl s i) = first_or ws None"
    using D(1) w by (simp add: dll_def wnext_def)
  have "dll (wnext s') (wprev s') (eventTCBList (EventTbl s' e)) ws"
  proof (cases ws)
    case Nil
    with nx show ?thesis by (simp add: s'_def wait_unlink_head_def Let_def)
  next
    case (Cons j vs)
    have "dll ((wnext s)(i := None)) ((wprev s)(j := None)) (Some j) (j # vs)"
      using dll_remove_front [of "wnext s" "wprev s" "eventTCBList (EventTbl s e)" i j vs] D(1) w Cons by simp
    with Cons nx show ?thesis by (simp add: s'_def wait_unlink_head_def Let_def)
  qed
  moreover have "task_prio s' = task_prio s" "eventSortType (EventTbl s' e) = eventSortType (EventTbl s e)"
    by (auto simp: s'_def wait_unlink_head_def Let_def split: option.split)
  ultimately show ?thesis using D(2,5) w by (intro wait_listI) auto
qed

text \<open>Making a task ready that is in neither list.\<close>

lemma InsertToTCBRdyList_lists:
  assumes ok: "lists_ok s" and new: "i < TASK_NUM" "i \<notin> set (ready_list s)" "unlinked s i"
    "i \<notin> set (delay_list s)"
  shows "lists_ok (InsertToTCBRdyList i s)
    \<and> ready_list (InsertToTCBRdyList i s) = insert_by (task_prio s) i (ready_list s)
    \<and> delays (InsertToTCBRdyList i s) = delays s
    \<and> delay_list (InsertToTCBRdyList i s) = delay_list s"
proof -
  let ?s = "InsertToTCBRdyList i s"
  have ok': "ready_ok s" "delay_ok s" "set (ready_list s) \<inter> set (delay_list s) = {}"
    using ok by (auto simp: lists_ok_def)
  note R = InsertToTCBRdyList_refines [OF ok'(1) new(1-3)]
  have "delay_of ?s = delay_of s"
    using strip_fields(13) [OF InsertToTCBRdyList_strip, of i s] by (auto simp: delay_of_def)
  then have same: "tnext ?s x = tnext s x \<and> tprev ?s x = tprev s x \<and> delay_of ?s x = delay_of s x"
    if "x \<in> set (delay_list s)" for x using R(4) [of x] ok'(3) new(4) that by auto
  note dl = delay_ok_cong [OF InsertToTCBRdyList_frame(8) same ok'(2)]
  with R(1,2) ok'(3) new(4) show ?thesis by (auto simp: lists_ok_def)
qed

lemma leave_delay_refines:
  assumes ok: "lists_ok s" and dl: "delayTick (TCBTbl s i) \<noteq> INVALID_VALUE \<longleftrightarrow> i \<in> set (delay_list s)"
    and un: "i \<notin> set (delay_list s) \<Longrightarrow> unlinked s i"
  shows "lists_ok (leave_delay i s) \<and> delays (leave_delay i s) = filter (\<lambda>(x, _). x \<noteq> i) (delays s)
    \<and> ready_list (leave_delay i s) = ready_list s \<and> unlinked (leave_delay i s) i
    \<and> i \<notin> set (delay_list (leave_delay i s))
    \<and> delayTick (TCBTbl (leave_delay i s) i) = INVALID_VALUE"
proof (cases "i \<in> set (delay_list s)")
  case True
  let ?s = "RemoveDelayList i s"
  have wf: "delta_wf TASK_NUM (tnext s) (tprev s) (delay_of s) (DlyList s) (delay_list s)"
    using ok by (simp add: lists_ok_def delay_ok_def)
  have "set (delay_list ?s) = fst ` set (delays ?s)" for s by (metis map_fst_delays set_map)
  moreover from True dl have "leave_delay i s = ?s" by (simp add: leave_delay_def)
  ultimately show ?thesis
    using RemoveDelayList_refines [OF ok True] by auto
next
  case False
  have "filter (\<lambda>(x, _). x \<noteq> i) (delays s) = delays s"
    using False by (intro filter_key_absent) (simp flip: set_map)
  with False dl ok un show ?thesis by (simp add: leave_delay_def)
qed

text \<open>
  When the first waiter of an event may be woken: it is not ready yet, and it is in
  the delay list just if its delay is valid.
\<close>

definition wakeable :: "nat \<Rightarrow> kernel \<Rightarrow> bool" where
  "wakeable i s \<longleftrightarrow> i \<notin> set (ready_list s)
     \<and> (delayTick (TCBTbl s i) \<noteq> INVALID_VALUE \<longleftrightarrow> i \<in> set (delay_list s))
     \<and> (i \<notin> set (delay_list s) \<longrightarrow> unlinked s i)"

text \<open>
  Posting to an event with waiters wakes the first one: it leaves the waiting
  list and the delay list (whose other due times stay), enters the ready list at
  the place of its priority and waits for no event any more.
\<close>

lemma EventTaskToRdy_refines:
  assumes ok: "lists_ok s" "wait_ok e s" and w: "wait_list e s = i # ws"
    and wk: "wakeable i s" and run: "TCBRunning s \<noteq> Some i"
  shows "lists_ok (EventTaskToRdy e s) \<and> wait_ok e (EventTaskToRdy e s)
    \<and> wait_list e (EventTaskToRdy e s) = ws
    \<and> ready_list (EventTaskToRdy e s) = insert_by (task_prio s) i (ready_list s)
    \<and> delays (EventTaskToRdy e s) = filter (\<lambda>(x, _). x \<noteq> i) (delays s)
    \<and> state (TCBTbl (EventTaskToRdy e s) i) = TASK_READY
    \<and> eventID (TCBTbl (EventTaskToRdy e s) i) = INVALID_ID"
proof -
  define a where "a = wait_unlink_head e i s"
  define b where "b = leave_delay i a"
  define c where "c = deliver e i b"
  note A = same_listsD [OF wait_unlink_head_same [of e i s], folded a_def]
  note C = same_listsD [OF deliver_same [of e i b], folded c_def]
  have i: "i < TASK_NUM" using wait_okD(2) [OF ok(2)] w by auto
  have B: "lists_ok b \<and> delays b = filter (\<lambda>(x, _). x \<noteq> i) (delays s)
    \<and> ready_list b = ready_list s \<and> unlinked b i \<and> i \<notin> set (delay_list b)"
    using leave_delay_refines [of a i] A ok(1) wk
    by (simp add: b_def wakeable_def fun_eq_iff delay_of_def [symmetric])
  have links: "wnext b = wnext a" "wprev b = wprev a" "EventTbl b = EventTbl a" "task_prio b = task_prio a"
    by (simp_all add: b_def leave_delay_def)
  have fr: "TCBRunning c = TCBRunning s"
    by (simp add: c_def b_def a_def deliver_def leave_delay_def wait_unlink_head_def Let_def
        qcb_pop_def upd_qcb_def split: event_type.split event_ptr.split option.split)
  have hd: "eventTCBList (EventTbl s e) = Some i" using wait_okD(4) [OF ok(2)] w by simp
  have eq: "EventTaskToRdy e s = InsertToTCBRdyList i c"
    using hd fr run by (simp add: EventTaskToRdy_def wake_def a_def b_def c_def)
  have R: "lists_ok c" "i \<notin> set (ready_list c)" "unlinked c i" "i \<notin> set (delay_list c)"
    using B C wk by (auto simp: wakeable_def)
  have W: "wait_ok e a \<and> wait_list e a = ws"
    using wait_unlink_head_refines [OF ok(2) w] by (simp add: a_def)
  then have "wait_ok e b \<and> wait_list e b = ws"
    using wait_ok_cong [of b a e] links by simp
  then have "wait_ok e c \<and> wait_list e c = ws"
    using wait_ok_cong [of c b e] C(6) by (simp add: c_def)
  moreover have "wait_ok e (InsertToTCBRdyList i c) = wait_ok e c"
    "wait_list e (InsertToTCBRdyList i c) = wait_list e c"
    by (rule wait_ok_cong; simp)+
  moreover have "eventID (TCBTbl (InsertToTCBRdyList i c) i) = INVALID_ID"
  proof -
    have "eventID (TCBTbl a i) = INVALID_ID" by (simp add: a_def wait_unlink_head_def Let_def)
    moreover have "eventID (TCBTbl b i) = eventID (TCBTbl a i)"
      using strip_dly_fields(4) [OF RemoveDelayList_strip] by (simp add: b_def leave_delay_def)
    ultimately show ?thesis
      using strip_fields(5) [OF InsertToTCBRdyList_strip, of i c i] by (simp add: c_def)
  qed
  ultimately show ?thesis
    using InsertToTCBRdyList_lists [OF R(1) i R(2-4)] B C A links by (simp add: eq)
qed

end
