(* ===== verification/Ring_Buffer.thy ===== *)
theory Ring_Buffer
  imports Prelude
begin

text \<open>
  Circular buffers. \<open>ring f h n c\<close> is the content of a buffer of \<open>n\<close> cells \<open>f\<close> that holds
  \<open>c\<close> items from cell \<open>h\<close> on. The interface \<open>bounded_fifo\<close> is what the firmware's
  circular buffers promise (the service request queue, the message queues and the serial buffers), and
  shows that every sequence of puts and
  gets behaves like the same sequence on a list that refuses to grow beyond its capacity.
\<close>

definition ring :: "(nat \<Rightarrow> 'a) \<Rightarrow> nat \<Rightarrow> nat \<Rightarrow> nat \<Rightarrow> 'a list" where
  "ring f h n c = map (\<lambda>k. f ((h + k) mod n)) [0..<c]"

lemma length_ring [simp]: "length (ring f h n c) = c"
  by (simp add: ring_def)

lemma ring_Nil [simp]: "ring f h n 0 = []"
  by (simp add: ring_def)

lemma mod_add_inj:
  assumes "(h + j) mod n = (h + k) mod n" "j < n" "k < (n::nat)"
  shows "j = k"
proof -
  have "int j mod int n = int k mod int n"
  proof -
    have "(int h + int j) mod int n = (int h + int k) mod int n"
      using assms(1) by (metis of_nat_add of_nat_mod)
    then have "(int j - int k) mod int n = 0"
      by (metis add_diff_cancel_left mod_diff_cong mod_0 diff_self)
    then show ?thesis by (simp add: mod_eq_dvd_iff mod_0_imp_dvd)
  qed
  then show ?thesis using assms(2,3) by simp
qed

lemma ring_push:
  assumes "c < n"
  shows "ring (f((h + c) mod n := x)) h n (Suc c) = ring f h n c @ [x]"
proof -
  have "(h + k) mod n \<noteq> (h + c) mod n" if "k < c" for k
    using mod_add_inj [of h k n c] assms that by auto
  then show ?thesis by (simp add: ring_def)
qed

lemma ring_pop:
  assumes "h < n"
  shows "ring f h n (Suc c) = f h # ring f ((h + 1) mod n) n c"
proof -
  have "f ((h + Suc k) mod n) = f (((h + 1) mod n + k) mod n)" for k
    by (simp add: mod_add_left_eq)
  then show ?thesis
    using assms unfolding ring_def
    by (simp add: upt_conv_Cons comp_def flip: map_Suc_upt del: upt_Suc)
qed

lemma ring_cong:
  assumes "\<And>k. k < n \<Longrightarrow> f k = g k" "0 < n" shows "ring f h n c = ring g h n c"
  using assms by (simp add: ring_def)

section \<open>The interface of a bounded queue\<close>

text \<open>One operation on a queue: put an item (refused when full) or get one (when there is any).\<close>

datatype 'a queue_op = Put 'a | Get

fun list_run :: "nat \<Rightarrow> 'a queue_op list \<Rightarrow> 'a list \<Rightarrow> 'a list \<times> 'a option list" where
  "list_run n [] q = (q, [])"
| "list_run n (Put x # ops) q = list_run n ops (if length q < n then q @ [x] else q)"
| "list_run n (Get # ops) q =
     (case q of [] \<Rightarrow> apsnd ((#) None) (list_run n ops [])
      | y # ys \<Rightarrow> apsnd ((#) (Some y)) (list_run n ops ys))"

fun queue_run :: "('a \<Rightarrow> 's \<Rightarrow> 's) \<Rightarrow> ('s \<Rightarrow> 'a option \<times> 's) \<Rightarrow> 'a queue_op list \<Rightarrow> 's \<Rightarrow> 's \<times> 'a option list" where
  "queue_run put get [] s = (s, [])"
| "queue_run put get (Put x # ops) s = queue_run put get ops (put x s)"
| "queue_run put get (Get # ops) s =
     (case get s of (r, s') \<Rightarrow> apsnd ((#) r) (queue_run put get ops s'))"

locale bounded_fifo =
  fixes wf :: "'s \<Rightarrow> bool" and contents :: "'s \<Rightarrow> 'a list" and cap :: nat
    and put :: "'a \<Rightarrow> 's \<Rightarrow> 's" and get :: "'s \<Rightarrow> 'a option \<times> 's"
  assumes put_ok: "wf s \<Longrightarrow> wf (put x s)
      \<and> contents (put x s) = (if length (contents s) < cap then contents s @ [x] else contents s)"
    and get_empty: "wf s \<Longrightarrow> contents s = [] \<Longrightarrow> fst (get s) = None \<and> wf (snd (get s)) \<and> contents (snd (get s)) = []"
    and get_ok: "wf s \<Longrightarrow> contents s = y # ys \<Longrightarrow>
      fst (get s) = Some y \<and> wf (snd (get s)) \<and> contents (snd (get s)) = ys"
begin

theorem run_refines:
  "wf s \<Longrightarrow> wf (fst (queue_run put get ops s))
    \<and> list_run cap ops (contents s)
       = (contents (fst (queue_run put get ops s)), snd (queue_run put get ops s))"
proof (induction ops arbitrary: s)
  case (Cons a ops)
  show ?case
  proof (cases a)
    case (Put x)
    with Cons.IH [of "put x s"] put_ok [OF Cons.prems, of x] show ?thesis by simp
  next
    case Get
    obtain r s' where g: "get s = (r, s')" by (cases "get s")
    show ?thesis
    proof (cases "contents s")
      case Nil
      with Cons.IH [of s'] get_empty [OF Cons.prems] g Get show ?thesis by simp
    next
      case (Cons y ys)
      with Cons.IH [of s'] get_ok [OF \<open>wf s\<close>] g Get show ?thesis by simp
    qed
  qed
qed simp

text \<open>A queue that starts empty never holds more than its capacity.\<close>

lemma contents_bounded:
  assumes "wf s" "length (contents s) \<le> cap"
  shows "length (contents (fst (queue_run put get ops s))) \<le> cap"
proof -
  have "length q \<le> cap \<Longrightarrow> length (fst (list_run cap ops q)) \<le> cap" for q
    by (induction cap ops q rule: list_run.induct) (auto split: list.splits)
  with run_refines [OF assms(1)] assms(2) show ?thesis by (metis fst_conv)
qed

end

end
