(* ===== verification/CoOS_Srq.thy ===== *)
theory CoOS_Srq
  imports CoOS_Event Ring_Buffer
begin

text \<open>
  The service request queue of \<open>serviceReq.c\<close>: a circular buffer in which interrupt
  handlers leave their posts while the scheduler is locked. \<open>Inc8\<close> and \<open>Dec8\<close> are the
  atomic byte operations of \<open>port.c\<close>.
\<close>

text \<open>
  \<open>Inc8\<close> returns the value before, \<open>Dec8\<close> the value after: the assembly of \<open>Inc8\<close> undoes its
  addition in the register, that of \<open>Dec8\<close> does not undo its subtraction.
\<close>

definition Inc8 :: "U8 \<Rightarrow> U8 \<times> U8" where "Inc8 d = (d, d + 1)"
definition Dec8 :: "U8 \<Rightarrow> U8 \<times> U8" where "Dec8 d = (d - 1, d - 1)"

definition InsertInSRQ :: "req_type \<Rightarrow> U8 \<Rightarrow> U32 \<Rightarrow> kernel \<Rightarrow> bool \<times> kernel" where
  "InsertInSRQ ty i arg s =
     (let q = ServiceReq s
      in if unat (srq_cnt q) \<ge> CFG_MAX_SERVICE_REQUEST then (False, s)
         else
           (let (cnt, cnt') = Inc8 (srq_cnt q);
                heed = srq_head q;
                idx = (unat cnt + unat heed) mod CFG_MAX_SERVICE_REQUEST;
                cell = \<lparr>sq_type = ty, sq_id = i, sq_arg = arg\<rparr>
            in (True, s\<lparr>ServiceReq := q\<lparr>srq_cnt := cnt', srq_cell := (srq_cell q)(idx := cell)\<rparr>,
                        IsrReq := True\<rparr>)))"

text \<open>Extracting one cell, as the loop of \<open>RespondSRQ\<close> does.\<close>

definition srq_take :: "kernel \<Rightarrow> sqc \<times> kernel" where
  "srq_take s =
     (let q = ServiceReq s;
          cell = srq_cell q (unat (srq_head q))
      in (cell, s\<lparr>ServiceReq := q\<lparr>srq_head :=
                    word_of_nat ((unat (srq_head q) + 1) mod CFG_MAX_SERVICE_REQUEST),
                    srq_cnt := srq_cnt q - 1\<rparr>\<rparr>))"

text \<open>The first free bit of an ID mask, as the \<open>for\<close> loops over \<open>1 << i\<close> find it.\<close>

fun first_free :: "nat \<Rightarrow> nat \<Rightarrow> U32 \<Rightarrow> nat option" where
  "first_free i 0 m = None"
| "first_free i (Suc k) m = (if m AND push_bit i 1 = 0 then Some i else first_free (Suc i) k m)"

section \<open>The queue as a list of requests\<close>

definition srq_ok :: "kernel \<Rightarrow> bool" where
  "srq_ok s \<longleftrightarrow> unat (srq_head (ServiceReq s)) < CFG_MAX_SERVICE_REQUEST
     \<and> unat (srq_cnt (ServiceReq s)) \<le> CFG_MAX_SERVICE_REQUEST"

definition requests :: "kernel \<Rightarrow> sqc list" where
  "requests s = ring (srq_cell (ServiceReq s)) (unat (srq_head (ServiceReq s)))
     CFG_MAX_SERVICE_REQUEST (unat (srq_cnt (ServiceReq s)))"

definition srq_put :: "sqc \<Rightarrow> kernel \<Rightarrow> kernel" where
  "srq_put c s = snd (InsertInSRQ (sq_type c) (sq_id c) (sq_arg c) s)"

definition srq_get :: "kernel \<Rightarrow> sqc option \<times> kernel" where
  "srq_get s = (if srq_cnt (ServiceReq s) = 0 then (None, s) else apfst Some (srq_take s))"

lemma unat_Suc_small: "unat (w::U8) < 255 \<Longrightarrow> unat (w + 1) = Suc (unat w)"
  using unat_add_lem [of w "1"] by simp

lemma unat_pred: "(w::'a::len word) \<noteq> 0 \<Longrightarrow> unat w = Suc (unat (w - 1))"
  using unat_minus_one [of w] unat_gt_0 [of w] by simp

lemma requests_full_iff: "length (requests s) = unat (srq_cnt (ServiceReq s))"
  by (simp add: requests_def)

lemma srq_put_refines:
  assumes "srq_ok s"
  shows "srq_ok (srq_put c s) \<and> requests (srq_put c s) =
    (if length (requests s) < CFG_MAX_SERVICE_REQUEST then requests s @ [c] else requests s)"
proof (cases "unat (srq_cnt (ServiceReq s)) < CFG_MAX_SERVICE_REQUEST")
  case True
  let ?q = "ServiceReq s"
  have u: "unat (srq_cnt ?q + 1) = Suc (unat (srq_cnt ?q))"
    using True by (intro unat_Suc_small) (simp add: cfg_defs)
  have c: "\<lparr>sq_type = sq_type c, sq_id = sq_id c, sq_arg = sq_arg c\<rparr> = c" by simp
  have "requests (srq_put c s) = requests s @ [c]"
    using True ring_push [of "unat (srq_cnt ?q)" CFG_MAX_SERVICE_REQUEST "srq_cell ?q" "unat (srq_head ?q)" c] u
    by (simp add: srq_put_def InsertInSRQ_def Inc8_def Let_def requests_def add.commute c)
  then show ?thesis
    using True assms u by (simp add: srq_ok_def srq_put_def InsertInSRQ_def Inc8_def Let_def requests_def)
next
  case False
  then show ?thesis using assms by (simp add: srq_put_def InsertInSRQ_def Let_def requests_def)
qed

lemma srq_take_refines:
  assumes "srq_ok s" "requests s = c # cs"
  shows "fst (srq_take s) = c \<and> srq_ok (snd (srq_take s)) \<and> requests (snd (srq_take s)) = cs"
proof -
  let ?q = "ServiceReq s" and ?n = "CFG_MAX_SERVICE_REQUEST"
  have "length (requests s) = Suc (length cs)" using assms(2) by simp
  then have "srq_cnt ?q \<noteq> 0" by (auto simp: requests_def)
  then have u: "unat (srq_cnt ?q) = Suc (unat (srq_cnt ?q - 1))" by (rule unat_pred)
  have h: "unat (srq_head ?q) < ?n" using assms(1) by (simp add: srq_ok_def)
  have m: "unat (word_of_nat ((unat (srq_head ?q) + 1) mod ?n) :: U8) = (unat (srq_head ?q) + 1) mod ?n"
    by (simp add: unat_of_nat cfg_defs)
  have "(unat (srq_head ?q) + 1) mod ?n < ?n" by (simp add: cfg_defs)
  then show ?thesis
    using assms ring_pop [OF h, of "srq_cell ?q" "unat (srq_cnt ?q - 1)"] u m
    by (simp add: srq_take_def Let_def requests_def srq_ok_def)
qed

interpretation srq: bounded_fifo srq_ok requests CFG_MAX_SERVICE_REQUEST srq_put srq_get
proof (unfold_locales, goal_cases)
  case (1 s x)
  then show ?case by (rule srq_put_refines)
next
  case (2 s)
  then have "srq_cnt (ServiceReq s) = 0"
    using requests_full_iff [of s] by (simp add: unat_eq_0)
  with 2 show ?case by (simp add: srq_get_def)
next
  case (3 s y ys)
  then have "srq_cnt (ServiceReq s) \<noteq> 0" using requests_full_iff [of s] by auto
  with srq_take_refines [OF 3] show ?case by (simp add: srq_get_def)
qed

end
