(* ===== verification/CoOS_Sem.thy ===== *)
theory CoOS_Sem
  imports CoOS_Srq
begin

text \<open>
  Counting semaphores (\<open>sem.c\<close>). A call that blocks ends at the point where the
  context switch is requested, with outcome \<open>Blocked\<close>; what the task does when it
  runs again is a definition of its own (\<open>_resume\<close>).
\<close>

datatype 'a outcome = Done 'a | Blocked

text \<open>Continue with \<open>k\<close> unless a context switch is pending.\<close>

definition block_then :: "(nat \<Rightarrow> kernel \<Rightarrow> 'a \<times> kernel) \<Rightarrow> nat \<Rightarrow> kernel \<Rightarrow> 'a outcome \<times> kernel" where
  "block_then k cur s = (if PendSV s then (Blocked, s) else apfst Done (k cur s))"

text \<open>The part of a pend that works on the running task; there is none before the start of the system.\<close>

definition with_running :: "'a \<Rightarrow> (nat \<Rightarrow> kernel \<Rightarrow> 'a outcome \<times> kernel) \<Rightarrow> kernel \<Rightarrow> 'a outcome \<times> kernel" where
  "with_running r f s =
     (case TCBRunning s of None \<Rightarrow> (Done r, s\<lparr>fault := True\<rparr>) | Some cur \<Rightarrow> f cur s)"

definition CoCreateSem :: "unlock \<Rightarrow> U16 \<Rightarrow> U16 \<Rightarrow> U8 \<Rightarrow> kernel \<Rightarrow> U8 \<times> kernel" where
  "CoCreateSem u initCnt maxCnt sortType s =
     (if initCnt > maxCnt then (E_CREATE_FAIL, s)
      else if sortType \<noteq> EVENT_SORT_TYPE_FIFO \<and> sortType \<noteq> EVENT_SORT_TYPE_PRIO
      then (E_CREATE_FAIL, s)
      else case CreatEvent u EVENT_TYPE_SEM sortType EvNull s of
             (None, s) \<Rightarrow> (E_CREATE_FAIL, s)
           | (Some e, s) \<Rightarrow>
               (let s = upd_ecb e (\<lambda>x. x\<lparr>eventCounter := initCnt, initialEventCounter := maxCnt\<rparr>) s
                in (ecb_id (EventTbl s e), s)))"

definition CoDelSem :: "unlock \<Rightarrow> U8 \<Rightarrow> U8 \<Rightarrow> kernel \<Rightarrow> U8 \<times> kernel" where
  "CoDelSem u i opt s =
     (if unat i \<ge> CFG_MAX_EVENT then (E_INVALID_ID, s)
      else if eventType (EventTbl s (unat i)) \<noteq> EVENT_TYPE_SEM then (E_INVALID_ID, s)
      else DeleteEvent u (unat i) opt s)"

text \<open>The counter is tested under the lock and decremented after the unlock.\<close>

definition CoAcceptSem :: "unlock \<Rightarrow> U8 \<Rightarrow> kernel \<Rightarrow> U8 \<times> kernel" where
  "CoAcceptSem u i s =
     (if unat i \<ge> CFG_MAX_EVENT then (E_INVALID_ID, s)
      else if eventType (EventTbl s (unat i)) \<noteq> EVENT_TYPE_SEM then (E_INVALID_ID, s)
      else
        (let s = OsSchedLock s
         in if eventCounter (EventTbl s (unat i)) > 0 then
              (let s = u s
               in (E_OK, upd_ecb (unat i) (\<lambda>x. x\<lparr>eventCounter := eventCounter x - 1\<rparr>) s))
            else (E_SEM_EMPTY, u s)))"

definition CoPendSem_resume :: "U32 \<Rightarrow> nat \<Rightarrow> kernel \<Rightarrow> U8 \<times> kernel" where
  "CoPendSem_resume timeout cur s =
     (if timeout = 0 then (E_OK, set_pmail cur 0 s)
      else if pmail (TCBTbl s cur) = 0 then (E_TIMEOUT, s)
      else (E_OK, set_pmail cur 0 s))"

text \<open>Joining the waiting list of an event, for ever or with a time-out.\<close>

definition pend_wait :: "unlock \<Rightarrow> nat \<Rightarrow> U32 \<Rightarrow> nat \<Rightarrow> kernel \<Rightarrow> kernel" where
  "pend_wait u e timeout cur s =
     (if timeout = 0 then EventTaskToWait u e cur s
      else
        (let s = OsSchedLock s;
             s = EventTaskToWait u e cur s;
             s = InsertDelayList cur timeout s
         in u s))"

definition CoPendSem :: "unlock \<Rightarrow> U8 \<Rightarrow> U32 \<Rightarrow> kernel \<Rightarrow> U8 outcome \<times> kernel" where
  "CoPendSem u i timeout s =
     (let e = unat i
      in if OSIntNesting s > 0 then (Done E_CALL, s)
         else if e \<ge> CFG_MAX_EVENT then (Done E_INVALID_ID, s)
         else if eventType (EventTbl s e) \<noteq> EVENT_TYPE_SEM then (Done E_INVALID_ID, s)
         else if OSSchedLock s \<noteq> 0 then (Done E_OS_IN_LOCK, s)
         else
           (let s = OsSchedLock s
            in if eventCounter (EventTbl s e) > 0 then
                 (Done E_OK, u (upd_ecb e (\<lambda>x. x\<lparr>eventCounter := eventCounter x - 1\<rparr>) s))
               else
                 with_running E_OK
                   (\<lambda>cur s. block_then (CoPendSem_resume timeout) cur (pend_wait u e timeout cur s))
                   (u s)))"

definition CoPostSem :: "unlock \<Rightarrow> U8 \<Rightarrow> kernel \<Rightarrow> U8 \<times> kernel" where
  "CoPostSem u i s =
     (let e = unat i
      in if e \<ge> CFG_MAX_EVENT then (E_INVALID_ID, s)
         else if eventType (EventTbl s e) \<noteq> EVENT_TYPE_SEM then (E_INVALID_ID, s)
         else if eventCounter (EventTbl s e) = initialEventCounter (EventTbl s e) then (E_SEM_FULL, s)
         else
           (let s = OsSchedLock s;
                s = upd_ecb e (\<lambda>x. x\<lparr>eventCounter := eventCounter x + 1\<rparr>) s;
                s = EventTaskToRdy e s
            in (E_OK, u s)))"

definition isr_PostSem :: "unlock \<Rightarrow> U8 \<Rightarrow> kernel \<Rightarrow> U8 \<times> kernel" where
  "isr_PostSem u i s =
     (if OSSchedLock s > 0 then
        (case InsertInSRQ SEM_REQ i 0 s of
           (False, s) \<Rightarrow> (E_SEV_REQ_FULL, s)
         | (True, s) \<Rightarrow> (E_OK, s))
      else CoPostSem u i s)"

end
