(* ===== verification/CoOS_Mbox.thy ===== *)
theory CoOS_Mbox
  imports CoOS_Sem
begin

text \<open>Mailboxes (\<open>mbox.c\<close>): an event that holds at most one message, in its event pointer.\<close>

definition CoCreateMbox :: "unlock \<Rightarrow> U8 \<Rightarrow> kernel \<Rightarrow> U8 \<times> kernel" where
  "CoCreateMbox u sortType s =
     (case CreatEvent u EVENT_TYPE_MBOX sortType EvNull s of
        (None, s) \<Rightarrow> (E_CREATE_FAIL, s)
      | (Some e, s) \<Rightarrow>
          (let s = upd_ecb e (eventCounter_update (\<lambda>_. 0)) s
           in (ecb_id (EventTbl s e), s)))"

definition CoDelMbox :: "unlock \<Rightarrow> U8 \<Rightarrow> U8 \<Rightarrow> kernel \<Rightarrow> U8 \<times> kernel" where
  "CoDelMbox u i opt s =
     (if unat i \<ge> CFG_MAX_EVENT then (E_INVALID_ID, s)
      else if eventType (EventTbl s (unat i)) \<noteq> EVENT_TYPE_MBOX then (E_INVALID_ID, s)
      else DeleteEvent u (unat i) opt s)"

text \<open>Results of the receiving calls: the message (0 for the null pointer) and \<open>*perr\<close>.\<close>

definition mbox_empty :: "nat \<Rightarrow> kernel \<Rightarrow> kernel" where
  "mbox_empty e = upd_ecb e (\<lambda>x. x\<lparr>eventPtr := EvNull, eventCounter := 0\<rparr>)"

definition CoAcceptMail :: "unlock \<Rightarrow> U8 \<Rightarrow> kernel \<Rightarrow> (U32 \<times> U8) \<times> kernel" where
  "CoAcceptMail u i s =
     (let e = unat i
      in if e \<ge> CFG_MAX_EVENT then ((0, E_INVALID_ID), s)
         else if eventType (EventTbl s e) \<noteq> EVENT_TYPE_MBOX then ((0, E_INVALID_ID), s)
         else
           (let s = OsSchedLock s
            in if eventCounter (EventTbl s e) = 1 then
                 ((ev_mail (eventPtr (EventTbl s e)), E_OK), u (mbox_empty e s))
               else ((0, E_MBOX_EMPTY), u s)))"

definition CoPendMail_resume :: "U32 \<Rightarrow> nat \<Rightarrow> kernel \<Rightarrow> (U32 \<times> U8) \<times> kernel" where
  "CoPendMail_resume timeout cur s =
     (if timeout \<noteq> 0 \<and> pmail (TCBTbl s cur) = 0 then ((0, E_TIMEOUT), s)
      else ((pmail (TCBTbl s cur), E_OK), set_pmail cur 0 s))"

definition CoPendMail :: "unlock \<Rightarrow> U8 \<Rightarrow> U32 \<Rightarrow> kernel \<Rightarrow> (U32 \<times> U8) outcome \<times> kernel" where
  "CoPendMail u i timeout s =
     (let e = unat i
      in if OSIntNesting s > 0 then (Done (0, E_CALL), s)
         else if e \<ge> CFG_MAX_EVENT then (Done (0, E_INVALID_ID), s)
         else if eventType (EventTbl s e) \<noteq> EVENT_TYPE_MBOX then (Done (0, E_INVALID_ID), s)
         else if OSSchedLock s \<noteq> 0 then (Done (0, E_OS_IN_LOCK), s)
         else
           (let s = OsSchedLock s
            in if eventCounter (EventTbl s e) = 1 then
                 (Done (ev_mail (eventPtr (EventTbl s e)), E_OK), u (mbox_empty e s))
               else
                 with_running (0, E_OK)
                   (\<lambda>cur s. block_then (CoPendMail_resume timeout) cur (pend_wait u e timeout cur s))
                   (u s)))"

definition CoPostMail :: "unlock \<Rightarrow> U8 \<Rightarrow> U32 \<Rightarrow> kernel \<Rightarrow> U8 \<times> kernel" where
  "CoPostMail u i pm s =
     (let e = unat i
      in if e \<ge> CFG_MAX_EVENT then (E_INVALID_ID, s)
         else if eventType (EventTbl s e) \<noteq> EVENT_TYPE_MBOX then (E_INVALID_ID, s)
         else if eventCounter (EventTbl s e) = 0 then
           (let s = OsSchedLock s;
                s = upd_ecb e (\<lambda>x. x\<lparr>eventPtr := ev_of_mail pm, eventCounter := 1\<rparr>) s;
                s = EventTaskToRdy e s
            in (E_OK, u s))
         else (E_MBOX_FULL, s))"

definition isr_PostMail :: "unlock \<Rightarrow> U8 \<Rightarrow> U32 \<Rightarrow> kernel \<Rightarrow> U8 \<times> kernel" where
  "isr_PostMail u i pm s =
     (if OSSchedLock s > 0 then
        (case InsertInSRQ MBOX_REQ i pm s of
           (False, s) \<Rightarrow> (E_SEV_REQ_FULL, s)
         | (True, s) \<Rightarrow> (E_OK, s))
      else CoPostMail u i pm s)"

end
