(* ===== verification/CoOS_Queue.thy ===== *)
theory CoOS_Queue
  imports CoOS_Mbox
begin

text \<open>
  Message queues (\<open>queue.c\<close>): an event whose pointer leads to a queue control block,
  which manages a circular buffer of messages in the caller's memory.
\<close>

definition CoCreateQueue :: "unlock \<Rightarrow> U32 \<Rightarrow> U16 \<Rightarrow> U8 \<Rightarrow> kernel \<Rightarrow> U8 \<times> kernel" where
  "CoCreateQueue u start sz sortType s =
     (if start = 0 \<or> sz = 0 then (E_CREATE_FAIL, s)
      else
        (let s = OsSchedLock s
         in case first_free 0 CFG_MAX_QUEUE (QueueIDVessel s) of
              None \<Rightarrow> (E_CREATE_FAIL, u s)
            | Some q \<Rightarrow>
                (let s = s\<lparr>QueueIDVessel := QueueIDVessel s OR push_bit q 1\<rparr>;
                     s = u s;
                     s = upd_qcb q (\<lambda>c. c\<lparr>qStart := start, qcb_id := word_of_nat q, q_head := 0,
                           q_tail := 0, qMaxSize := sz, qSize := 0\<rparr>) s
                 in case CreatEvent u EVENT_TYPE_QUEUE sortType (EvQueue q) s of
                      (None, s) \<Rightarrow> (E_CREATE_FAIL, s)
                    | (Some e, s) \<Rightarrow> (ecb_id (EventTbl s e), s))))"

text \<open>The queue control block of an event; an event of another shape is a fault.\<close>

definition with_qcb :: "nat \<Rightarrow> 'a \<Rightarrow> (nat \<Rightarrow> kernel \<Rightarrow> 'a \<times> kernel) \<Rightarrow> kernel \<Rightarrow> 'a \<times> kernel" where
  "with_qcb e r f s =
     (case eventPtr (EventTbl s e) of EvQueue q \<Rightarrow> f q s | _ \<Rightarrow> (r, s\<lparr>fault := True\<rparr>))"

definition CoDelQueue :: "unlock \<Rightarrow> U8 \<Rightarrow> U8 \<Rightarrow> kernel \<Rightarrow> U8 \<times> kernel" where
  "CoDelQueue u i opt s =
     (let e = unat i
      in if e \<ge> CFG_MAX_EVENT then (E_INVALID_ID, s)
         else if eventType (EventTbl s e) \<noteq> EVENT_TYPE_QUEUE then (E_INVALID_ID, s)
         else with_qcb e E_OK (\<lambda>q s.
           (case DeleteEvent u e opt s of
              (err, s) \<Rightarrow>
                if err = E_OK then
                  (let s = s\<lparr>QueueIDVessel := QueueIDVessel s
                               AND NOT (push_bit (unat (qcb_id (QueueTbl s q))) 1)\<rparr>
                   in (err, upd_qcb q (\<lambda>c. c\<lparr>qStart := 0, qcb_id := 0, q_head := 0, q_tail := 0,
                              qMaxSize := 0, qSize := 0\<rparr>) s))
                else (err, s))) s)"

definition CoAcceptQueueMail :: "unlock \<Rightarrow> U8 \<Rightarrow> kernel \<Rightarrow> (U32 \<times> U8) \<times> kernel" where
  "CoAcceptQueueMail u i s =
     (let e = unat i
      in if e \<ge> CFG_MAX_EVENT then ((0, E_INVALID_ID), s)
         else if eventType (EventTbl s e) \<noteq> EVENT_TYPE_QUEUE then ((0, E_INVALID_ID), s)
         else with_qcb e (0, E_OK) (\<lambda>q s.
           (let s = OsSchedLock s
            in if qSize (QueueTbl s q) \<noteq> 0 then ((qcb_front q s, E_OK), u (qcb_pop q s))
               else ((0, E_QUEUE_EMPTY), u s))) s)"

text \<open>After a wake-up a queue reader does what a mailbox reader does.\<close>

definition CoPendQueueMail_resume :: "U32 \<Rightarrow> nat \<Rightarrow> kernel \<Rightarrow> (U32 \<times> U8) \<times> kernel" where
  "CoPendQueueMail_resume timeout cur s =
     (if timeout \<noteq> 0 \<and> pmail (TCBTbl s cur) = 0 then ((0, E_TIMEOUT), s)
      else ((pmail (TCBTbl s cur), E_OK), set_pmail cur 0 s))"

definition CoPendQueueMail :: "unlock \<Rightarrow> U8 \<Rightarrow> U32 \<Rightarrow> kernel \<Rightarrow> (U32 \<times> U8) outcome \<times> kernel" where
  "CoPendQueueMail u i timeout s =
     (let e = unat i
      in if OSIntNesting s > 0 then (Done (0, E_CALL), s)
         else if e \<ge> CFG_MAX_EVENT then (Done (0, E_INVALID_ID), s)
         else if eventType (EventTbl s e) \<noteq> EVENT_TYPE_QUEUE then (Done (0, E_INVALID_ID), s)
         else if OSSchedLock s \<noteq> 0 then (Done (0, E_OS_IN_LOCK), s)
         else with_qcb e (Done (0, E_OK)) (\<lambda>q s.
           (let s = OsSchedLock s
            in if qSize (QueueTbl s q) \<noteq> 0 then (Done (qcb_front q s, E_OK), u (qcb_pop q s))
               else
                 with_running (0, E_OK)
                   (\<lambda>cur s. block_then (CoPendQueueMail_resume timeout) cur (pend_wait u e timeout cur s))
                   (u s))) s)"

definition qcb_push :: "nat \<Rightarrow> U32 \<Rightarrow> kernel \<Rightarrow> kernel" where
  "qcb_push q pm s =
     (let c = QueueTbl s q;
          s = s\<lparr>Mem := (Mem s)(q_addr (qStart c) (q_tail c) := pm)\<rparr>
      in upd_qcb q (\<lambda>c. let c = c\<lparr>q_tail := q_tail c + 1, qSize := qSize c + 1\<rparr>
                        in if q_tail c = qMaxSize c then c\<lparr>q_tail := 0\<rparr> else c) s)"

definition CoPostQueueMail :: "unlock \<Rightarrow> U8 \<Rightarrow> U32 \<Rightarrow> kernel \<Rightarrow> U8 \<times> kernel" where
  "CoPostQueueMail u i pm s =
     (let e = unat i
      in if e \<ge> CFG_MAX_EVENT then (E_INVALID_ID, s)
         else if eventType (EventTbl s e) \<noteq> EVENT_TYPE_QUEUE then (E_INVALID_ID, s)
         else with_qcb e E_OK (\<lambda>q s.
           if qSize (QueueTbl s q) = qMaxSize (QueueTbl s q) then (E_QUEUE_FULL, s)
           else
             (let s = OsSchedLock s;
                  s = qcb_push q pm s;
                  s = EventTaskToRdy e s
              in (E_OK, u s))) s)"

definition isr_PostQueueMail :: "unlock \<Rightarrow> U8 \<Rightarrow> U32 \<Rightarrow> kernel \<Rightarrow> U8 \<times> kernel" where
  "isr_PostQueueMail u i pm s =
     (if OSSchedLock s > 0 then
        (case InsertInSRQ QUEUE_REQ i pm s of
           (False, s) \<Rightarrow> (E_SEV_REQ_FULL, s)
         | (True, s) \<Rightarrow> (E_OK, s))
      else CoPostQueueMail u i pm s)"

end
