(* ===== verification/CoOS_Flag.thy ===== *)
theory CoOS_Flag
  imports CoOS_Sem
begin

text \<open>
  Event flags (\<open>flag.c\<close>): 32 one-bit flags in the words of \<open>FlagCrl\<close> and one list of
  nodes for the tasks that wait for some or all of a set of flags. A node lives in the
  stack frame of the waiting call, so a task has at most one: node \<open>i\<close> is that of task \<open>i\<close>.
\<close>

section \<open>Nodes and their list\<close>

definition upd_node :: "nat \<Rightarrow> (flag_node \<Rightarrow> flag_node) \<Rightarrow> kernel \<Rightarrow> kernel" where
  "upd_node n f s = FlagNodes_update (\<lambda>t. t(n := f (t n))) s"

definition upd_fcb :: "(fcb \<Rightarrow> fcb) \<Rightarrow> kernel \<Rightarrow> kernel" where
  "upd_fcb f s = FlagCrl_update f s"

abbreviation set_pnode :: "nat \<Rightarrow> pnode_ptr \<Rightarrow> kernel \<Rightarrow> kernel" where
  "set_pnode i v \<equiv> upd i (pnode_update (\<lambda>_. v))"

abbreviation set_nnext :: "nat \<Rightarrow> ptr \<Rightarrow> kernel \<Rightarrow> kernel" where
  "set_nnext n v \<equiv> upd_node n (nextNode_update (\<lambda>_. v))"

abbreviation set_nprev :: "nat \<Rightarrow> ptr \<Rightarrow> kernel \<Rightarrow> kernel" where
  "set_nprev n v \<equiv> upd_node n (prevNode_update (\<lambda>_. v))"

text \<open>\<open>1 << id\<close>: the bits are gone for a shift by 32 or more.\<close>

definition flag_bit :: "U8 \<Rightarrow> U32" where
  "flag_bit i = push_bit (unat i) 1"

definition FlagBlock :: "nat \<Rightarrow> U32 \<Rightarrow> U8 \<Rightarrow> kernel \<Rightarrow> kernel" where
  "FlagBlock cur flags ty s =
     (let s = set_pnode cur (PnodeAt cur) s;
          s = upd_node cur (\<lambda>n. n\<lparr>waitTask := cur, waitFlags := flags, waitType := ty\<rparr>) s;
          s = (case tailNode (FlagCrl s) of
                 None \<Rightarrow>
                   (let s = set_nnext cur None s;
                        s = set_nprev cur None s
                    in upd_fcb (headNode_update (\<lambda>_. Some cur)) s)
               | Some t \<Rightarrow>
                   (let s = set_nnext t (Some cur) s;
                        s = set_nprev cur (Some t) s
                    in set_nnext cur None s))
      in upd_fcb (tailNode_update (\<lambda>_. Some cur)) s)"

definition RemoveLinkNode :: "nat \<Rightarrow> kernel \<Rightarrow> kernel" where
  "RemoveLinkNode n s =
     (let nd = FlagNodes s n;
          s = (case (nextNode nd, prevNode nd) of
                 (None, None) \<Rightarrow> upd_fcb (\<lambda>c. c\<lparr>headNode := None, tailNode := None\<rparr>) s
               | (None, Some k) \<Rightarrow> set_nnext k None (upd_fcb (tailNode_update (\<lambda>_. Some k)) s)
               | (Some j, None) \<Rightarrow> set_nprev j None (upd_fcb (headNode_update (\<lambda>_. Some j)) s)
               | (Some j, Some k) \<Rightarrow> set_nnext k (Some j) (set_nprev j (Some k) s))
      in set_pnode (waitTask nd) PnodeNull s)"

text \<open>Take a node out, wake its task and go on with the next node.\<close>

definition RemoveFromLink :: "nat \<Rightarrow> kernel \<Rightarrow> ptr \<times> kernel" where
  "RemoveFromLink n s =
     (let s = RemoveLinkNode n s;
          i = waitTask (FlagNodes s n);
          s = leave_delay i s;
          s = set_pnode i PnodeWoken s;
          s = wake i s
      in (nextNode (FlagNodes s n), s))"

section \<open>The interface functions\<close>

definition CoCreateFlag :: "unlock \<Rightarrow> U8 \<Rightarrow> U8 \<Rightarrow> kernel \<Rightarrow> U8 \<times> kernel" where
  "CoCreateFlag u bAutoReset bInitialState s =
     (let s = OsSchedLock s
      in case first_free 0 FLAG_MAX_NUM (flagActive (FlagCrl s)) of
           None \<Rightarrow> (E_CREATE_FAIL, u s)
         | Some i \<Rightarrow>
             (word_of_nat i, u (upd_fcb (\<lambda>c. c\<lparr>flagActive := flagActive c OR push_bit i 1,
                flagRdy := flagRdy c OR push_bit i (ucast bInitialState),
                resetOpt := resetOpt c OR push_bit i (ucast bAutoReset)\<rparr>) s)))"

text \<open>The walk over the waiting nodes on deletion; \<open>None\<close>: a waiter forbids it.\<close>

fun del_flag_loop :: "nat \<Rightarrow> U32 \<Rightarrow> U8 \<Rightarrow> ptr \<Rightarrow> kernel \<Rightarrow> kernel option" where
  "del_flag_loop k b opt None s = Some s"
| "del_flag_loop 0 b opt (Some n) s = Some (s\<lparr>hang := True\<rparr>)"
| "del_flag_loop (Suc k) b opt (Some n) s =
     (let nd = FlagNodes s n
      in if waitFlags nd AND b \<noteq> 0 then
           (if opt = OPT_DEL_NO_PEND then None
            else if opt = OPT_DEL_ANYWAY then
              (if waitType nd = OPT_WAIT_ALL \<and> waitFlags nd \<noteq> b then
                 (let s = upd_node n (\<lambda>x. x\<lparr>waitFlags := waitFlags x AND NOT b\<rparr>) s
                  in del_flag_loop k b opt (nextNode (FlagNodes s n)) s)
               else (case RemoveFromLink n s of (p, s) \<Rightarrow> del_flag_loop k b opt p s))
            else del_flag_loop k b opt (nextNode nd) s)
         else del_flag_loop k b opt (nextNode nd) s)"

definition CoDelFlag :: "unlock \<Rightarrow> U8 \<Rightarrow> U8 \<Rightarrow> kernel \<Rightarrow> U8 \<times> kernel" where
  "CoDelFlag u i opt s =
     (if OSIntNesting s > 0 then (E_CALL, s)
      else if flagActive (FlagCrl s) AND flag_bit i = 0 then (E_INVALID_ID, s)
      else
        (let s = OsSchedLock s
         in case del_flag_loop TASK_NUM (flag_bit i) opt (headNode (FlagCrl s)) s of
              None \<Rightarrow> (E_TASK_WAITING, u s)
            | Some s \<Rightarrow>
                (E_OK, u (upd_fcb (\<lambda>c. c\<lparr>flagActive := flagActive c AND NOT (flag_bit i),
                   flagRdy := flagRdy c AND NOT (flag_bit i),
                   resetOpt := resetOpt c AND NOT (flag_bit i)\<rparr>) s))))"

text \<open>Clearing the auto-reset ones among the flags a task has been given.\<close>

definition consume :: "U32 \<Rightarrow> kernel \<Rightarrow> kernel" where
  "consume fs = upd_fcb (\<lambda>c. c\<lparr>flagRdy := flagRdy c AND NOT (fs AND resetOpt c)\<rparr>)"

definition CoAcceptSingleFlag :: "unlock \<Rightarrow> U8 \<Rightarrow> kernel \<Rightarrow> U8 \<times> kernel" where
  "CoAcceptSingleFlag u i s =
     (if unat i \<ge> FLAG_MAX_NUM then (E_INVALID_ID, s)
      else if flagActive (FlagCrl s) AND flag_bit i = 0 then (E_INVALID_ID, s)
      else if flagRdy (FlagCrl s) AND flag_bit i \<noteq> 0 then
        (E_OK, u (consume (flag_bit i) (OsSchedLock s)))
      else (E_FLAG_NOT_READY, s))"

definition CoAcceptMultipleFlags :: "unlock \<Rightarrow> U32 \<Rightarrow> U8 \<Rightarrow> kernel \<Rightarrow> (U32 \<times> U8) \<times> kernel" where
  "CoAcceptMultipleFlags u flags ty s =
     (if flags AND flagActive (FlagCrl s) \<noteq> flags then ((0, E_INVALID_PARAMETER), s)
      else
        (let springFlag = flags AND flagRdy (FlagCrl s);
             s = OsSchedLock s
         in if springFlag \<noteq> 0 \<and> ty = OPT_WAIT_ANY \<or> springFlag = flags \<and> ty = OPT_WAIT_ALL then
              ((springFlag, E_OK), u (consume springFlag s))
            else ((0, E_FLAG_NOT_READY), u s)))"

definition CoWaitForSingleFlag_resume :: "unlock \<Rightarrow> U8 \<Rightarrow> U32 \<Rightarrow> nat \<Rightarrow> kernel \<Rightarrow> U8 \<times> kernel" where
  "CoWaitForSingleFlag_resume u i timeout cur s =
     (if timeout \<noteq> 0 \<and> pnode (TCBTbl s cur) = PnodeNull then (E_TIMEOUT, s)
      else (E_OK, u (consume (flag_bit i) (OsSchedLock (set_pnode cur PnodeNull s)))))"

text \<open>Joining the list of waiting tasks, for ever or with a time-out.\<close>

definition flag_wait :: "U32 \<Rightarrow> U8 \<Rightarrow> U32 \<Rightarrow> nat \<Rightarrow> kernel \<Rightarrow> kernel" where
  "flag_wait flags ty timeout cur s =
     (let s = FlagBlock cur flags ty s
      in if timeout = 0 then (set_state cur TASK_WAITING s)\<lparr>TaskSchedReq := True\<rparr>
         else InsertDelayList cur timeout s)"

definition CoWaitForSingleFlag :: "unlock \<Rightarrow> U8 \<Rightarrow> U32 \<Rightarrow> kernel \<Rightarrow> U8 outcome \<times> kernel" where
  "CoWaitForSingleFlag u i timeout s =
     (if OSIntNesting s > 0 then (Done E_CALL, s)
      else if OSSchedLock s \<noteq> 0 then (Done E_OS_IN_LOCK, s)
      else if unat i \<ge> FLAG_MAX_NUM then (Done E_INVALID_ID, s)
      else if flagActive (FlagCrl s) AND flag_bit i = 0 then (Done E_INVALID_ID, s)
      else
        (let s = OsSchedLock s
         in if flagRdy (FlagCrl s) AND flag_bit i \<noteq> 0 then (Done E_OK, u (consume (flag_bit i) s))
            else
              with_running E_OK
                (\<lambda>cur s. block_then (CoWaitForSingleFlag_resume u i timeout) cur
                   (u (flag_wait (flag_bit i) OPT_WAIT_ONE timeout cur s)))
                s))"

definition CoWaitForMultipleFlags_resume ::
    "unlock \<Rightarrow> U32 \<Rightarrow> U32 \<Rightarrow> nat \<Rightarrow> kernel \<Rightarrow> (U32 \<times> U8) \<times> kernel" where
  "CoWaitForMultipleFlags_resume u flags timeout cur s =
     (if timeout \<noteq> 0 \<and> pnode (TCBTbl s cur) = PnodeNull then ((0, E_TIMEOUT), s)
      else
        (let s = OsSchedLock (set_pnode cur PnodeNull s);
             springFlag = flags AND flagRdy (FlagCrl s)
         in ((springFlag, E_OK), u (consume springFlag s))))"

definition CoWaitForMultipleFlags ::
    "unlock \<Rightarrow> U32 \<Rightarrow> U8 \<Rightarrow> U32 \<Rightarrow> kernel \<Rightarrow> (U32 \<times> U8) outcome \<times> kernel" where
  "CoWaitForMultipleFlags u flags ty timeout s =
     (if OSIntNesting s > 0 then (Done (0, E_CALL), s)
      else if OSSchedLock s \<noteq> 0 then (Done (0, E_OS_IN_LOCK), s)
      else if flags AND flagActive (FlagCrl s) \<noteq> flags then (Done (0, E_INVALID_PARAMETER), s)
      else
        (let s = OsSchedLock s;
             springFlag = flags AND flagRdy (FlagCrl s)
         in if springFlag \<noteq> 0 \<and> ty = OPT_WAIT_ANY \<or> springFlag = flags \<and> ty = OPT_WAIT_ALL then
              (Done (springFlag, E_OK), u (consume springFlag s))
            else
              with_running (0, E_OK)
                (\<lambda>cur s. block_then (CoWaitForMultipleFlags_resume u flags timeout) cur
                   (u (flag_wait flags ty timeout cur s)))
                s))"

definition CoClearFlag :: "U8 \<Rightarrow> kernel \<Rightarrow> U8 \<times> kernel" where
  "CoClearFlag i s =
     (if unat i \<ge> FLAG_MAX_NUM then (E_INVALID_ID, s)
      else if flagActive (FlagCrl s) AND flag_bit i = 0 then (E_INVALID_ID, s)
      else (E_OK, upd_fcb (\<lambda>c. c\<lparr>flagRdy := flagRdy c AND NOT (flag_bit i)\<rparr>) s))"

text \<open>Whether a node's wait is over with the flags that are ready.\<close>

definition node_ready :: "U32 \<Rightarrow> flag_node \<Rightarrow> bool" where
  "node_ready rdy nd \<longleftrightarrow>
     (if waitType nd = OPT_WAIT_ALL then waitFlags nd AND rdy = waitFlags nd
      else waitFlags nd AND rdy \<noteq> 0)"

fun set_flag_loop :: "nat \<Rightarrow> U32 \<Rightarrow> ptr \<Rightarrow> kernel \<Rightarrow> kernel" where
  "set_flag_loop k b None s = s"
| "set_flag_loop 0 b (Some n) s = s\<lparr>hang := True\<rparr>"
| "set_flag_loop (Suc k) b (Some n) s =
     (if node_ready (flagRdy (FlagCrl s)) (FlagNodes s n) then
        (case RemoveFromLink n s of
           (p, s) \<Rightarrow> if resetOpt (FlagCrl s) AND b \<noteq> 0 then s else set_flag_loop k b p s)
      else set_flag_loop k b (nextNode (FlagNodes s n)) s)"

definition CoSetFlag :: "unlock \<Rightarrow> U8 \<Rightarrow> kernel \<Rightarrow> U8 \<times> kernel" where
  "CoSetFlag u i s =
     (if unat i \<ge> FLAG_MAX_NUM then (E_INVALID_ID, s)
      else if flagActive (FlagCrl s) AND flag_bit i = 0 then (E_INVALID_ID, s)
      else if flagRdy (FlagCrl s) AND flag_bit i \<noteq> 0 then (E_OK, s)
      else
        (let s = upd_fcb (\<lambda>c. c\<lparr>flagRdy := flagRdy c OR flag_bit i\<rparr>) s;
             s = OsSchedLock s;
             s = set_flag_loop TASK_NUM (flag_bit i) (headNode (FlagCrl s)) s
         in (E_OK, u s)))"

definition isr_SetFlag :: "unlock \<Rightarrow> U8 \<Rightarrow> kernel \<Rightarrow> U8 \<times> kernel" where
  "isr_SetFlag u i s =
     (if OSSchedLock s > 0 then
        (case InsertInSRQ FLAG_REQ i 0 s of
           (False, s) \<Rightarrow> (E_SEV_REQ_FULL, s)
         | (True, s) \<Rightarrow> (E_OK, s))
      else CoSetFlag u i s)"

end
