(* ===== verification/CoOS_Timer.thy ===== *)
theory CoOS_Timer
  imports CoOS_Srq
begin

text \<open>
  Software timers (\<open>timer.c\<close>), kept in a delta list of their own. The callback of a
  timer is application code: it is a parameter \<open>cb\<close>, applied to the address stored
  in the control block.
\<close>

section \<open>The timer list\<close>

definition upd_tmr :: "nat \<Rightarrow> (tmrctrl \<Rightarrow> tmrctrl) \<Rightarrow> kernel \<Rightarrow> kernel" where
  "upd_tmr i f s = TmrTbl_update (\<lambda>t. t(i := f (t i))) s"

definition upd_tmrp :: "ptr \<Rightarrow> (tmrctrl \<Rightarrow> tmrctrl) \<Rightarrow> kernel \<Rightarrow> kernel" where
  "upd_tmrp p f s = (case p of None \<Rightarrow> s\<lparr>fault := True\<rparr> | Some i \<Rightarrow> upd_tmr i f s)"

abbreviation set_tnext :: "nat \<Rightarrow> ptr \<Rightarrow> kernel \<Rightarrow> kernel" where
  "set_tnext i v \<equiv> upd_tmr i (tmrNext_update (\<lambda>_. v))"

abbreviation set_tprev :: "nat \<Rightarrow> ptr \<Rightarrow> kernel \<Rightarrow> kernel" where
  "set_tprev i v \<equiv> upd_tmr i (tmrPrev_update (\<lambda>_. v))"

abbreviation set_tcnt :: "nat \<Rightarrow> U32 \<Rightarrow> kernel \<Rightarrow> kernel" where
  "set_tcnt i v \<equiv> upd_tmr i (tmrCnt_update (\<lambda>_. v))"

definition tmr_next :: "kernel \<Rightarrow> nat \<Rightarrow> ptr" where "tmr_next s i = tmrNext (TmrTbl s i)"
definition tmr_prev :: "kernel \<Rightarrow> nat \<Rightarrow> ptr" where "tmr_prev s i = tmrPrev (TmrTbl s i)"
definition tmr_cnt :: "kernel \<Rightarrow> nat \<Rightarrow> U32" where "tmr_cnt s i = tmrCnt (TmrTbl s i)"

definition tmr_link_before :: "nat \<Rightarrow> nat \<Rightarrow> nat \<Rightarrow> U32 \<Rightarrow> kernel \<Rightarrow> kernel" where
  "tmr_link_before i h v deltaTicks s =
     (let s = (case tmrPrev (TmrTbl s v) of
                 Some q \<Rightarrow>
                   (let s = set_tnext q (Some i) s;
                        s = set_tprev i (Some q) s;
                        s = set_tnext i (Some v) s
                    in set_tprev v (Some i) s)
               | None \<Rightarrow>
                   (let s = set_tnext i (Some h) s;
                        s = set_tprev h (Some i) s
                    in s\<lparr>TmrList := Some i\<rparr>));
          nx = tmrNext (TmrTbl s i)
      in case nx of
           None \<Rightarrow> s\<lparr>fault := True\<rparr>
         | Some n \<Rightarrow>
             (let s = set_tcnt i (tmrCnt (TmrTbl s n) + deltaTicks) s
              in upd_tmr n (\<lambda>t. t\<lparr>tmrCnt := tmrCnt t - tmrCnt (TmrTbl s i)\<rparr>) s))"

text \<open>The work of \<open>InsertTmrList\<close> and \<open>RemoveTmrList\<close> between their lock and unlock.\<close>

definition tmr_link :: "nat \<Rightarrow> kernel \<Rightarrow> kernel" where
  "tmr_link i s =
     (case TmrList s of
        None \<Rightarrow> s\<lparr>TmrList := Some i\<rparr>
      | Some h \<Rightarrow>
          (case delta_scan CFG_MAX_TMR (tmr_next s) (tmr_cnt s) (tmrCnt (TmrTbl s i)) h of
             None \<Rightarrow> s\<lparr>hang := True\<rparr>
           | Some (v, deltaTicks, before) \<Rightarrow>
               if before then tmr_link_before i h v deltaTicks s
               else (let s = set_tprev i (Some v) s;
                         s = set_tnext v (Some i) s
                     in set_tcnt i deltaTicks s)))"

definition InsertTmrList :: "unlock \<Rightarrow> nat \<Rightarrow> kernel \<Rightarrow> kernel" where
  "InsertTmrList u i s = (if tmrCnt (TmrTbl s i) = 0 then s else u (tmr_link i (OsSchedLock s)))"

definition tmr_unlink :: "nat \<Rightarrow> kernel \<Rightarrow> kernel" where
  "tmr_unlink i s =
     (case (tmrPrev (TmrTbl s i), tmrNext (TmrTbl s i)) of
        (None, None) \<Rightarrow> s\<lparr>TmrList := None\<rparr>
      | (None, Some j) \<Rightarrow>
          (let s = s\<lparr>TmrList := Some j\<rparr>;
               s = set_tprev j None s;
               s = upd_tmr j (\<lambda>x. x\<lparr>tmrCnt := tmrCnt x + tmrCnt (TmrTbl s i)\<rparr>) s
           in set_tnext i None s)
      | (Some k, None) \<Rightarrow>
          (let s = set_tnext k None s
           in set_tprev i None s)
      | (Some k, Some j) \<Rightarrow>
          (let s = set_tnext k (Some j) s;
               s = set_tprev j (Some k) s;
               s = upd_tmr j (\<lambda>x. x\<lparr>tmrCnt := tmrCnt x + tmrCnt (TmrTbl s i)\<rparr>) s;
               s = set_tnext i None s
           in set_tprev i None s))"

definition RemoveTmrList :: "unlock \<Rightarrow> nat \<Rightarrow> kernel \<Rightarrow> kernel" where
  "RemoveTmrList u i s = u (tmr_unlink i (OsSchedLock s))"

section \<open>The interface functions\<close>

text \<open>The timer type is the caller's byte: 0 is one-shot, 1 is periodic.\<close>

definition tmr_type_of :: "U8 \<Rightarrow> tmr_type option" where
  "tmr_type_of b = (if b = 0 then Some TMR_TYPE_ONE_SHOT
     else if b = 1 then Some TMR_TYPE_PERIODIC else None)"

definition CoCreateTmr :: "unlock \<Rightarrow> U8 \<Rightarrow> U32 \<Rightarrow> U32 \<Rightarrow> U32 \<Rightarrow> kernel \<Rightarrow> U8 \<times> kernel" where
  "CoCreateTmr u ty cnt reload func s =
     (case tmr_type_of ty of
        None \<Rightarrow> (E_CREATE_FAIL, s)
      | Some tt \<Rightarrow>
          if func = 0 then (E_CREATE_FAIL, s)
          else
            (let s = OsSchedLock s
             in case first_free 0 CFG_MAX_TMR (TmrIDVessel s) of
                  None \<Rightarrow> (E_CREATE_FAIL, u s)
                | Some i \<Rightarrow>
                    (let s = s\<lparr>TmrIDVessel := TmrIDVessel s OR push_bit i 1\<rparr>;
                         s = u s;
                         s = upd_tmr i (\<lambda>t. t\<lparr>tmrID := word_of_nat i, tmrType := tt,
                               tmrState := TMR_STATE_STOPPED, tmrCnt := cnt, tmrReload := reload,
                               tmrCallBack := func, tmrPrev := None, tmrNext := None\<rparr>) s
                     in (word_of_nat i, s))))"

definition tmr_valid :: "U8 \<Rightarrow> kernel \<Rightarrow> bool" where
  "tmr_valid t s \<longleftrightarrow> unat t < CFG_MAX_TMR \<and> TmrIDVessel s AND push_bit (unat t) 1 \<noteq> 0"

definition CoStartTmr :: "unlock \<Rightarrow> U8 \<Rightarrow> kernel \<Rightarrow> U8 \<times> kernel" where
  "CoStartTmr u t s =
     (let i = unat t
      in if \<not> tmr_valid t s then (E_INVALID_ID, s)
         else if tmrState (TmrTbl s i) = TMR_STATE_RUNNING then (E_OK, s)
         else (E_OK, InsertTmrList u i (upd_tmr i (tmrState_update (\<lambda>_. TMR_STATE_RUNNING)) s)))"

definition CoStopTmr :: "unlock \<Rightarrow> U8 \<Rightarrow> kernel \<Rightarrow> U8 \<times> kernel" where
  "CoStopTmr u t s =
     (let i = unat t
      in if \<not> tmr_valid t s then (E_INVALID_ID, s)
         else if tmrState (TmrTbl s i) = TMR_STATE_STOPPED then (E_OK, s)
         else (E_OK, upd_tmr i (tmrState_update (\<lambda>_. TMR_STATE_STOPPED)) (RemoveTmrList u i s)))"

definition CoDelTmr :: "unlock \<Rightarrow> U8 \<Rightarrow> kernel \<Rightarrow> U8 \<times> kernel" where
  "CoDelTmr u t s =
     (let i = unat t
      in if \<not> tmr_valid t s then (E_INVALID_ID, s)
         else
           (let s = (if tmrState (TmrTbl s i) = TMR_STATE_RUNNING then RemoveTmrList u i s else s)
            in (E_OK, s\<lparr>TmrIDVessel := TmrIDVessel s AND NOT (push_bit i 1)\<rparr>)))"

definition CoGetCurTmrCnt :: "U8 \<Rightarrow> kernel \<Rightarrow> U32 \<times> U8" where
  "CoGetCurTmrCnt t s =
     (if \<not> tmr_valid t s then (0, E_INVALID_ID) else (tmrCnt (TmrTbl s (unat t)), E_OK))"

text \<open>The counter is overwritten before the timer is taken out of the list.\<close>

definition CoSetTmrCnt :: "unlock \<Rightarrow> U8 \<Rightarrow> U32 \<Rightarrow> U32 \<Rightarrow> kernel \<Rightarrow> U8 \<times> kernel" where
  "CoSetTmrCnt u t cnt reload s =
     (let i = unat t
      in if \<not> tmr_valid t s then (E_INVALID_ID, s)
         else
           (let s = upd_tmr i (\<lambda>x. x\<lparr>tmrCnt := cnt, tmrReload := reload\<rparr>) s
            in if tmrState (TmrTbl s i) = TMR_STATE_RUNNING then
                 (E_OK, InsertTmrList u i (RemoveTmrList u i s))
               else (E_OK, s)))"

text \<open>One expired timer: taken out, a periodic one filed again, and its callback run.\<close>

definition tmr_fire :: "unlock \<Rightarrow> (U32 \<Rightarrow> kernel \<Rightarrow> kernel) \<Rightarrow> nat \<Rightarrow> kernel \<Rightarrow> kernel" where
  "tmr_fire u cb i s =
     (case tmrType (TmrTbl s i) of
        TMR_TYPE_ONE_SHOT \<Rightarrow>
          (let s = RemoveTmrList u (unat (tmrID (TmrTbl s i))) s;
               s = upd_tmr i (tmrState_update (\<lambda>_. TMR_STATE_STOPPED)) s
           in cb (tmrCallBack (TmrTbl s i)) s)
      | TMR_TYPE_PERIODIC \<Rightarrow>
          (let s = RemoveTmrList u (unat (tmrID (TmrTbl s i))) s;
               s = upd_tmr i (\<lambda>t. t\<lparr>tmrCnt := tmrReload t\<rparr>) s;
               s = InsertTmrList u (unat (tmrID (TmrTbl s i))) s
           in cb (tmrCallBack (TmrTbl s i)) s))"

text \<open>Without the help of its callbacks the loop fires each timer at most once.\<close>

fun tmr_dispose_loop :: "nat \<Rightarrow> unlock \<Rightarrow> (U32 \<Rightarrow> kernel \<Rightarrow> kernel) \<Rightarrow> kernel \<Rightarrow> kernel" where
  "tmr_dispose_loop k u cb s =
     (case TmrList s of
        None \<Rightarrow> s
      | Some i \<Rightarrow>
          if tmrCnt (TmrTbl s i) \<noteq> 0 then s
          else case k of
                 0 \<Rightarrow> s\<lparr>hang := True\<rparr>
               | Suc k \<Rightarrow> tmr_dispose_loop k u cb (tmr_fire u cb i s))"

declare tmr_dispose_loop.simps [simp del]

definition TmrDispose :: "unlock \<Rightarrow> (U32 \<Rightarrow> kernel \<Rightarrow> kernel) \<Rightarrow> kernel \<Rightarrow> kernel" where
  "TmrDispose u cb s = tmr_dispose_loop CFG_MAX_TMR u cb s"

definition isr_TmrDispose :: "unlock \<Rightarrow> (U32 \<Rightarrow> kernel \<Rightarrow> kernel) \<Rightarrow> kernel \<Rightarrow> kernel" where
  "isr_TmrDispose u cb s =
     (if OSSchedLock s > 1 then s\<lparr>IsrReq := True, TimerReq := True\<rparr> else TmrDispose u cb s)"

section \<open>The timer list is a delta list\<close>

definition tmr_ins :: "nat \<Rightarrow> U32 \<Rightarrow> kernel \<Rightarrow> kernel" where
  "tmr_ins i tk s = tmr_link i (set_tcnt i tk s)"

lemma TmrTbl_upd_tmr [simp]: "TmrTbl (upd_tmr i f s) = (TmrTbl s)(i := f (TmrTbl s i))"
  by (simp add: upd_tmr_def)

lemma TmrList_upd_tmr [simp]: "TmrList (upd_tmr i f s) = TmrList s"
  by (simp add: upd_tmr_def)

lemma tmr_links_upd [simp]:
  "(\<And>t. tmrNext (f t) = tmrNext t) \<Longrightarrow> tmr_next (upd_tmr i f s) = tmr_next s"
  "(\<And>t. tmrPrev (f t) = tmrPrev t) \<Longrightarrow> tmr_prev (upd_tmr i f s) = tmr_prev s"
  "(\<And>t. tmrCnt (f t) = tmrCnt t) \<Longrightarrow> tmr_cnt (upd_tmr i f s) = tmr_cnt s"
  "tmr_next (set_tnext i v s) = (tmr_next s)(i := v)"
  "tmr_prev (set_tprev i v s) = (tmr_prev s)(i := v)"
  "tmr_cnt (set_tcnt i c s) = (tmr_cnt s)(i := c)"
  by (auto simp: tmr_next_def tmr_prev_def tmr_cnt_def)

lemma tmr_links_frame [simp]:
  "tmr_next (TmrList_update g s) = tmr_next s" "tmr_prev (TmrList_update g s) = tmr_prev s"
  "tmr_cnt (TmrList_update g s) = tmr_cnt s"
  by (auto simp: tmr_next_def tmr_prev_def tmr_cnt_def)

interpretation tmr: delta_list tmr_next tmr_prev tmr_cnt TmrList CFG_MAX_TMR tmr_ins tmr_unlink
proof (unfold_locales, goal_cases)
  case (1 tk s i)
  then show ?case by (simp add: tmr_ins_def tmr_link_def)
next
  case (2 tk s h i d)
  then show ?case
    by (auto simp: tmr_ins_def tmr_link_def tmr_link_before_def Let_def delta_scan_upd
        tmr_next_def tmr_prev_def tmr_cnt_def fun_eq_iff)
next
  case (3 tk s h i v q d)
  then show ?case
    by (auto simp: tmr_ins_def tmr_link_def tmr_link_before_def Let_def delta_scan_upd
        tmr_next_def tmr_prev_def tmr_cnt_def fun_eq_iff)
next
  case (4 tk s h i v d)
  then show ?case
    by (auto simp: tmr_ins_def tmr_link_def Let_def delta_scan_upd fun_eq_iff)
next
  case (5 s i)
  then show ?case by (simp add: tmr_unlink_def tmr_next_def tmr_prev_def tmr_cnt_def)
next
  case (6 s i j)
  then show ?case
    by (auto simp: tmr_unlink_def Let_def tmr_next_def tmr_prev_def tmr_cnt_def fun_eq_iff)
next
  case (7 s i k)
  then show ?case by (auto simp: tmr_unlink_def Let_def tmr_next_def tmr_prev_def tmr_cnt_def fun_eq_iff)
next
  case (8 s i k j)
  then show ?case
    by (auto simp: tmr_unlink_def Let_def tmr_next_def tmr_prev_def tmr_cnt_def fun_eq_iff)
qed

end
