(* ===== verification/CoOS_Time.thy ===== *)
theory CoOS_Time
  imports CoOS_Flag CoOS_Timer
begin

text \<open>
  Time management: the delay functions and the expiry of delays (\<open>time.c\<close>) and
  the conversions between time and ticks (\<open>utility.c\<close>).
\<close>

section \<open>Expiry of delays\<close>

definition remove_pnode :: "pnode_ptr \<Rightarrow> kernel \<Rightarrow> kernel" where
  "remove_pnode p s =
     (case p of PnodeNull \<Rightarrow> s | PnodeAt n \<Rightarrow> RemoveLinkNode n s | PnodeWoken \<Rightarrow> s\<lparr>fault := True\<rparr>)"

text \<open>The first task of the delay list leaves every list it is in and gets ready.\<close>

definition drop_waits :: "nat \<Rightarrow> kernel \<Rightarrow> kernel" where
  "drop_waits i s =
     (let s = (if eventID (TCBTbl s i) \<noteq> INVALID_ID then RemoveEventWaittingList i s else s)
      in remove_pnode (pnode (TCBTbl s i)) s)"

definition time_out :: "nat \<Rightarrow> kernel \<Rightarrow> kernel" where
  "time_out i s =
     (let s = drop_waits i s;
          s = set_delay i INVALID_VALUE s;
          s = s\<lparr>DlyList := TCBnext (TCBTbl s i)\<rparr>;
          s = set_next i None s;
          s = InsertToTCBRdyList i s
      in case DlyList s of None \<Rightarrow> s | Some j \<Rightarrow> set_prev j None s)"

fun time_dispose_loop :: "nat \<Rightarrow> kernel \<Rightarrow> kernel" where
  "time_dispose_loop k s =
     (case DlyList s of
        None \<Rightarrow> s
      | Some i \<Rightarrow>
          if delayTick (TCBTbl s i) \<noteq> 0 then s
          else case k of 0 \<Rightarrow> s\<lparr>hang := True\<rparr> | Suc k \<Rightarrow> time_dispose_loop k (time_out i s))"

declare time_dispose_loop.simps [simp del]

definition TimeDispose :: "kernel \<Rightarrow> kernel" where
  "TimeDispose s = time_dispose_loop TASK_NUM s"

definition isr_TimeDispose :: "kernel \<Rightarrow> kernel" where
  "isr_TimeDispose s =
     (if OSSchedLock s > 1 then s\<lparr>IsrReq := True, TimeReq := True\<rparr> else TimeDispose s)"

section \<open>Delays\<close>

definition CoGetOSTime :: "kernel \<Rightarrow> U64" where
  "CoGetOSTime s = OSTickCnt s"

definition CoTickDelay :: "unlock \<Rightarrow> U32 \<Rightarrow> kernel \<Rightarrow> U8 outcome \<times> kernel" where
  "CoTickDelay u ticks s =
     (if OSIntNesting s > 0 then (Done E_CALL, s)
      else if ticks = INVALID_VALUE then (Done E_INVALID_PARAMETER, s)
      else if ticks = 0 then (Done E_OK, s)
      else if OSSchedLock s \<noteq> 0 then (Done E_OS_IN_LOCK, s)
      else
        with_running E_OK
          (\<lambda>cur s. block_then (\<lambda>_ s. (E_OK, s)) cur (u (InsertDelayList cur ticks s)))
          (OsSchedLock s))"

definition CoResetTaskDelayTick :: "unlock \<Rightarrow> U8 \<Rightarrow> U32 \<Rightarrow> kernel \<Rightarrow> U8 \<times> kernel" where
  "CoResetTaskDelayTick u tid ticks s =
     (let i = unat tid
      in if i \<ge> TASK_NUM then (E_INVALID_ID, s)
         else if stkPtr (TCBTbl s i) = 0 then (E_INVALID_ID, s)
         else if delayTick (TCBTbl s i) = INVALID_VALUE then (E_NOT_IN_DELAY_LIST, s)
         else
           (let s = OsSchedLock s;
                s = RemoveDelayList i s;
                s = (if ticks = 0 then InsertToTCBRdyList i s else InsertDelayList i ticks s)
            in (E_OK, u s)))"

text \<open>Hours, minutes, seconds and milliseconds in ticks, to the nearest tick.\<close>

definition time_to_ticks :: "U8 \<Rightarrow> U8 \<Rightarrow> U8 \<Rightarrow> U16 \<Rightarrow> U32" where
  "time_to_ticks hour minute sec millsec =
     word_of_nat ((unat hour * 3600 + unat minute * 60 + unat sec) * CFG_SYSTICK_FREQ
       + (unat millsec * CFG_SYSTICK_FREQ + 500) div 1000)"

definition CoTimeDelay :: "unlock \<Rightarrow> U8 \<Rightarrow> U8 \<Rightarrow> U8 \<Rightarrow> U16 \<Rightarrow> kernel \<Rightarrow> U8 outcome \<times> kernel" where
  "CoTimeDelay u hour minute sec millsec s =
     (if OSIntNesting s > 0 then (Done E_CALL, s)
      else if minute > 59 \<or> sec > 59 \<or> millsec > 999 then (Done E_INVALID_PARAMETER, s)
      else if OSSchedLock s \<noteq> 0 then (Done E_OS_IN_LOCK, s)
      else
        (case CoTickDelay u (time_to_ticks hour minute sec millsec) s of
           (Blocked, s) \<Rightarrow> (Blocked, s)
         | (Done _, s) \<Rightarrow> (Done E_OK, s)))"

section \<open>Conversions\<close>

definition CoTimeToTick :: "U8 \<Rightarrow> U8 \<Rightarrow> U8 \<Rightarrow> U16 \<Rightarrow> U8 + U32" where
  "CoTimeToTick hour minute sec millsec =
     (if minute > 59 \<or> sec > 59 \<or> millsec > 999 then Inl E_INVALID_PARAMETER
      else Inr (time_to_ticks hour minute sec millsec))"

definition CoTickToTime :: "U32 \<Rightarrow> U8 \<times> U8 \<times> U8 \<times> U16" where
  "CoTickToTime ticks =
     (let total = ticks * word_of_nat (1000 div CFG_SYSTICK_FREQ);
          millsec = ucast (total mod 1000);
          total = total div 1000;
          sec = ucast (total mod 60);
          total = total div 60;
          minute = ucast (total mod 60);
          total = total div 60
      in (ucast total, minute, sec, millsec))"

section \<open>Which tasks an expiry makes ready\<close>

lemma RemoveEventWaittingList_same: "same_lists (RemoveEventWaittingList i s) s"
  by (simp add: same_lists_def RemoveEventWaittingList_def Let_def split: option.split)

lemma flag_frame [simp]:
  "tnext (upd_node n f s) = tnext s" "tprev (upd_node n f s) = tprev s" "delay_of (upd_node n f s) = delay_of s"
  "task_prio (upd_node n f s) = task_prio s" "TCBRdy (upd_node n f s) = TCBRdy s" "DlyList (upd_node n f s) = DlyList s"
  "tnext (upd_fcb g s) = tnext s" "tprev (upd_fcb g s) = tprev s" "delay_of (upd_fcb g s) = delay_of s"
  "task_prio (upd_fcb g s) = task_prio s" "TCBRdy (upd_fcb g s) = TCBRdy s" "DlyList (upd_fcb g s) = DlyList s"
  by (auto simp: upd_node_def upd_fcb_def delay_of_def task_prio_def)

lemma RemoveLinkNode_same: "same_lists (RemoveLinkNode n s) s"
  by (simp add: same_lists_def RemoveLinkNode_def Let_def split: option.split)

lemma remove_pnode_same: "same_lists (remove_pnode p s) s"
  using RemoveLinkNode_same by (simp add: remove_pnode_def same_lists_def split: pnode_ptr.split)

lemma drop_waits_same: "same_lists (drop_waits i s) s"
  using same_lists_trans [OF remove_pnode_same RemoveEventWaittingList_same]
  by (simp add: drop_waits_def Let_def remove_pnode_same)

lemma delay_head:
  assumes "delays s = (i, e) # rest"
  shows "delay_list s = i # map fst rest" "e = ticks_of (delay_of s) i"
    "rest = expiry (ticks_of (delay_of s)) e (map fst rest)"
proof -
  show dl: "delay_list s = i # map fst rest" using map_fst_delays [of s] assms by simp
  have "delays s = (i, ticks_of (delay_of s) i) # expiry (ticks_of (delay_of s)) (ticks_of (delay_of s) i) (map fst rest)"
    by (simp add: delays_def dl)
  then have "e = ticks_of (delay_of s) i \<and>
      rest = expiry (ticks_of (delay_of s)) (ticks_of (delay_of s) i) (map fst rest)"
    using assms by (metis list.inject prod.inject)
  then show "e = ticks_of (delay_of s) i" "rest = expiry (ticks_of (delay_of s)) e (map fst rest)"
    by metis+
qed

lemma time_out_refines:
  assumes ok: "lists_ok s" and d: "delays s = (i, 0) # rest"
  shows "lists_ok (time_out i s) \<and> delays (time_out i s) = rest
    \<and> ready_list (time_out i s) = insert_by (task_prio s) i (ready_list s)
    \<and> task_prio (time_out i s) = task_prio s"
proof -
  define a where "a = drop_waits i s"
  have "same_lists a s" unfolding a_def by (rule drop_waits_same)
  note A = same_listsD [OF this] and sl = this [unfolded same_lists_def]
  define ds where "ds = map fst rest"
  have dl: "delay_list s = i # ds" using delay_head(1) [OF d] by (simp add: ds_def)
  have wf: "dll (tnext s) (tprev s) (DlyList s) (i # ds)" "set (i # ds) \<subseteq> {..<TASK_NUM}"
    "sum_list (map (ticks_of (delay_of s)) (i # ds)) < 2 ^ 31" "ready_ok s" "set (ready_list s) \<inter> set (i # ds) = {}"
    using ok dl by (auto simp: lists_ok_def delay_ok_def delta_wf_def)
  have nx: "TCBnext (TCBTbl a i) = first_or ds None" "tprev s i = None" "distinct (i # ds)"
    using wf(1) sl by (auto simp: dll_def tnext_def fun_eq_iff)
  define b where "b = set_next i None ((set_delay i INVALID_VALUE a)\<lparr>DlyList := first_or ds None\<rparr>)"
  have b: "tnext b = (tnext s)(i := None)" "tprev b = tprev s" "TCBRdy b = TCBRdy s" "task_prio b = task_prio s"
    "DlyList b = first_or ds None"
    using sl by (simp_all add: b_def)
  have rb: "ready_ok b" "ready_list b = ready_list s"
    using b wf(5) by (intro ready_ok_frame [OF b(3,4) _ wf(4)]; auto)+
  have ib: "i < TASK_NUM" "i \<notin> set (ready_list b)" "unlinked b i"
    using wf(2,5) rb nx b by (auto simp: unlinked_def)
  define c where "c = InsertToTCBRdyList i b"
  note I = InsertToTCBRdyList_refines [OF rb(1) ib, folded c_def]
  have out: "time_out i s = (case first_or ds None of None \<Rightarrow> c | Some j \<Rightarrow> set_prev j None c)"
    unfolding time_out_def Let_def a_def [symmetric]
    by (simp add: c_def b_def nx(1) split: option.split)
  have c: "DlyList c = first_or ds None" "task_prio c = task_prio s" by (simp_all add: c_def b)
  have dc: "delay_of c x = delay_of s x" if "x \<noteq> i" for x
  proof -
    have "delay_of c x = delay_of b x"
      using strip_fields(13) [OF InsertToTCBRdyList_strip, of i b x] that by (simp add: delay_of_def c_def)
    then show ?thesis using that sl by (simp add: b_def)
  qed
  have lk: "tnext c x = tnext s x \<and> tprev c x = tprev s x" if "x \<in> set ds" for x
  proof -
    have "x \<notin> insert i (set (ready_list b))" using that wf(5) nx(3) rb by auto
    then show ?thesis using I(4) b that nx(3) by auto
  qed
  let ?o = "time_out i s"
  have o: "tnext ?o = tnext c" "TCBRdy ?o = TCBRdy c" "task_prio ?o = task_prio s" "DlyList ?o = first_or ds None"
    "\<And>x. x \<notin> set ds \<Longrightarrow> tprev ?o x = tprev c x" "delay_of ?o = delay_of c"
    using c by (auto simp: out task_prio_def set_prev_def split: option.split dest!: first_or_Some_in)
  have dlo: "dll (tnext ?o) (tprev ?o) (DlyList ?o) ds"
  proof (cases ds)
    case (Cons j ws)
    have "dll ((tnext s)(i := None)) ((tprev s)(j := None)) (Some j) (j # ws)"
      using dll_remove_front [of "tnext s" "tprev s" "DlyList s" i j ws] wf(1) Cons by simp
    then have "dll (tnext ?o) (tprev ?o) (Some j) (j # ws)"
      by (rule dll_frame) (use lk nx(3) Cons o(1) in \<open>auto simp: out\<close>)
    then show ?thesis using o(4) Cons by simp
  qed (simp add: o)
  have t: "ticks_of (delay_of ?o) x = ticks_of (delay_of s) x" if "x \<in> set ds" for x
  proof -
    have "x \<noteq> i" using that nx(3) by auto
    then show ?thesis using dc o(6) by (simp add: ticks_of_def)
  qed
  have "delta_wf TASK_NUM (tnext ?o) (tprev ?o) (delay_of ?o) (DlyList ?o) ds"
    using dlo wf(2,3) t by (simp add: delta_wf_def cong: map_cong)
  note D = delay_listI [OF this]
  have "delays ?o = expiry (ticks_of (delay_of s)) 0 ds"
    unfolding delays_def D(2) using t by (intro expiry_cong) simp
  then have "delays ?o = rest" using delay_head(3) [OF d] by (simp add: ds_def)
  moreover have "tnext ?o x = tnext c x \<and> tprev ?o x = tprev c x" if "x \<in> set (ready_list c)" for x
  proof -
    have "x \<notin> set ds" using that I(2) rb(2) wf(5) nx(3) by auto
    then show ?thesis using o(1,5) by simp
  qed
  note ready_ok_frame [OF o(2) _ this I(1)]
  ultimately show ?thesis
    using D I(2) rb b wf(5) nx(3) o(3) c(2) by (auto simp: lists_ok_def)
qed

lemma time_dispose_refines:
  "lists_ok s \<Longrightarrow> length (delays s) \<le> k \<Longrightarrow>
    lists_ok (time_dispose_loop k s)
    \<and> delays (time_dispose_loop k s) = dropWhile (\<lambda>(_, e). e = 0) (delays s)
    \<and> ready_list (time_dispose_loop k s)
        = fold (insert_by (task_prio s)) (map fst (takeWhile (\<lambda>(_, e). e = 0) (delays s))) (ready_list s)"
proof (induction k arbitrary: s)
  case 0
  then have "delays s = []" by simp
  moreover from this have "DlyList s = None"
    using 0(1) map_fst_delays [of s] by (auto simp: lists_ok_def delay_ok_def delta_wf_def dll_def)
  ultimately show ?case using 0 by (simp add: time_dispose_loop.simps)
next
  case (Suc k)
  show ?case
  proof (cases "delays s")
    case Nil
    then have "DlyList s = None"
      using Suc.prems(1) map_fst_delays [of s] by (auto simp: lists_ok_def delay_ok_def delta_wf_def dll_def)
    then show ?thesis using Suc.prems Nil by (simp add: time_dispose_loop.simps)
  next
    case (Cons p rest)
    obtain i e where p: "p = (i, e)" by (cases p)
    note H = delay_head [OF Cons [unfolded p]]
    have hd: "DlyList s = Some i"
      using Suc.prems(1) H(1) by (auto simp: lists_ok_def delay_ok_def delta_wf_def dll_def)
    have e: "delayTick (TCBTbl s i) = 0 \<longleftrightarrow> e = 0"
      using H(2) by (simp add: ticks_of_def delay_of_def unat_eq_0)
    show ?thesis
    proof (cases "e = 0")
      case True
      note T = time_out_refines [OF Suc.prems(1), of i rest]
      have "time_dispose_loop (Suc k) s = time_dispose_loop k (time_out i s)"
        using hd e True by (subst time_dispose_loop.simps) simp
      then show ?thesis
        using Suc.IH [of "time_out i s"] T Cons p True Suc.prems by simp
    next
      case False
      have "time_dispose_loop (Suc k) s = s" using hd e False by (subst time_dispose_loop.simps) simp
      then show ?thesis using Suc.prems Cons p False by simp
    qed
  qed
qed

lemma TimeDispose_refines:
  assumes "lists_ok s"
  shows "lists_ok (TimeDispose s)"
    "delays (TimeDispose s) = dropWhile (\<lambda>(_, e). e = 0) (delays s)"
    "ready_list (TimeDispose s)
        = fold (insert_by (task_prio s)) (map fst (takeWhile (\<lambda>(_, e). e = 0) (delays s))) (ready_list s)"
proof -
  have "distinct (delay_list s)" "set (delay_list s) \<subseteq> {..<TASK_NUM}"
    using assms by (auto simp: lists_ok_def delay_ok_def delta_wf_def dll_def)
  then have "length (delays s) \<le> TASK_NUM"
    using length_bounded map_fst_delays [of s] by (metis length_map)
  from time_dispose_refines [OF assms this] show "lists_ok (TimeDispose s)"
    "delays (TimeDispose s) = dropWhile (\<lambda>(_, e). e = 0) (delays s)"
    "ready_list (TimeDispose s)
        = fold (insert_by (task_prio s)) (map fst (takeWhile (\<lambda>(_, e). e = 0) (delays s))) (ready_list s)"
    by (simp_all add: TimeDispose_def)
qed

section \<open>Time and ticks\<close>

lemma unat_time_to_ticks:
  "unat (time_to_ticks h m s ms) = (unat h * 3600 + unat m * 60 + unat s) * 100 + (unat ms * 100 + 500) div 1000"
proof -
  have b: "unat h < 2 ^ 8" "unat m < 2 ^ 8" "unat s < 2 ^ 8" "unat ms < 2 ^ 16"
    using unsigned_less [of h, where ?'a = nat] unsigned_less [of m, where ?'a = nat]
      unsigned_less [of s, where ?'a = nat] unsigned_less [of ms, where ?'a = nat] by simp_all
  then have "(unat ms * 100 + 500) div 1000 < 6555" by simp
  with b have "(unat h * 3600 + unat m * 60 + unat s) * 100 + (unat ms * 100 + 500) div 1000 < 2 ^ 32" by simp
  moreover have "unat (word_of_nat n :: U32) = n" if "n < 2 ^ 32" for n using that by (simp add: unat_of_nat)
  ultimately show ?thesis unfolding time_to_ticks_def cfg_defs by blast
qed

text \<open>Taking a number of milliseconds apart, on natural numbers.\<close>

lemma time_parts:
  assumes "m < 60" "s < 60" "ms < (1000::nat)" "n = ((h * 60 + m) * 60 + s) * 1000 + ms"
  shows "n mod 1000 = ms" "n div 1000 mod 60 = s" "n div 1000 div 60 mod 60 = m" "n div 1000 div 60 div 60 = h"
proof -
  show "n mod 1000 = ms" unfolding assms(4) using assms(3) by (simp only: mod_mult_self3 mod_less)
  have a: "n div 1000 = (h * 60 + m) * 60 + s" using assms(3,4) by simp
  show "n div 1000 mod 60 = s" unfolding a using assms(2) by (simp only: mod_mult_self3) simp
  have b: "n div 1000 div 60 = h * 60 + m" unfolding a using assms(2) by simp
  show "n div 1000 div 60 mod 60 = m" "n div 1000 div 60 div 60 = h" unfolding b using assms(1) by simp_all
qed

lemma time_round_trip:
  assumes r: "m \<le> 59" "s \<le> 59" "ms \<le> 999" and ms: "10 dvd unat ms"
  shows "CoTickToTime (time_to_ticks h m s ms) = (h, m, s, ms)"
proof -
  let ?t = "time_to_ticks h m s ms"
  have b: "unat m < 60" "unat s < 60" "unat ms < 1000" using r by (simp_all add: word_le_nat_alt)
  obtain k where k: "unat ms = 10 * k" using ms by blast
  have "(unat ms * 100 + 500) div 1000 = k" using k by simp
  then have t: "unat ?t * 10 = ((unat h * 60 + unat m) * 60 + unat s) * 1000 + unat ms"
    using k by (simp add: unat_time_to_ticks)
  have "unat h < 256" using unsigned_less [of h, where ?'a = nat] by simp
  then have "unat ?t * 10 < 2 ^ 32" unfolding t using b by simp
  then have "unat (?t * 10) = unat ?t * 10" by (simp add: unat_word_ariths)
  note P = time_parts [OF b, of "unat (?t * 10)" "unat h", unfolded this, OF t]
  have c: "(word_of_nat (1000 div CFG_SYSTICK_FREQ) :: U32) = 10" by (simp add: cfg_defs)
  have U: "unat (?t * 10 mod 1000) = unat ms" "unat (?t * 10 div 1000 mod 60) = unat s"
    "unat (?t * 10 div 1000 div 60 mod 60) = unat m" "unat (?t * 10 div 1000 div 60 div 60) = unat h"
    using P \<open>unat (?t * 10) = unat ?t * 10\<close> by (simp_all add: unat_div unat_mod)
  have w: "unat x = unat y \<Longrightarrow> ucast x = y" for x :: U32 and y :: "'b::len word"
  proof -
    assume u: "unat x = unat y"
    have "unat (ucast x :: 'b word) = take_bit LENGTH('b) (unat x)" by (simp add: unsigned_ucast_eq)
    also have "\<dots> = unat y" unfolding u by (simp add: take_bit_nat_eq_self_iff)
    finally show ?thesis by (simp add: word_unat_eq_iff)
  qed
  show ?thesis
    unfolding CoTickToTime_def Let_def c using w [OF U(1)] w [OF U(2)] w [OF U(3)] w [OF U(4)] by simp
qed

end
