(* ===== verification/CoOS_Service.thy ===== *)
theory CoOS_Service
  imports CoOS_Queue CoOS_Time
begin

text \<open>
  The end of a critical section: \<open>RespondSRQ\<close> (\<open>serviceReq.c\<close>) carries out what
  interrupt handlers requested while the scheduler was locked, \<open>OsSchedUnlock\<close>
  (\<open>core.c\<close>) calls it and then the scheduler; interrupt entry and exit and the system
  tick (\<open>arch.c\<close>).

  \<open>RespondSRQ\<close> posts events, and every post ends in \<open>OsSchedUnlock\<close> again: in C the
  two functions are mutually recursive. The recursion is one level deep, because
  \<open>RespondSRQ\<close> runs at lock depth one and a nested unlock at depth two only counts
  down. The model uses this: \<open>OsSchedUnlock\<close> hands \<open>nested_unlock\<close> to its service
  requests, and the interface \<open>sched_unlock\<close> shows that handing it to itself would
  make no difference.
\<close>

definition nested_unlock :: unlock where
  "nested_unlock s = s\<lparr>OSSchedLock := OSSchedLock s - 1\<rparr>"

definition serve :: "unlock \<Rightarrow> sqc \<Rightarrow> kernel \<Rightarrow> kernel" where
  "serve u c s =
     (case sq_type c of
        SEM_REQ \<Rightarrow> snd (CoPostSem u (sq_id c) s)
      | MBOX_REQ \<Rightarrow> snd (CoPostMail u (sq_id c) (sq_arg c) s)
      | FLAG_REQ \<Rightarrow> snd (CoSetFlag u (sq_id c) s)
      | QUEUE_REQ \<Rightarrow> snd (CoPostQueueMail u (sq_id c) (sq_arg c) s))"

fun srq_loop :: "nat \<Rightarrow> unlock \<Rightarrow> kernel \<Rightarrow> kernel" where
  "srq_loop k u s =
     (if srq_cnt (ServiceReq s) = 0 then s
      else case k of
             0 \<Rightarrow> s\<lparr>hang := True\<rparr>
           | Suc k \<Rightarrow> (case srq_take s of (c, s) \<Rightarrow> srq_loop k u (serve u c s)))"

declare srq_loop.simps [simp del]

definition RespondSRQ :: "unlock \<Rightarrow> (U32 \<Rightarrow> kernel \<Rightarrow> kernel) \<Rightarrow> kernel \<Rightarrow> kernel" where
  "RespondSRQ u cb s =
     (let s = (if TimeReq s then (TimeDispose s)\<lparr>TimeReq := False\<rparr> else s);
          s = (if TimerReq s then (TmrDispose u cb s)\<lparr>TimerReq := False\<rparr> else s);
          s = srq_loop 255 u s
      in if srq_cnt (ServiceReq s) = 0 then s\<lparr>IsrReq := False\<rparr> else s)"

text \<open>One round of \<open>OsSchedUnlock\<close>, with the function its service requests unlock with.\<close>

definition unlock_step :: "unlock \<Rightarrow> (U32 \<Rightarrow> kernel \<Rightarrow> kernel) \<Rightarrow> kernel \<Rightarrow> kernel" where
  "unlock_step u cb s =
     (if OSSchedLock s = 1 then
        (let s = (if IsrReq s then RespondSRQ u cb s else s);
             s = (if TaskSchedReq s then Schedule s else s)
         in s\<lparr>OSSchedLock := 0\<rparr>)
      else s\<lparr>OSSchedLock := OSSchedLock s - 1\<rparr>)"

definition OsSchedUnlock :: "(U32 \<Rightarrow> kernel \<Rightarrow> kernel) \<Rightarrow> kernel \<Rightarrow> kernel" where
  "OsSchedUnlock cb s = unlock_step nested_unlock cb s"

definition CoSchedLock :: "kernel \<Rightarrow> kernel" where
  "CoSchedLock s = OsSchedLock s"

definition CoSchedUnlock :: "(U32 \<Rightarrow> kernel \<Rightarrow> kernel) \<Rightarrow> kernel \<Rightarrow> kernel" where
  "CoSchedUnlock cb s = OsSchedUnlock cb s"

section \<open>Interrupts\<close>

definition CoEnterISR :: "kernel \<Rightarrow> kernel" where
  "CoEnterISR s = s\<lparr>OSIntNesting := snd (Inc8 (OSIntNesting s))\<rparr>"

definition CoExitISR :: "kernel \<Rightarrow> kernel" where
  "CoExitISR s =
     (let s = s\<lparr>OSIntNesting := snd (Dec8 (OSIntNesting s))\<rparr>
      in if OSIntNesting s = 0 \<and> TaskSchedReq s then
           (let s = s\<lparr>OSSchedLock := OSSchedLock s + 1\<rparr>;
                s = Schedule s
            in s\<lparr>OSSchedLock := OSSchedLock s - 1\<rparr>)
         else s)"

text \<open>The two halves of the system tick: the delay list and the timer list.\<close>

definition tick_delays :: "kernel \<Rightarrow> kernel" where
  "tick_delays s =
     (case DlyList s of
        None \<Rightarrow> s
      | Some i \<Rightarrow>
          if delayTick (TCBTbl s i) > 1 then set_delay i (delayTick (TCBTbl s i) - 1) s
          else isr_TimeDispose (set_delay i 0 s))"

definition tick_timers :: "unlock \<Rightarrow> (U32 \<Rightarrow> kernel \<Rightarrow> kernel) \<Rightarrow> kernel \<Rightarrow> kernel" where
  "tick_timers u cb s =
     (case TmrList s of
        None \<Rightarrow> s
      | Some i \<Rightarrow>
          if tmrCnt (TmrTbl s i) > 1 then set_tcnt i (tmrCnt (TmrTbl s i) - 1) s
          else isr_TmrDispose u cb (set_tcnt i 0 s))"

definition SysTick_Handler :: "(U32 \<Rightarrow> kernel \<Rightarrow> kernel) \<Rightarrow> kernel \<Rightarrow> kernel" where
  "SysTick_Handler cb s =
     (let u = OsSchedUnlock cb;
          s = s\<lparr>OSSchedLock := OSSchedLock s + 1, OSTickCnt := OSTickCnt s + 1\<rparr>;
          s = tick_delays s;
          s = tick_timers u cb s;
          s = s\<lparr>TaskSchedReq := True\<rparr>
      in u s)"

section \<open>Lock depth and request queue are left alone inside a critical section\<close>

lemma updp_lock [simp]: "OSSchedLock (updp p f s) = OSSchedLock s" "ServiceReq (updp p f s) = ServiceReq s"
  by (simp_all add: updp_def split: option.split)

lemma wake_lock [simp]: "OSSchedLock (wake i s) = OSSchedLock s" "ServiceReq (wake i s) = ServiceReq s"
  by (simp_all add: wake_def)

lemma leave_delay_lock [simp]:
  "OSSchedLock (leave_delay i s) = OSSchedLock s" "ServiceReq (leave_delay i s) = ServiceReq s"
  by (simp_all add: leave_delay_def)

lemma deliver_lock [simp]:
  "OSSchedLock (deliver e i s) = OSSchedLock s" "ServiceReq (deliver e i s) = ServiceReq s"
  by (simp_all add: deliver_def Let_def qcb_pop_def upd_qcb_def split: event_type.split event_ptr.split)

lemma EventTaskToRdy_lock [simp]:
  "OSSchedLock (EventTaskToRdy e s) = OSSchedLock s" "ServiceReq (EventTaskToRdy e s) = ServiceReq s"
  by (simp_all add: EventTaskToRdy_def wait_unlink_head_def Let_def split: option.split)

lemma RemoveLinkNode_lock [simp]:
  "OSSchedLock (RemoveLinkNode n s) = OSSchedLock s" "ServiceReq (RemoveLinkNode n s) = ServiceReq s"
  by (simp_all add: RemoveLinkNode_def Let_def upd_fcb_def upd_node_def split: option.split)

lemma RemoveFromLink_lock [simp]:
  "OSSchedLock (snd (RemoveFromLink n s)) = OSSchedLock s" "ServiceReq (snd (RemoveFromLink n s)) = ServiceReq s"
  by (simp_all add: RemoveFromLink_def Let_def)

lemma set_flag_loop_lock [simp]:
  "OSSchedLock (set_flag_loop k b p s) = OSSchedLock s \<and> ServiceReq (set_flag_loop k b p s) = ServiceReq s"
proof (induction k b p s rule: set_flag_loop.induct)
  case (3 k b n s)
  obtain p' s' where R: "RemoveFromLink n s = (p', s')" by (cases "RemoveFromLink n s")
  then have "OSSchedLock s' = OSSchedLock s" "ServiceReq s' = ServiceReq s"
    using RemoveFromLink_lock [of n s] by simp_all
  with 3 R show ?case by simp
qed simp_all

lemma RemoveEventWaittingList_lock [simp]:
  "OSSchedLock (RemoveEventWaittingList i s) = OSSchedLock s"
  by (simp add: RemoveEventWaittingList_def Let_def split: option.split)

lemma remove_pnode_lock [simp]: "OSSchedLock (remove_pnode p s) = OSSchedLock s"
  by (simp add: remove_pnode_def split: pnode_ptr.split)

lemma time_out_lock [simp]: "OSSchedLock (time_out i s) = OSSchedLock s"
  by (simp add: time_out_def drop_waits_def Let_def split: option.split)

lemma time_dispose_lock [simp]: "OSSchedLock (time_dispose_loop k s) = OSSchedLock s"
proof (induction k arbitrary: s)
  case 0
  show ?case by (simp add: time_dispose_loop.simps split: option.split)
next
  case (Suc k)
  then show ?case by (subst time_dispose_loop.simps) (simp split: option.split)
qed

lemma TimeDispose_lock [simp]: "OSSchedLock (TimeDispose s) = OSSchedLock s"
  by (simp add: TimeDispose_def)

lemma upd_tmr_lock [simp]: "OSSchedLock (upd_tmr i f s) = OSSchedLock s"
  by (simp add: upd_tmr_def)

lemma tmr_list_lock [simp]:
  "OSSchedLock (tmr_link i s) = OSSchedLock s" "OSSchedLock (tmr_unlink i s) = OSSchedLock s"
  by (simp_all add: tmr_link_def tmr_link_before_def tmr_unlink_def Let_def split: option.split prod.split)

lemma OsSchedLock_lock [simp]:
  "OSSchedLock (OsSchedLock s) = OSSchedLock s + 1" "ServiceReq (OsSchedLock s) = ServiceReq s"
  by (simp_all add: OsSchedLock_def)

lemma nested_unlock_lock [simp]:
  "OSSchedLock (nested_unlock s) = OSSchedLock s - 1" "ServiceReq (nested_unlock s) = ServiceReq s"
  by (simp_all add: nested_unlock_def)

section \<open>The interface of an unlock function\<close>

text \<open>
  What the kernel's operations rely on: beyond the outermost level, an unlock only
  counts down. Every operation then behaves under \<open>u\<close> as under \<open>nested_unlock\<close> when it
  is called inside a critical section, and leaves the lock depth as it found it.
\<close>

locale sched_unlock =
  fixes u :: unlock
  assumes nested: "OSSchedLock s \<noteq> 1 \<Longrightarrow> u s = nested_unlock s"
begin

lemma section_nested:
  assumes "OSSchedLock s \<noteq> 0" "\<And>t. OSSchedLock (f t) = OSSchedLock t"
  shows "u (f (OsSchedLock s)) = nested_unlock (f (OsSchedLock s))"
  using assms by (intro nested) simp

lemma CoPostSem_nested:
  assumes "OSSchedLock s \<noteq> 0"
  shows "CoPostSem u i s = CoPostSem nested_unlock i s"
  using section_nested [OF assms, of "\<lambda>s. EventTaskToRdy (unat i) (upd_ecb (unat i) (\<lambda>x. x\<lparr>eventCounter := eventCounter x + 1\<rparr>) s)"]
  by (simp add: CoPostSem_def Let_def)

lemma CoPostMail_nested:
  assumes "OSSchedLock s \<noteq> 0"
  shows "CoPostMail u i m s = CoPostMail nested_unlock i m s"
  using section_nested [OF assms, of "\<lambda>s. EventTaskToRdy (unat i) (upd_ecb (unat i) (\<lambda>x. x\<lparr>eventPtr := ev_of_mail m, eventCounter := 1\<rparr>) s)"]
  by (simp add: CoPostMail_def Let_def)

lemma CoPostQueueMail_nested:
  assumes "OSSchedLock s \<noteq> 0"
  shows "CoPostQueueMail u i m s = CoPostQueueMail nested_unlock i m s"
  using section_nested [OF assms, of "\<lambda>s. EventTaskToRdy (unat i) (qcb_push q m s)" for q]
  by (simp add: CoPostQueueMail_def with_qcb_def Let_def qcb_push_def upd_qcb_def split: event_ptr.split)

lemma CoSetFlag_nested:
  assumes "OSSchedLock s \<noteq> 0"
  shows "CoSetFlag u i s = CoSetFlag nested_unlock i s"
proof -
  let ?s = "upd_fcb (\<lambda>c. c\<lparr>flagRdy := flagRdy c OR flag_bit i\<rparr>) s"
  have "OSSchedLock ?s \<noteq> 0" using assms by (simp add: upd_fcb_def)
  from section_nested [OF this, of "\<lambda>s. set_flag_loop TASK_NUM (flag_bit i) (headNode (FlagCrl s)) s"]
  show ?thesis by (simp add: CoSetFlag_def Let_def)
qed

lemma timer_list_nested:
  assumes "OSSchedLock s \<noteq> 0"
  shows "InsertTmrList u i s = InsertTmrList nested_unlock i s"
    "RemoveTmrList u i s = RemoveTmrList nested_unlock i s"
  using section_nested [OF assms, of "tmr_link i"] section_nested [OF assms, of "tmr_unlink i"]
  by (simp_all add: InsertTmrList_def RemoveTmrList_def)

lemma serve_nested:
  assumes "OSSchedLock s \<noteq> 0"
  shows "serve u c s = serve nested_unlock c s"
  using CoPostSem_nested [OF assms] CoPostMail_nested [OF assms] CoPostQueueMail_nested [OF assms]
    CoSetFlag_nested [OF assms]
  by (simp add: serve_def split: req_type.split)

end

lemma serve_nested_frame:
  "OSSchedLock (serve nested_unlock c s) = OSSchedLock s"
  "ServiceReq (serve nested_unlock c s) = ServiceReq s"
  by (simp_all add: serve_def CoPostSem_def CoPostMail_def CoSetFlag_def CoPostQueueMail_def with_qcb_def
      Let_def qcb_push_def upd_qcb_def upd_fcb_def split: req_type.split event_ptr.split)

lemma srq_take_lock [simp]: "OSSchedLock (snd (srq_take s)) = OSSchedLock s"
  by (simp add: srq_take_def Let_def)

lemma tmr_fire_lock:
  assumes "\<And>f t. OSSchedLock (cb f t) = OSSchedLock t"
  shows "OSSchedLock (tmr_fire nested_unlock cb i s) = OSSchedLock s"
  using assms by (simp add: tmr_fire_def RemoveTmrList_def InsertTmrList_def Let_def split: tmr_type.split)

lemma tmr_dispose_lock:
  assumes "\<And>f t. OSSchedLock (cb f t) = OSSchedLock t"
  shows "OSSchedLock (tmr_dispose_loop k nested_unlock cb s) = OSSchedLock s"
proof (induction k arbitrary: s)
  case 0
  show ?case by (simp add: tmr_dispose_loop.simps split: option.split)
next
  case (Suc k)
  then show ?case
    by (subst tmr_dispose_loop.simps) (simp add: tmr_fire_lock [OF assms] split: option.split)
qed

context sched_unlock
begin

lemma tmr_fire_nested:
  assumes "OSSchedLock s \<noteq> 0"
  shows "tmr_fire u cb i s = tmr_fire nested_unlock cb i s"
proof -
  have "RemoveTmrList u j s = RemoveTmrList nested_unlock j s" for j
    by (rule timer_list_nested(2) [OF assms])
  moreover have "InsertTmrList u j (upd_tmr i g (RemoveTmrList nested_unlock k s))
      = InsertTmrList nested_unlock j (upd_tmr i g (RemoveTmrList nested_unlock k s))" for j g k
    using assms by (intro timer_list_nested(1)) (simp add: RemoveTmrList_def)
  ultimately show ?thesis by (simp add: tmr_fire_def Let_def split: tmr_type.split)
qed

lemma tmr_dispose_nested:
  assumes bal: "\<And>f t. OSSchedLock (cb f t) = OSSchedLock t"
  shows "OSSchedLock s \<noteq> 0 \<Longrightarrow> tmr_dispose_loop k u cb s = tmr_dispose_loop k nested_unlock cb s"
proof (induction k arbitrary: s)
  case 0
  show ?case by (simp add: tmr_dispose_loop.simps split: option.split)
next
  case (Suc k)
  have "tmr_dispose_loop k u cb (tmr_fire u cb i s) = tmr_dispose_loop k nested_unlock cb (tmr_fire nested_unlock cb i s)" for i
    using Suc.IH [of "tmr_fire nested_unlock cb i s"] Suc.prems tmr_fire_nested [OF Suc.prems]
      tmr_fire_lock [OF bal] by simp
  then show ?case by (subst (1 2) tmr_dispose_loop.simps) (simp split: option.split)
qed

lemma srq_loop_nested:
  "OSSchedLock s \<noteq> 0 \<Longrightarrow> srq_loop k u s = srq_loop k nested_unlock s"
proof (induction k arbitrary: s)
  case 0
  show ?case by (simp add: srq_loop.simps)
next
  case (Suc k)
  obtain c t where t: "srq_take s = (c, t)" by (cases "srq_take s")
  then have "OSSchedLock t \<noteq> 0" using Suc.prems srq_take_lock [of s] by simp
  then have "srq_loop k u (serve u c t) = srq_loop k nested_unlock (serve nested_unlock c t)"
    using Suc.IH [of "serve nested_unlock c t"] serve_nested [of t c] serve_nested_frame(1) [of c t] by simp
  then show ?case using t by (subst (1 2) srq_loop.simps) simp
qed

lemma RespondSRQ_nested:
  assumes bal: "\<And>f t. OSSchedLock (cb f t) = OSSchedLock t" and lock: "OSSchedLock s \<noteq> 0"
  shows "RespondSRQ u cb s = RespondSRQ nested_unlock cb s"
proof -
  define a where "a = (if TimeReq s then (TimeDispose s)\<lparr>TimeReq := False\<rparr> else s)"
  define b where "b = (if TimerReq a then (TmrDispose nested_unlock cb a)\<lparr>TimerReq := False\<rparr> else a)"
  have a: "OSSchedLock a \<noteq> 0" using lock by (simp add: a_def)
  then have b: "OSSchedLock b \<noteq> 0" by (simp add: b_def TmrDispose_def tmr_dispose_lock [OF bal])
  have "TmrDispose u cb a = TmrDispose nested_unlock cb a"
    using tmr_dispose_nested [OF bal a] by (simp add: TmrDispose_def)
  moreover have "RespondSRQ v cb s = (let t = srq_loop 255 v b
      in if srq_cnt (ServiceReq t) = 0 then t\<lparr>IsrReq := False\<rparr> else t)"
    if "TmrDispose v cb a = TmrDispose nested_unlock cb a" for v
    using that by (simp only: RespondSRQ_def Let_def a_def b_def)
  ultimately show ?thesis
    using srq_loop_nested [OF b, of 255] by simp
qed

end

interpretation nested: sched_unlock nested_unlock
  by unfold_locales simp

interpretation outer: sched_unlock "OsSchedUnlock cb" for cb
  by unfold_locales (simp add: OsSchedUnlock_def unlock_step_def nested_unlock_def)

text \<open>The recursive equation of the C code: the service requests may unlock with \<open>OsSchedUnlock\<close> itself.\<close>

lemma unlock_fixpoint:
  assumes "\<And>f t. OSSchedLock (cb f t) = OSSchedLock t"
  shows "OsSchedUnlock cb s = unlock_step (OsSchedUnlock cb) cb s"
  using outer.RespondSRQ_nested [OF assms, of s cb]
  by (simp add: OsSchedUnlock_def unlock_step_def Let_def)

section \<open>Serving the requests\<close>

lemma srq_loop_drains:
  "unat (srq_cnt (ServiceReq s)) \<le> k \<Longrightarrow> srq_cnt (ServiceReq (srq_loop k nested_unlock s)) = 0"
proof (induction k arbitrary: s)
  case 0
  then show ?case by (simp add: srq_loop.simps unat_eq_0)
next
  case (Suc k)
  show ?case
  proof (cases "srq_cnt (ServiceReq s) = 0")
    case False
    obtain c t where t: "srq_take s = (c, t)" by (cases "srq_take s")
    then have "srq_cnt (ServiceReq t) = srq_cnt (ServiceReq s) - 1" by (auto simp: srq_take_def Let_def)
    then have "unat (srq_cnt (ServiceReq t)) \<le> k" using unat_pred [OF False] Suc.prems by simp
    then have "srq_cnt (ServiceReq (srq_loop k nested_unlock (serve nested_unlock c t))) = 0"
      using Suc.IH [of "serve nested_unlock c t"] by (simp add: serve_nested_frame)
    then show ?thesis using t False by (subst srq_loop.simps) simp
  qed (simp add: srq_loop.simps)
qed

text \<open>The requests are served one after the other, in the order of their arrival.\<close>

definition serve_next :: "sqc \<Rightarrow> kernel \<Rightarrow> kernel" where
  "serve_next c s = serve nested_unlock c (snd (srq_take s))"

lemma srq_view_cong:
  "ServiceReq s = ServiceReq t \<Longrightarrow> srq_ok s = srq_ok t" "ServiceReq s = ServiceReq t \<Longrightarrow> requests s = requests t"
  by (simp_all add: srq_ok_def requests_def)

lemma srq_loop_serves:
  "srq_ok s \<Longrightarrow> length (requests s) \<le> k \<Longrightarrow>
    srq_loop k nested_unlock s = fold serve_next (requests s) s
    \<and> requests (srq_loop k nested_unlock s) = []"
proof (induction "requests s" arbitrary: s k)
  case Nil
  then have "srq_cnt (ServiceReq s) = 0"
    using requests_full_iff [of s] by (simp add: unat_eq_0)
  moreover have "requests s = []" using Nil by simp
  ultimately show ?case by (simp add: srq_loop.simps)
next
  case (Cons c cs)
  obtain t where t: "srq_take s = (c, t)" "srq_ok t" "requests t = cs"
    using srq_take_refines [OF Cons.prems(1), of c cs] Cons.hyps(2) by (metis prod.collapse)
  let ?t = "serve nested_unlock c t"
  have v: "srq_ok ?t" "requests ?t = cs"
    using srq_view_cong [of ?t t] serve_nested_frame(2) [of c t] t by simp_all
  have "Suc (length cs) \<le> k" using Cons.prems(2) Cons.hyps(2) [symmetric] by simp
  then obtain j where k: "k = Suc j" "length cs \<le> j" by (cases k) auto
  have "srq_cnt (ServiceReq s) \<noteq> 0"
    using requests_full_iff [of s] Cons.hyps(2) by auto
  then have "srq_loop k nested_unlock s = srq_loop j nested_unlock ?t"
    using t(1) k by (subst srq_loop.simps) simp
  moreover have "fold serve_next (requests s) s = fold serve_next cs ?t"
    using t(1) Cons.hyps(2) [symmetric] by (simp add: serve_next_def)
  ultimately show ?case using Cons.hyps(1) [of ?t j] v k(2) by metis
qed

lemma RespondSRQ_serves:
  assumes "srq_ok s" "\<not> TimeReq s" "\<not> TimerReq s"
  shows "RespondSRQ nested_unlock cb s = (fold serve_next (requests s) s)\<lparr>IsrReq := False\<rparr>"
    "requests (RespondSRQ nested_unlock cb s) = []"
proof -
  have len: "length (requests s) \<le> 255"
    using assms(1) by (simp add: requests_def srq_ok_def cfg_defs)
  note L = srq_loop_serves [OF assms(1) len]
  have "srq_cnt (ServiceReq (srq_loop 255 nested_unlock s)) = 0"
    using srq_loop_drains [of s 255] assms(1) by (simp add: srq_ok_def cfg_defs)
  then have "RespondSRQ nested_unlock cb s = (srq_loop 255 nested_unlock s)\<lparr>IsrReq := False\<rparr>"
    using assms(2,3) by (simp add: RespondSRQ_def)
  moreover have "requests (t\<lparr>IsrReq := False\<rparr>) = requests t" for t by (simp add: requests_def)
  ultimately show "RespondSRQ nested_unlock cb s = (fold serve_next (requests s) s)\<lparr>IsrReq := False\<rparr>"
    "requests (RespondSRQ nested_unlock cb s) = []"
    using L by metis+
qed

section \<open>One tick of the delay list\<close>

lemma tick_count:
  assumes ok: "lists_ok s" and d: "delays s = (i, e) # rest" "0 < e"
  defines "s' \<equiv> set_delay i (delayTick (TCBTbl s i) - 1) s"
  shows "lists_ok s' \<and> delays s' = map (apsnd (\<lambda>e. e - 1)) (delays s) \<and> ready_list s' = ready_list s
    \<and> task_prio s' = task_prio s"
proof -
  note H = delay_head [OF d(1)]
  have wf: "dll (tnext s) (tprev s) (DlyList s) (delay_list s)" "set (delay_list s) \<subseteq> {..<TASK_NUM}"
    "sum_list (map (ticks_of (delay_of s)) (delay_list s)) < 2 ^ 31" "ready_ok s"
    "set (ready_list s) \<inter> set (delay_list s) = {}"
    using ok by (auto simp: lists_ok_def delay_ok_def delta_wf_def)
  have dist: "distinct (i # map fst rest)" using wf(1) H(1) by (simp add: dll_def)
  have t: "ticks_of (delay_of s') i = ticks_of (delay_of s) i - 1"
    "\<And>y. y \<noteq> i \<Longrightarrow> ticks_of (delay_of s') y = ticks_of (delay_of s) y"
  proof -
    have "delayTick (TCBTbl s i) \<noteq> 0" using H(2) d(2) by (auto simp: ticks_of_def delay_of_def)
    then show "ticks_of (delay_of s') i = ticks_of (delay_of s) i - 1"
      by (simp add: s'_def ticks_of_def delay_of_def unat_minus_one)
  qed (simp add: s'_def ticks_of_def)
  have le: "ticks_of (delay_of s') y \<le> ticks_of (delay_of s) y" for y
    by (cases "y = i") (simp_all add: t)
  have "sum_list (map (ticks_of (delay_of s')) (delay_list s)) \<le> sum_list (map (ticks_of (delay_of s)) (delay_list s))"
    by (rule sum_list_mono) (rule le)
  then have "delta_wf TASK_NUM (tnext s') (tprev s') (delay_of s') (DlyList s') (delay_list s)"
    using wf by (simp add: delta_wf_def s'_def)
  note D = delay_listI [OF this]
  have "delays s' = map (apsnd (\<lambda>e. e - 1)) (delays s)"
    unfolding delays_def D(2) H(1)
    using expiry_tick [of i "map fst rest" "ticks_of (delay_of s)" "ticks_of (delay_of s')"] dist t d(2) H(2) by simp
  moreover have R: "ready_ok s'" "ready_list s' = ready_list s" "task_prio s' = task_prio s"
    using wf(4) ready_ok_cong [of s' s] by (simp_all add: s'_def)
  ultimately show ?thesis using D wf(5) by (simp add: lists_ok_def)
qed

lemma tick_delays_refines:
  assumes ok: "lists_ok s" and pos: "\<forall>(x, e) \<in> set (delays s). 0 < e" and lock: "OSSchedLock s \<le> 1"
  shows "lists_ok (tick_delays s)
    \<and> delays (tick_delays s) = map (apsnd (\<lambda>e. e - 1)) (filter (\<lambda>(_, e). e \<noteq> 1) (delays s))
    \<and> ready_list (tick_delays s)
        = fold (insert_by (task_prio s)) (map fst (filter (\<lambda>(_, e). e = 1) (delays s))) (ready_list s)"
proof (cases "delays s")
  case Nil
  then have "delay_list s = []" using map_fst_delays [of s] by simp
  then have "DlyList s = None" using ok by (auto simp: lists_ok_def delay_ok_def delta_wf_def)
  then show ?thesis using Nil ok by (simp add: tick_delays_def)
next
  case (Cons p rest)
  obtain i e where p: "p = (i, e)" by (cases p)
  have e: "0 < e" using pos Cons p by simp
  note H = delay_head [OF Cons [unfolded p]]
  have hd: "DlyList s = Some i" using ok H(1) by (auto simp: lists_ok_def delay_ok_def delta_wf_def dll_def)
  define s' where "s' = set_delay i (delayTick (TCBTbl s i) - 1) s"
  note T = tick_count [OF ok Cons [unfolded p] e, folded s'_def]
  have srt: "sorted (map snd (delays s))" unfolding delays_def by (rule sorted_expiry)
  have one: "delayTick (TCBTbl s i) > 1 \<longleftrightarrow> e > 1"
    using H(2) by (simp add: word_less_nat_alt ticks_of_def delay_of_def)
  show ?thesis
  proof (cases "e > 1")
    case True
    have "\<forall>(x, f) \<in> set (delays s). f \<noteq> 1" using srt Cons p True by fastforce
    then have "filter (\<lambda>(_, e). e \<noteq> 1) (delays s) = delays s" "filter (\<lambda>(_, e). e = 1) (delays s) = []"
      by (auto simp: filter_id_conv filter_empty_conv)
    then show ?thesis using T hd one True by (simp add: tick_delays_def s'_def)
  next
    case False
    have "delayTick (TCBTbl s i) = 1"
      using H(2) e False by (simp add: ticks_of_def delay_of_def word_unat_eq_iff)
    then have td: "tick_delays s = TimeDispose s'"
      using hd lock by (simp add: tick_delays_def isr_TimeDispose_def s'_def leD)
    have ge: "\<forall>(x, f) \<in> set (delays s). 1 \<le> f" using pos by (auto simp: Suc_le_eq)
    have tw: "takeWhile (\<lambda>(_, f). f = 0) (delays s') = map (apsnd (\<lambda>f. f - 1)) (takeWhile (\<lambda>(_, f). f = 1) (delays s))"
      using T pos by (auto simp: takeWhile_map intro!: arg_cong [of _ _ "map _"] takeWhile_cong)
    have dw: "dropWhile (\<lambda>(_, f). f = 0) (delays s') = map (apsnd (\<lambda>f. f - 1)) (dropWhile (\<lambda>(_, f). f = 1) (delays s))"
      using T pos by (auto simp: dropWhile_map intro!: arg_cong [of _ _ "map _"] dropWhile_cong)
    have F: "takeWhile (\<lambda>(_, f). f = 1) (delays s) = filter (\<lambda>(_, f). f = 1) (delays s)"
      using takeWhile_sorted_filter [OF srt ge] .
    have G: "dropWhile (\<lambda>(_, f). f = 1) (delays s) = filter (\<lambda>(_, f). f \<noteq> 1) (delays s)"
      using dropWhile_sorted_filter [OF srt ge] .
    show ?thesis using TimeDispose_refines [of s'] T tw dw F G td by (simp add: comp_def)
  qed
qed

section \<open>An unlock without deferred requests\<close>

text \<open>
  When no interrupt handler has left a request, the end of a critical section only
  schedules: it changes task control blocks and the scheduler's variables, never the
  objects tasks communicate by.
\<close>

definition same_objects :: "kernel \<Rightarrow> kernel \<Rightarrow> bool" where
  "same_objects s t \<longleftrightarrow> EventTbl s = EventTbl t \<and> FreeEventList s = FreeEventList t \<and> MutexTbl s = MutexTbl t
     \<and> MutexFreeID s = MutexFreeID t \<and> FlagCrl s = FlagCrl t \<and> FlagNodes s = FlagNodes t
     \<and> QueueTbl s = QueueTbl t \<and> QueueIDVessel s = QueueIDVessel t \<and> TmrTbl s = TmrTbl t
     \<and> TmrList s = TmrList t \<and> TmrIDVessel s = TmrIDVessel t \<and> ServiceReq s = ServiceReq t
     \<and> IsrReq s = IsrReq t \<and> Mem s = Mem t"

lemma same_objects_refl [simp]: "same_objects s s"
  by (simp add: same_objects_def)

lemma same_objects_trans: "same_objects s t \<Longrightarrow> same_objects t r \<Longrightarrow> same_objects s r"
  by (simp add: same_objects_def)

lemma RemoveFromTCBRdyList_objects: "same_objects (RemoveFromTCBRdyList i s) s"
  by (simp add: same_objects_def)

lemma sched_choose_objects: "sched_choose r s = Some t \<Longrightarrow> same_objects t s"
  by (auto simp: same_objects_def sched_choose_def InsertRdyPtr_def Let_def
      split: if_splits option.splits)

lemma sched_finish_objects: "same_objects (sched_finish c s) s"
  by (simp add: same_objects_def sched_finish_def Let_def CoStkOverflowHook_def SwitchContext_def)

lemma Schedule_objects: "same_objects (Schedule s) s"
proof -
  let ?t = "s\<lparr>TaskSchedReq := False\<rparr>"
  have t: "same_objects ?t s" by (simp add: same_objects_def)
  have "same_objects (sched_finish c t') s" if "sched_choose r ?t = Some t'" for c r t'
    using same_objects_trans [OF sched_finish_objects same_objects_trans [OF sched_choose_objects [OF that] t]] .
  with t show ?thesis by (simp add: Schedule_def Let_def split: option.split)
qed

lemma unlock_quiet:
  assumes "\<not> IsrReq s"
  shows "same_objects (OsSchedUnlock cb s) s"
  using assms Schedule_objects [of s]
  by (simp add: OsSchedUnlock_def unlock_step_def Let_def) (simp add: same_objects_def)

end
