(* ===== verification/CoOS_Mutex.thy ===== *)
theory CoOS_Mutex
  imports CoOS_Service
begin

text \<open>
  Mutexes with priority inheritance (\<open>mutex.c\<close>) and the change of a task's priority
  (\<open>CoSetPriority\<close> of \<open>task.c\<close>), which follows the owner of the mutex a task waits for.
\<close>

definition upd_mutex :: "nat \<Rightarrow> (mutex \<Rightarrow> mutex) \<Rightarrow> kernel \<Rightarrow> kernel" where
  "upd_mutex m f s = MutexTbl_update (\<lambda>t. t(m := f (t m))) s"

abbreviation set_prio :: "nat \<Rightarrow> U8 \<Rightarrow> kernel \<Rightarrow> kernel" where
  "set_prio i v \<equiv> upd i (prio_update (\<lambda>_. v))"

abbreviation set_mutexID :: "nat \<Rightarrow> U8 \<Rightarrow> kernel \<Rightarrow> kernel" where
  "set_mutexID i v \<equiv> upd i (mutexID_update (\<lambda>_. v))"

section \<open>CoSetPriority\<close>

text \<open>
  The search for the highest priority among the waiters: the best priority so far
  and the task that has it.
\<close>

fun mtx_scan :: "nat \<Rightarrow> kernel \<Rightarrow> ptr \<Rightarrow> U8 \<Rightarrow> U8 \<Rightarrow> (U8 \<times> U8) option" where
  "mtx_scan k s None pr hi = Some (pr, hi)"
| "mtx_scan 0 s (Some i) pr hi = None"
| "mtx_scan (Suc k) s (Some i) pr hi =
     (if prio (TCBTbl s i) < pr
      then mtx_scan k s (TCBnext (TCBTbl s i)) (prio (TCBTbl s i)) (taskID (TCBTbl s i))
      else mtx_scan k s (TCBnext (TCBTbl s i)) pr hi)"

text \<open>The task is waiting: update the mutex it waits for and its place among the waiters of an event.\<close>

definition set_prio_waiting :: "(U8 \<Rightarrow> U8 \<Rightarrow> kernel \<Rightarrow> kernel) \<Rightarrow> unlock \<Rightarrow> nat \<Rightarrow> kernel \<Rightarrow> kernel" where
  "set_prio_waiting set_owner u i s =
     (let s = (if mutexID (TCBTbl s i) \<noteq> INVALID_ID then
                 (let m = unat (mutexID (TCBTbl s i));
                      s = OsSchedLock s;
                      mx = MutexTbl s m
                  in case mtx_scan TASK_NUM s (waittingList mx) (originalPrio mx) (mtx_taskID mx) of
                       None \<Rightarrow> s\<lparr>hang := True\<rparr>
                     | Some (pr, hi) \<Rightarrow>
                         (let s = upd_mutex m (hipriTaskID_update (\<lambda>_. hi)) s;
                              s = u s
                          in if originalPrio (MutexTbl s m) \<noteq> pr
                             then set_owner (mtx_taskID (MutexTbl s m)) pr s else s))
               else s);
          e = unat (eventID (TCBTbl s i))
      in if eventID (TCBTbl s i) \<noteq> INVALID_ID \<and> eventSortType (EventTbl s e) = EVENT_SORT_TYPE_PRIO
         then EventTaskToWait u e i (RemoveEventWaittingList i s)
         else s)"

definition set_prio_body ::
    "(U8 \<Rightarrow> U8 \<Rightarrow> kernel \<Rightarrow> kernel) \<Rightarrow> unlock \<Rightarrow> U8 \<Rightarrow> U8 \<Rightarrow> kernel \<Rightarrow> U8 \<times> kernel" where
  "set_prio_body set_owner u tid priority s =
     (let i = unat tid; t = TCBTbl s i
      in if tid = 0 then (E_PROTECTED_TASK, s)
         else if i \<ge> TASK_NUM then (E_INVALID_ID, s)
         else if state t = TASK_DORMANT then (E_INVALID_ID, s)
         else if priority > CFG_LOWEST_PRIO then (E_INVALID_ID, s)
         else if prio t = priority then (E_OK, s)
         else
           (let m = unat (mutexID t);
                holds = (mutexID t \<noteq> INVALID_ID \<and> mtx_taskID (MutexTbl s m) = taskID t);
                s = (if holds then upd_mutex m (originalPrio_update (\<lambda>_. priority)) s else s)
            in if holds \<and> prio t < priority then (E_OK, s)
               else
                 (let s = set_prio i priority s
                  in case state t of
                       TASK_READY \<Rightarrow>
                         (E_OK, u (InsertToTCBRdyList i (RemoveFromTCBRdyList i (OsSchedLock s))))
                     | TASK_RUNNING \<Rightarrow>
                         (E_OK, if priority > prio (tcb_at s (TCBRdy s))
                                then u ((OsSchedLock s)\<lparr>TaskSchedReq := True\<rparr>) else s)
                     | _ \<Rightarrow> (E_OK, set_prio_waiting set_owner u i s))))"

text \<open>
  The recursion follows owners that wait for further mutexes; a chain longer than
  the number of tasks goes round in a circle and never ends.
\<close>

fun set_prio_fuel :: "nat \<Rightarrow> unlock \<Rightarrow> U8 \<Rightarrow> U8 \<Rightarrow> kernel \<Rightarrow> U8 \<times> kernel" where
  "set_prio_fuel 0 u = set_prio_body (\<lambda>_ _ s. s\<lparr>hang := True\<rparr>) u"
| "set_prio_fuel (Suc k) u = set_prio_body (\<lambda>t p s. snd (set_prio_fuel k u t p s)) u"

definition CoSetPriority :: "unlock \<Rightarrow> U8 \<Rightarrow> U8 \<Rightarrow> kernel \<Rightarrow> U8 \<times> kernel" where
  "CoSetPriority u tid priority s = set_prio_fuel TASK_NUM u tid priority s"

section \<open>Mutex sections\<close>

definition CoCreateMutex :: "unlock \<Rightarrow> kernel \<Rightarrow> U8 \<times> kernel" where
  "CoCreateMutex u s =
     (let s = OsSchedLock s
      in if unat (MutexFreeID s) < CFG_MAX_MUTEX then
           (let i = MutexFreeID s;
                s = u (s\<lparr>MutexFreeID := i + 1\<rparr>);
                s = upd_mutex (unat i) (\<lambda>m. m\<lparr>hipriTaskID := INVALID_ID, originalPrio := 0xff,
                      mutexFlag := MUTEX_FREE, mtx_taskID := INVALID_ID, waittingList := None\<rparr>) s
            in (i, s))
         else (E_CREATE_FAIL, u s))"

text \<open>A higher priority task is about to wait: its priority goes to the owner.\<close>

definition promote_owner :: "unlock \<Rightarrow> nat \<Rightarrow> nat \<Rightarrow> nat \<Rightarrow> kernel \<Rightarrow> kernel" where
  "promote_owner u m own cur s =
     (if prio (TCBTbl s own) > prio (TCBTbl s cur) then
        (let s = set_prio own (prio (TCBTbl s cur)) s;
             s = upd_mutex m (hipriTaskID_update (\<lambda>_. taskID (TCBTbl s cur))) s;
             e = unat (eventID (TCBTbl s own))
         in if state (TCBTbl s own) = TASK_READY then InsertToTCBRdyList own (RemoveFromTCBRdyList own s)
            else if eventID (TCBTbl s own) \<noteq> INVALID_ID
                 \<and> eventSortType (EventTbl s e) = EVENT_SORT_TYPE_PRIO
            then EventTaskToWait u e own (RemoveEventWaittingList own s)
            else s)
      else s)"

definition mutex_wait :: "nat \<Rightarrow> nat \<Rightarrow> kernel \<Rightarrow> kernel" where
  "mutex_wait m cur s =
     (let s = (set_state cur TASK_WAITING s)\<lparr>TaskSchedReq := True\<rparr>;
          s = set_next cur None s;
          s = set_prev cur None s
      in case waittingList (MutexTbl s m) of
           None \<Rightarrow> upd_mutex m (waittingList_update (\<lambda>_. Some cur)) s
         | Some h \<Rightarrow>
             (case scan_last TASK_NUM (tnext s) h of
                None \<Rightarrow> s\<lparr>hang := True\<rparr>
              | Some l \<Rightarrow> set_next cur None (set_prev cur (Some l) (set_next l (Some cur) s))))"

definition mutex_acquire :: "nat \<Rightarrow> nat \<Rightarrow> kernel \<Rightarrow> kernel" where
  "mutex_acquire m cur s =
     (let t = TCBTbl s cur
      in upd_mutex m (\<lambda>x. x\<lparr>originalPrio := prio t, mtx_taskID := taskID t, hipriTaskID := taskID t,
           mutexFlag := MUTEX_OCCUPY\<rparr>) s)"

definition CoEnterMutexSection :: "unlock \<Rightarrow> U8 \<Rightarrow> kernel \<Rightarrow> U8 outcome \<times> kernel" where
  "CoEnterMutexSection u mid s =
     (if OSIntNesting s > 0 then (Done E_CALL, s)
      else if OSSchedLock s \<noteq> 0 then (Done E_OS_IN_LOCK, s)
      else if mid \<ge> MutexFreeID s then (Done E_INVALID_ID, s)
      else
        with_running E_OK
          (\<lambda>cur s.
            (let m = unat mid;
                 s = set_mutexID cur mid s;
                 s = (case mutexFlag (MutexTbl s m) of
                        MUTEX_FREE \<Rightarrow> mutex_acquire m cur s
                      | MUTEX_OCCUPY \<Rightarrow>
                          mutex_wait m cur (promote_owner u m (unat (mtx_taskID (MutexTbl s m))) cur s))
             in block_then (\<lambda>_ s. (E_OK, s)) cur (u s)))
          (OsSchedLock s))"

text \<open>The priority the next owner gets, and the task recorded as the highest waiter.\<close>

definition handover_prio :: "nat \<Rightarrow> kernel \<Rightarrow> (U8 \<times> U8) option" where
  "handover_prio m s =
     (let mx = MutexTbl s m
      in if hipriTaskID mx = mtx_taskID mx
         then mtx_scan TASK_NUM s (waittingList mx) (prio (tcb_at s (waittingList mx))) (hipriTaskID mx)
         else Some (prio (TCBTbl s (unat (mtx_taskID mx))), hipriTaskID mx))"

definition mutex_handover :: "unlock \<Rightarrow> nat \<Rightarrow> kernel \<Rightarrow> kernel" where
  "mutex_handover u m s =
     (case handover_prio m s of
        None \<Rightarrow> s\<lparr>hang := True\<rparr>
      | Some (pr, hi) \<Rightarrow>
          (let own = mtx_taskID (MutexTbl s m);
               s = upd_mutex m (\<lambda>x. x\<lparr>hipriTaskID := hi, mtx_taskID := INVALID_ID\<rparr>) s;
               s = snd (CoSetPriority u own (originalPrio (MutexTbl s m)) s)
           in case waittingList (MutexTbl s m) of
                None \<Rightarrow> s\<lparr>fault := True\<rparr>
              | Some w \<Rightarrow>
                  (let t = TCBTbl s w;
                       s = upd_mutex m (\<lambda>x. x\<lparr>waittingList := TCBnext t, originalPrio := prio t,
                             mtx_taskID := taskID t\<rparr>) s;
                       s = set_prio w pr s;
                       s = set_next w None s;
                       s = set_prev w None s
                   in InsertToTCBRdyList w s)))"

definition CoLeaveMutexSection :: "unlock \<Rightarrow> U8 \<Rightarrow> kernel \<Rightarrow> U8 \<times> kernel" where
  "CoLeaveMutexSection u mid s =
     (if OSIntNesting s > 0 then (E_CALL, s)
      else if mid \<ge> MutexFreeID s then (E_INVALID_ID, s)
      else
        (let m = unat mid;
             s = OsSchedLock s;
             s = set_mutexID (unat (mtx_taskID (MutexTbl s m))) INVALID_ID s
         in case waittingList (MutexTbl s m) of
              None \<Rightarrow>
                (E_OK, u (upd_mutex m (\<lambda>x. x\<lparr>mutexFlag := MUTEX_FREE, mtx_taskID := INVALID_ID\<rparr>) s))
            | Some _ \<Rightarrow> (E_OK, u (mutex_handover u m s))))"

definition RemoveMutexList :: "unlock \<Rightarrow> nat \<Rightarrow> kernel \<Rightarrow> kernel" where
  "RemoveMutexList u i s =
     (let m = unat (mutexID (TCBTbl s i));
          s = (case (TCBnext (TCBTbl s i), TCBprev (TCBTbl s i)) of
                 (None, None) \<Rightarrow> upd_mutex m (waittingList_update (\<lambda>_. None)) s
               | (None, Some k) \<Rightarrow> set_prev i None (set_next k None s)
               | (Some j, None) \<Rightarrow> set_next i None (set_prev j None s)
               | (Some j, Some k) \<Rightarrow>
                   set_next i None (set_prev i None (set_next k (Some j) (set_prev j (Some k) s))));
          s = set_mutexID i INVALID_ID s;
          mx = MutexTbl s m
      in if hipriTaskID mx = taskID (TCBTbl s i) then
           (case mtx_scan TASK_NUM s (waittingList mx) (originalPrio mx) (mtx_taskID mx) of
              None \<Rightarrow> s\<lparr>hang := True\<rparr>
            | Some (pr, hi) \<Rightarrow>
                (let own = mtx_taskID mx;
                     s = upd_mutex m (\<lambda>x. x\<lparr>hipriTaskID := hi, mtx_taskID := INVALID_ID\<rparr>) s;
                     s = snd (CoSetPriority u own pr s)
                 in upd_mutex m (mtx_taskID_update (\<lambda>_. own)) s))
         else s)"

end
