(* ===== verification/CoOS_Task.thy ===== *)
theory CoOS_Task
  imports CoOS_Mutex
begin

text \<open>
  The life of a task: creation, deletion, suspension (\<open>task.c\<close>), the initial stack
  frame (\<open>arch.c\<close>) and the start of the system (\<open>core.c\<close>).
\<close>

section \<open>Creation\<close>

definition task_init :: "nat \<Rightarrow> kernel \<Rightarrow> kernel" where
  "task_init i = upd i (\<lambda>t. t\<lparr>taskID := word_of_nat i, state := TASK_DORMANT, TCBnext := Some (i + 1)\<rparr>)"

text \<open>The last block of the table is given no state.\<close>

definition CreateTCBList :: "kernel \<Rightarrow> kernel" where
  "CreateTCBList s =
     (let s = fold task_init [0..<TASK_NUM - 1] s;
          s = upd (TASK_NUM - 1) (\<lambda>t. t\<lparr>taskID := word_of_nat (TASK_NUM - 1), TCBnext := None\<rparr>) s
      in s\<lparr>FreeTCB := Some 0\<rparr>)"

text \<open>The stack frame of a task that has not run yet; stack cells are four bytes wide.\<close>

definition InitTaskContext :: "U32 \<Rightarrow> U32 \<Rightarrow> U32 \<Rightarrow> kernel \<Rightarrow> U32 \<times> kernel" where
  "InitTaskContext task param pstk s =
     (let context = pstk;
          mem = (Mem s)(context := 0x01000000);
          context = context - 4;
          mem = mem(context := task);
          context = context - 4;
          mem = mem(context := 0xFFFFFFFE);
          context = context - 4 * 5;
          mem = mem(context := param);
          context = context - 4 * 8
      in (context, s\<lparr>Mem := mem\<rparr>))"

definition AssignTCB :: "unlock \<Rightarrow> kernel \<Rightarrow> ptr \<times> kernel" where
  "AssignTCB u s =
     (let s = OsSchedLock s
      in case FreeTCB s of
           None \<Rightarrow> (None, u s)
         | Some i \<Rightarrow> (Some i, u (s\<lparr>FreeTCB := TCBnext (TCBTbl s i)\<rparr>)))"

definition stk_size :: "U32 \<Rightarrow> U16" where
  "stk_size parameter = ucast (drop_bit 8 (parameter AND 0xfff00))"

definition time_slice :: "U32 \<Rightarrow> U16" where
  "time_slice parameter =
     (let ts = ucast (drop_bit 20 (parameter AND 0x7fff0000)) in if ts = 0 then CFG_TIME_SLICE else ts)"

text \<open>Filling in the control block of a new task.\<close>

definition tcb_fill :: "U32 \<Rightarrow> U8 \<Rightarrow> U32 \<Rightarrow> U32 \<Rightarrow> tcb \<Rightarrow> tcb" where
  "tcb_fill stkTop pr bottom parameter t =
     t\<lparr>stkPtr := stkTop, prio := pr, stack := bottom, delayTick := INVALID_VALUE,
       TCBnext := None, TCBprev := None, timeSlice := time_slice parameter, pnode := PnodeNull,
       eventID := INVALID_ID, pmail := 0, waitNext := None, waitPrev := None, mutexID := INVALID_ID\<rparr>"

definition CreateTask :: "unlock \<Rightarrow> U32 \<Rightarrow> U32 \<Rightarrow> U32 \<Rightarrow> U32 \<Rightarrow> kernel \<Rightarrow> U8 \<times> kernel" where
  "CreateTask u task argv parameter stk s =
     (let sktSz = stk_size parameter;
          pr = ucast (parameter AND 0xff) :: U8
      in if task = 0 then (E_CREATE_FAIL, s)
         else if stk = 0 then (E_CREATE_FAIL, s)
         else if pr > CFG_LOWEST_PRIO then (E_CREATE_FAIL, s)
         else if sktSz < 20 then (E_CREATE_FAIL, s)
         else
           (case InitTaskContext task argv stk s of
              (stkTop, s) \<Rightarrow>
                (case AssignTCB u s of
                   (None, s) \<Rightarrow> (E_CREATE_FAIL, s)
                 | (Some i, s) \<Rightarrow>
                     (let bottom = stk + 4 - 4 * ucast sktSz;
                          s = upd i (tcb_fill stkTop pr bottom parameter) s;
                          s = s\<lparr>Mem := (Mem s)(bottom := MAGIC_WORD)\<rparr>;
                          s = (if drop_bit 31 parameter = 0
                               then u (InsertToTCBRdyList i (OsSchedLock s))
                               else set_state i TASK_WAITING s)
                      in (taskID (TCBTbl s i), s)))))"

section \<open>Deletion, suspension and wake-up\<close>

text \<open>A waiting task leaves every list it may be in.\<close>

definition leave_waits :: "unlock \<Rightarrow> nat \<Rightarrow> kernel \<Rightarrow> kernel" where
  "leave_waits u i s =
     (let s = leave_delay i s;
          s = (if eventID (TCBTbl s i) \<noteq> INVALID_ID then RemoveEventWaittingList i s else s);
          s = remove_pnode (pnode (TCBTbl s i)) s
      in if mutexID (TCBTbl s i) \<noteq> INVALID_ID then RemoveMutexList u i s else s)"

definition CoDelTask :: "unlock \<Rightarrow> U8 \<Rightarrow> kernel \<Rightarrow> U8 \<times> kernel" where
  "CoDelTask u tid s =
     (let i = unat tid
      in if i \<ge> TASK_NUM then (E_INVALID_ID, s)
         else if state (TCBTbl s i) = TASK_DORMANT then (E_INVALID_ID, s)
         else if tid = 0 then (E_PROTECTED_TASK, s)
         else if state (TCBTbl s i) = TASK_RUNNING \<and> OSSchedLock s \<noteq> 0 then (E_OS_IN_LOCK, s)
         else
           (let mid = mutexID (TCBTbl s i);
                s = (if mid \<noteq> INVALID_ID \<and> mtx_taskID (MutexTbl s (unat mid)) = taskID (TCBTbl s i)
                     then snd (CoLeaveMutexSection u mid s) else s);
                s = OsSchedLock s;
                s = (case state (TCBTbl s i) of
                       TASK_READY \<Rightarrow> RemoveFromTCBRdyList i s
                     | TASK_WAITING \<Rightarrow> leave_waits u i s
                     | _ \<Rightarrow> s);
                s = (set_state i TASK_DORMANT s)\<lparr>TaskSchedReq := True\<rparr>;
                s = set_next i (FreeTCB s) s;
                s = s\<lparr>FreeTCB := Some i\<rparr>
            in (E_OK, u s)))"

definition CoGetCurTaskID :: "kernel \<Rightarrow> U8" where
  "CoGetCurTaskID s = taskID (tcb_at s (TCBRunning s))"

definition CoExitTask :: "unlock \<Rightarrow> kernel \<Rightarrow> kernel" where
  "CoExitTask u s = snd (CoDelTask u (taskID (tcb_at s (TCBRunning s))) s)"

definition CoSuspendTask :: "unlock \<Rightarrow> U8 \<Rightarrow> kernel \<Rightarrow> U8 \<times> kernel" where
  "CoSuspendTask u tid s =
     (let i = unat tid
      in if tid = 0 then (E_PROTECTED_TASK, s)
         else if i \<ge> TASK_NUM then (E_INVALID_ID, s)
         else if state (TCBTbl s i) = TASK_DORMANT then (E_INVALID_ID, s)
         else if OSSchedLock s \<noteq> 0 then (E_OS_IN_LOCK, s)
         else if state (TCBTbl s i) = TASK_WAITING then (E_ALREADY_IN_WAITING, s)
         else
           (let s = OsSchedLock s;
                s = (if TCBRunning s \<noteq> Some i then RemoveFromTCBRdyList i s
                     else s\<lparr>TaskSchedReq := True\<rparr>);
                s = set_state i TASK_WAITING s
            in (E_OK, u s)))"

definition CoAwakeTask :: "unlock \<Rightarrow> U8 \<Rightarrow> kernel \<Rightarrow> U8 \<times> kernel" where
  "CoAwakeTask u tid s =
     (let i = unat tid; t = TCBTbl s i
      in if tid = 0 then (E_PROTECTED_TASK, s)
         else if i \<ge> TASK_NUM then (E_INVALID_ID, s)
         else if state t = TASK_DORMANT then (E_INVALID_ID, s)
         else if state t \<noteq> TASK_WAITING then (E_TASK_NOT_WAITING, s)
         else if delayTick t \<noteq> INVALID_VALUE then (E_TASK_WAIT_OTHER, s)
         else if pnode t \<noteq> PnodeNull then (E_TASK_WAIT_OTHER, s)
         else if eventID t \<noteq> INVALID_ID then (E_TASK_WAIT_OTHER, s)
         else if mutexID t \<noteq> INVALID_ID then (E_TASK_WAIT_OTHER, s)
         else (E_OK, u (InsertToTCBRdyList i (OsSchedLock s))))"

section \<open>The start of the system\<close>

text \<open>
  \<open>CoInitOS\<close> without the hardware set-up (system tick, exception priorities, process
  stack), which is not modelled, and the call of \<open>CoCreateKheap\<close>, modelled on the state of the heap in \<open>CoOS_Kheap\<close>. The addresses of the idle task and of the top of its stack are parameters.
\<close>

definition CFG_IDLE_STACK_SIZE :: U32 where "CFG_IDLE_STACK_SIZE = 25"

definition CoInitOS :: "(U32 \<Rightarrow> kernel \<Rightarrow> kernel) \<Rightarrow> U32 \<Rightarrow> U32 \<Rightarrow> kernel \<Rightarrow> kernel" where
  "CoInitOS cb idle_task idle_top s =
     (let s = CreateTCBList s;
          s = CreateEventList s;
          s = OsSchedLock s
      in snd (CreateTask (OsSchedUnlock cb) idle_task 0
           (ucast CFG_LOWEST_PRIO OR (push_bit 8 CFG_IDLE_STACK_SIZE AND 0x000FFF00)) idle_top s))"

definition CoStartOS :: "(U32 \<Rightarrow> kernel \<Rightarrow> kernel) \<Rightarrow> kernel \<Rightarrow> kernel" where
  "CoStartOS cb s =
     (let s = s\<lparr>TCBRunning := Some 0\<rparr>;
          s = s\<lparr>TCBNext := TCBRunning s\<rparr>;
          s = set_state 0 TASK_RUNNING s;
          s = RemoveFromTCBRdyList 0 s
      in OsSchedUnlock cb s)"

end
