(* ===== verification/CoOS_Example.thy ===== *)
theory CoOS_Example
  imports CoOS_Event
begin

text \<open>
  A concrete kernel state on which the properties of the kernel are exercised:
  task 2 runs; tasks 1 and 0 (the idle task) are ready; task 3 waits for semaphore
  0 with a time-out of 3 ticks, task 4 is delayed for 5 ticks; task 5 is free.
\<close>

definition example_tcb :: "nat \<Rightarrow> U8 \<Rightarrow> task_state \<Rightarrow> ptr \<Rightarrow> ptr \<Rightarrow> U32 \<Rightarrow> tcb" where
  "example_tcb i pr st nx pv dly =
     tcb0\<lparr>stkPtr := 0x10001000, stack := 0x10000800, prio := pr, state := st, taskID := word_of_nat i,
       mutexID := INVALID_ID, eventID := INVALID_ID, timeSlice := 10, delayTick := dly,
       TCBnext := nx, TCBprev := pv\<rparr>"

definition example :: kernel where
  "example = kernel0\<lparr>
     TCBTbl := (\<lambda>_. tcb0)
       (0 := example_tcb 0 64 TASK_READY None (Some 1) INVALID_VALUE,
        1 := example_tcb 1 10 TASK_READY (Some 0) None INVALID_VALUE,
        2 := example_tcb 2 5 TASK_RUNNING None None INVALID_VALUE,
        3 := (example_tcb 3 7 TASK_WAITING (Some 4) None 3)\<lparr>eventID := 0\<rparr>,
        4 := example_tcb 4 20 TASK_WAITING None (Some 3) 2,
        5 := (example_tcb 5 0 TASK_DORMANT None None 0)),
     TCBRdy := Some 1, TCBNext := Some 2, TCBRunning := Some 2, DlyList := Some 3, FreeTCB := Some 5,
     EventTbl := (\<lambda>_. ecb0)
       (0 := ecb0\<lparr>eventType := EVENT_TYPE_SEM, eventSortType := EVENT_SORT_TYPE_PRIO,
               initialEventCounter := 2, eventTCBList := Some 3\<rparr>),
     Mem := (\<lambda>_. MAGIC_WORD)\<rparr>"

lemmas example_defs = example_def example_tcb_def kernel0_def tcb0_def ecb0_def

lemma example_links:
  "tnext example = (\<lambda>_. None)(1 := Some 0, 3 := Some 4)"
  "tprev example = (\<lambda>_. None)(0 := Some 1, 4 := Some 3)"
  "wnext example = (\<lambda>_. None)" "wprev example = (\<lambda>_. None)"
  by (auto simp: link_defs example_defs fun_eq_iff)

lemma example_vars [simp]:
  "TCBRdy example = Some 1" "TCBNext example = Some 2" "TCBRunning example = Some 2"
  "DlyList example = Some 3" "OSSchedLock example = 0" "OSIntNesting example = 0"
  "eventTCBList (EventTbl example 0) = Some 3" "eventSortType (EventTbl example 0) = EVENT_SORT_TYPE_PRIO"
  "eventType (EventTbl example 0) = EVENT_TYPE_SEM" "eventCounter (EventTbl example 0) = 0"
  "initialEventCounter (EventTbl example 0) = 2"
  by (simp_all add: example_defs)

lemma example_ready: "ready_ok example" "ready_list example = [1, 0]"
proof -
  have "dll (tnext example) (tprev example) (TCBRdy example) [1, 0]"
    by (simp add: dll_def example_links)
  moreover have "sorted (map (task_prio example) [1, 0])"
    by (simp add: task_prio_def example_defs)
  ultimately show "ready_ok example" "ready_list example = [1, 0]"
    using ready_okI [of example "[1, 0]"] by (simp_all add: cfg_defs)
qed

lemma example_delays:
  "delay_ok example" "delay_list example = [3, 4]" "delays example = [(3, 3), (4, 5)]"
proof -
  have "delta_wf TASK_NUM (tnext example) (tprev example) (delay_of example) (DlyList example) [3, 4]"
    by (simp add: delta_wf_def dll_def example_links ticks_of_def delay_of_def cfg_defs)
      (simp add: example_defs)
  from delay_listI [OF this] show "delay_ok example" "delay_list example = [3, 4]" .
  then show "delays example = [(3, 3), (4, 5)]"
    by (simp add: delays_def ticks_of_def delay_of_def) (simp add: example_defs)
qed

lemma example_lists: "lists_ok example"
  by (simp add: lists_ok_def example_ready example_delays)

lemma example_waiters: "wait_ok 0 example" "wait_list 0 example = [3]"
proof -
  have "wait_ok 0 example \<and> wait_list 0 example = [3]"
    by (rule wait_listI) (simp_all add: dll_def example_links cfg_defs)
  then show "wait_ok 0 example" "wait_list 0 example = [3]" by simp_all
qed

lemma example_wakeable: "wakeable 3 example"
  by (simp add: wakeable_def example_ready example_delays) (simp add: example_defs)

lemma example_tasks [simp]:
  "task_prio example 0 = 64" "task_prio example 1 = 10" "task_prio example (Suc 0) = 10" "task_prio example 2 = 5"
  "task_prio example 3 = 7" "task_prio example 4 = 20" "state (TCBTbl example 2) = TASK_RUNNING"
  by (simp_all add: task_prio_def example_defs)

lemma example_sched: "sched_pre example 2"
  by (simp add: sched_pre_def example_ready unlinked_def example_links cfg_defs)

lemmas example_facts = example_lists example_ready example_delays example_waiters example_wakeable
  example_sched

section \<open>Properties of the scheduler and its lists\<close>



text \<open>
  C2. Making a task ready inserts it into the ready list by priority, behind the
  tasks of its own priority, keeps the list well formed (linked both ways, within
  the task table, sorted), marks the task ready and does not run into an endless search.
\<close>

theorem InsertToTCBRdyList_by_priority:
  assumes "ready_ok s" "i < TASK_NUM" "i \<notin> set (ready_list s)" "unlinked s i"
  shows "ready_ok (InsertToTCBRdyList i s)
    \<and> ready_list (InsertToTCBRdyList i s) = insert_by (task_prio s) i (ready_list s)
    \<and> state (TCBTbl (InsertToTCBRdyList i s) i) = TASK_READY
    \<and> hang (InsertToTCBRdyList i s) = hang s"
  using InsertToTCBRdyList_refines [OF assms] by simp

theorem InsertToTCBRdyList_by_priority_witness:
  "ready_list (InsertToTCBRdyList 2 example) = [2, 1, 0]"
  using InsertToTCBRdyList_by_priority [of example 2]
  by (simp add: example_ready unlinked_def example_links cfg_defs)



text \<open>
  C4. Removing a task from the delay list before its delay is over leaves the due
  times of all the other tasks as they were, frees the links of the task and marks
  it as not delayed.
\<close>

theorem RemoveDelayList_keeps_due_times:
  assumes "lists_ok s" "i \<in> set (delay_list s)"
  shows "lists_ok (RemoveDelayList i s)
    \<and> delays (RemoveDelayList i s) = filter (\<lambda>(x, _). x \<noteq> i) (delays s)
    \<and> ready_list (RemoveDelayList i s) = ready_list s
    \<and> unlinked (RemoveDelayList i s) i
    \<and> delayTick (TCBTbl (RemoveDelayList i s) i) = INVALID_VALUE"
  by (rule RemoveDelayList_refines [OF assms])

theorem RemoveDelayList_keeps_due_times_witness:
  "delays (RemoveDelayList 3 example) = [(4, 5)]"
  using RemoveDelayList_keeps_due_times [of example 3] by (simp add: example_facts)

text \<open>
  C5. A task that starts to wait for an event is filed by the order of the event:
  behind all waiters (FIFO) or behind the waiters of its own or a higher priority
  (priority order). It is marked as waiting for that event, a schedule is requested,
  and neither the ready list nor the delay list changes.
\<close>

theorem EventTaskToWait_files_waiter:
  assumes "wait_ok e s" "i < TASK_NUM" "i \<notin> set (wait_list e s)" "wnext s i = None" "wprev s i = None"
    "eventSortType (EventTbl s e) \<in> {EVENT_SORT_TYPE_FIFO, EVENT_SORT_TYPE_PRIO}"
  shows "wait_ok e (wait_body e i s)
    \<and> wait_list e (wait_body e i s)
        = enlist (eventSortType (EventTbl s e)) (task_prio s) i (wait_list e s)
    \<and> eventID (TCBTbl (wait_body e i s) i) = ecb_id (EventTbl s e)
    \<and> state (TCBTbl (wait_body e i s) i) = TASK_WAITING
    \<and> TaskSchedReq (wait_body e i s) \<and> hang (wait_body e i s) = hang s
    \<and> lists_ok (wait_body e i s) = lists_ok s
    \<and> ready_list (wait_body e i s) = ready_list s \<and> delays (wait_body e i s) = delays s"
  using wait_body_refines [OF assms] same_listsD(1,2,4) [OF wait_body_same] by metis

theorem EventTaskToWait_files_waiter_witness:
  "wait_list 0 (wait_body 0 2 example) = [2, 3] \<and> wait_list 0 (wait_body 0 4 example) = [3, 4]"
  using EventTaskToWait_files_waiter [of 0 example 2] EventTaskToWait_files_waiter [of 0 example 4]
  by (simp add: example_facts example_links enlist_def cfg_defs)

text \<open>
  C6. Posting to an event with waiters wakes the first one: it leaves the waiting
  list and the delay list (whose other due times stay), enters the ready list at
  the place of its priority and waits for no event any more.
\<close>

theorem EventTaskToRdy_wakes_first:
  assumes "lists_ok s" "wait_ok e s" "wait_list e s = i # ws" "wakeable i s" "TCBRunning s \<noteq> Some i"
  shows "lists_ok (EventTaskToRdy e s) \<and> wait_ok e (EventTaskToRdy e s)
    \<and> wait_list e (EventTaskToRdy e s) = ws
    \<and> ready_list (EventTaskToRdy e s) = insert_by (task_prio s) i (ready_list s)
    \<and> delays (EventTaskToRdy e s) = filter (\<lambda>(x, _). x \<noteq> i) (delays s)
    \<and> state (TCBTbl (EventTaskToRdy e s) i) = TASK_READY
    \<and> eventID (TCBTbl (EventTaskToRdy e s) i) = INVALID_ID"
  by (rule EventTaskToRdy_refines [OF assms])

theorem EventTaskToRdy_wakes_first_witness:
  "ready_list (EventTaskToRdy 0 example) = [3, 1, 0] \<and> delays (EventTaskToRdy 0 example) = [(4, 5)]"
  using EventTaskToRdy_wakes_first [of example 0 3 "[]"] by (simp add: example_facts)

end
