(* ===== verification/CoOS_Messages.thy ===== *)
theory CoOS_Messages
  imports CoOS_Task CoOS_Example
begin

text \<open>
  What semaphores, mailboxes and message queues promise, with the kernel's own
  \<open>OsSchedUnlock\<close> at the end of their critical sections. The statements are about
  states in which no interrupt handler has left a deferred request; the requests
  themselves are served by the same operations (\<open>CoOS_Service\<close>).
\<close>

section \<open>Message queues are bounded first-in first-out queues\<close>

text \<open>Event \<open>e\<close> is a queue of capacity \<open>n\<close> with control block \<open>q\<close>, and no task waits for it.\<close>

definition queue_ok :: "nat \<Rightarrow> nat \<Rightarrow> nat \<Rightarrow> kernel \<Rightarrow> bool" where
  "queue_ok e q n s \<longleftrightarrow>
     (let c = QueueTbl s q
      in \<not> IsrReq s \<and> e < CFG_MAX_EVENT \<and> eventType (EventTbl s e) = EVENT_TYPE_QUEUE
         \<and> eventPtr (EventTbl s e) = EvQueue q \<and> eventTCBList (EventTbl s e) = None
         \<and> unat (qMaxSize c) = n \<and> unat (qSize c) \<le> n \<and> unat (q_head c) < n
         \<and> unat (q_tail c) = (unat (q_head c) + unat (qSize c)) mod n)"

definition mails :: "nat \<Rightarrow> kernel \<Rightarrow> U32 list" where
  "mails q s =
     (let c = QueueTbl s q
      in ring (\<lambda>k. Mem s (q_addr (qStart c) (word_of_nat k))) (unat (q_head c)) (unat (qMaxSize c))
           (unat (qSize c)))"

definition queue_put :: "(U32 \<Rightarrow> kernel \<Rightarrow> kernel) \<Rightarrow> U8 \<Rightarrow> U32 \<Rightarrow> kernel \<Rightarrow> kernel" where
  "queue_put cb i m s = snd (CoPostQueueMail (OsSchedUnlock cb) i m s)"

definition queue_get :: "(U32 \<Rightarrow> kernel \<Rightarrow> kernel) \<Rightarrow> U8 \<Rightarrow> kernel \<Rightarrow> U32 option \<times> kernel" where
  "queue_get cb i s =
     (case CoAcceptQueueMail (OsSchedUnlock cb) i s of
        ((m, err), s) \<Rightarrow> (if err = E_OK then Some m else None, s))"

lemma unat_below: "unat (w::'a::len word) < 2 ^ LENGTH('a)"
  by (rule unsigned_less)

lemma length_mails [simp]: "length (mails q s) = unat (qSize (QueueTbl s q))"
  by (simp add: mails_def Let_def)

lemma queue_view_cong:
  assumes "same_objects s t"
  shows "queue_ok e q n s = queue_ok e q n t" "mails q s = mails q t"
  using assms by (simp_all add: same_objects_def queue_ok_def mails_def)

lemma q_addr_inj: "q_addr a i = q_addr a j \<Longrightarrow> i = j"
proof -
  assume "q_addr a i = q_addr a j"
  then have "(4 * ucast i :: U32) = 4 * ucast j" by (simp add: q_addr_def)
  then have "unat (4 * ucast i :: U32) = unat (4 * ucast j :: U32)" by simp
  moreover have "unat (4 * ucast k :: U32) = 4 * unat k" for k :: U16
    using unat_below [of k] by (simp add: unat_word_ariths unsigned_ucast_eq take_bit_nat_def)
  ultimately show ?thesis by (simp add: word_unat_eq_iff)
qed

lemma unat_succ_below: "unat (w::'a::len word) < unat (v::'a word) \<Longrightarrow> unat (w + 1) = Suc (unat w)"
proof -
  assume "unat w < unat v"
  then have "Suc (unat w) < 2 ^ LENGTH('a)" using unat_below [of v] by linarith
  then show ?thesis by (simp add: unat_word_ariths)
qed

text \<open>The position after \<open>w\<close> in a buffer of \<open>v\<close> cells, as the queue operations compute it.\<close>

lemma wrap_next:
  assumes "unat (w::U16) < unat v"
  shows "unat (if w + 1 = v then 0 else w + 1) = Suc (unat w) mod unat v"
proof (cases "w + 1 = v")
  case True
  then show ?thesis using unat_succ_below [OF assms] by simp
next
  case False
  then have "Suc (unat w) \<noteq> unat v" using unat_succ_below [OF assms] by (metis word_unat_eq_iff)
  then show ?thesis using False assms unat_succ_below [OF assms] by simp
qed

lemma qcb_push_refines:
  assumes ok: "queue_ok e q n s" and room: "length (mails q s) < n"
  shows "queue_ok e q n (qcb_push q m s) \<and> mails q (qcb_push q m s) = mails q s @ [m]"
proof -
  let ?c = "QueueTbl s q" and ?f = "\<lambda>k. Mem s (q_addr (qStart (QueueTbl s q)) (word_of_nat k))"
  have c: "unat (qMaxSize ?c) = n" "unat (q_head ?c) < n"
    "unat (q_tail ?c) = (unat (q_head ?c) + unat (qSize ?c)) mod n"
    using ok by (simp_all add: queue_ok_def Let_def)
  have n: "n < 65536" using unat_below [of "qMaxSize ?c"] c(1) by simp
  have sz: "unat (qSize ?c + 1) = Suc (unat (qSize ?c))"
    using unat_succ_below [of "qSize ?c" "qMaxSize ?c"] room c(1) by simp
  have tl: "unat (q_tail ?c) < n" using c(2,3) by simp
  have nx: "unat (if q_tail ?c + 1 = qMaxSize ?c then 0 else q_tail ?c + 1) = (unat (q_head ?c) + Suc (unat (qSize ?c))) mod n"
    using wrap_next [of "q_tail ?c" "qMaxSize ?c"] tl c(1,3) by (simp add: mod_Suc_eq)
  have eq: "QueueTbl (qcb_push q m s) q = ?c\<lparr>qSize := qSize ?c + 1,
      q_tail := (if q_tail ?c + 1 = qMaxSize ?c then 0 else q_tail ?c + 1)\<rparr>"
    by (simp add: qcb_push_def upd_qcb_def Let_def)
  have fr: "EventTbl (qcb_push q m s) = EventTbl s" "IsrReq (qcb_push q m s) = IsrReq s"
    by (simp_all add: qcb_push_def upd_qcb_def Let_def)
  have mem: "Mem (qcb_push q m s) (q_addr (qStart ?c) (word_of_nat k)) = (?f(unat (q_tail ?c) := m)) k"
    if "k < n" for k
  proof -
    have "unat (word_of_nat k :: U16) = k" using that n by (simp add: unat_of_nat)
    then have "word_of_nat k = q_tail ?c \<longleftrightarrow> k = unat (q_tail ?c)" by (metis word_unat_eq_iff)
    moreover have "q_addr (qStart ?c) (word_of_nat k) = q_addr (qStart ?c) (q_tail ?c) \<longleftrightarrow> word_of_nat k = q_tail ?c"
      by (rule iffI [OF q_addr_inj]) simp_all
    moreover have "Mem (qcb_push q m s) = (Mem s)(q_addr (qStart ?c) (q_tail ?c) := m)"
      by (simp add: qcb_push_def upd_qcb_def Let_def)
    ultimately show ?thesis by (simp only: fun_upd_apply)
  qed
  have "mails q (qcb_push q m s) = ring (?f(unat (q_tail ?c) := m)) (unat (q_head ?c)) n (Suc (unat (qSize ?c)))"
  proof -
    have "ring (\<lambda>k. Mem (qcb_push q m s) (q_addr (qStart ?c) (word_of_nat k))) h n z
        = ring (?f(unat (q_tail ?c) := m)) h n z" for h z
      using tl by (intro ring_cong mem) simp_all
    then show ?thesis unfolding mails_def Let_def eq using sz c(1) by simp
  qed
  also have "\<dots> = mails q s @ [m]"
    using ring_push [of "unat (qSize ?c)" n ?f "unat (q_head ?c)" m] room c
    by (simp add: mails_def Let_def)
  finally have M: "mails q (qcb_push q m s) = mails q s @ [m]" .
  have "queue_ok e q n (qcb_push q m s)"
    using ok eq sz nx room fr by (simp add: queue_ok_def Let_def split del: if_split)
  with M show ?thesis by simp
qed

lemma qcb_pop_refines:
  assumes ok: "queue_ok e q n s" and xs: "mails q s = y # ys"
  shows "qcb_front q s = y \<and> queue_ok e q n (qcb_pop q s) \<and> mails q (qcb_pop q s) = ys"
proof -
  let ?c = "QueueTbl s q" and ?f = "\<lambda>k. Mem s (q_addr (qStart (QueueTbl s q)) (word_of_nat k))"
  have c: "unat (qMaxSize ?c) = n" "unat (q_head ?c) < n"
    "unat (q_tail ?c) = (unat (q_head ?c) + unat (qSize ?c)) mod n"
    using ok by (simp_all add: queue_ok_def Let_def)
  have "unat (qSize ?c) = Suc (length ys)" using length_mails [of q s] xs by simp
  then have sz: "unat (qSize ?c) = Suc (unat (qSize ?c - 1))" by (intro unat_pred) auto
  have hd: "unat (if q_head ?c + 1 = qMaxSize ?c then 0 else q_head ?c + 1) = (unat (q_head ?c) + 1) mod n"
    using wrap_next [of "q_head ?c" "qMaxSize ?c"] c(1,2) by simp
  have eq: "QueueTbl (qcb_pop q s) q = ?c\<lparr>qSize := qSize ?c - 1,
      q_head := (if q_head ?c + 1 = qMaxSize ?c then 0 else q_head ?c + 1)\<rparr>"
    by (simp add: qcb_pop_def upd_qcb_def Let_def)
  have fr: "Mem (qcb_pop q s) = Mem s" "EventTbl (qcb_pop q s) = EventTbl s" "IsrReq (qcb_pop q s) = IsrReq s"
    by (simp_all add: qcb_pop_def upd_qcb_def)
  have "mails q s = ?f (unat (q_head ?c)) # ring ?f ((unat (q_head ?c) + 1) mod n) n (unat (qSize ?c - 1))"
    using ring_pop [OF c(2), of ?f "unat (qSize ?c - 1)"] sz c(1) by (simp add: mails_def Let_def)
  with xs have M: "qcb_front q s = y" "mails q (qcb_pop q s) = ys"
    using eq fr hd c(1) by (simp_all add: mails_def qcb_front_def Let_def)
  have "((unat (q_head ?c) + 1) mod n + unat (qSize ?c - 1)) mod n = (unat (q_head ?c) + unat (qSize ?c)) mod n"
    unfolding sz by (simp add: mod_add_left_eq)
  with M show ?thesis
    using ok eq hd sz c fr by (simp add: queue_ok_def Let_def split del: if_split)
qed

lemma EventTaskToRdy_idle [simp]: "eventTCBList (EventTbl s e) = None \<Longrightarrow> EventTaskToRdy e s = s"
  by (simp add: EventTaskToRdy_def)

lemma lock_objects: "same_objects (OsSchedLock s) s"
  by (simp add: same_objects_def OsSchedLock_def)

lemma queue_put_refines:
  assumes ok: "queue_ok (unat i) q n s"
  shows "queue_ok (unat i) q n (queue_put cb i m s)
    \<and> mails q (queue_put cb i m s) = (if length (mails q s) < n then mails q s @ [m] else mails q s)"
proof (cases "length (mails q s) < n")
  case True
  let ?t = "qcb_push q m (OsSchedLock s)"
  have L: "queue_ok (unat i) q n (OsSchedLock s)" "mails q (OsSchedLock s) = mails q s"
    using queue_view_cong [OF lock_objects [of s]] ok by simp_all
  then have P: "queue_ok (unat i) q n ?t" "mails q ?t = mails q s @ [m]"
    using qcb_push_refines [OF L(1), of m] True by simp_all
  have e: "unat i < CFG_MAX_EVENT" "eventType (EventTbl s (unat i)) = EVENT_TYPE_QUEUE"
    "eventPtr (EventTbl s (unat i)) = EvQueue q" "eventTCBList (EventTbl ?t (unat i)) = None" "\<not> IsrReq ?t"
    "unat (qMaxSize (QueueTbl s q)) = n"
    using ok P(1) by (simp_all add: queue_ok_def Let_def)
  have "qSize (QueueTbl s q) \<noteq> qMaxSize (QueueTbl s q)" using True e(6) by auto
  then have "queue_put cb i m s = OsSchedUnlock cb ?t"
    using e by (simp add: queue_put_def CoPostQueueMail_def with_qcb_def Let_def)
  then show ?thesis using queue_view_cong [OF unlock_quiet [OF e(5), of cb]] P True by simp
next
  case False
  then have "qSize (QueueTbl s q) = qMaxSize (QueueTbl s q)" "unat i < CFG_MAX_EVENT"
      "eventType (EventTbl s (unat i)) = EVENT_TYPE_QUEUE" "eventPtr (EventTbl s (unat i)) = EvQueue q"
    using ok by (auto simp: queue_ok_def Let_def word_unat_eq_iff)
  then have "queue_put cb i m s = s"
    by (simp add: queue_put_def CoPostQueueMail_def with_qcb_def Let_def)
  then show ?thesis using ok False by simp
qed

lemma queue_get_refines:
  assumes ok: "queue_ok (unat i) q n s"
  shows "fst (queue_get cb i s) = (case mails q s of [] \<Rightarrow> None | y # _ \<Rightarrow> Some y)
    \<and> queue_ok (unat i) q n (snd (queue_get cb i s)) \<and> mails q (snd (queue_get cb i s)) = tl (mails q s)"
proof (cases "mails q s")
  case Nil
  have L: "queue_ok (unat i) q n (OsSchedLock s)" "mails q (OsSchedLock s) = mails q s"
    using queue_view_cong [OF lock_objects [of s]] ok by simp_all
  have "\<not> IsrReq (OsSchedLock s)" using L(1) by (simp add: queue_ok_def Let_def)
  note U = queue_view_cong [OF unlock_quiet [OF this, of cb]]
  have "qSize (QueueTbl s q) = 0" using length_mails [of q s] Nil by (simp add: unat_eq_0)
  then have "queue_get cb i s = (None, OsSchedUnlock cb (OsSchedLock s))"
    using ok lock_objects [of s]
    by (simp add: queue_get_def CoAcceptQueueMail_def with_qcb_def Let_def queue_ok_def same_objects_def)
  then show ?thesis using U L Nil by simp
next
  case (Cons y ys)
  let ?t = "qcb_pop q (OsSchedLock s)"
  have L: "queue_ok (unat i) q n (OsSchedLock s)" "mails q (OsSchedLock s) = y # ys"
    using queue_view_cong [OF lock_objects [of s]] ok Cons by simp_all
  note P = qcb_pop_refines [OF L]
  have "\<not> IsrReq ?t" using P by (simp add: queue_ok_def Let_def)
  note U = queue_view_cong [OF unlock_quiet [OF this, of cb]]
  have "qSize (QueueTbl s q) \<noteq> 0" using length_mails [of q s] Cons by auto
  then have "queue_get cb i s = (Some y, OsSchedUnlock cb ?t)"
    using ok lock_objects [of s] P
    by (simp add: queue_get_def CoAcceptQueueMail_def with_qcb_def Let_def queue_ok_def same_objects_def)
  then show ?thesis using U P Cons by simp
qed

interpretation mq: bounded_fifo "queue_ok (unat i) q n" "mails q" n "queue_put cb i" "queue_get cb i"
  for cb :: "U32 \<Rightarrow> kernel \<Rightarrow> kernel" and i :: U8 and q n :: nat
  using queue_put_refines [of i q n] queue_get_refines [of i q n]
  by unfold_locales simp_all

section \<open>Semaphores and mailboxes\<close>

lemma pmail_lists [simp]:
  "pmail (TCBTbl (InsertToTCBRdyList i s) j) = pmail (TCBTbl s j)"
  "pmail (TCBTbl (RemoveDelayList i s) j) = pmail (TCBTbl s j)"
  "pmail (TCBTbl (set_state i v s) j) = pmail (TCBTbl s j)"
  by (auto simp: InsertToTCBRdyList_def RemoveDelayList_def Let_def robin_deadline_def access_defs
      split: option.split)

text \<open>What the woken task and the event look like after a post.\<close>

lemma EventTaskToRdy_delivers:
  assumes "eventTCBList (EventTbl s e) = Some i"
  shows "eventType (EventTbl s e) = EVENT_TYPE_SEM \<Longrightarrow>
      pmail (TCBTbl (EventTaskToRdy e s) i) = 0xffffffff
      \<and> eventCounter (EventTbl (EventTaskToRdy e s) e) = eventCounter (EventTbl s e) - 1"
    "eventType (EventTbl s e) = EVENT_TYPE_MBOX \<Longrightarrow>
      pmail (TCBTbl (EventTaskToRdy e s) i) = ev_mail (eventPtr (EventTbl s e))
      \<and> eventCounter (EventTbl (EventTaskToRdy e s) e) = eventCounter (EventTbl s e) - 1
      \<and> eventPtr (EventTbl (EventTaskToRdy e s) e) = EvNull"
  using assms
  by (simp_all add: EventTaskToRdy_def wait_unlink_head_def leave_delay_def deliver_def wake_def Let_def
      split: option.split)

text \<open>A post to a semaphore or mailbox with waiters, up to the unlock that ends it.\<close>

lemma post_wakes:
  assumes ok: "lists_ok s" "wait_ok e s" "wait_list e s = w # ws" "wakeable w s" "TCBRunning s \<noteq> Some w"
    and g: "\<And>x. eventTCBList (g x) = eventTCBList x" "\<And>x. eventSortType (g x) = eventSortType x"
  defines "s0 \<equiv> upd_ecb e g (OsSchedLock s)"
  defines "t \<equiv> EventTaskToRdy e s0"
  shows "lists_ok t \<and> wait_ok e t \<and> wait_list e t = ws
    \<and> ready_list t = insert_by (task_prio s) w (ready_list s)
    \<and> delays t = filter (\<lambda>(x, _). x \<noteq> w) (delays s)
    \<and> state (TCBTbl t w) = TASK_READY \<and> OSSchedLock t = OSSchedLock s + 1"
proof -
  have same: "same_lists s0 s" by (simp add: s0_def same_lists_def OsSchedLock_def)
  note S = same_listsD [OF same]
  have p: "task_prio s0 = task_prio s" by (simp add: s0_def OsSchedLock_def)
  have w: "wait_list e s0 = w # ws" using ok(3) g
    by (simp add: s0_def wait_list_def OsSchedLock_def)
  have "wait_ok e s0" using ok(2) g by (simp add: s0_def wait_ok_def wait_list_def OsSchedLock_def)
  moreover have "wakeable w s0" using ok(4) S by (simp add: wakeable_def s0_def OsSchedLock_def)
  moreover have "lists_ok s0" using ok(1) S by simp
  moreover have "TCBRunning s0 \<noteq> Some w" using ok(5) by (simp add: s0_def OsSchedLock_def)
  ultimately have "lists_ok t \<and> wait_ok e t \<and> wait_list e t = ws
    \<and> ready_list t = insert_by (task_prio s0) w (ready_list s0)
    \<and> delays t = filter (\<lambda>(x, _). x \<noteq> w) (delays s0)
    \<and> state (TCBTbl t w) = TASK_READY"
    unfolding t_def using EventTaskToRdy_refines [OF _ _ w] by blast
  then show ?thesis using S p by (simp add: t_def s0_def)
qed

lemma CoPostSem_wakes:
  assumes ok: "lists_ok s" "wait_ok (unat i) s" "wait_list (unat i) s = w # ws" "wakeable w s"
      "TCBRunning s \<noteq> Some w"
    and e: "unat i < CFG_MAX_EVENT" "eventType (EventTbl s (unat i)) = EVENT_TYPE_SEM"
      "eventCounter (EventTbl s (unat i)) \<noteq> initialEventCounter (EventTbl s (unat i))"
  shows "\<exists>t. CoPostSem u i s = (E_OK, u t) \<and> lists_ok t \<and> wait_list (unat i) t = ws
    \<and> ready_list t = insert_by (task_prio s) w (ready_list s)
    \<and> delays t = filter (\<lambda>(x, _). x \<noteq> w) (delays s)
    \<and> eventCounter (EventTbl t (unat i)) = eventCounter (EventTbl s (unat i))
    \<and> pmail (TCBTbl t w) = 0xffffffff \<and> OSSchedLock t = OSSchedLock s + 1"
proof -
  let ?g = "\<lambda>x. x\<lparr>eventCounter := eventCounter x + 1\<rparr>"
  let ?s = "upd_ecb (unat i) ?g (OsSchedLock s)"
  have "eventTCBList (EventTbl s (unat i)) = Some w" using wait_okD(4) [OF ok(2)] ok(3) by simp
  then have D: "pmail (TCBTbl (EventTaskToRdy (unat i) ?s) w) = 0xffffffff"
    "eventCounter (EventTbl (EventTaskToRdy (unat i) ?s) (unat i)) = eventCounter (EventTbl s (unat i))"
    using EventTaskToRdy_delivers(1) [of ?s "unat i" w] e(2) by (simp_all add: OsSchedLock_def)
  have "CoPostSem u i s = (E_OK, u (EventTaskToRdy (unat i) ?s))"
    using e by (simp add: CoPostSem_def Let_def)
  with post_wakes [OF ok, of ?g] D show ?thesis by auto
qed

lemma CoPostMail_wakes:
  assumes ok: "lists_ok s" "wait_ok (unat i) s" "wait_list (unat i) s = w # ws" "wakeable w s"
      "TCBRunning s \<noteq> Some w"
    and e: "unat i < CFG_MAX_EVENT" "eventType (EventTbl s (unat i)) = EVENT_TYPE_MBOX"
      "eventCounter (EventTbl s (unat i)) = 0"
  shows "\<exists>t. CoPostMail u i m s = (E_OK, u t) \<and> lists_ok t \<and> wait_list (unat i) t = ws
    \<and> ready_list t = insert_by (task_prio s) w (ready_list s)
    \<and> delays t = filter (\<lambda>(x, _). x \<noteq> w) (delays s)
    \<and> eventCounter (EventTbl t (unat i)) = 0 \<and> eventPtr (EventTbl t (unat i)) = EvNull
    \<and> pmail (TCBTbl t w) = m \<and> OSSchedLock t = OSSchedLock s + 1"
proof -
  let ?g = "\<lambda>x. x\<lparr>eventPtr := ev_of_mail m, eventCounter := 1\<rparr>"
  let ?s = "upd_ecb (unat i) ?g (OsSchedLock s)"
  have "eventTCBList (EventTbl s (unat i)) = Some w" using wait_okD(4) [OF ok(2)] ok(3) by simp
  then have D: "pmail (TCBTbl (EventTaskToRdy (unat i) ?s) w) = m"
    "eventCounter (EventTbl (EventTaskToRdy (unat i) ?s) (unat i)) = 0"
    "eventPtr (EventTbl (EventTaskToRdy (unat i) ?s) (unat i)) = EvNull"
    using EventTaskToRdy_delivers(2) [of ?s "unat i" w] e(2) by (simp_all add: OsSchedLock_def)
  have "CoPostMail u i m s = (E_OK, u (EventTaskToRdy (unat i) ?s))"
    using e by (simp add: CoPostMail_def Let_def)
  with post_wakes [OF ok, of ?g] D show ?thesis by auto
qed

text \<open>The count of a semaphore stays within its bounds, and is zero while tasks wait.\<close>

definition sem_ok :: "nat \<Rightarrow> kernel \<Rightarrow> bool" where
  "sem_ok e s \<longleftrightarrow>
     (let x = EventTbl s e
      in \<not> IsrReq s \<and> eventType x = EVENT_TYPE_SEM \<and> eventCounter x \<le> initialEventCounter x
         \<and> (eventTCBList x \<noteq> None \<longrightarrow> eventCounter x = 0))"

lemma sem_ok_cong: "same_objects s t \<Longrightarrow> sem_ok e s = sem_ok e t"
  by (simp add: same_objects_def sem_ok_def)

lemma sem_ok_unlock: "sem_ok e s \<Longrightarrow> sem_ok e (OsSchedUnlock cb s)"
  using sem_ok_cong [OF unlock_quiet] by (auto simp: sem_ok_def Let_def)

lemma sem_ok_lock [simp]: "sem_ok e (OsSchedLock s) = sem_ok e s"
  using sem_ok_cong [OF lock_objects] .

lemma wait_body_event:
  "eventCounter (EventTbl (wait_body e i s) e') = eventCounter (EventTbl s e')"
  "initialEventCounter (EventTbl (wait_body e i s) e') = initialEventCounter (EventTbl s e')"
  "eventType (EventTbl (wait_body e i s) e') = eventType (EventTbl s e')"
  "IsrReq (wait_body e i s) = IsrReq s"
  by (auto simp: wait_body_def fifo_wait_def prio_wait_def Let_def split: option.split)

lemma EventTaskToRdy_event:
  "initialEventCounter (EventTbl (EventTaskToRdy e s) e) = initialEventCounter (EventTbl s e)"
  "eventType (EventTbl (EventTaskToRdy e s) e) = eventType (EventTbl s e)"
  "IsrReq (EventTaskToRdy e s) = IsrReq s"
  by (simp_all add: EventTaskToRdy_def wait_unlink_head_def leave_delay_def deliver_def wake_def Let_def
      qcb_pop_def upd_qcb_def split: option.split event_type.split event_ptr.split)

lemma word_succ_le: "(c::U16) \<le> m \<Longrightarrow> c \<noteq> m \<Longrightarrow> c + 1 \<le> m"
  using inc_le [of c m] by simp

lemma sem_ok_post:
  assumes "sem_ok (unat i) s"
  shows "sem_ok (unat i) (snd (CoPostSem (OsSchedUnlock cb) i s))"
proof -
  let ?e = "unat i"
  let ?s = "upd_ecb ?e (\<lambda>x. x\<lparr>eventCounter := eventCounter x + 1\<rparr>) (OsSchedLock s)"
  have t: "eventType (EventTbl s ?e) = EVENT_TYPE_SEM" "\<not> IsrReq s"
    "eventCounter (EventTbl s ?e) \<le> initialEventCounter (EventTbl s ?e)"
    using assms by (simp_all add: sem_ok_def Let_def)
  have "sem_ok ?e (EventTaskToRdy ?e ?s)"
    if ne: "eventCounter (EventTbl s ?e) \<noteq> initialEventCounter (EventTbl s ?e)"
  proof (cases "eventTCBList (EventTbl s ?e)")
    case None
    then have "EventTaskToRdy ?e ?s = ?s" by (simp add: EventTaskToRdy_def OsSchedLock_def)
    then show ?thesis using t None word_succ_le [OF t(3) ne] by (simp add: sem_ok_def OsSchedLock_def)
  next
    case (Some w)
    then have "eventCounter (EventTbl (EventTaskToRdy ?e ?s) ?e) = 0"
      using EventTaskToRdy_delivers(1) [of ?s ?e w] t(1) assms by (simp add: OsSchedLock_def sem_ok_def Let_def)
    then show ?thesis using t EventTaskToRdy_event [of ?e ?s] by (simp add: sem_ok_def OsSchedLock_def)
  qed
  then show ?thesis using assms t(1) sem_ok_unlock by (simp add: CoPostSem_def Let_def)
qed

lemma sem_ok_wait_body:
  "sem_ok e s \<Longrightarrow> eventCounter (EventTbl s e) = 0 \<Longrightarrow> sem_ok e (wait_body e i s)"
  by (simp add: sem_ok_def Let_def wait_body_event)

lemma sem_ok_pend_wait:
  assumes "sem_ok e s" "eventCounter (EventTbl s e) = 0"
  shows "sem_ok e (pend_wait (OsSchedUnlock cb) e timeout cur s)"
proof -
  have w: "sem_ok e (EventTaskToWait (OsSchedUnlock cb) e cur t)"
    if "sem_ok e t" "eventCounter (EventTbl t e) = 0" for t
    unfolding EventTaskToWait_def using that
    by (intro sem_ok_unlock sem_ok_wait_body) (simp_all add: OsSchedLock_def sem_ok_def)
  have "sem_ok e (InsertDelayList cur timeout t)" if "sem_ok e t" for t
    using that by (simp add: sem_ok_def)
  moreover have "eventCounter (EventTbl (OsSchedLock s) e) = 0" using assms(2) by (simp add: OsSchedLock_def)
  ultimately show ?thesis using w [of s] w [of "OsSchedLock s"] assms
    by (simp add: pend_wait_def Let_def sem_ok_unlock)
qed

lemma sem_ok_resume: "sem_ok e s \<Longrightarrow> sem_ok e (snd (CoPendSem_resume timeout cur s))"
  by (simp add: CoPendSem_resume_def sem_ok_def)

lemma sem_ok_take:
  assumes "sem_ok e s" "eventCounter (EventTbl s e) > 0"
  shows "sem_ok e (upd_ecb e (\<lambda>x. x\<lparr>eventCounter := eventCounter x - 1\<rparr>) s)"
proof -
  have "eventCounter (EventTbl s e) - 1 \<le> eventCounter (EventTbl s e)"
    using assms(2) by (simp add: word_le_nat_alt unat_minus_one word_less_nat_alt unat_gt_0)
  moreover have "eventTCBList (EventTbl s e) = None" using assms by (auto simp: sem_ok_def Let_def)
  ultimately show ?thesis using assms(1) by (auto simp: sem_ok_def Let_def intro: order_trans)
qed

lemma sem_ok_pend:
  assumes "sem_ok (unat i) s"
  shows "sem_ok (unat i) (snd (CoPendSem (OsSchedUnlock cb) i timeout s))"
proof -
  let ?e = "unat i" and ?u = "OsSchedUnlock cb" and ?l = "OsSchedLock s"
  have l: "sem_ok ?e ?l" using assms by simp
  have "sem_ok ?e (snd (block_then (CoPendSem_resume timeout) cur (pend_wait ?u ?e timeout cur (?u ?l))))"
    if "eventCounter (EventTbl s ?e) = 0" for cur
  proof -
    have "eventCounter (EventTbl (?u ?l) ?e) = 0"
      using that unlock_quiet [of ?l cb] l by (simp add: same_objects_def sem_ok_def OsSchedLock_def Let_def)
    then have "sem_ok ?e (pend_wait ?u ?e timeout cur (?u ?l))" by (intro sem_ok_pend_wait sem_ok_unlock l)
    then show ?thesis using sem_ok_resume by (simp add: block_then_def)
  qed
  moreover have "sem_ok ?e (t\<lparr>fault := True\<rparr>) = sem_ok ?e t" for t by (simp add: sem_ok_def)
  moreover have "eventCounter (EventTbl ?l ?e) = eventCounter (EventTbl s ?e)" by (simp add: OsSchedLock_def)
  ultimately show ?thesis
    using assms sem_ok_unlock [OF l] sem_ok_unlock [OF sem_ok_take [OF l]]
    by (simp add: CoPendSem_def with_running_def Let_def word_gt_0 split: option.split)
qed

lemma sem_ok_accept:
  assumes "sem_ok (unat i) s"
  shows "sem_ok (unat i) (snd (CoAcceptSem (OsSchedUnlock cb) i s))"
proof -
  let ?e = "unat i" and ?t = "OsSchedUnlock cb (OsSchedLock s)"
  have t: "sem_ok ?e ?t" using assms sem_ok_unlock by simp
  have "eventCounter (EventTbl ?t ?e) = eventCounter (EventTbl s ?e)"
    using unlock_quiet [of "OsSchedLock s" cb] assms by (simp add: same_objects_def sem_ok_def OsSchedLock_def Let_def)
  then show ?thesis
    using assms t sem_ok_take [OF t] by (simp add: CoAcceptSem_def Let_def OsSchedLock_def)
qed


lemma mbox_round_trip:
  fixes cb :: "U32 \<Rightarrow> kernel \<Rightarrow> kernel" and m m' :: U32
  assumes "unat i < CFG_MAX_EVENT" "eventType (EventTbl s (unat i)) = EVENT_TYPE_MBOX"
    "eventCounter (EventTbl s (unat i)) = 0" "eventTCBList (EventTbl s (unat i)) = None" "\<not> IsrReq s"
  defines "s1 \<equiv> snd (CoPostMail (OsSchedUnlock cb) i m s)"
  shows "fst (CoPostMail (OsSchedUnlock cb) i m s) = E_OK
    \<and> CoPostMail (OsSchedUnlock cb) i m' s1 = (E_MBOX_FULL, s1)
    \<and> fst (CoAcceptMail (OsSchedUnlock cb) i s1) = (m, E_OK)
    \<and> fst (CoAcceptMail (OsSchedUnlock cb) i (snd (CoAcceptMail (OsSchedUnlock cb) i s1))) = (0, E_MBOX_EMPTY)"
proof -
  let ?u = "OsSchedUnlock cb" and ?e = "unat i"
  let ?p = "upd_ecb ?e (\<lambda>x. x\<lparr>eventPtr := ev_of_mail m, eventCounter := 1\<rparr>) (OsSchedLock s)"
  have p: "CoPostMail ?u i m s = (E_OK, ?u ?p)" "\<not> IsrReq ?p"
    using assms(1-5) by (simp_all add: CoPostMail_def Let_def OsSchedLock_def)
  have s1: "EventTbl s1 ?e = (EventTbl s ?e)\<lparr>eventPtr := ev_of_mail m, eventCounter := 1\<rparr>" "\<not> IsrReq s1"
    using unlock_quiet [OF p(2), of cb] p by (simp_all add: s1_def same_objects_def OsSchedLock_def)
  let ?a = "mbox_empty ?e (OsSchedLock s1)"
  have a: "\<not> IsrReq ?a" "eventCounter (EventTbl ?a ?e) = 0" "eventType (EventTbl ?a ?e) = EVENT_TYPE_MBOX"
    using s1 assms(2) by (simp_all add: mbox_empty_def OsSchedLock_def)
  have acc: "CoAcceptMail ?u i s1 = ((m, E_OK), ?u ?a)"
    using s1 assms(1,2) by (simp add: CoAcceptMail_def Let_def OsSchedLock_def)
  have "EventTbl (?u ?a) = EventTbl ?a"
    using unlock_quiet [OF a(1), of cb] by (simp add: same_objects_def)
  then have "fst (CoAcceptMail ?u i (?u ?a)) = (0, E_MBOX_EMPTY)"
    using a assms(1) by (simp add: CoAcceptMail_def Let_def OsSchedLock_def)
  moreover have "CoPostMail ?u i m' s1 = (E_MBOX_FULL, s1)"
    using s1 assms(1,2) by (simp add: CoPostMail_def Let_def)
  ultimately show ?thesis using p acc by simp
qed

section \<open>Properties of the message objects\<close>

text \<open>The concrete states of the witnesses: the example with a mailbox, a queue, or a waiting mailbox reader.\<close>

definition example_mbox :: "ptr \<Rightarrow> kernel" where
  "example_mbox w = example\<lparr>EventTbl := (\<lambda>_. ecb0)
     (0 := ecb0\<lparr>eventType := EVENT_TYPE_MBOX, eventSortType := EVENT_SORT_TYPE_PRIO, eventTCBList := w\<rparr>)\<rparr>"

definition example_queue :: kernel where
  "example_queue = example\<lparr>EventTbl := (\<lambda>_. ecb0)
       (0 := ecb0\<lparr>eventType := EVENT_TYPE_QUEUE, eventSortType := EVENT_SORT_TYPE_FIFO, eventPtr := EvQueue 0\<rparr>),
     QueueTbl := (\<lambda>_. \<lparr>qStart = 0, qcb_id = 0, q_head = 0, q_tail = 0, qMaxSize = 0, qSize = 0\<rparr>)
       (0 := \<lparr>qStart = 0x2000, qcb_id = 0, q_head = 2, q_tail = 2, qMaxSize = 3, qSize = 0\<rparr>)\<rparr>"

lemma example_sem_ok: "sem_ok 0 example"
proof -
  have "\<not> IsrReq example" by (simp add: example_def kernel0_def)
  then show ?thesis by (simp add: sem_ok_def)
qed

lemma example_mbox_lists:
  "same_lists (example_mbox w) example" "TCBTbl (example_mbox w) = TCBTbl example"
  "TCBRunning (example_mbox w) = TCBRunning example"
  "eventType (EventTbl (example_mbox w) 0) = EVENT_TYPE_MBOX" "eventCounter (EventTbl (example_mbox w) 0) = 0"
  by (auto simp: same_lists_def example_mbox_def delay_of_def task_prio_def ecb0_def)

lemma example_mbox_waits:
  "wait_ok 0 (example_mbox (Some 3))" "wait_list 0 (example_mbox (Some 3)) = [3]"
  "wakeable 3 (example_mbox (Some 3))" "lists_ok (example_mbox (Some 3))"
proof -
  have "wait_ok 0 (example_mbox (Some 3)) \<and> wait_list 0 (example_mbox (Some 3)) = [3]"
    by (rule wait_listI) (simp_all add: example_mbox_def dll_def example_links cfg_defs)
  then show "wait_ok 0 (example_mbox (Some 3))" "wait_list 0 (example_mbox (Some 3)) = [3]" by simp_all
  show "wakeable 3 (example_mbox (Some 3))" "lists_ok (example_mbox (Some 3))"
    using same_listsD [OF example_mbox_lists(1)] example_wakeable example_lists
    by (simp_all add: wakeable_def example_mbox_lists(2))
qed

lemma example_queue_ok: "queue_ok 0 0 3 example_queue" "mails 0 example_queue = []"
  by (simp_all add: queue_ok_def mails_def example_queue_def example_def kernel0_def ecb0_def cfg_defs)



text \<open>
  A post to a semaphore with waiters hands the unit to the first of them: it
  leaves the waiting list and the delay list, becomes ready at its priority and
  finds the marker \<open>0xffffffff\<close> of a successful wait; the count does not change.
\<close>

lemma CoPostSem_releases_first:
  assumes "lists_ok s" "wait_ok (unat i) s" "wait_list (unat i) s = w # ws" "wakeable w s"
    "TCBRunning s \<noteq> Some w" "unat i < CFG_MAX_EVENT" "eventType (EventTbl s (unat i)) = EVENT_TYPE_SEM"
    "eventCounter (EventTbl s (unat i)) \<noteq> initialEventCounter (EventTbl s (unat i))"
  shows "\<exists>t. CoPostSem u i s = (E_OK, u t) \<and> lists_ok t \<and> wait_list (unat i) t = ws
    \<and> ready_list t = insert_by (task_prio s) w (ready_list s)
    \<and> delays t = filter (\<lambda>(x, _). x \<noteq> w) (delays s)
    \<and> eventCounter (EventTbl t (unat i)) = eventCounter (EventTbl s (unat i))
    \<and> pmail (TCBTbl t w) = 0xffffffff \<and> OSSchedLock t = OSSchedLock s + 1"
  by (rule CoPostSem_wakes [OF assms])

text \<open>
  A message posted to a mailbox with waiters goes to the first of them and the
  mailbox stays empty.
\<close>

lemma CoPostMail_delivers:
  assumes "lists_ok s" "wait_ok (unat i) s" "wait_list (unat i) s = w # ws" "wakeable w s"
    "TCBRunning s \<noteq> Some w" "unat i < CFG_MAX_EVENT" "eventType (EventTbl s (unat i)) = EVENT_TYPE_MBOX"
    "eventCounter (EventTbl s (unat i)) = 0"
  shows "\<exists>t. CoPostMail u i m s = (E_OK, u t) \<and> lists_ok t \<and> wait_list (unat i) t = ws
    \<and> ready_list t = insert_by (task_prio s) w (ready_list s)
    \<and> delays t = filter (\<lambda>(x, _). x \<noteq> w) (delays s)
    \<and> eventCounter (EventTbl t (unat i)) = 0 \<and> eventPtr (EventTbl t (unat i)) = EvNull
    \<and> pmail (TCBTbl t w) = m \<and> OSSchedLock t = OSSchedLock s + 1"
  by (rule CoPostMail_wakes [OF assms])

text \<open>
  C10. Round trip through a mailbox nobody waits for: a post succeeds, a second post
  is refused without any change, an accept returns the message posted, and the next
  accept finds the mailbox empty.
\<close>

theorem mailbox_round_trip:
  assumes "unat i < CFG_MAX_EVENT" "eventType (EventTbl s (unat i)) = EVENT_TYPE_MBOX"
    "eventCounter (EventTbl s (unat i)) = 0" "eventTCBList (EventTbl s (unat i)) = None" "\<not> IsrReq s"
  shows "let u = OsSchedUnlock cb; s1 = snd (CoPostMail u i m s)
    in fst (CoPostMail u i m s) = E_OK \<and> CoPostMail u i m' s1 = (E_MBOX_FULL, s1)
       \<and> fst (CoAcceptMail u i s1) = (m, E_OK)
       \<and> fst (CoAcceptMail u i (snd (CoAcceptMail u i s1))) = (0, E_MBOX_EMPTY)"
  unfolding Let_def by (rule mbox_round_trip [OF assms])

theorem mailbox_round_trip_witness:
  "fst (CoAcceptMail (OsSchedUnlock (\<lambda>_ s. s)) 0
     (snd (CoPostMail (OsSchedUnlock (\<lambda>_ s. s)) 0 42 (example_mbox None)))) = (42, E_OK)"
  using mailbox_round_trip [of 0 "example_mbox None" "\<lambda>_ s. s" 42]
  by (simp add: Let_def example_mbox_def ecb0_def example_def kernel0_def cfg_defs)



end
