(* ===== verification/CoOS_Clock.thy ===== *)
theory CoOS_Clock
  imports CoOS_Messages
begin

text \<open>
  What the timer functions promise, with the kernel's own \<open>OsSchedUnlock\<close>: starting a
  timer files it by the tick at which it is due, stopping it leaves the due times of
  the other timers alone. Changing the count of a running timer does not.
\<close>

section \<open>The running timers as a list of due times\<close>

definition timer_list :: "kernel \<Rightarrow> nat list" where
  "timer_list s = chain CFG_MAX_TMR (tmr_next s) (TmrList s)"

definition timers :: "kernel \<Rightarrow> (nat \<times> nat) list" where
  "timers s = expiry (ticks_of (tmr_cnt s)) 0 (timer_list s)"

definition timer_ok :: "kernel \<Rightarrow> bool" where
  "timer_ok s \<longleftrightarrow> \<not> IsrReq s
     \<and> delta_wf CFG_MAX_TMR (tmr_next s) (tmr_prev s) (tmr_cnt s) (TmrList s) (timer_list s)"

lemma timer_listI:
  assumes "delta_wf CFG_MAX_TMR (tmr_next s) (tmr_prev s) (tmr_cnt s) (TmrList s) xs"
  shows "timer_list s = xs" "timers s = expiry (ticks_of (tmr_cnt s)) 0 xs" "\<not> IsrReq s \<Longrightarrow> timer_ok s"
proof -
  from assms have "dll (tmr_next s) (tmr_prev s) (TmrList s) xs" "set xs \<subseteq> {..<CFG_MAX_TMR}"
    by (auto simp: delta_wf_def)
  then show l: "timer_list s = xs"
    unfolding timer_list_def by (blast intro: chain_dll length_bounded dll_distinct)
  with assms show "timers s = expiry (ticks_of (tmr_cnt s)) 0 xs" "\<not> IsrReq s \<Longrightarrow> timer_ok s"
    by (simp_all add: timers_def timer_ok_def)
qed

lemma map_fst_timers [simp]: "map fst (timers s) = timer_list s"
  by (simp add: timers_def)

lemma timer_view_cong:
  assumes "TmrTbl s = TmrTbl t" "TmrList s = TmrList t" "IsrReq s = IsrReq t"
  shows "timer_ok s = timer_ok t" "timers s = timers t" "timer_list s = timer_list t"
proof -
  have "tmr_next s = tmr_next t" "tmr_prev s = tmr_prev t" "tmr_cnt s = tmr_cnt t"
    using assms by (auto simp: tmr_next_def tmr_prev_def tmr_cnt_def)
  then show "timer_ok s = timer_ok t" "timers s = timers t" "timer_list s = timer_list t"
    using assms by (simp_all add: timer_ok_def timers_def timer_list_def)
qed

lemma timer_view_objects:
  assumes "same_objects s t"
  shows "timer_ok s = timer_ok t" "timers s = timers t"
  using timer_view_cong [of s t] assms by (simp_all add: same_objects_def)

lemma tmr_list_isr [simp]:
  "IsrReq (tmr_link i s) = IsrReq s" "IsrReq (tmr_unlink i s) = IsrReq s" "IsrReq (upd_tmr i f s) = IsrReq s"
  by (simp_all add: tmr_link_def tmr_link_before_def tmr_unlink_def upd_tmr_def Let_def
      split: option.split prod.split)

lemma timers_unlock:
  assumes "timer_ok s"
  shows "timer_ok (OsSchedUnlock cb s)" "timers (OsSchedUnlock cb s) = timers s"
proof -
  have "\<not> IsrReq s" using assms by (simp add: timer_ok_def)
  from timer_view_objects [OF unlock_quiet [OF this, of cb]] assms
  show "timer_ok (OsSchedUnlock cb s)" "timers (OsSchedUnlock cb s) = timers s" by simp_all
qed

section \<open>Starting and stopping\<close>

definition tmr_idle :: "nat \<Rightarrow> kernel \<Rightarrow> bool" where
  "tmr_idle i s \<longleftrightarrow> i < CFG_MAX_TMR \<and> i \<notin> set (timer_list s) \<and> tmr_next s i = None \<and> tmr_prev s i = None"

lemma InsertTmrList_refines:
  fixes cb :: "U32 \<Rightarrow> kernel \<Rightarrow> kernel"
  assumes ok: "timer_ok s" and i: "tmr_idle i s" and c: "tmrCnt (TmrTbl s i) \<noteq> 0" "unat (tmrCnt (TmrTbl s i)) < 2 ^ 31"
  defines "s' \<equiv> InsertTmrList (OsSchedUnlock cb) i s"
  shows "timer_ok s' \<and> timers s' = insert_by snd (i, unat (tmrCnt (TmrTbl s i))) (timers s)"
proof -
  let ?l = "OsSchedLock s" and ?c = "tmrCnt (TmrTbl s i)"
  let ?t = "tmr_link i ?l"
  have L: "timer_ok ?l" "timers ?l = timers s" "timer_list ?l = timer_list s"
    using timer_view_cong [of ?l s] ok by (simp_all add: OsSchedLock_def)
  have "set_tcnt i ?c ?l = ?l" by (simp add: upd_tmr_def OsSchedLock_def)
  then have t: "tmr_ins i ?c ?l = ?t" by (simp add: tmr_ins_def)
  have nx: "tmr_next ?l i = None" "tmr_prev ?l i = None" "i \<notin> set (timer_list ?l)" "i < CFG_MAX_TMR"
    using i L(3) by (simp_all add: tmr_idle_def tmr_next_def tmr_prev_def OsSchedLock_def)
  have "delta_wf CFG_MAX_TMR (tmr_next ?l) (tmr_prev ?l) (tmr_cnt ?l) (TmrList ?l) (timer_list ?l)"
    using L(1) by (simp add: timer_ok_def)
  from tmr.ins_refines [OF this nx(4,3,1,2) c] obtain ys where
    ys: "delta_wf CFG_MAX_TMR (tmr_next ?t) (tmr_prev ?t) (tmr_cnt ?t) (TmrList ?t) ys"
    "expiry (ticks_of (tmr_cnt ?t)) 0 ys = insert_by snd (i, unat ?c) (timers ?l)"
    unfolding t timers_def [symmetric] by blast
  have "\<not> IsrReq ?t" using L(1) by (simp add: timer_ok_def)
  then have "timer_ok ?t" "timers ?t = insert_by snd (i, unat ?c) (timers s)"
    using timer_listI [OF ys(1)] ys(2) L(2) by simp_all
  then show ?thesis using timers_unlock [of ?t cb] c(1) by (simp add: s'_def InsertTmrList_def)
qed

lemma RemoveTmrList_refines:
  fixes cb :: "U32 \<Rightarrow> kernel \<Rightarrow> kernel"
  assumes ok: "timer_ok s" and i: "i \<in> set (timer_list s)"
  defines "s' \<equiv> RemoveTmrList (OsSchedUnlock cb) i s"
  shows "timer_ok s' \<and> timers s' = filter (\<lambda>(x, _). x \<noteq> i) (timers s) \<and> tmr_idle i s'"
proof -
  let ?l = "OsSchedLock s"
  let ?t = "tmr_unlink i ?l"
  have L: "timer_ok ?l" "timers ?l = timers s" "timer_list ?l = timer_list s"
    using timer_view_cong [of ?l s] ok by (simp_all add: OsSchedLock_def)
  have wf: "delta_wf CFG_MAX_TMR (tmr_next ?l) (tmr_prev ?l) (tmr_cnt ?l) (TmrList ?l) (timer_list ?l)"
    using L(1) by (simp add: timer_ok_def)
  have i': "i \<in> set (timer_list ?l)" using i L(3) by simp
  note R = tmr.del_refines [OF wf i']
  have isr: "\<not> IsrReq ?t" using L(1) by (simp add: timer_ok_def)
  have T: "timer_ok ?t" "timers ?t = filter (\<lambda>(x, _). x \<noteq> i) (timers s)" "timer_list ?t = remove1 i (timer_list s)"
  proof -
    note I = timer_listI [OF R [THEN conjunct1]]
    show "timer_ok ?t" by (rule I(3) [OF isr])
    show "timers ?t = filter (\<lambda>(x, _). x \<noteq> i) (timers s)"
      using R [THEN conjunct2, THEN conjunct1, folded timers_def [of ?l]] I(2) L(2) by argo
    show "timer_list ?t = remove1 i (timer_list s)" using I(1) L(3) by simp
  qed
  have "i < CFG_MAX_TMR" "distinct (timer_list s)"
    using i ok by (auto simp: timer_ok_def delta_wf_def dll_def)
  then have "tmr_idle i ?t" using R T(3) by (simp add: tmr_idle_def)
  moreover have "tmr_idle i (OsSchedUnlock cb ?t) = tmr_idle i ?t"
    using unlock_quiet [OF isr, of cb] timer_view_cong(3) [of "OsSchedUnlock cb ?t" ?t]
    by (simp add: tmr_idle_def same_objects_def tmr_next_def tmr_prev_def)
  ultimately show ?thesis using timers_unlock [OF T(1), of cb] T(2) by (simp add: s'_def RemoveTmrList_def)
qed

section \<open>The interface functions\<close>

lemma set_running:
  "timer_ok (upd_tmr i (tmrState_update g) s) = timer_ok s"
  "timers (upd_tmr i (tmrState_update g) s) = timers s"
  "timer_list (upd_tmr i (tmrState_update g) s) = timer_list s"
  by (simp_all add: timer_ok_def timers_def timer_list_def)

lemma CoStartTmr_refines:
  assumes "timer_ok s" "tmr_valid t s" "tmrState (TmrTbl s (unat t)) = TMR_STATE_STOPPED"
    "tmr_idle (unat t) s" "tmrCnt (TmrTbl s (unat t)) \<noteq> 0" "unat (tmrCnt (TmrTbl s (unat t))) < 2 ^ 31"
  shows "\<exists>s'. CoStartTmr (OsSchedUnlock cb) t s = (E_OK, s') \<and> timer_ok s'
    \<and> timers s' = insert_by snd (unat t, unat (tmrCnt (TmrTbl s (unat t)))) (timers s)"
  using InsertTmrList_refines [of "upd_tmr (unat t) (tmrState_update (\<lambda>_. TMR_STATE_RUNNING)) s" "unat t" cb] assms
  by (simp add: CoStartTmr_def Let_def set_running tmr_idle_def)

lemma CoStopTmr_refines:
  assumes "timer_ok s" "tmr_valid t s" "tmrState (TmrTbl s (unat t)) = TMR_STATE_RUNNING"
    "unat t \<in> set (timer_list s)"
  shows "\<exists>s'. CoStopTmr (OsSchedUnlock cb) t s = (E_OK, s') \<and> timer_ok s'
    \<and> timers s' = filter (\<lambda>(x, _). x \<noteq> unat t) (timers s)
    \<and> tmrState (TmrTbl s' (unat t)) = TMR_STATE_STOPPED"
  using RemoveTmrList_refines [OF assms(1,4), of cb] assms
  by (simp add: CoStopTmr_def Let_def set_running)

text \<open>
  \<open>CoSetTmrCnt\<close> writes the new count of a running timer before it takes the timer out
  of the list, so the timers behind it are moved by the difference of the counts.
\<close>

lemma expiry_rebase:
  assumes "x \<notin> set xs" "\<And>y. y \<noteq> x \<Longrightarrow> t' y = t y"
  shows "expiry t' 0 (x # xs) = (x, t' x) # map (\<lambda>(y, e). (y, e - t x + t' x)) (expiry t (t x) xs)"
proof -
  have "expiry t' (t' x) xs = expiry t (0 + t' x) xs" using assms by (auto intro!: expiry_cong assms(2))
  also have "\<dots> = map (apsnd (\<lambda>e. e + t' x)) (expiry t 0 xs)" by (rule expiry_shift)
  finally have a: "expiry t' (t' x) xs = map (apsnd (\<lambda>e. e + t' x)) (expiry t 0 xs)" .
  have "expiry t (0 + t x) xs = map (apsnd (\<lambda>e. e + t x)) (expiry t 0 xs)" by (rule expiry_shift)
  with a show ?thesis by (simp add: comp_def apsnd_def map_prod_def split_def)
qed

lemma CoSetTmrCnt_shifts:
  assumes ok: "timer_ok s" and v: "tmr_valid t s" "tmrState (TmrTbl s (unat t)) = TMR_STATE_RUNNING"
    and l: "timers s = (unat t, e) # rest"
    and c: "cnt \<noteq> 0" "unat cnt + sum_list (map (ticks_of (tmr_cnt s)) (timer_list s)) < 2 ^ 31"
  shows "\<exists>s'. CoSetTmrCnt (OsSchedUnlock cb) t cnt reload s = (E_OK, s') \<and> timer_ok s'
    \<and> timers s' = insert_by snd (unat t, unat cnt) (map (\<lambda>(y, d). (y, d - e + unat cnt)) rest)"
proof -
  let ?i = "unat t"
  define a where "a = upd_tmr ?i (\<lambda>x. x\<lparr>tmrCnt := cnt, tmrReload := reload\<rparr>) s"
  obtain ys where ys: "timer_list s = ?i # ys" "e = ticks_of (tmr_cnt s) ?i"
    "rest = expiry (ticks_of (tmr_cnt s)) (ticks_of (tmr_cnt s) ?i) ys"
    using l by (cases "timer_list s") (auto simp: timers_def)
  have wf: "dll (tmr_next s) (tmr_prev s) (TmrList s) (?i # ys)" "set (?i # ys) \<subseteq> {..<CFG_MAX_TMR}" "\<not> IsrReq s"
    using ok ys(1) by (auto simp: timer_ok_def delta_wf_def)
  have ni: "?i \<notin> set ys" using wf(1) by (simp add: dll_def)
  have tc: "ticks_of (tmr_cnt a) y = (if y = ?i then unat cnt else ticks_of (tmr_cnt s) y)" for y
    by (simp add: a_def ticks_of_def tmr_cnt_def)
  have "sum_list (map (ticks_of (tmr_cnt a)) ys) = sum_list (map (ticks_of (tmr_cnt s)) ys)"
    using ni tc by (intro arg_cong [of _ _ sum_list] map_cong) auto
  then have "delta_wf CFG_MAX_TMR (tmr_next a) (tmr_prev a) (tmr_cnt a) (TmrList a) (?i # ys)"
    using wf tc c(2) ys(1) by (simp add: delta_wf_def a_def)
  note A = timer_listI [OF this]
  have ta: "timers a = (?i, unat cnt) # map (\<lambda>(y, d). (y, d - e + unat cnt)) rest"
    using A(2) expiry_rebase [of ?i ys "ticks_of (tmr_cnt a)" "ticks_of (tmr_cnt s)"] ni tc ys(2,3) by simp
  have oka: "timer_ok a" using A(3) wf(3) by (simp add: a_def)
  let ?b = "RemoveTmrList (OsSchedUnlock cb) ?i a"
  note B = RemoveTmrList_refines [OF oka, of ?i cb]
  have b: "timer_ok ?b" "tmr_idle ?i ?b" "timers ?b = map (\<lambda>(y, d). (y, d - e + unat cnt)) rest"
  proof -
    have "\<forall>p \<in> set rest. fst p \<noteq> ?i" using ni ys(3) by (metis fst_expiry image_eqI set_map)
    then have "filter (\<lambda>(x, _). x \<noteq> ?i) (map (\<lambda>(y, d). (y, d - e + unat cnt)) rest)
        = map (\<lambda>(y, d). (y, d - e + unat cnt)) rest"
      by (auto simp: filter_id_conv)
    then show "timer_ok ?b" "tmr_idle ?i ?b" "timers ?b = map (\<lambda>(y, d). (y, d - e + unat cnt)) rest"
      using B ta A(1) by simp_all
  qed
  have cnt: "tmrCnt (TmrTbl ?b ?i) = cnt"
  proof -
    have "\<not> IsrReq (tmr_unlink ?i (OsSchedLock a))" using wf(3) by (simp add: a_def OsSchedLock_def)
    from unlock_quiet [OF this, of cb]
    have "TmrTbl ?b = TmrTbl (tmr_unlink ?i (OsSchedLock a))" by (simp add: RemoveTmrList_def same_objects_def)
    moreover have "tmrNext (TmrTbl s ?i) \<noteq> Some ?i"
      using wf(1) ni by (cases ys) (auto simp: dll_def tmr_next_def)
    ultimately show ?thesis
      by (auto simp: a_def tmr_unlink_def OsSchedLock_def Let_def split: option.split)
  qed
  have "unat cnt < 2 ^ 31" using c(2) by simp
  with InsertTmrList_refines [OF b(1,2), of cb] cnt c(1) b(3) v
  show ?thesis by (simp add: CoSetTmrCnt_def Let_def a_def)
qed

section \<open>Properties of critical sections, ticks and timers\<close>

text \<open>
  The C function \<open>OsSchedUnlock\<close> calls \<open>RespondSRQ\<close>, whose posts call
  \<open>OsSchedUnlock\<close> again. The model cuts this recursion after one level; it satisfies the
  recursive equation of the code all the same, provided the timer callbacks
  leave the lock depth as they find it.
\<close>

lemma OsSchedUnlock_recursive:
  assumes "\<And>f t. OSSchedLock (cb f t) = OSSchedLock t"
  shows "OsSchedUnlock cb s = unlock_step (OsSchedUnlock cb) cb s"
  by (rule unlock_fixpoint [OF assms])

text \<open>
  C13. One system tick with the scheduler unlocked: exactly the tasks whose delay has
  one tick left enter the ready list, in the order of the delay list and each at its
  priority; every other delayed task is due one tick earlier than before.
\<close>

theorem tick_readies_due_tasks:
  assumes "lists_ok s" "\<forall>(x, e) \<in> set (delays s). 0 < e" "OSSchedLock s \<le> 1"
  shows "lists_ok (tick_delays s)
    \<and> delays (tick_delays s) = map (apsnd (\<lambda>e. e - 1)) (filter (\<lambda>(_, e). e \<noteq> 1) (delays s))
    \<and> ready_list (tick_delays s)
        = fold (insert_by (task_prio s)) (map fst (filter (\<lambda>(_, e). e = 1) (delays s))) (ready_list s)"
  by (rule tick_delays_refines [OF assms])

theorem tick_readies_due_tasks_witness:
  "delays (tick_delays example) = [(3, 2), (4, 4)] \<and> ready_list (tick_delays example) = [1, 0]"
  using tick_readies_due_tasks [of example] by (simp add: example_facts)


text \<open>The example with two deferred posts, at lock depth one.\<close>

definition example_srq :: kernel where
  "example_srq = example\<lparr>OSSchedLock := 1, IsrReq := True, ServiceReq := \<lparr>srq_cnt = 2, srq_head = 4,
     srq_cell = (\<lambda>_. \<lparr>sq_type = SEM_REQ, sq_id = 0, sq_arg = 0\<rparr>)
       (0 := \<lparr>sq_type = MBOX_REQ, sq_id = 7, sq_arg = 42\<rparr>)\<rparr>\<rparr>"

lemma example_srq_facts:
  "srq_ok example_srq" "OSSchedLock example_srq = 1" "\<not> TimeReq example_srq" "\<not> TimerReq example_srq"
  "requests example_srq = [\<lparr>sq_type = SEM_REQ, sq_id = 0, sq_arg = 0\<rparr>, \<lparr>sq_type = MBOX_REQ, sq_id = 7, sq_arg = 42\<rparr>]"
  by (simp_all add: example_srq_def example_def kernel0_def srq_ok_def requests_def ring_def cfg_defs
      upt_conv_Cons)


text \<open>
  C15. The service request queue is a bounded first-in first-out queue: any
  interleaving of \<open>InsertInSRQ\<close> with the extraction of \<open>RespondSRQ\<close> behaves like a list
  of at most \<open>CFG_MAX_SERVICE_REQUEST\<close> requests, and refused requests are dropped.
\<close>

theorem service_requests_fifo:
  assumes "srq_ok s"
  shows "list_run CFG_MAX_SERVICE_REQUEST ops (requests s)
      = (requests (fst (queue_run srq_put srq_get ops s)), snd (queue_run srq_put srq_get ops s))
    \<and> srq_ok (fst (queue_run srq_put srq_get ops s))"
  using srq.run_refines [OF assms] by simp

theorem service_requests_fifo_witness:
  "snd (queue_run srq_put srq_get [Get, Get, Get] example_srq)
    = [Some \<lparr>sq_type = SEM_REQ, sq_id = 0, sq_arg = 0\<rparr>,
       Some \<lparr>sq_type = MBOX_REQ, sq_id = 7, sq_arg = 42\<rparr>, None]"
  using service_requests_fifo [of example_srq "[Get, Get, Get]"] example_srq_facts
  by (simp del: queue_run.simps)

text \<open>
  C16. \<open>TimeDispose\<close> makes ready exactly the tasks at the front of the delay list
  whose delay is over and keeps the due times of the others; the number of rounds of
  its loop is bounded by the number of tasks.
\<close>

theorem TimeDispose_readies_expired:
  assumes "lists_ok s"
  shows "lists_ok (TimeDispose s)
    \<and> delays (TimeDispose s) = dropWhile (\<lambda>(_, e). e = 0) (delays s)
    \<and> ready_list (TimeDispose s)
        = fold (insert_by (task_prio s)) (map fst (takeWhile (\<lambda>(_, e). e = 0) (delays s))) (ready_list s)"
  using TimeDispose_refines [OF assms] by simp

theorem TimeDispose_readies_expired_witness: "delays (TimeDispose example) = [(3, 3), (4, 5)]"
  using TimeDispose_readies_expired [of example] by (simp add: example_facts)

text \<open>
  C17. Starting a stopped timer files it among the running timers by the tick at
  which it is due, behind those due at the same tick, without moving any of them.
\<close>

theorem CoStartTmr_files_timer:
  assumes "timer_ok s" "tmr_valid t s" "tmrState (TmrTbl s (unat t)) = TMR_STATE_STOPPED"
    "tmr_idle (unat t) s" "tmrCnt (TmrTbl s (unat t)) \<noteq> 0" "unat (tmrCnt (TmrTbl s (unat t))) < 2 ^ 31"
  shows "\<exists>s'. CoStartTmr (OsSchedUnlock cb) t s = (E_OK, s') \<and> timer_ok s'
    \<and> timers s' = insert_by snd (unat t, unat (tmrCnt (TmrTbl s (unat t)))) (timers s)"
  by (rule CoStartTmr_refines [OF assms])

text \<open>Two timers: timer 0 runs and is due in 5 ticks, timer 1 is stopped (with 3 ticks) or due in 7 ticks.\<close>

definition example_timer :: "U8 \<Rightarrow> tmr_state \<Rightarrow> U32 \<Rightarrow> ptr \<Rightarrow> ptr \<Rightarrow> tmrctrl" where
  "example_timer i st cnt nx pv = \<lparr>tmrID = i, tmrType = TMR_TYPE_ONE_SHOT, tmrState = st, tmrCnt = cnt,
     tmrReload = 0, tmrCallBack = 0x1000, tmrNext = nx, tmrPrev = pv\<rparr>"

definition example_one_timer :: kernel where
  "example_one_timer = example\<lparr>TmrIDVessel := 3, TmrList := Some 0, TmrTbl := (\<lambda>_. example_timer 0 TMR_STATE_STOPPED 0 None None)
     (0 := example_timer 0 TMR_STATE_RUNNING 5 None None, 1 := example_timer 1 TMR_STATE_STOPPED 3 None None)\<rparr>"

definition example_two_timers :: kernel where
  "example_two_timers = example\<lparr>TmrIDVessel := 3, TmrList := Some 0, TmrTbl := (\<lambda>_. example_timer 0 TMR_STATE_STOPPED 0 None None)
     (0 := example_timer 0 TMR_STATE_RUNNING 5 (Some 1) None, 1 := example_timer 1 TMR_STATE_RUNNING 2 None (Some 0))\<rparr>"

lemmas example_timer_defs = example_one_timer_def example_two_timers_def example_timer_def
  tmr_next_def tmr_prev_def tmr_cnt_def tmr_valid_def tmr_idle_def ticks_of_def cfg_defs

lemma example_one_timer_facts:
  "timer_ok example_one_timer" "timer_list example_one_timer = [0]" "timers example_one_timer = [(0, 5)]"
proof -
  have "delta_wf CFG_MAX_TMR (tmr_next example_one_timer) (tmr_prev example_one_timer) (tmr_cnt example_one_timer)
      (TmrList example_one_timer) [0]"
    by (simp add: delta_wf_def dll_def example_timer_defs)
  moreover have "\<not> IsrReq example_one_timer" by (simp add: example_one_timer_def example_def kernel0_def)
  ultimately show "timer_ok example_one_timer" "timer_list example_one_timer = [0]" "timers example_one_timer = [(0, 5)]"
    by (simp_all add: timer_listI) (simp add: example_timer_defs)
qed

lemma example_two_timers_facts:
  "timer_ok example_two_timers" "timer_list example_two_timers = [0, 1]"
  "timers example_two_timers = [(0, 5), (1, 7)]"
proof -
  have "delta_wf CFG_MAX_TMR (tmr_next example_two_timers) (tmr_prev example_two_timers) (tmr_cnt example_two_timers)
      (TmrList example_two_timers) [0, 1]"
    by (simp add: delta_wf_def dll_def example_timer_defs)
  moreover have "\<not> IsrReq example_two_timers" by (simp add: example_two_timers_def example_def kernel0_def)
  ultimately show "timer_ok example_two_timers" "timer_list example_two_timers = [0, 1]"
    "timers example_two_timers = [(0, 5), (1, 7)]"
    by (simp_all add: timer_listI) (simp add: example_timer_defs)
qed

theorem CoStartTmr_files_timer_witness:
  "\<exists>s'. CoStartTmr (OsSchedUnlock (\<lambda>_ s. s)) 1 example_one_timer = (E_OK, s') \<and> timers s' = [(1, 3), (0, 5)]"
proof -
  have "tmrCnt (TmrTbl example_one_timer (unat (1::U8))) = 3" by (simp add: example_timer_defs)
  moreover have "tmrState (TmrTbl example_one_timer (unat (1::U8))) = TMR_STATE_STOPPED" "tmr_valid 1 example_one_timer"
    "tmr_idle (unat (1::U8)) example_one_timer"
    by (simp_all add: tmr_valid_def tmr_idle_def example_one_timer_facts) (simp_all add: example_timer_defs)
  ultimately show ?thesis
    using CoStartTmr_files_timer [of example_one_timer 1 "\<lambda>_ s. s"] by (auto simp: example_one_timer_facts)
qed

text \<open>
  Stopping a running timer takes it out and leaves the due times of all other
  timers as they were.
\<close>

lemma CoStopTmr_keeps_others:
  assumes "timer_ok s" "tmr_valid t s" "tmrState (TmrTbl s (unat t)) = TMR_STATE_RUNNING"
    "unat t \<in> set (timer_list s)"
  shows "\<exists>s'. CoStopTmr (OsSchedUnlock cb) t s = (E_OK, s') \<and> timer_ok s'
    \<and> timers s' = filter (\<lambda>(x, _). x \<noteq> unat t) (timers s)
    \<and> tmrState (TmrTbl s' (unat t)) = TMR_STATE_STOPPED"
  by (rule CoStopTmr_refines [OF assms])

text \<open>
  C19. \<open>CoSetTmrCnt\<close> on the first running timer moves every other timer: it writes the
  new count before taking the timer out of the delta list, so each later timer becomes
  due \<open>cnt - e\<close> ticks later than it was, where \<open>e\<close> was the due time of the first.
\<close>

theorem CoSetTmrCnt_moves_others:
  assumes "timer_ok s" "tmr_valid t s" "tmrState (TmrTbl s (unat t)) = TMR_STATE_RUNNING"
    "timers s = (unat t, e) # rest" "cnt \<noteq> 0"
    "unat cnt + sum_list (map (ticks_of (tmr_cnt s)) (timer_list s)) < 2 ^ 31"
  shows "\<exists>s'. CoSetTmrCnt (OsSchedUnlock cb) t cnt reload s = (E_OK, s') \<and> timer_ok s'
    \<and> timers s' = insert_by snd (unat t, unat cnt) (map (\<lambda>(y, d). (y, d - e + unat cnt)) rest)"
  by (rule CoSetTmrCnt_shifts [OF assms])

theorem CoSetTmrCnt_moves_others_witness:
  "timers example_two_timers = [(0, 5), (1, 7)]
    \<and> (\<exists>s'. CoSetTmrCnt (OsSchedUnlock (\<lambda>_ s. s)) 0 100 0 example_two_timers = (E_OK, s')
          \<and> timers s' = [(0, 100), (1, 102)])"
proof -
  have "tmrState (TmrTbl example_two_timers (unat (0::U8))) = TMR_STATE_RUNNING" "tmr_valid 0 example_two_timers"
    "sum_list (map (ticks_of (tmr_cnt example_two_timers)) [0, 1]) = 7"
    by (simp_all add: example_timer_defs)
  then show ?thesis
    using CoSetTmrCnt_moves_others [of example_two_timers 0 5 "[(1, 7)]" 100 "\<lambda>_ s. s" 0]
    by (auto simp: example_two_timers_facts)
qed

end
