(* ===== verification/CoOS_Mem.thy ===== *)
theory CoOS_Mem
  imports CoOS_Clock
begin

text \<open>
  Memory partitions (\<open>mm.c\<close>): a buffer cut into blocks of equal size, whose free
  blocks are chained through their first word. The control blocks are kept beside
  the kernel state, whose memory holds the blocks.
\<close>

record mm_ctl =
  memAddr :: U32
  freeBlock :: U32
  blockSize :: U32
  blockNum :: U32

record mm_state =
  MemoryTbl :: "nat \<Rightarrow> mm_ctl"
  MemoryIDVessel :: U32
  kern :: kernel

abbreviation mm_lock :: "mm_state \<Rightarrow> mm_state" where
  "mm_lock s \<equiv> s\<lparr>kern := OsSchedLock (kern s)\<rparr>"

abbreviation mm_unlock :: "unlock \<Rightarrow> mm_state \<Rightarrow> mm_state" where
  "mm_unlock u s \<equiv> s\<lparr>kern := u (kern s)\<rparr>"

abbreviation upd_mm :: "nat \<Rightarrow> (mm_ctl \<Rightarrow> mm_ctl) \<Rightarrow> mm_state \<Rightarrow> mm_state" where
  "upd_mm i f s \<equiv> s\<lparr>MemoryTbl := (MemoryTbl s)(i := f (MemoryTbl s i))\<rparr>"

abbreviation poke :: "U32 \<Rightarrow> U32 \<Rightarrow> mm_state \<Rightarrow> mm_state" where
  "poke a v s \<equiv> s\<lparr>kern := (kern s)\<lparr>Mem := (Mem (kern s))(a := v)\<rparr>\<rparr>"

abbreviation peek :: "U32 \<Rightarrow> mm_state \<Rightarrow> U32" where
  "peek a s \<equiv> Mem (kern s) a"

section \<open>The operations\<close>

text \<open>
  The loop that chains the blocks. Its counter is a byte: compared with more than
  256 blocks it never reaches the bound, which shows as running out of rounds.
\<close>

fun part_loop :: "nat \<Rightarrow> U8 \<Rightarrow> U32 \<Rightarrow> U32 \<Rightarrow> U32 \<Rightarrow> mm_state \<Rightarrow> (U32 \<times> mm_state) option" where
  "part_loop 0 j num bs a s = None"
| "part_loop (Suc k) j num bs a s =
     (if ucast j < num - 1 then part_loop k (j + 1) num bs (a + bs) (poke a (a + bs) s)
      else Some (a, s))"

definition CoCreateMemPartition :: "unlock \<Rightarrow> U32 \<Rightarrow> U32 \<Rightarrow> U32 \<Rightarrow> mm_state \<Rightarrow> U8 \<times> mm_state" where
  "CoCreateMemPartition u buf bs num s =
     (if buf = 0 then (E_CREATE_FAIL, s)
      else if bs = 0 then (E_CREATE_FAIL, s)
      else if bs AND 3 \<noteq> 0 then (E_CREATE_FAIL, s)
      else if num \<le> 1 then (E_CREATE_FAIL, s)
      else
        (let s = mm_lock s
         in case first_free 0 CFG_MAX_MM (MemoryIDVessel s) of
              None \<Rightarrow> (E_CREATE_FAIL, mm_unlock u s)
            | Some i \<Rightarrow>
                (let s = s\<lparr>MemoryIDVessel := MemoryIDVessel s OR push_bit i 1\<rparr>;
                     s = mm_unlock u s;
                     s = upd_mm i (\<lambda>m. m\<lparr>memAddr := buf, freeBlock := buf, blockSize := bs,
                           blockNum := num\<rparr>) s
                 in case part_loop 257 0 num bs buf s of
                      None \<Rightarrow> (word_of_nat i, s\<lparr>kern := (kern s)\<lparr>hang := True\<rparr>\<rparr>)
                    | Some (a, s) \<Rightarrow> (word_of_nat i, poke a 0 s))))"

definition mm_valid :: "U8 \<Rightarrow> mm_state \<Rightarrow> bool" where
  "mm_valid i s \<longleftrightarrow> unat i < CFG_MAX_MM \<and> push_bit (unat i) 1 AND MemoryIDVessel s \<noteq> 0"

definition CoDelMemoryPartition :: "unlock \<Rightarrow> U8 \<Rightarrow> mm_state \<Rightarrow> U8 \<times> mm_state" where
  "CoDelMemoryPartition u i s =
     (if \<not> mm_valid i s then (E_INVALID_ID, s)
      else
        (let s = mm_lock s;
             s = s\<lparr>MemoryIDVessel := MemoryIDVessel s AND NOT (push_bit (unat i) 1)\<rparr>;
             s = mm_unlock u s
         in (E_OK, upd_mm (unat i) (\<lambda>m. m\<lparr>memAddr := 0, freeBlock := 0, blockSize := 0,
               blockNum := 0\<rparr>) s)))"

text \<open>Counting: a chain of more than \<open>k\<close> blocks does not end within the rounds.\<close>

fun count_free :: "nat \<Rightarrow> (U32 \<Rightarrow> U32) \<Rightarrow> U32 \<Rightarrow> U32 \<Rightarrow> U32 option" where
  "count_free k m a n =
     (if a = 0 then Some n else case k of 0 \<Rightarrow> None | Suc k \<Rightarrow> count_free k m (m a) (n + 1))"

declare count_free.simps [simp del]

definition CoGetFreeBlockNum :: "unlock \<Rightarrow> U8 \<Rightarrow> mm_state \<Rightarrow> (U32 \<times> U8) \<times> mm_state" where
  "CoGetFreeBlockNum u i s =
     (if \<not> mm_valid i s then ((0, E_INVALID_ID), s)
      else
        (let m = MemoryTbl s (unat i); s = mm_lock s
         in case count_free (unat (blockNum m)) (Mem (kern s)) (freeBlock m) 0 of
              None \<Rightarrow> ((0, E_OK), s\<lparr>kern := (kern s)\<lparr>hang := True\<rparr>\<rparr>)
            | Some n \<Rightarrow> ((n, E_OK), mm_unlock u s)))"

definition CoGetMemoryBuffer :: "unlock \<Rightarrow> U8 \<Rightarrow> mm_state \<Rightarrow> U32 \<times> mm_state" where
  "CoGetMemoryBuffer u i s =
     (if \<not> mm_valid i s then (0, s)
      else
        (let s = mm_lock s; b = freeBlock (MemoryTbl s (unat i))
         in if b = 0 then (0, mm_unlock u s)
            else (b, mm_unlock u (upd_mm (unat i) (freeBlock_update (\<lambda>_. peek b s)) s))))"

definition CoFreeMemoryBuffer :: "unlock \<Rightarrow> U8 \<Rightarrow> U32 \<Rightarrow> mm_state \<Rightarrow> U8 \<times> mm_state" where
  "CoFreeMemoryBuffer u i buf s =
     (let m = MemoryTbl s (unat i)
      in if \<not> mm_valid i s then (E_INVALID_ID, s)
         else if buf = 0 then (E_INVALID_PARAMETER, s)
         else if buf < memAddr m then (E_INVALID_PARAMETER, s)
         else if buf > memAddr m + blockSize m * blockNum m then (E_INVALID_PARAMETER, s)
         else if (buf - memAddr m) mod blockSize m \<noteq> 0 then (E_INVALID_PARAMETER, s)
         else
           (let s = mm_lock s;
                s = poke buf (freeBlock (MemoryTbl s (unat i))) s;
                s = upd_mm (unat i) (freeBlock_update (\<lambda>_. buf)) s
            in (E_OK, mm_unlock u s)))"

section \<open>The blocks of a partition\<close>

definition block :: "U32 \<Rightarrow> U32 \<Rightarrow> nat \<Rightarrow> U32" where
  "block buf bs j = buf + word_of_nat j * bs"

text \<open>A buffer that can be cut: it lies within the address space and does not start at 0.\<close>

definition part_ok :: "U32 \<Rightarrow> U32 \<Rightarrow> nat \<Rightarrow> bool" where
  "part_ok buf bs n \<longleftrightarrow> buf \<noteq> 0 \<and> bs \<noteq> 0 \<and> bs AND 3 = 0 \<and> 1 < n \<and> n \<le> 256
     \<and> unat buf + n * unat bs < 2 ^ 32"

lemma unat_block:
  assumes "part_ok buf bs n" "j \<le> n"
  shows "unat (block buf bs j) = unat buf + j * unat bs"
proof -
  have "j * unat bs \<le> n * unat bs" using assms(2) by simp
  moreover have "unat buf + n * unat bs < 2 ^ 32" using assms(1) by (simp add: part_ok_def)
  ultimately have "unat buf + j * unat bs < 2 ^ 32" by linarith
  moreover have "block buf bs j = word_of_nat (unat buf + j * unat bs)"
    by (simp add: block_def)
  ultimately show ?thesis by (simp only: unat_of_nat) simp
qed

lemma block_inj:
  assumes "part_ok buf bs n" "i \<le> n" "j \<le> n" "block buf bs i = block buf bs j" shows "i = j"
proof -
  have "unat buf + i * unat bs = unat buf + j * unat bs"
    using unat_block assms by metis
  moreover have "unat bs \<noteq> 0" using assms(1) by (simp add: part_ok_def unat_eq_0)
  ultimately show ?thesis by simp
qed

lemma block_nonzero: "part_ok buf bs n \<Longrightarrow> j \<le> n \<Longrightarrow> block buf bs j \<noteq> 0"
  using unat_block [of buf bs n j] by (auto simp: part_ok_def unat_eq_0)

lemma block_Suc: "block buf bs j + bs = block buf bs (Suc j)"
  by (simp add: block_def algebra_simps)

lemma ucast_less: "c \<le> 255 \<Longrightarrow> (ucast (word_of_nat c :: U8) < (n :: U32)) = (c < unat n)"
  by (simp add: word_less_nat_alt unat_of_nat unsigned_ucast_eq take_bit_nat_def)

text \<open>What the loop leaves behind: block \<open>k\<close> points to block \<open>k + 1\<close>.\<close>

definition chained :: "U32 \<Rightarrow> U32 \<Rightarrow> nat \<Rightarrow> nat \<Rightarrow> (U32 \<Rightarrow> U32) \<Rightarrow> bool" where
  "chained buf bs a b m \<longleftrightarrow> (\<forall>k. a \<le> k \<and> k < b \<longrightarrow> m (block buf bs k) = block buf bs (Suc k))"

lemma part_loop_chains:
  assumes ok: "part_ok buf bs n" and n: "n = unat num"
  shows "c < n \<Longrightarrow> n - c \<le> k \<Longrightarrow>
    \<exists>m. part_loop k (word_of_nat c) num bs (block buf bs c) s
        = Some (block buf bs (n - 1), s\<lparr>kern := (kern s)\<lparr>Mem := m\<rparr>\<rparr>)
      \<and> chained buf bs c (n - 1) m \<and> (\<forall>a. (\<forall>j. c \<le> j \<and> j < n - 1 \<longrightarrow> a \<noteq> block buf bs j) \<longrightarrow> m a = peek a s)"
proof (induction k arbitrary: c s)
  case (Suc k)
  have "num \<noteq> 0" using n Suc.prems by auto
  then have num: "unat (num - 1) = n - 1" using n unat_minus_one by blast
  have c: "c \<le> 255" using ok Suc.prems by (simp add: part_ok_def)
  show ?case
  proof (cases "c < n - 1")
    case True
    let ?s = "poke (block buf bs c) (block buf bs (Suc c)) s"
    have "Suc c < n" "n - Suc c \<le> k" using True Suc.prems by linarith+
    from Suc.IH [OF this, of ?s] obtain m where IH:
      "part_loop k (word_of_nat (Suc c)) num bs (block buf bs (Suc c)) ?s
        = Some (block buf bs (n - 1), ?s\<lparr>kern := (kern ?s)\<lparr>Mem := m\<rparr>\<rparr>)"
      "chained buf bs (Suc c) (n - 1) m"
      "\<forall>a. (\<forall>j. Suc c \<le> j \<and> j < n - 1 \<longrightarrow> a \<noteq> block buf bs j) \<longrightarrow> m a = peek a ?s"
      by blast
    have "block buf bs c \<noteq> block buf bs j" if "Suc c \<le> j" "j < n - 1" for j
    proof -
      have "c \<le> n" "j \<le> n" "c \<noteq> j" using that by linarith+
      then show ?thesis using block_inj [OF ok] by blast
    qed
    then have mc: "m (block buf bs c) = block buf bs (Suc c)" using IH(3) by simp
    have ch: "chained buf bs c (n - 1) m"
      unfolding chained_def
    proof (intro allI impI)
      fix j assume "c \<le> j \<and> j < n - 1"
      then show "m (block buf bs j) = block buf bs (Suc j)"
        using mc IH(2) unfolding chained_def by (cases "j = c") auto
    qed
    have "part_loop (Suc k) (word_of_nat c) num bs (block buf bs c) s
        = Some (block buf bs (n - 1), s\<lparr>kern := (kern s)\<lparr>Mem := m\<rparr>\<rparr>)"
      using IH(1) True num ucast_less [OF c, of "num - 1"] 
      by (simp add: block_Suc add.commute [of "1::U8"])
    moreover have "m a = peek a s" if "\<forall>j. c \<le> j \<and> j < n - 1 \<longrightarrow> a \<noteq> block buf bs j" for a
      using IH(3) that True by simp
    ultimately show ?thesis using ch by blast
  next
    case False
    then have "c = n - 1" using Suc.prems by simp
    then show ?thesis
      using num ucast_less [OF c, of "num - 1"]
      by (intro exI [of _ "Mem (kern s)"]) (auto simp: chained_def)
  qed
qed simp

section \<open>The free blocks as a list\<close>

text \<open>The words of memory chain the addresses \<open>xs\<close> from \<open>a\<close> on, up to the null pointer.\<close>

fun mlist :: "(U32 \<Rightarrow> U32) \<Rightarrow> U32 \<Rightarrow> U32 list \<Rightarrow> bool" where
  "mlist m a [] \<longleftrightarrow> a = 0"
| "mlist m a (x # xs) \<longleftrightarrow> a = x \<and> x \<noteq> 0 \<and> mlist m (m x) xs"

lemma mlist_upd [simp]: "x \<notin> set xs \<Longrightarrow> mlist (m(x := v)) a xs = mlist m a xs"
  by (induction xs arbitrary: a) auto

lemma mlist_blocks:
  assumes ok: "part_ok buf bs n" and ch: "chained buf bs 0 (n - 1) m" "m (block buf bs (n - 1)) = 0"
  shows "c < n \<Longrightarrow> mlist m (block buf bs c) (map (block buf bs) [c..<n])"
proof (induction "n - c" arbitrary: c)
  case (Suc d)
  have nz: "block buf bs c \<noteq> 0" using block_nonzero [OF ok] Suc.prems by simp
  have up: "[c..<n] = c # [Suc c..<n]" using Suc.prems by (simp add: upt_conv_Cons)
  show ?case
  proof (cases "Suc c < n")
    case True
    then have "m (block buf bs c) = block buf bs (Suc c)" using ch(1) by (simp add: chained_def)
    moreover have "d = n - Suc c" using Suc.hyps(2) by simp
    ultimately show ?thesis using Suc.hyps(1) [OF _ True] up nz by simp
  next
    case False
    then have "c = n - 1" "[Suc c..<n] = []" using Suc.prems by auto
    then show ?thesis using up nz ch(2) by simp
  qed
qed simp

lemma count_free_length:
  "mlist m a xs \<Longrightarrow> length xs \<le> k \<Longrightarrow> count_free k m a n = Some (n + word_of_nat (length xs))"
proof (induction xs arbitrary: a k n)
  case Nil
  then show ?case by (simp add: count_free.simps)
next
  case (Cons x xs)
  then obtain j where k: "k = Suc j" by (cases k) auto
  with Cons.IH [of "m x" j "n + 1"] Cons.prems show ?case
    by (subst count_free.simps) (simp add: algebra_simps)
qed

text \<open>
  The partition \<open>i\<close> is well formed, \<open>xs\<close> are its free blocks, in the order of the chain,
  and no interrupt handler has left a request whose service could write to memory.
\<close>

definition mm_rep :: "nat \<Rightarrow> U32 list \<Rightarrow> mm_state \<Rightarrow> bool" where
  "mm_rep i xs s \<longleftrightarrow>
     (let m = MemoryTbl s i
      in \<not> IsrReq (kern s) \<and> part_ok (memAddr m) (blockSize m) (unat (blockNum m))
         \<and> mlist (Mem (kern s)) (freeBlock m) xs \<and> distinct xs
         \<and> set xs \<subseteq> block (memAddr m) (blockSize m) ` {..<unat (blockNum m)})"

text \<open>An unlock that leaves the memory alone when there is no deferred request to serve.\<close>

definition mem_neutral :: "unlock \<Rightarrow> bool" where
  "mem_neutral u \<longleftrightarrow> (\<forall>k. \<not> IsrReq k \<longrightarrow> Mem (u k) = Mem k \<and> \<not> IsrReq (u k))"

lemma Mem_lock [simp]: "Mem (OsSchedLock k) = Mem k" "IsrReq (OsSchedLock k) = IsrReq k"
  by (simp_all add: OsSchedLock_def)

lemma create_refines:
  assumes ok: "part_ok buf bs (unat num)" and u: "mem_neutral u" "\<not> IsrReq (kern s)"
    and free: "first_free 0 CFG_MAX_MM (MemoryIDVessel s) = Some i"
  shows "\<exists>s'. CoCreateMemPartition u buf bs num s = (word_of_nat i, s')
    \<and> mm_rep i (map (block buf bs) [0..<unat num]) s'
    \<and> MemoryIDVessel s' = MemoryIDVessel s OR push_bit i 1 \<and> hang (kern s') = hang (u (kern (mm_lock s)))"
proof -
  define t where "t = upd_mm i (\<lambda>m. m\<lparr>memAddr := buf, freeBlock := buf, blockSize := bs, blockNum := num\<rparr>)
     (mm_unlock u ((mm_lock s)\<lparr>MemoryIDVessel := MemoryIDVessel s OR push_bit i 1\<rparr>))"
  define n where "n = unat num"
  have n: "1 < n" "n \<le> 256" "part_ok buf bs n" using ok by (simp_all add: part_ok_def n_def)
  then obtain m where m: "part_loop 257 0 num bs buf t
        = Some (block buf bs (n - 1), t\<lparr>kern := (kern t)\<lparr>Mem := m\<rparr>\<rparr>)"
      "chained buf bs 0 (n - 1) m"
    using part_loop_chains [of buf bs n num 0 257 t] by (auto simp: n_def block_def)
  define s' where "s' = poke (block buf bs (n - 1)) 0 (t\<lparr>kern := (kern t)\<lparr>Mem := m\<rparr>\<rparr>)"
  have "block buf bs j \<noteq> block buf bs (n - 1)" if "j < n - 1" for j
  proof -
    have "n - 1 \<le> n" "j \<le> n" "n - 1 \<noteq> j" using that by linarith+
    then show ?thesis using block_inj [OF n(3)] by blast
  qed
  then have "chained buf bs 0 (n - 1) (Mem (kern s'))"
    using m(2) by (auto simp: chained_def s'_def)
  from mlist_blocks [OF n(3) this _, of 0] have
    "mlist (Mem (kern s')) buf (map (block buf bs) [0..<n])"
    using n(1) by (simp add: s'_def block_def)
  moreover have "distinct (map (block buf bs) [0..<n])"
    using block_inj [OF n(3)] by (auto simp: distinct_map inj_on_def)
  ultimately have "mm_rep i (map (block buf bs) [0..<n]) s'"
    using n(3) u by (auto simp: mm_rep_def mem_neutral_def s'_def t_def n_def)
  moreover have "CoCreateMemPartition u buf bs num s = (word_of_nat i, s')"
    using ok free m(1) by (auto simp: CoCreateMemPartition_def part_ok_def Let_def s'_def t_def word_le_nat_alt)
  ultimately show ?thesis by (auto simp: n_def s'_def t_def)
qed

lemma get_refines:
  assumes "mm_rep (unat i) xs s" "mm_valid i s" "mem_neutral u"
  shows "fst (CoGetMemoryBuffer u i s) = (case xs of [] \<Rightarrow> 0 | b # _ \<Rightarrow> b)
    \<and> mm_rep (unat i) (tl xs) (snd (CoGetMemoryBuffer u i s))"
  using assms by (cases xs) (auto simp: mm_rep_def CoGetMemoryBuffer_def mem_neutral_def Let_def)

lemma free_refines:
  assumes rep: "mm_rep (unat i) xs s" and v: "mm_valid i s" "mem_neutral u"
    and b: "j < unat (blockNum (MemoryTbl s (unat i)))"
      "b = block (memAddr (MemoryTbl s (unat i))) (blockSize (MemoryTbl s (unat i))) j" "b \<notin> set xs"
  shows "fst (CoFreeMemoryBuffer u i b s) = E_OK \<and> mm_rep (unat i) (b # xs) (snd (CoFreeMemoryBuffer u i b s))"
proof -
  let ?m = "MemoryTbl s (unat i)"
  have ok: "part_ok (memAddr ?m) (blockSize ?m) (unat (blockNum ?m))"
    using rep by (simp add: mm_rep_def Let_def)
  have ub: "unat b = unat (memAddr ?m) + j * unat (blockSize ?m)"
    using unat_block [OF ok] b by simp
  have "j * unat (blockSize ?m) \<le> unat (blockNum ?m) * unat (blockSize ?m)" using b(1) by simp
  moreover have top: "memAddr ?m + blockSize ?m * blockNum ?m
      = block (memAddr ?m) (blockSize ?m) (unat (blockNum ?m))"
    by (simp add: block_def mult.commute)
  ultimately have "\<not> b < memAddr ?m" "\<not> b > memAddr ?m + blockSize ?m * blockNum ?m" "b \<noteq> 0"
    using ub unat_block [OF ok, of "unat (blockNum ?m)"] ok
    by (auto simp: word_less_nat_alt part_ok_def unat_eq_0 simp flip: unat_eq_0)
  moreover have "(b - memAddr ?m) mod blockSize ?m = 0"
  proof -
    have "b - memAddr ?m = word_of_nat j * blockSize ?m" using b(2) by (simp add: block_def)
    moreover have "unat (b - memAddr ?m) = j * unat (blockSize ?m)"
      using ub by (subst unat_sub) (auto simp: word_le_nat_alt)
    ultimately show ?thesis by (simp add: word_arith_nat_mod)
  qed
  ultimately show ?thesis
    using rep v b by (auto simp: CoFreeMemoryBuffer_def mm_rep_def mem_neutral_def Let_def)
qed

lemma mem_neutral_unlock: "mem_neutral (OsSchedUnlock cb)"
  using unlock_quiet [of _ cb] by (simp add: mem_neutral_def same_objects_def)

text \<open>A sequence of requests for a block.\<close>

fun gets :: "unlock \<Rightarrow> U8 \<Rightarrow> nat \<Rightarrow> mm_state \<Rightarrow> U32 list \<times> mm_state" where
  "gets u i 0 s = ([], s)"
| "gets u i (Suc k) s =
     (case CoGetMemoryBuffer u i s of (b, s) \<Rightarrow> (case gets u i k s of (bs, s) \<Rightarrow> (b # bs, s)))"

lemma get_keeps:
  "MemoryIDVessel (snd (CoGetMemoryBuffer u i s)) = MemoryIDVessel s"
  by (simp add: CoGetMemoryBuffer_def Let_def)

lemma gets_refines:
  "mm_rep (unat i) xs s \<Longrightarrow> mm_valid i s \<Longrightarrow> mem_neutral u \<Longrightarrow> k \<le> length xs \<Longrightarrow>
    fst (gets u i k s) = take k xs \<and> mm_rep (unat i) (drop k xs) (snd (gets u i k s))"
proof (induction k arbitrary: xs s)
  case (Suc k)
  then obtain x ys where xs: "xs = x # ys" by (cases xs) auto
  obtain b t where t: "CoGetMemoryBuffer u i s = (b, t)" by (cases "CoGetMemoryBuffer u i s")
  have "b = x" "mm_rep (unat i) ys t" using get_refines [OF Suc.prems(1-3)] t xs by simp_all
  moreover have "mm_valid i t" using Suc.prems(2) get_keeps [of u i s] t by (simp add: mm_valid_def)
  ultimately show ?case using Suc.IH [of ys t] Suc.prems xs t by (auto split: prod.splits)
qed simp

text \<open>
  The byte counter of the loop stays below 256: with at least 257 blocks to chain the
  loop goes on for ever.
\<close>

lemma part_loop_diverges: "256 < unat num \<Longrightarrow> part_loop k j num bs a s = None"
proof (induction k arbitrary: j a s)
  case (Suc k)
  have "unat (num - 1) = unat num - 1" using Suc.prems by (intro unat_minus_one) auto
  then have "ucast j < num - 1"
    using unsigned_less [of j, where ?'a = nat] Suc.prems
    by (simp add: word_less_nat_alt unsigned_ucast_eq take_bit_nat_def)
  then show ?case using Suc by simp
qed simp

section \<open>Properties of the memory partitions\<close>

text \<open>
  Creating a partition of up to 256 blocks succeeds with the first free
  identifier, marks it used, and leaves all its blocks chained in ascending order,
  distinct and inside the buffer.
\<close>

lemma CoCreateMemPartition_chains_blocks:
  assumes "part_ok buf bs (unat num)" "\<not> IsrReq (kern s)"
    "first_free 0 CFG_MAX_MM (MemoryIDVessel s) = Some i"
  shows "\<exists>s'. CoCreateMemPartition (OsSchedUnlock cb) buf bs num s = (word_of_nat i, s')
    \<and> mm_rep i (map (block buf bs) [0..<unat num]) s'
    \<and> MemoryIDVessel s' = MemoryIDVessel s OR push_bit i 1"
  using create_refines [OF assms(1) mem_neutral_unlock assms(2,3)] by blast

text \<open>No partition yet, and a partition of three blocks of 8 bytes of which the last two are free.\<close>

definition example_mm0 :: mm_state where
  "example_mm0 = \<lparr>MemoryTbl = (\<lambda>_. \<lparr>memAddr = 0, freeBlock = 0, blockSize = 0, blockNum = 0\<rparr>),
     MemoryIDVessel = 0, kern = example\<rparr>"

definition example_mm :: mm_state where
  "example_mm = \<lparr>MemoryTbl = (\<lambda>_. \<lparr>memAddr = 0x2000, freeBlock = 0x2008, blockSize = 8, blockNum = 3\<rparr>),
     MemoryIDVessel = 1, kern = example\<lparr>Mem := (\<lambda>_. 0)(0x2008 := 0x2010)\<rparr>\<rparr>"

lemma example_not_isr: "\<not> IsrReq example"
  by (simp add: example_def kernel0_def)

lemma example_mm_facts: "mm_valid 0 example_mm" "mm_rep 0 [0x2008, 0x2010] example_mm" "mm_rep (unat (0::U8)) [0x2008, 0x2010] example_mm"
proof -
  show "mm_valid 0 example_mm" by (simp add: mm_valid_def example_mm_def cfg_defs)
  have "block 0x2000 8 1 = 0x2008" "block 0x2000 8 2 = 0x2010" by (simp_all add: block_def)
  then have "{0x2008, 0x2010} \<subseteq> block 0x2000 8 ` {..<3}" by force
  then have "mm_rep 0 [0x2008, 0x2010] example_mm"
    using example_not_isr by (simp add: mm_rep_def example_mm_def part_ok_def)
  then show "mm_rep 0 [0x2008, 0x2010] example_mm" "mm_rep (unat (0::U8)) [0x2008, 0x2010] example_mm" by simp_all
qed

text \<open>
  C21. A run of requests hands out the free blocks one after the other: as many
  requests as there are free blocks return distinct blocks of the partition, none of
  which is free afterwards, and once none is left a request returns the null pointer.
\<close>

theorem CoGetMemoryBuffer_distinct_blocks:
  assumes "mm_rep (unat i) xs s" "mm_valid i s" "k \<le> length xs"
  shows "fst (gets (OsSchedUnlock cb) i k s) = take k xs
    \<and> mm_rep (unat i) (drop k xs) (snd (gets (OsSchedUnlock cb) i k s))
    \<and> distinct (fst (gets (OsSchedUnlock cb) i k s))
    \<and> set (fst (gets (OsSchedUnlock cb) i k s)) \<inter> set (drop k xs) = {}
    \<and> (xs = [] \<longrightarrow> fst (CoGetMemoryBuffer (OsSchedUnlock cb) i s) = 0)"
proof -
  have "distinct (take k xs @ drop k xs)" using assms(1) by (simp add: mm_rep_def Let_def)
  then have "distinct (take k xs)" "set (take k xs) \<inter> set (drop k xs) = {}" unfolding distinct_append by auto
  then show ?thesis
    using gets_refines [OF assms(1,2) mem_neutral_unlock assms(3), of cb]
      get_refines [OF assms(1,2) mem_neutral_unlock, of cb] by auto
qed

theorem CoGetMemoryBuffer_distinct_blocks_witness:
  "fst (gets (OsSchedUnlock (\<lambda>_ s. s)) 0 2 example_mm) = [0x2008, 0x2010]"
  using CoGetMemoryBuffer_distinct_blocks [OF example_mm_facts(3,1), of 2 "\<lambda>_ s. s"] by simp

text \<open>
  C22. Giving back a block that is in use makes it the first free block; the others stay as they are.
\<close>

theorem CoFreeMemoryBuffer_returns_block:
  assumes "mm_rep (unat i) xs s" "mm_valid i s" "j < unat (blockNum (MemoryTbl s (unat i)))"
    "b = block (memAddr (MemoryTbl s (unat i))) (blockSize (MemoryTbl s (unat i))) j" "b \<notin> set xs"
  shows "fst (CoFreeMemoryBuffer (OsSchedUnlock cb) i b s) = E_OK
    \<and> mm_rep (unat i) (b # xs) (snd (CoFreeMemoryBuffer (OsSchedUnlock cb) i b s))"
  by (rule free_refines [OF assms(1,2) mem_neutral_unlock assms(3-5)])

theorem CoFreeMemoryBuffer_returns_block_witness:
  "mm_rep 0 [0x2000, 0x2008, 0x2010] (snd (CoFreeMemoryBuffer (OsSchedUnlock (\<lambda>_ s. s)) 0 0x2000 example_mm))"
proof -
  have "blockNum (MemoryTbl example_mm (unat (0::U8))) = 3" "memAddr (MemoryTbl example_mm (unat (0::U8))) = 0x2000"
    by (simp_all add: example_mm_def)
  then show ?thesis
    using CoFreeMemoryBuffer_returns_block [OF example_mm_facts(3,1), of 0 "0x2000" "\<lambda>_ s. s"]
    by (simp add: block_def)
qed

text \<open>
  \<open>CoGetFreeBlockNum\<close> returns the number of free blocks and changes nothing: its
  walk along the chain ends within as many rounds as the partition has blocks.
\<close>

lemma CoGetFreeBlockNum_counts:
  assumes "mm_rep (unat i) xs s" "mm_valid i s"
  shows "fst (CoGetFreeBlockNum (OsSchedUnlock cb) i s) = (word_of_nat (length xs), E_OK)
    \<and> mm_rep (unat i) xs (snd (CoGetFreeBlockNum (OsSchedUnlock cb) i s))"
proof -
  let ?m = "MemoryTbl s (unat i)"
  have r: "mlist (Mem (kern s)) (freeBlock ?m) xs" "distinct xs" "\<not> IsrReq (kern s)"
    "set xs \<subseteq> block (memAddr ?m) (blockSize ?m) ` {..<unat (blockNum ?m)}"
    using assms(1) by (simp_all add: mm_rep_def Let_def)
  have "length xs \<le> card (block (memAddr ?m) (blockSize ?m) ` {..<unat (blockNum ?m)})"
    using r(2,4) by (metis card_mono distinct_card finite_imageI finite_lessThan)
  also have "\<dots> \<le> unat (blockNum ?m)" using card_image_le [of "{..<unat (blockNum ?m)}"] by simp
  finally have "count_free (unat (blockNum ?m)) (Mem (kern s)) (freeBlock ?m) 0 = Some (word_of_nat (length xs))"
    using count_free_length [OF r(1)] by simp
  then show ?thesis
    using assms r(3) mem_neutral_unlock [of cb] by (simp add: CoGetFreeBlockNum_def Let_def mm_rep_def mem_neutral_def)
qed

text \<open>
  \<open>CoFreeMemoryBuffer\<close> accepts the address just behind the partition: the range
  check admits it, and the next request hands out that address, which is not a block
  of the partition.
\<close>

lemma CoFreeMemoryBuffer_accepts_end:
  assumes "mm_rep (unat i) xs s" "mm_valid i s"
  shows "let u = OsSchedUnlock cb; m = MemoryTbl s (unat i); b = memAddr m + blockSize m * blockNum m
    in fst (CoFreeMemoryBuffer u i b s) = E_OK
       \<and> fst (CoGetMemoryBuffer u i (snd (CoFreeMemoryBuffer u i b s))) = b
       \<and> b \<notin> block (memAddr m) (blockSize m) ` {..<unat (blockNum m)}"
proof -
  let ?m = "MemoryTbl s (unat i)" and ?u = "OsSchedUnlock cb"
  let ?n = "unat (blockNum ?m)"
  let ?b = "block (memAddr ?m) (blockSize ?m) ?n"
  have ok: "part_ok (memAddr ?m) (blockSize ?m) ?n" using assms(1) by (simp add: mm_rep_def Let_def)
  have b: "memAddr ?m + blockSize ?m * blockNum ?m = ?b" by (simp add: block_def mult.commute)
  have ub: "unat ?b = unat (memAddr ?m) + ?n * unat (blockSize ?m)" using unat_block [OF ok] by simp
  then have ge: "memAddr ?m \<le> ?b" by (simp add: word_le_nat_alt)
  have "unat (?b - memAddr ?m) = ?n * unat (blockSize ?m)" using ub ge by (simp add: unat_sub)
  then have "(?b - memAddr ?m) mod blockSize ?m = 0" by (simp add: word_arith_nat_mod)
  moreover have nz: "?b \<noteq> 0" using block_nonzero [OF ok] by simp
  ultimately have "fst (CoFreeMemoryBuffer ?u i ?b s) = E_OK"
      "freeBlock (MemoryTbl (snd (CoFreeMemoryBuffer ?u i ?b s)) (unat i)) = ?b"
      "mm_valid i (snd (CoFreeMemoryBuffer ?u i ?b s))"
    using assms(2) ge b by (auto simp: CoFreeMemoryBuffer_def Let_def mm_valid_def)
  moreover have "?b \<notin> block (memAddr ?m) (blockSize ?m) ` {..<?n}"
  proof
    assume "?b \<in> block (memAddr ?m) (blockSize ?m) ` {..<?n}"
    then obtain j where "j < ?n" "?b = block (memAddr ?m) (blockSize ?m) j" by blast
    with block_inj [OF ok, of ?n j] show False by simp
  qed
  ultimately show ?thesis unfolding Let_def b using nz by (simp add: CoGetMemoryBuffer_def Let_def)
qed

text \<open>
  C25. With more than 256 blocks \<open>CoCreateMemPartition\<close> never returns: the byte-wide
  counter of its loop cannot reach the bound, whatever number of rounds it is given.
\<close>

theorem CoCreateMemPartition_diverges:
  assumes "256 < unat num" "buf \<noteq> 0" "bs \<noteq> 0" "bs AND 3 = 0"
    "first_free 0 CFG_MAX_MM (MemoryIDVessel s) = Some i"
  shows "(\<forall>k j a t. part_loop k j num bs a t = None)
    \<and> hang (kern (snd (CoCreateMemPartition u buf bs num s)))"
proof -
  have "\<not> num \<le> 1" using assms(1) by (auto simp: word_le_nat_alt)
  then show ?thesis
    using assms part_loop_diverges [OF assms(1)] by (simp add: CoCreateMemPartition_def Let_def)
qed

theorem CoCreateMemPartition_diverges_witness:
  "hang (kern (snd (CoCreateMemPartition (\<lambda>s. s) 0x2000 4 257 example_mm0)))"
proof -
  have "first_free 0 CFG_MAX_MM (MemoryIDVessel example_mm0) = Some 0"
    by (simp add: example_mm0_def cfg_defs numeral_2_eq_2)
  then show ?thesis
    using CoCreateMemPartition_diverges [of 257 "0x2000" 4 example_mm0 0 "\<lambda>s. s"] by simp
qed

end
