(* ===== verification/CoOS_Life.thy ===== *)
theory CoOS_Life
  imports CoOS_Mem
begin

text \<open>
  What the task and mutex functions promise: a change of priority moves a ready task to
  its new place, suspension and wake-up are inverse to each other, a mutex has one
  owner, serves its waiters in the order of their arrival and lends the owner
  the priority of a more urgent waiter.
\<close>

section \<open>Moving a ready task to the place of a new priority\<close>

lemma task_prio_set_prio: "task_prio (set_prio i p s) = (task_prio s)(i := p)"
  by (auto simp: task_prio_def)

lemma reprioritise:
  fixes p :: U8
  assumes ok: "ready_ok s" and i: "i \<in> set (ready_list s)"
  defines "t \<equiv> InsertToTCBRdyList i (RemoveFromTCBRdyList i (set_prio i p s))"
  shows "ready_ok t \<and> ready_list t = insert_by ((task_prio s)(i := p)) i (remove1 i (ready_list s))
    \<and> task_prio t = (task_prio s)(i := p) \<and> hang t = hang s
    \<and> (\<forall>j. j \<notin> set (ready_list s) \<longrightarrow> tnext t j = tnext s j \<and> tprev t j = tprev s j)"
proof -
  let ?a = "set_prio i p s" and ?key = "(task_prio s)(i := p)"
  let ?b = "RemoveFromTCBRdyList i ?a"
  note D = ready_okD [OF ok]
  have a: "dll (tnext ?a) (tprev ?a) (TCBRdy ?a) (ready_list s)" using D(1) by simp
  have d: "dll (tnext ?b) (tprev ?b) (TCBRdy ?b) (remove1 i (ready_list s))"
    using rdy.rem_refines [OF a i TrueI] by blast
  have p: "task_prio ?b = ?key" by (simp add: task_prio_set_prio)
  have "i \<notin> set (remove1 i (ready_list s))" using D(4) by simp
  then have "map ?key (remove1 i (ready_list s)) = map (task_prio s) (remove1 i (ready_list s))"
    by (auto intro: map_cong)
  then have "sorted (map ?key (remove1 i (ready_list s)))"
    using sorted_map_remove1 [OF D(3), of i] by argo
  then have b: "ready_ok ?b" "ready_list ?b = remove1 i (ready_list s)"
    using ready_okI [OF d] D(2) set_remove1_subset [of i "ready_list s"] p by auto
  have "unlinked ?b i" by (rule RemoveFromTCBRdyList_unlinks [OF a i])
  moreover have "i < TASK_NUM" using D(2) i by auto
  moreover have "i \<notin> set (ready_list ?b)" using b(2) D(4) by simp
  moreover have "tnext ?b j = tnext s j \<and> tprev ?b j = tprev s j" if "j \<notin> set (ready_list s)" for j
    using rdy.rem_refines [OF a i TrueI] that by simp
  moreover have "j \<notin> insert i (set (remove1 i (ready_list s)))" if "j \<notin> set (ready_list s)" for j
    using that i set_remove1_subset [of i "ready_list s"] by auto
  ultimately show ?thesis
    using InsertToTCBRdyList_refines [OF b(1), of i] b(2) p by (simp add: t_def)
qed

lemma CoSetPriority_ready:
  assumes ok: "ready_ok s" "unat tid \<in> set (ready_list s)" "tid \<noteq> 0" "state (TCBTbl s (unat tid)) = TASK_READY"
    and m: "mutexID (TCBTbl s (unat tid)) = INVALID_ID" and p: "p \<le> CFG_LOWEST_PRIO" "prio (TCBTbl s (unat tid)) \<noteq> p"
  shows "\<exists>t. CoSetPriority u tid p s = (E_OK, u t) \<and> ready_ok t
    \<and> ready_list t = insert_by ((task_prio s)(unat tid := p)) (unat tid) (remove1 (unat tid) (ready_list s))
    \<and> task_prio t = (task_prio s)(unat tid := p)"
proof -
  let ?i = "unat tid"
  have "?i < TASK_NUM" using ready_okD(2) [OF ok(1)] ok(2) by auto
  then have eq: "CoSetPriority u tid p s
      = (E_OK, u (InsertToTCBRdyList ?i (RemoveFromTCBRdyList ?i (OsSchedLock (set_prio ?i p s)))))"
    using ok m p by (cases TASK_NUM) (auto simp: CoSetPriority_def set_prio_body_def Let_def)
  have l: "OsSchedLock (set_prio ?i p s) = set_prio ?i p (OsSchedLock s)" by (simp add: OsSchedLock_def upd_def)
  have "ready_ok (OsSchedLock s) = ready_ok s" "ready_list (OsSchedLock s) = ready_list s"
    "task_prio (OsSchedLock s) = task_prio s"
    by (simp_all add: ready_ok_def ready_list_def OsSchedLock_def)
  with reprioritise [of "OsSchedLock s" ?i p] ok show ?thesis unfolding eq l by auto
qed

section \<open>Suspension and wake-up\<close>

lemma unlock_calm:
  assumes "\<not> IsrReq s" "\<not> TaskSchedReq s" "OSSchedLock s = 1"
  shows "OsSchedUnlock cb s = s\<lparr>OSSchedLock := 0\<rparr>"
  using assms by (simp add: OsSchedUnlock_def unlock_step_def)

lemma view_lock:
  "ready_ok (OSSchedLock_update f s) = ready_ok s" "ready_list (OSSchedLock_update f s) = ready_list s"
  "unlinked (OSSchedLock_update f s) i = unlinked s i"
  by (simp_all add: ready_ok_def ready_list_def unlinked_def)

lemma view_state:
  "ready_ok (set_state j v s) = ready_ok s" "ready_list (set_state j v s) = ready_list s"
  "unlinked (set_state j v s) i = unlinked s i"
  by (simp_all add: ready_ok_def ready_list_def unlinked_def)

text \<open>No list but the ready list may hold a task that \<open>CoAwakeTask\<close> wakes.\<close>

definition waits_for_nothing :: "tcb \<Rightarrow> bool" where
  "waits_for_nothing t \<longleftrightarrow> delayTick t = INVALID_VALUE \<and> pnode t = PnodeNull \<and> eventID t = INVALID_ID
     \<and> mutexID t = INVALID_ID"

lemma waits_strip: "waits_for_nothing (strip t) = waits_for_nothing t"
  by (simp add: waits_for_nothing_def strip_def)

lemma suspend_awake:
  fixes cb :: "U32 \<Rightarrow> kernel \<Rightarrow> kernel"
  assumes ok: "ready_ok s" "unat tid \<in> set (ready_list s)" "tid \<noteq> 0" "state (TCBTbl s (unat tid)) = TASK_READY"
    "TCBRunning s \<noteq> Some (unat tid)" and q: "OSSchedLock s = 0" "\<not> IsrReq s" "\<not> TaskSchedReq s"
    and w: "waits_for_nothing (TCBTbl s (unat tid))"
  defines "s1 \<equiv> snd (CoSuspendTask (OsSchedUnlock cb) tid s)"
  shows "fst (CoSuspendTask (OsSchedUnlock cb) tid s) = E_OK
    \<and> ready_list s1 = remove1 (unat tid) (ready_list s) \<and> state (TCBTbl s1 (unat tid)) = TASK_WAITING
    \<and> CoSuspendTask (OsSchedUnlock cb) tid s1 = (E_ALREADY_IN_WAITING, s1)
    \<and> (\<exists>t. CoAwakeTask u tid s1 = (E_OK, u t) \<and> ready_ok t
         \<and> ready_list t = insert_by (task_prio s) (unat tid) (remove1 (unat tid) (ready_list s)))"
proof -
  let ?i = "unat tid"
  let ?r = "RemoveFromTCBRdyList ?i (OsSchedLock s)"
  note D = ready_okD [OF ok(1)]
  have i: "?i < TASK_NUM" using D(2) ok(2) by auto
  have L: "ready_ok (OsSchedLock s)" "ready_list (OsSchedLock s) = ready_list s" "task_prio (OsSchedLock s) = task_prio s"
    using ok(1) by (simp_all add: OsSchedLock_def view_lock)
  have i': "?i \<in> set (ready_list (OsSchedLock s))" using L(2) ok(2) by simp
  note R = RemoveFromTCBRdyList_refines [OF L(1) i']
  have r: "ready_ok ?r" "ready_list ?r = remove1 ?i (ready_list s)" "task_prio ?r = task_prio s"
    using R L by simp_all
  have ur: "unlinked ?r ?i"
    using RemoveFromTCBRdyList_unlinks [OF ready_okD(1) [OF L(1)] i'] .
  have eq: "CoSuspendTask (OsSchedUnlock cb) tid s = (E_OK, (set_state ?i TASK_WAITING ?r)\<lparr>OSSchedLock := 0\<rparr>)"
    using ok q i unlock_calm [of "set_state ?i TASK_WAITING ?r" cb]
    by (simp add: CoSuspendTask_def Let_def OsSchedLock_def)
  then have s1: "s1 = (set_state ?i TASK_WAITING ?r)\<lparr>OSSchedLock := 0\<rparr>" by (simp add: s1_def)
  have v1: "ready_ok s1" "ready_list s1 = remove1 ?i (ready_list s)" "unlinked s1 ?i" "task_prio s1 = task_prio s"
    using r ur by (simp_all add: s1 view_lock view_state)
  have st: "state (TCBTbl s1 ?i) = TASK_WAITING" by (simp add: s1 set_state_def)
  have "strip (TCBTbl ?r ?i) = strip (TCBTbl s ?i)" by (simp add: OsSchedLock_def)
  then have wt: "waits_for_nothing (TCBTbl s1 ?i)"
    using w waits_strip [of "TCBTbl ?r ?i"] waits_strip [of "TCBTbl s ?i"]
    by (simp add: s1 set_state_def) (simp add: waits_for_nothing_def)
  let ?l = "OsSchedLock s1"
  have l: "ready_ok ?l" "ready_list ?l = remove1 ?i (ready_list s)" "unlinked ?l ?i" "task_prio ?l = task_prio s"
    using v1 by (simp_all add: OsSchedLock_def view_lock)
  have n: "?i \<notin> set (ready_list ?l)" using l(2) D(4) by simp
  have "CoAwakeTask u tid s1 = (E_OK, u (InsertToTCBRdyList ?i ?l))"
    using ok(3) i st wt by (simp add: CoAwakeTask_def Let_def waits_for_nothing_def)
  moreover have "CoSuspendTask (OsSchedUnlock cb) tid s1 = (E_ALREADY_IN_WAITING, s1)"
    using ok(3) i st by (simp add: CoSuspendTask_def Let_def) (simp add: s1)
  ultimately show ?thesis
    using eq s1 v1(2) st InsertToTCBRdyList_refines(1,2) [OF l(1) i n l(3)] l(2,4) by auto
qed

section \<open>The waiting list of a mutex\<close>

text \<open>
  The waiters of a mutex are chained through the same links as the ready tasks. Only
  the forward links are kept up: the head's backward link is left over after a
  handover.
\<close>

fun sll :: "(nat \<Rightarrow> ptr) \<Rightarrow> ptr \<Rightarrow> nat list \<Rightarrow> bool" where
  "sll n h [] \<longleftrightarrow> h = None"
| "sll n h (x # xs) \<longleftrightarrow> h = Some x \<and> sll n (n x) xs"

definition mtx_list :: "nat \<Rightarrow> kernel \<Rightarrow> nat list" where
  "mtx_list m s = chain TASK_NUM (tnext s) (waittingList (MutexTbl s m))"

definition mtx_ok :: "nat \<Rightarrow> kernel \<Rightarrow> bool" where
  "mtx_ok m s \<longleftrightarrow> sll (tnext s) (waittingList (MutexTbl s m)) (mtx_list m s)
     \<and> distinct (mtx_list m s) \<and> set (mtx_list m s) \<subseteq> {..<TASK_NUM}
     \<and> set (mtx_list m s) \<inter> set (ready_list s) = {}"

lemma chain_sll: "sll n h xs \<Longrightarrow> length xs \<le> k \<Longrightarrow> chain k n h = xs"
proof (induction xs arbitrary: h k)
  case (Cons x xs)
  then show ?case by (cases k) auto
qed simp

lemma sll_cong: "(\<And>x. x \<in> set xs \<Longrightarrow> n x = n' x) \<Longrightarrow> sll n h xs = sll n' h xs"
  by (induction xs arbitrary: h) auto

lemma sll_snoc:
  "sll n h (xs @ [l]) \<Longrightarrow> l \<notin> set xs \<Longrightarrow> i \<notin> set (xs @ [l]) \<Longrightarrow>
    sll (n(i := None, l := Some i)) h (xs @ [l, i])"
proof (induction xs arbitrary: h)
  case (Cons x xs)
  then show ?case by auto
qed auto

lemma scan_last_sll: "sll n (Some x) (x # ys) \<Longrightarrow> length ys < k \<Longrightarrow> scan_last k n x = Some (last (x # ys))"
proof (induction k arbitrary: x ys)
  case (Suc k)
  then show ?case by (cases ys) auto
qed simp

lemma mtx_listI:
  assumes "sll (tnext s) (waittingList (MutexTbl s m)) xs" "distinct xs" "set xs \<subseteq> {..<TASK_NUM}"
    "set xs \<inter> set (ready_list s) = {}"
  shows "mtx_ok m s \<and> mtx_list m s = xs"
proof -
  have "mtx_list m s = xs"
    unfolding mtx_list_def using assms by (intro chain_sll length_bounded)
  with assms show ?thesis by (simp add: mtx_ok_def)
qed

lemma MutexTbl_upd [simp]: "MutexTbl (upd_mutex m f s) = (MutexTbl s)(m := f (MutexTbl s m))"
  by (simp add: upd_mutex_def)

lemma upd_mutex_frame [simp]:
  "tnext (upd_mutex m f s) = tnext s" "tprev (upd_mutex m f s) = tprev s" "TCBRdy (upd_mutex m f s) = TCBRdy s"
  "TCBTbl (upd_mutex m f s) = TCBTbl s"
  "hang (upd_mutex m f s) = hang s" "TaskSchedReq (upd_mutex m f s) = TaskSchedReq s"
  "TCBRunning (upd_mutex m f s) = TCBRunning s" "OSSchedLock (upd_mutex m f s) = OSSchedLock s"
  by (simp_all add: upd_mutex_def link_defs fun_eq_iff)

lemma upd_mutex_view [simp]:
  "task_prio (upd_mutex m f s) = task_prio s" "ready_ok (upd_mutex m f s) = ready_ok s"
  "ready_list (upd_mutex m f s) = ready_list s"
proof -
  show p: "task_prio (upd_mutex m f s) = task_prio s" by (simp add: task_prio_def fun_eq_iff)
  show "ready_ok (upd_mutex m f s) = ready_ok s" "ready_list (upd_mutex m f s) = ready_list s"
    by (simp_all add: ready_ok_def ready_list_def p)
qed

lemma mutex_wait_refines:
  assumes ok: "mtx_ok m s" "ready_ok s" and c: "cur < TASK_NUM" "cur \<notin> set (mtx_list m s)" "cur \<notin> set (ready_list s)"
  defines "t \<equiv> mutex_wait m cur s"
  shows "mtx_ok m t \<and> mtx_list m t = mtx_list m s @ [cur] \<and> ready_ok t \<and> ready_list t = ready_list s
    \<and> task_prio t = task_prio s \<and> state (TCBTbl t cur) = TASK_WAITING \<and> TaskSchedReq t \<and> hang t = hang s"
proof -
  define a where "a = set_prev cur None (set_next cur None ((set_state cur TASK_WAITING s)\<lparr>TaskSchedReq := True\<rparr>))"
  have a: "tnext a = (tnext s)(cur := None)" "tprev a = (tprev s)(cur := None)" "TCBRdy a = TCBRdy s"
    "MutexTbl a = MutexTbl s" "task_prio a = task_prio s" "state (TCBTbl a cur) = TASK_WAITING" "TaskSchedReq a" "hang a = hang s"
    by (simp_all add: a_def task_prio_def fun_eq_iff) (simp_all add: access_defs)
  have o: "sll (tnext s) (waittingList (MutexTbl s m)) (mtx_list m s)" "distinct (mtx_list m s)"
    "set (mtx_list m s) \<subseteq> {..<TASK_NUM}" "set (mtx_list m s) \<inter> set (ready_list s) = {}"
    using ok(1) by (simp_all add: mtx_ok_def)
  have lk: "sll (tnext a) (waittingList (MutexTbl a m)) (mtx_list m s)"
    unfolding a(4) by (rule iffD1 [OF sll_cong o(1)]) (use c(2) a(1) in auto)
  have tdef: "t = (case waittingList (MutexTbl a m) of
       None \<Rightarrow> upd_mutex m (waittingList_update (\<lambda>_. Some cur)) a
     | Some h \<Rightarrow> (case scan_last TASK_NUM (tnext a) h of
         None \<Rightarrow> a\<lparr>hang := True\<rparr>
       | Some l \<Rightarrow> set_next cur None (set_prev cur (Some l) (set_next l (Some cur) a))))"
    by (simp only: t_def mutex_wait_def Let_def a_def)
  have "\<exists>pv. tnext t = (if mtx_list m s = [] then tnext a else (tnext a)(cur := None, last (mtx_list m s) := Some cur))
      \<and> tprev t = (tprev a)(cur := pv) \<and> sll (tnext t) (waittingList (MutexTbl t m)) (mtx_list m s @ [cur])
      \<and> TCBRdy t = TCBRdy s \<and> task_prio t = task_prio s \<and> state (TCBTbl t cur) = TASK_WAITING \<and> TaskSchedReq t
      \<and> hang t = hang s"
  proof (cases "mtx_list m s" rule: rev_cases)
    case Nil
    then have "t = upd_mutex m (waittingList_update (\<lambda>_. Some cur)) a"
      using lk by (simp add: tdef)
    then show ?thesis using Nil a by (intro exI [of _ None]) simp
  next
    case (snoc xs l)
    obtain h ys where h: "mtx_list m s = h # ys" by (metis snoc append_is_Nil_conv list.exhaust not_Cons_self2)
    have "length ys < TASK_NUM" using length_bounded [OF o(2,3)] h by simp
    then have "scan_last TASK_NUM (tnext a) h = Some l"
      using scan_last_sll [of "tnext a" h ys TASK_NUM] lk h snoc by (metis last_snoc sll.simps(2))
    then have t: "t = set_next cur None (set_prev cur (Some l) (set_next l (Some cur) a))"
      using lk h by (simp add: tdef)
    have lc: "l \<noteq> cur" "l \<notin> set xs" using c(2) snoc o(2) by auto
    have "sll ((tnext a)(cur := None, l := Some cur)) (waittingList (MutexTbl a m)) (xs @ [l, cur])"
      using sll_snoc [of "tnext a" _ xs l cur] lk c(2) lc snoc by simp
    moreover have "tnext t = (tnext a)(cur := None, l := Some cur)" using t lc by (auto simp: fun_upd_twist)
    moreover have "state (TCBTbl t cur) = TASK_WAITING" using t a(6) lc by (simp add: access_defs)
    moreover have "task_prio t = task_prio s" using a(5) t by (simp add: task_prio_def fun_eq_iff access_defs)
    ultimately show ?thesis using t a snoc by (intro exI [of _ "Some l"]) simp
  qed
  then obtain pv where T: "tnext t = (if mtx_list m s = [] then tnext a else (tnext a)(cur := None, last (mtx_list m s) := Some cur))"
    "tprev t = (tprev a)(cur := pv)" "sll (tnext t) (waittingList (MutexTbl t m)) (mtx_list m s @ [cur])"
    "TCBRdy t = TCBRdy s" "task_prio t = task_prio s" "state (TCBTbl t cur) = TASK_WAITING" "TaskSchedReq t" "hang t = hang s"
    by blast
  have "tnext t x = tnext s x \<and> tprev t x = tprev s x" if "x \<in> set (ready_list s)" for x
  proof -
    have "x \<noteq> cur" "mtx_list m s \<noteq> [] \<Longrightarrow> x \<noteq> last (mtx_list m s)"
      using that c(3) o(4) by (auto dest: last_in_set)
    then show ?thesis using T(1,2) a(1,2) by auto
  qed
  then have "ready_ok t" "ready_list t = ready_list s" using ready_ok_frame [OF T(4,5) _ ok(2)] by auto
  then show ?thesis using mtx_listI [OF T(3)] o c T by auto
qed

section \<open>Entering and leaving a mutex section\<close>

lemma CoEnterMutexSection_free:
  assumes "OSIntNesting s = 0" "OSSchedLock s = 0" "mid < MutexFreeID s" "TCBRunning s = Some cur"
    "mutexFlag (MutexTbl s (unat mid)) = MUTEX_FREE"
  shows "\<exists>t. CoEnterMutexSection u mid s = block_then (\<lambda>_ s. (E_OK, s)) cur (u t)
    \<and> mtx_taskID (MutexTbl t (unat mid)) = taskID (TCBTbl s cur) \<and> mutexFlag (MutexTbl t (unat mid)) = MUTEX_OCCUPY
    \<and> originalPrio (MutexTbl t (unat mid)) = prio (TCBTbl s cur)
    \<and> ready_list t = ready_list s \<and> state (TCBTbl t cur) = state (TCBTbl s cur)"
proof -
  let ?t = "mutex_acquire (unat mid) cur (set_mutexID cur mid (OsSchedLock s))"
  have "\<not> MutexFreeID s \<le> mid" using assms(3) by simp
  then have "CoEnterMutexSection u mid s = block_then (\<lambda>_ s. (E_OK, s)) cur (u ?t)"
    using assms by (simp add: CoEnterMutexSection_def with_running_def Let_def OsSchedLock_def)
  then show ?thesis
    by (intro exI [of _ ?t]) (simp add: mutex_acquire_def OsSchedLock_def ready_list_def)
qed

lemma promote_owner_ready:
  fixes u :: unlock
  assumes ok: "ready_ok s" "mtx_ok m s" "own \<in> set (ready_list s)" "state (TCBTbl s own) = TASK_READY"
    and p: "prio (TCBTbl s cur) < prio (TCBTbl s own)"
  defines "t \<equiv> promote_owner u m own cur s"
  shows "ready_ok t \<and> mtx_ok m t \<and> mtx_list m t = mtx_list m s
    \<and> ready_list t = insert_by ((task_prio s)(own := prio (TCBTbl s cur))) own (remove1 own (ready_list s))
    \<and> task_prio t = (task_prio s)(own := prio (TCBTbl s cur))
    \<and> hipriTaskID (MutexTbl t m) = taskID (TCBTbl s cur) \<and> hang t = hang s"
proof -
  let ?p = "prio (TCBTbl s cur)"
  let ?a = "upd_mutex m (hipriTaskID_update (\<lambda>_. taskID (TCBTbl s cur))) s"
  have "upd_mutex m (hipriTaskID_update (\<lambda>_. taskID (TCBTbl (set_prio own ?p s) cur))) (set_prio own ?p s)
      = set_prio own ?p ?a"
    by (simp add: upd_mutex_def upd_def)
  then have t: "t = InsertToTCBRdyList own (RemoveFromTCBRdyList own (set_prio own ?p ?a))"
    using p ok(4) by (simp add: t_def promote_owner_def Let_def)
  have a: "ready_ok ?a" "own \<in> set (ready_list ?a)" using ok by simp_all
  note R = reprioritise [OF a, of ?p, folded t]
  have fr: "tnext t x = tnext s x" if "x \<in> set (mtx_list m s)" for x
  proof -
    have "x \<notin> set (ready_list ?a)" using that ok(2) by (auto simp: mtx_ok_def)
    then show ?thesis using R by simp
  qed
  have M: "MutexTbl t = MutexTbl ?a" by (simp add: t)
  have o: "sll (tnext s) (waittingList (MutexTbl s m)) (mtx_list m s)" "distinct (mtx_list m s)"
    "set (mtx_list m s) \<subseteq> {..<TASK_NUM}" "set (mtx_list m s) \<inter> set (ready_list s) = {}"
    using ok(2) by (simp_all add: mtx_ok_def)
  have "set (ready_list t) \<subseteq> set (ready_list s)"
    using R ok(3) set_remove1_subset [of own "ready_list s"] by auto
  moreover have "sll (tnext t) (waittingList (MutexTbl t m)) (mtx_list m s)"
    using iffD2 [OF sll_cong o(1)] fr by (simp add: M)
  ultimately have "mtx_ok m t \<and> mtx_list m t = mtx_list m s"
    using o by (intro mtx_listI) auto
  then show ?thesis using R M by simp
qed

lemma CoEnterMutexSection_wait:
  assumes g: "OSIntNesting s = 0" "OSSchedLock s = 0" "mid < MutexFreeID s" "TCBRunning s = Some cur"
    "mutexFlag (MutexTbl s (unat mid)) = MUTEX_OCCUPY"
    and ok: "ready_ok s" "mtx_ok (unat mid) s" "cur < TASK_NUM" "cur \<notin> set (mtx_list (unat mid) s)"
      "cur \<notin> set (ready_list s)"
    and own: "own = unat (mtx_taskID (MutexTbl s (unat mid)))" "own \<in> set (ready_list s)"
      "state (TCBTbl s own) = TASK_READY" "task_prio s cur < task_prio s own"
  shows "\<exists>t. CoEnterMutexSection u mid s = block_then (\<lambda>_ s. (E_OK, s)) cur (u t)
    \<and> mtx_list (unat mid) t = mtx_list (unat mid) s @ [cur]
    \<and> task_prio t = (task_prio s)(own := task_prio s cur)
    \<and> ready_ok t \<and> ready_list t = insert_by ((task_prio s)(own := task_prio s cur)) own (remove1 own (ready_list s))
    \<and> state (TCBTbl t cur) = TASK_WAITING \<and> TaskSchedReq t \<and> hang t = hang s"
proof -
  let ?m = "unat mid"
  define a where "a = set_mutexID cur mid (OsSchedLock s)"
  have a: "tnext a = tnext s" "tprev a = tprev s" "TCBRdy a = TCBRdy s" "MutexTbl a = MutexTbl s"
    "task_prio a = task_prio s" "hang a = hang s" "state (TCBTbl a own) = state (TCBTbl s own)"
    "prio (TCBTbl a cur) = task_prio s cur" "prio (TCBTbl a own) = task_prio s own"
    by (simp_all add: a_def OsSchedLock_def task_prio_def)
  have A: "ready_ok a" "ready_list a = ready_list s" using ready_ok_cong [OF a(1-3,5)] ok(1) by simp_all
  have M: "mtx_ok ?m a" "mtx_list ?m a = mtx_list ?m s" using ok(2) a A by (simp_all add: mtx_ok_def mtx_list_def)
  define b where "b = promote_owner u ?m own cur a"
  have B: "ready_ok b" "mtx_ok ?m b" "mtx_list ?m b = mtx_list ?m s" "task_prio b = (task_prio s)(own := task_prio s cur)"
    "ready_list b = insert_by ((task_prio s)(own := task_prio s cur)) own (remove1 own (ready_list s))" "hang b = hang s"
    using promote_owner_ready [OF A(1) M(1), of own cur u] own A(2) M(2) a by (simp_all add: b_def)
  have "cur \<noteq> own" using ok(5) own(2) by auto
  then have "cur \<notin> set (ready_list b)" using B(5) ok(5) set_remove1_subset [of own "ready_list s"] by auto
  moreover have "cur \<notin> set (mtx_list ?m b)" using B(3) ok(4) by simp
  ultimately have W: "mtx_list ?m (mutex_wait ?m cur b) = mtx_list ?m b @ [cur]" "ready_ok (mutex_wait ?m cur b)"
    "ready_list (mutex_wait ?m cur b) = ready_list b" "task_prio (mutex_wait ?m cur b) = task_prio b"
    "state (TCBTbl (mutex_wait ?m cur b) cur) = TASK_WAITING" "TaskSchedReq (mutex_wait ?m cur b)"
    "hang (mutex_wait ?m cur b) = hang b"
    using mutex_wait_refines [OF B(2,1) ok(3)] by simp_all
  have "CoEnterMutexSection u mid s = block_then (\<lambda>_ s. (E_OK, s)) cur (u (mutex_wait ?m cur b))"
  proof -
    have "\<not> MutexFreeID s \<le> mid" using g(3) by simp
    then show ?thesis
      using g own(1)
      by (simp add: CoEnterMutexSection_def with_running_def Let_def OsSchedLock_def b_def a_def)
  qed
  with W B show ?thesis by (intro exI [of _ "mutex_wait ?m cur b"]) simp
qed

text \<open>The search for the most urgent waiter ends, with a priority no waiter beats.\<close>

lemma mtx_scan_least:
  "sll (tnext s) h xs \<Longrightarrow> length xs \<le> k \<Longrightarrow> \<exists>p hi'. mtx_scan k s h pr hi = Some (p, hi')
    \<and> p \<le> pr \<and> (\<forall>x \<in> set xs. p \<le> task_prio s x) \<and> (p = pr \<or> p \<in> task_prio s ` set xs)"
proof (induction xs arbitrary: h k pr hi)
  case (Cons x xs)
  then obtain j where k: "k = Suc j" by (cases k) auto
  have nx: "TCBnext (TCBTbl s x) = tnext s x" "prio (TCBTbl s x) = task_prio s x" by (simp_all add: tnext_def task_prio_def)
  define q where "q = (if task_prio s x < pr then task_prio s x else pr)"
  define g where "g = (if task_prio s x < pr then taskID (TCBTbl s x) else hi)"
  have "mtx_scan k s h pr hi = mtx_scan j s (tnext s x) q g"
    using Cons.prems(1) by (simp add: k nx q_def g_def)
  moreover have "sll (tnext s) (tnext s x) xs" "length xs \<le> j" using Cons.prems k by simp_all
  moreover note Cons.IH [OF this, of q g]
  moreover have "q \<le> pr" "q \<le> task_prio s x" "q = pr \<or> q = task_prio s x" by (auto simp: q_def not_less)
  ultimately show ?case by (auto intro: order_trans)
qed simp

lemma CoSetPriority_running:
  assumes t: "tid \<noteq> 0" "unat tid < TASK_NUM" "state (TCBTbl s (unat tid)) = TASK_RUNNING"
    "mutexID (TCBTbl s (unat tid)) = INVALID_ID" "p \<le> CFG_LOWEST_PRIO" and l: "OSSchedLock s \<noteq> 0"
  shows "\<exists>b. CoSetPriority (OsSchedUnlock cb) tid p s = (E_OK, (set_prio (unat tid) p s)\<lparr>TaskSchedReq := b\<rparr>)"
proof (cases "prio (TCBTbl s (unat tid)) = p")
  case True
  then have "(TCBTbl s (unat tid))\<lparr>prio := p\<rparr> = TCBTbl s (unat tid)" by (intro tcb.equality) simp_all
  then have "set_prio (unat tid) p s = s" by (intro kernel.equality) (simp_all add: upd_def)
  then have "s = (set_prio (unat tid) p s)\<lparr>TaskSchedReq := TaskSchedReq s\<rparr>" by simp
  moreover have "CoSetPriority (OsSchedUnlock cb) tid p s = (E_OK, s)"
    using True t by (cases TASK_NUM) (auto simp: CoSetPriority_def set_prio_body_def Let_def)
  ultimately show ?thesis by metis
next
  case False
  let ?a = "set_prio (unat tid) p s"
  have "OsSchedUnlock cb ((OsSchedLock ?a)\<lparr>TaskSchedReq := True\<rparr>) = nested_unlock ((OsSchedLock ?a)\<lparr>TaskSchedReq := True\<rparr>)"
    using l by (intro outer.nested) (simp add: OsSchedLock_def)
  also have "\<dots> = ?a\<lparr>TaskSchedReq := True\<rparr>" by (simp add: nested_unlock_def OsSchedLock_def)
  finally have u: "OsSchedUnlock cb ((OsSchedLock ?a)\<lparr>TaskSchedReq := True\<rparr>) = ?a\<lparr>TaskSchedReq := True\<rparr>" .
  have body: "set_prio_body f (OsSchedUnlock cb) tid p s
      = (E_OK, if p > prio (tcb_at ?a (TCBRdy ?a)) then ?a\<lparr>TaskSchedReq := True\<rparr> else ?a)" for f
    using False t(1-4) leD [OF t(5)] by (simp add: set_prio_body_def Let_def u)
  have "x = x\<lparr>TaskSchedReq := TaskSchedReq x\<rparr>" for x :: kernel by simp
  then have "\<exists>b. (if c then x\<lparr>TaskSchedReq := True\<rparr> else x) = x\<lparr>TaskSchedReq := b\<rparr>" for c and x :: kernel
    by (cases c) metis+
  then show ?thesis unfolding CoSetPriority_def by (cases TASK_NUM) (simp_all only: set_prio_fuel.simps body prod.inject simp_thms)
qed

lemma handover_prio_ok:
  assumes ok: "mtx_ok m s" and l: "mtx_list m s = w # ws"
  shows "\<exists>pr hi. handover_prio m s = Some (pr, hi)
    \<and> (if hipriTaskID (MutexTbl s m) = mtx_taskID (MutexTbl s m)
       then pr \<in> task_prio s ` set (w # ws) \<and> (\<forall>x \<in> set (w # ws). pr \<le> task_prio s x)
       else pr = task_prio s (unat (mtx_taskID (MutexTbl s m))))"
proof -
  have o: "sll (tnext s) (waittingList (MutexTbl s m)) (w # ws)" "length (w # ws) \<le> TASK_NUM"
    using ok l length_bounded [of "w # ws" TASK_NUM] by (auto simp: mtx_ok_def)
  then have "tcb_at s (waittingList (MutexTbl s m)) = TCBTbl s w" by (simp add: tcb_at_def)
  with mtx_scan_least [OF o, of "task_prio s w" "hipriTaskID (MutexTbl s m)"] show ?thesis
    by (auto simp: handover_prio_def Let_def task_prio_def)
qed

lemma CoLeaveMutexSection_free:
  assumes "OSIntNesting s = 0" "mid < MutexFreeID s" "waittingList (MutexTbl s (unat mid)) = None"
  shows "\<exists>t. CoLeaveMutexSection u mid s = (E_OK, u t) \<and> mutexFlag (MutexTbl t (unat mid)) = MUTEX_FREE
    \<and> mtx_taskID (MutexTbl t (unat mid)) = INVALID_ID \<and> ready_list t = ready_list s"
proof -
  have "\<not> MutexFreeID s \<le> mid" using assms(2) by simp
  with assms show ?thesis
    by (simp add: CoLeaveMutexSection_def Let_def OsSchedLock_def)
      (rule exI, rule conjI [OF refl], simp add: ready_list_def)
qed

text \<open>The new owner and its priority, once the old owner's priority is restored.\<close>

definition mutex_grant :: "nat \<Rightarrow> nat \<Rightarrow> U8 \<Rightarrow> kernel \<Rightarrow> kernel" where
  "mutex_grant m w pr s =
     (let t = TCBTbl s w
      in InsertToTCBRdyList w (set_prev w None (set_next w None (set_prio w pr
           (upd_mutex m (\<lambda>x. x\<lparr>waittingList := TCBnext t, originalPrio := prio t, mtx_taskID := taskID t\<rparr>) s)))))"

lemma mutex_grant_refines:
  fixes pr :: U8
  assumes ok: "ready_ok s" "mtx_ok m s" "mtx_list m s = w # ws"
  defines "t \<equiv> mutex_grant m w pr s"
  shows "ready_ok t \<and> ready_list t = insert_by ((task_prio s)(w := pr)) w (ready_list s)
    \<and> mtx_list m t = ws \<and> task_prio t = (task_prio s)(w := pr) \<and> state (TCBTbl t w) = TASK_READY
    \<and> mtx_taskID (MutexTbl t m) = taskID (TCBTbl s w) \<and> originalPrio (MutexTbl t m) = task_prio s w"
proof -
  define a where "a = set_prev w None (set_next w None (set_prio w pr
     (upd_mutex m (\<lambda>x. x\<lparr>waittingList := TCBnext (TCBTbl s w), originalPrio := prio (TCBTbl s w),
        mtx_taskID := taskID (TCBTbl s w)\<rparr>) s)))"
  have t: "t = InsertToTCBRdyList w a" by (simp add: t_def mutex_grant_def a_def Let_def)
  have o: "sll (tnext s) (waittingList (MutexTbl s m)) (w # ws)" "distinct (w # ws)"
    "set (w # ws) \<subseteq> {..<TASK_NUM}" "set (w # ws) \<inter> set (ready_list s) = {}"
    using ok by (simp_all add: mtx_ok_def)
  have a: "tnext a = (tnext s)(w := None)" "tprev a = (tprev s)(w := None)" "TCBRdy a = TCBRdy s"
    by (simp_all add: a_def)
  have p: "task_prio a = (task_prio s)(w := pr)" by (auto simp: a_def task_prio_def fun_eq_iff access_defs)
  have M: "waittingList (MutexTbl a m) = tnext s w" "mtx_taskID (MutexTbl a m) = taskID (TCBTbl s w)"
    "originalPrio (MutexTbl a m) = task_prio s w"
    by (simp_all add: a_def tnext_def task_prio_def)
  note D = ready_okD [OF ok(1)]
  have w: "w < TASK_NUM" "w \<notin> set (ready_list s)" using o by auto
  have "dll (tnext a) (tprev a) (TCBRdy a) (ready_list s)"
    unfolding a(3) by (rule dll_frame [OF D(1)]) (use w(2) in \<open>auto simp: a\<close>)
  moreover have "sorted (map (task_prio a) (ready_list s))"
  proof -
    have "map (task_prio a) (ready_list s) = map (task_prio s) (ready_list s)" using w(2) p by (auto intro: map_cong)
    then show ?thesis using D(3) by argo
  qed
  ultimately have A: "ready_ok a" "ready_list a = ready_list s" using ready_okI [of a] D(2) by blast+
  have n: "w \<notin> set (ready_list a)" "unlinked a w" using A w a by (simp_all add: unlinked_def)
  note I = InsertToTCBRdyList_refines [OF A(1) w(1) n]
  have "tnext t x = tnext s x" if "x \<in> set ws" for x
  proof -
    have "x \<notin> insert w (set (ready_list a))" using that o A(2) by auto
    from I(4) [OF this] show ?thesis using that o(2) a(1) by (auto simp: t)
  qed
  then have "sll (tnext t) (tnext s w) ws" using o(1) sll_cong [of ws "tnext t" "tnext s"] by simp
  moreover have "waittingList (MutexTbl t m) = tnext s w" using M(1) by (simp add: t)
  moreover have "length ws \<le> TASK_NUM" using length_bounded [OF o(2,3)] by simp
  ultimately have "mtx_list m t = ws" by (simp add: mtx_list_def chain_sll)
  then show ?thesis using I A(2) M p by (simp add: t)
qed

lemma mutex_handover_running:
  assumes ok: "ready_ok s" "mtx_ok m s" "mtx_list m s = w # ws"
    and own: "own = mtx_taskID (MutexTbl s m)" "own \<noteq> 0" "unat own < TASK_NUM" "state (TCBTbl s (unat own)) = TASK_RUNNING"
      "mutexID (TCBTbl s (unat own)) = INVALID_ID" "unat own \<notin> set (ready_list s)" "unat own \<notin> set (w # ws)"
    and p: "originalPrio (MutexTbl s m) \<le> CFG_LOWEST_PRIO" and l: "OSSchedLock s \<noteq> 0"
    and h: "handover_prio m s = Some (pr, hi)"
  shows "\<exists>a. mutex_handover (OsSchedUnlock cb) m s = mutex_grant m w pr a \<and> ready_ok a \<and> mtx_ok m a
    \<and> mtx_list m a = w # ws \<and> ready_list a = ready_list s
    \<and> task_prio a = (task_prio s)(unat own := originalPrio (MutexTbl s m)) \<and> taskID (TCBTbl a w) = taskID (TCBTbl s w)"
proof -
  let ?orig = "originalPrio (MutexTbl s m)"
  let ?b = "upd_mutex m (\<lambda>x. x\<lparr>hipriTaskID := hi, mtx_taskID := INVALID_ID\<rparr>) s"
  obtain b where b: "CoSetPriority (OsSchedUnlock cb) own ?orig ?b = (E_OK, (set_prio (unat own) ?orig ?b)\<lparr>TaskSchedReq := b\<rparr>)"
    using CoSetPriority_running [of own ?b ?orig cb] own p l by auto
  define a where "a = (set_prio (unat own) ?orig ?b)\<lparr>TaskSchedReq := b\<rparr>"
  have fr: "tnext a = tnext s" "tprev a = tprev s" "TCBRdy a = TCBRdy s" "waittingList (MutexTbl a m) = waittingList (MutexTbl s m)"
    by (simp_all add: a_def)
  have pa: "task_prio a = (task_prio s)(unat own := ?orig)" by (auto simp: a_def task_prio_def fun_eq_iff)
  note D = ready_okD [OF ok(1)]
  have "map (task_prio a) (ready_list s) = map (task_prio s) (ready_list s)" using own(6) pa by (auto intro: map_cong)
  then have "sorted (map (task_prio a) (ready_list s))" using D(3) by argo
  then have A: "ready_ok a" "ready_list a = ready_list s"
    using ready_okI [of a "ready_list s"] D(1,2) fr by simp_all
  have M: "mtx_ok m a" "mtx_list m a = w # ws" using ok(2,3) fr A by (simp_all add: mtx_ok_def mtx_list_def)
  have w: "waittingList (MutexTbl s m) = Some w" using ok(2,3) by (simp add: mtx_ok_def)
  have "mutex_handover (OsSchedUnlock cb) m s = mutex_grant m w pr a"
    using h b w own(1) by (simp add: mutex_handover_def mutex_grant_def Let_def a_def)
  moreover have "taskID (TCBTbl a w) = taskID (TCBTbl s w)" by (simp add: a_def)
  ultimately show ?thesis using A M pa by auto
qed

lemma CoLeaveMutexSection_hands_over:
  assumes g: "OSIntNesting s = 0" "mid < MutexFreeID s" "OSSchedLock s = 0"
    and ok: "ready_ok s" "mtx_ok (unat mid) s" "mtx_list (unat mid) s = w # ws"
    and own: "own = mtx_taskID (MutexTbl s (unat mid))" "own \<noteq> 0" "unat own < TASK_NUM"
      "state (TCBTbl s (unat own)) = TASK_RUNNING" "unat own \<notin> set (ready_list s)" "unat own \<notin> set (w # ws)"
    and p: "originalPrio (MutexTbl s (unat mid)) \<le> CFG_LOWEST_PRIO"
  shows "\<exists>t pr. CoLeaveMutexSection (OsSchedUnlock cb) mid s = (E_OK, OsSchedUnlock cb t)
    \<and> mtx_taskID (MutexTbl t (unat mid)) = taskID (TCBTbl s w) \<and> mtx_list (unat mid) t = ws
    \<and> task_prio t = (task_prio s)(unat own := originalPrio (MutexTbl s (unat mid)), w := pr)
    \<and> ready_ok t \<and> ready_list t = insert_by (task_prio t) w (ready_list s) \<and> state (TCBTbl t w) = TASK_READY
    \<and> (if hipriTaskID (MutexTbl s (unat mid)) = own then \<forall>x \<in> set (w # ws). pr \<le> task_prio s x
       else pr = task_prio s (unat own))"
proof -
  let ?m = "unat mid"
  define a where "a = set_mutexID (unat own) INVALID_ID (OsSchedLock s)"
  have a: "tnext a = tnext s" "tprev a = tprev s" "TCBRdy a = TCBRdy s" "MutexTbl a = MutexTbl s" "task_prio a = task_prio s"
    "state (TCBTbl a (unat own)) = TASK_RUNNING" "mutexID (TCBTbl a (unat own)) = INVALID_ID" "OSSchedLock a = 1"
    "taskID (TCBTbl a w) = taskID (TCBTbl s w)"
    using own(4) g(3) by (simp_all add: a_def OsSchedLock_def task_prio_def)
  have A: "ready_ok a" "ready_list a = ready_list s" using ready_ok_cong [OF a(1-3,5)] ok(1) by simp_all
  have M: "mtx_ok ?m a" "mtx_list ?m a = w # ws" using ok(2,3) a A by (simp_all add: mtx_ok_def mtx_list_def)
  obtain pr hi where H: "handover_prio ?m a = Some (pr, hi)"
    "if hipriTaskID (MutexTbl s ?m) = own then \<forall>x \<in> set (w # ws). pr \<le> task_prio s x else pr = task_prio s (unat own)"
    using handover_prio_ok [OF M] a own(1) by (auto split: if_splits)
  obtain b where B: "mutex_handover (OsSchedUnlock cb) ?m a = mutex_grant ?m w pr b" "ready_ok b" "mtx_ok ?m b" "mtx_list ?m b = w # ws"
    "ready_list b = ready_list s" "task_prio b = (task_prio s)(unat own := originalPrio (MutexTbl s ?m))" "taskID (TCBTbl b w) = taskID (TCBTbl s w)"
    using mutex_handover_running [OF A(1) M, of own pr hi cb] own a A p H(1) by auto
  have w: "waittingList (MutexTbl s ?m) = Some w" using ok(2,3) by (simp add: mtx_ok_def)
  have "\<not> MutexFreeID s \<le> mid" using g(2) by simp
  then have "CoLeaveMutexSection (OsSchedUnlock cb) mid s = (E_OK, OsSchedUnlock cb (mutex_grant ?m w pr b))"
    using g w own(1) B(1) by (simp add: CoLeaveMutexSection_def Let_def a_def OsSchedLock_def)
  with mutex_grant_refines [OF B(2-4), of pr] B H show ?thesis
    by (intro exI [of _ "mutex_grant ?m w pr b"] exI [of _ pr]) auto
qed

section \<open>Properties of tasks and mutexes\<close>

text \<open>
  Changing the priority of a ready task (one that neither holds nor awaits a mutex) moves it to the
  place of its new priority, behind its new equals, and nothing else.
\<close>

lemma CoSetPriority_moves_ready:
  assumes "ready_ok s" "unat tid \<in> set (ready_list s)" "tid \<noteq> 0" "state (TCBTbl s (unat tid)) = TASK_READY"
    "mutexID (TCBTbl s (unat tid)) = INVALID_ID" "p \<le> CFG_LOWEST_PRIO" "prio (TCBTbl s (unat tid)) \<noteq> p"
  shows "\<exists>t. CoSetPriority u tid p s = (E_OK, u t) \<and> ready_ok t
    \<and> ready_list t = insert_by ((task_prio s)(unat tid := p)) (unat tid) (remove1 (unat tid) (ready_list s))
    \<and> task_prio t = (task_prio s)(unat tid := p)"
  by (rule CoSetPriority_ready [OF assms])

text \<open>
  C27. Priority inheritance: a task that enters a section held by a less urgent ready
  task lends it its priority, which moves the owner forward in the ready list; the
  caller blocks at the end of the waiting list and requests a schedule.
\<close>

theorem CoEnterMutexSection_inherits:
  assumes "OSIntNesting s = 0" "OSSchedLock s = 0" "mid < MutexFreeID s" "TCBRunning s = Some cur"
    "mutexFlag (MutexTbl s (unat mid)) = MUTEX_OCCUPY"
    "ready_ok s" "mtx_ok (unat mid) s" "cur < TASK_NUM" "cur \<notin> set (mtx_list (unat mid) s)" "cur \<notin> set (ready_list s)"
    "own = unat (mtx_taskID (MutexTbl s (unat mid)))" "own \<in> set (ready_list s)"
    "state (TCBTbl s own) = TASK_READY" "task_prio s cur < task_prio s own"
  shows "\<exists>t. CoEnterMutexSection u mid s = block_then (\<lambda>_ s. (E_OK, s)) cur (u t)
    \<and> mtx_list (unat mid) t = mtx_list (unat mid) s @ [cur]
    \<and> task_prio t = (task_prio s)(own := task_prio s cur)
    \<and> ready_ok t \<and> ready_list t = insert_by ((task_prio s)(own := task_prio s cur)) own (remove1 own (ready_list s))
    \<and> state (TCBTbl t cur) = TASK_WAITING \<and> TaskSchedReq t \<and> hang t = hang s"
  by (rule CoEnterMutexSection_wait [OF assms])

text \<open>Mutex 0 held by the ready task 1, and mutex 0 held by the running task 2 with task 4 waiting.\<close>

definition example_held :: kernel where
  "example_held = example\<lparr>MutexFreeID := 1, MutexTbl := (\<lambda>_. mutex0)
     (0 := \<lparr>originalPrio = 10, mutexFlag = MUTEX_OCCUPY, mtx_taskID = 1, hipriTaskID = 1, waittingList = None\<rparr>)\<rparr>"

definition example_contended :: kernel where
  "example_contended = example\<lparr>MutexFreeID := 1, MutexTbl := (\<lambda>_. mutex0)
     (0 := \<lparr>originalPrio = 30, mutexFlag = MUTEX_OCCUPY, mtx_taskID = 2, hipriTaskID = 4, waittingList = Some 4\<rparr>)\<rparr>"

lemma example_mutex_view:
  "ready_ok example_held" "ready_list example_held = [1, 0]" "task_prio example_held = task_prio example"
  "ready_ok example_contended" "ready_list example_contended = [1, 0]" "task_prio example_contended = task_prio example"
proof -
  show p: "task_prio example_held = task_prio example" "task_prio example_contended = task_prio example"
    by (simp_all add: example_held_def example_contended_def task_prio_def fun_eq_iff)
  show "ready_ok example_held" "ready_list example_held = [1, 0]" "ready_ok example_contended" "ready_list example_contended = [1, 0]"
    using ready_ok_cong [of example_held example] ready_ok_cong [of example_contended example] p example_ready
    by (simp_all add: example_held_def example_contended_def)
qed

lemma example_mutex_waiters:
  "mtx_ok 0 example_held" "mtx_list 0 example_held = []" "mtx_ok 0 example_contended" "mtx_list 0 example_contended = [4]"
proof -
  have "mtx_ok 0 example_held \<and> mtx_list 0 example_held = []"
    by (rule mtx_listI) (simp_all add: example_held_def)
  moreover have "mtx_ok 0 example_contended \<and> mtx_list 0 example_contended = [4]"
    by (rule mtx_listI) (simp_all add: example_mutex_view, simp_all add: example_contended_def example_links cfg_defs)
  ultimately show "mtx_ok 0 example_held" "mtx_list 0 example_held = []" "mtx_ok 0 example_contended" "mtx_list 0 example_contended = [4]"
    by simp_all
qed

theorem CoEnterMutexSection_inherits_witness:
  "\<exists>t. CoEnterMutexSection nested_unlock 0 example_held = block_then (\<lambda>_ s. (E_OK, s)) 2 (nested_unlock t)
    \<and> mtx_list 0 t = [2] \<and> task_prio t 1 = 5 \<and> state (TCBTbl t 2) = TASK_WAITING"
proof -
  have "OSIntNesting example_held = 0" "OSSchedLock example_held = 0" "0 < MutexFreeID example_held"
    "TCBRunning example_held = Some 2" "mutexFlag (MutexTbl example_held (unat (0::U8))) = MUTEX_OCCUPY"
    "mtx_taskID (MutexTbl example_held (unat (0::U8))) = 1" "state (TCBTbl example_held 1) = TASK_READY"
    by (simp_all add: example_held_def) (simp_all add: example_defs)
  then show ?thesis
    using CoEnterMutexSection_inherits [of example_held 0 2 1 nested_unlock]
    by (auto simp: example_mutex_view example_mutex_waiters cfg_defs)
qed

text \<open>
  C28. Leaving a section with waiters gives the mutex to the first of them: it becomes
  the owner and ready, the old owner gets back the priority it entered with, and the
  new owner runs at the priority lent to the old one, or, if none was lent, at one no
  waiter exceeds.
\<close>

theorem CoLeaveMutexSection_grants_first:
  assumes "OSIntNesting s = 0" "mid < MutexFreeID s" "OSSchedLock s = 0"
    "ready_ok s" "mtx_ok (unat mid) s" "mtx_list (unat mid) s = w # ws"
    "own = mtx_taskID (MutexTbl s (unat mid))" "own \<noteq> 0" "unat own < TASK_NUM"
    "state (TCBTbl s (unat own)) = TASK_RUNNING" "unat own \<notin> set (ready_list s)" "unat own \<notin> set (w # ws)"
    "originalPrio (MutexTbl s (unat mid)) \<le> CFG_LOWEST_PRIO"
  shows "\<exists>t pr. CoLeaveMutexSection (OsSchedUnlock cb) mid s = (E_OK, OsSchedUnlock cb t)
    \<and> mtx_taskID (MutexTbl t (unat mid)) = taskID (TCBTbl s w) \<and> mtx_list (unat mid) t = ws
    \<and> task_prio t = (task_prio s)(unat own := originalPrio (MutexTbl s (unat mid)), w := pr)
    \<and> ready_ok t \<and> ready_list t = insert_by (task_prio t) w (ready_list s) \<and> state (TCBTbl t w) = TASK_READY
    \<and> (if hipriTaskID (MutexTbl s (unat mid)) = own then \<forall>x \<in> set (w # ws). pr \<le> task_prio s x
       else pr = task_prio s (unat own))"
  by (rule CoLeaveMutexSection_hands_over [OF assms])

theorem CoLeaveMutexSection_grants_first_witness:
  "\<exists>t. CoLeaveMutexSection (OsSchedUnlock (\<lambda>_ s. s)) 0 example_contended = (E_OK, OsSchedUnlock (\<lambda>_ s. s) t)
    \<and> mtx_taskID (MutexTbl t 0) = 4 \<and> mtx_list 0 t = [] \<and> task_prio t 2 = 30 \<and> task_prio t 4 = 5"
proof -
  have "OSIntNesting example_contended = 0" "OSSchedLock example_contended = 0" "0 < MutexFreeID example_contended"
    "mtx_taskID (MutexTbl example_contended (unat (0::U8))) = 2" "hipriTaskID (MutexTbl example_contended (unat (0::U8))) = 4"
    "originalPrio (MutexTbl example_contended (unat (0::U8))) = 30"
    "state (TCBTbl example_contended 2) = TASK_RUNNING" "taskID (TCBTbl example_contended 4) = 4"
    by (simp_all add: example_contended_def) (simp_all add: example_defs)
  then show ?thesis
    using CoLeaveMutexSection_grants_first [of example_contended 0 4 "[]" 2 "\<lambda>_ s. s"]
    by (auto simp: example_mutex_view example_mutex_waiters cfg_defs)
qed

text \<open>
  Suspending a ready task takes it out of the ready list, suspending it again is
  refused, and \<open>CoAwakeTask\<close> puts it back at the place of its priority.
\<close>

lemma suspend_awake_round_trip:
  assumes "ready_ok s" "unat tid \<in> set (ready_list s)" "tid \<noteq> 0" "state (TCBTbl s (unat tid)) = TASK_READY"
    "TCBRunning s \<noteq> Some (unat tid)" "OSSchedLock s = 0" "\<not> IsrReq s" "\<not> TaskSchedReq s"
    "waits_for_nothing (TCBTbl s (unat tid))"
  shows "let s1 = snd (CoSuspendTask (OsSchedUnlock cb) tid s)
    in fst (CoSuspendTask (OsSchedUnlock cb) tid s) = E_OK
       \<and> ready_list s1 = remove1 (unat tid) (ready_list s) \<and> state (TCBTbl s1 (unat tid)) = TASK_WAITING
       \<and> CoSuspendTask (OsSchedUnlock cb) tid s1 = (E_ALREADY_IN_WAITING, s1)
       \<and> (\<exists>t. CoAwakeTask u tid s1 = (E_OK, u t) \<and> ready_ok t
            \<and> ready_list t = insert_by (task_prio s) (unat tid) (remove1 (unat tid) (ready_list s)))"
  unfolding Let_def by (rule suspend_awake [OF assms])

text \<open>
  A time given to whole ticks survives the conversion to ticks and back, for every
  hour a byte can hold; the tick count does not overflow.
\<close>

lemma time_tick_round_trip:
  assumes "minute \<le> 59" "sec \<le> 59" "millsec \<le> 999" "10 dvd unat millsec"
  shows "\<exists>t. CoTimeToTick hour minute sec millsec = Inr t \<and> CoTickToTime t = (hour, minute, sec, millsec)
    \<and> unat t = (unat hour * 3600 + unat minute * 60 + unat sec) * 100 + unat millsec div 10"
proof -
  obtain k where "unat millsec = 10 * k" using assms(4) by blast
  then have "(unat millsec * 100 + 500) div 1000 = unat millsec div 10" by simp
  moreover have "\<not> (minute > 59 \<or> sec > 59 \<or> millsec > 999)" using assms by auto
  ultimately show ?thesis
    using time_round_trip [OF assms, of hour] unat_time_to_ticks [of hour minute sec millsec]
    by (auto simp: CoTimeToTick_def)
qed

text \<open>
  C31. \<open>CoAcceptSem\<close> tests the count under the lock but decrements it after the unlock. If
  the unlock switches to a task that accepts the last unit, both calls succeed and
  the count of the semaphore wraps around to \<open>0xffff\<close>.
\<close>

theorem CoAcceptSem_wraps_count:
  assumes "unat i < CFG_MAX_EVENT" "eventType (EventTbl s (unat i)) = EVENT_TYPE_SEM"
    "eventCounter (EventTbl s (unat i)) = 1"
  shows "let switch = (\<lambda>t. snd (CoAcceptSem nested_unlock i (nested_unlock t)))
    in fst (CoAcceptSem nested_unlock i (nested_unlock (OsSchedLock s))) = E_OK
       \<and> fst (CoAcceptSem switch i s) = E_OK
       \<and> eventCounter (EventTbl (snd (CoAcceptSem switch i s)) (unat i)) = 0xffff"
  using assms by (simp add: CoAcceptSem_def Let_def nested_unlock_def OsSchedLock_def)

theorem CoAcceptSem_wraps_count_witness:
  "eventCounter (EventTbl (snd (CoAcceptSem (\<lambda>t. snd (CoAcceptSem nested_unlock 0 (nested_unlock t))) 0
     (upd_ecb 0 (eventCounter_update (\<lambda>_. 1)) example))) 0) = 0xffff"
  using CoAcceptSem_wraps_count [of 0 "upd_ecb 0 (eventCounter_update (\<lambda>_. 1)) example"]
  by (simp add: Let_def cfg_defs)

text \<open>
  C32. \<open>CreateTCBList\<close> gives the last task control block no state, so it stays
  \<open>TASK_READY\<close>, the value 0. Until that block is used, \<open>CoDelTask\<close> on its number succeeds and
  empties the ready list, whatever tasks were in it.
\<close>

theorem CoDelTask_unused_block:
  assumes "TCBTbl s (TASK_NUM - 1) = TCBTbl (CreateTCBList kernel0) (TASK_NUM - 1)"
    "mtx_taskID (MutexTbl s 0) \<noteq> 5"
  shows "\<exists>t. CoDelTask u 5 s = (E_OK, u t) \<and> ready_list t = [] \<and> FreeTCB t = Some 5"
proof -
  have n: "TASK_NUM - 1 = (5::nat)" "[0..<5] = [0, 1, 2, 3, 4::nat]" by (simp_all add: cfg_defs upt_conv_Cons)
  have b: "TCBTbl s 5 = tcb0\<lparr>taskID := 5, TCBnext := None\<rparr>"
    using assms(1) unfolding n CreateTCBList_def Let_def task_init_def kernel0_def by simp
  have s: "state (TCBTbl s 5) = TASK_READY" "mutexID (TCBTbl s 5) = 0" "taskID (TCBTbl s 5) = 5"
    "TCBnext (TCBTbl s 5) = None" "TCBprev (TCBTbl s 5) = None"
    unfolding b by (simp_all add: tcb0_def)
  let ?r = "RemoveFromTCBRdyList 5 (OsSchedLock s)"
  have r: "TCBRdy ?r = None" using s by (simp add: RemoveFromTCBRdyList_def Let_def OsSchedLock_def)
  let ?t = "(set_next 5 (FreeTCB ?r) ((set_state 5 TASK_DORMANT ?r)\<lparr>TaskSchedReq := True\<rparr>))\<lparr>FreeTCB := Some 5\<rparr>"
  have "CoDelTask u 5 s = (E_OK, u ?t)"
    using s assms(2) by (simp add: CoDelTask_def Let_def cfg_defs OsSchedLock_def)
  moreover have "ready_list ?t = []" using r by (simp add: ready_list_def)
  ultimately show ?thesis by (intro exI [of _ ?t]) simp
qed

theorem CoDelTask_unused_block_witness:
  "ready_list example = [1, 0] \<and> (\<exists>t. CoDelTask nested_unlock 5
     (example\<lparr>TCBTbl := (TCBTbl example)(5 := TCBTbl (CreateTCBList kernel0) 5)\<rparr>) = (E_OK, nested_unlock t) \<and> ready_list t = [])"
proof -
  have "MutexTbl example = (\<lambda>_. mutex0)" "TASK_NUM - 1 = (5::nat)" by (simp_all add: example_defs cfg_defs)
  then show ?thesis
    using CoDelTask_unused_block [of "example\<lparr>TCBTbl := (TCBTbl example)(5 := TCBTbl (CreateTCBList kernel0) 5)\<rparr>" nested_unlock]
    by (auto simp: example_ready mutex0_def)
qed

text \<open>
  When the first of several waiters leaves the waiting list of a mutex (its task
  is deleted), \<open>RemoveMutexList\<close> does not move the head: the list then consists of the
  task that left, and all the others are lost.
\<close>

lemma RemoveMutexList_loses_waiters:
  assumes "mtx_ok m s" "mtx_list m s = i # j # ws" "TCBprev (TCBTbl s i) = None" "m = unat (mutexID (TCBTbl s i))"
    "hipriTaskID (MutexTbl s m) \<noteq> taskID (TCBTbl s i)"
  shows "mtx_list m (RemoveMutexList u i s) = [i]"
proof -
  have l: "waittingList (MutexTbl s m) = Some i" "TCBnext (TCBTbl s i) = Some j" "i \<noteq> j"
    using assms(1,2) by (simp_all add: mtx_ok_def tnext_def)
  let ?t = "set_mutexID i INVALID_ID (set_next i None (set_prev j None s))"
  have "taskID (TCBTbl (set_next i None (set_prev j None s)) i) = taskID (TCBTbl s i)" by (simp add: access_defs)
  then have "RemoveMutexList u i s = ?t"
    using assms(3-5) l by (simp add: RemoveMutexList_def Let_def)
  moreover have "tnext ?t i = None" "waittingList (MutexTbl ?t m) = Some i" using l by simp_all
  moreover have "1 \<le> TASK_NUM" by (simp add: cfg_defs)
  ultimately show ?thesis unfolding mtx_list_def by (intro chain_sll) simp_all
qed

text \<open>Mutex 0 held by task 2, with tasks 4 and 5 waiting.\<close>

definition example_waiters2 :: kernel where
  "example_waiters2 = example\<lparr>MutexFreeID := 1, MutexTbl := (\<lambda>_. mutex0)
       (0 := \<lparr>originalPrio = 30, mutexFlag = MUTEX_OCCUPY, mtx_taskID = 2, hipriTaskID = 2, waittingList = Some 4\<rparr>),
     TCBTbl := (TCBTbl example)(4 := (example_tcb 4 20 TASK_WAITING (Some 5) None INVALID_VALUE)\<lparr>mutexID := 0\<rparr>,
       5 := (example_tcb 5 20 TASK_WAITING None (Some 4) INVALID_VALUE)\<lparr>mutexID := 0\<rparr>)\<rparr>"

end
