(* ===== verification/CoOS_Kheap.thy ===== *)
theory CoOS_Kheap
  imports CoOS_Life
begin

text \<open>
  The kernel heap (\<open>kernelHeap.c\<close>): a first-fit allocator on an array of words. A used
  block starts with pointers to its two neighbours, a free block with a pointer to the
  next free block and pointers to its neighbours, which are used blocks. A pointer to a
  used block is marked by its lowest bit.
\<close>

definition KHEAP_SIZE :: nat where "KHEAP_SIZE = 50"

record kheap_state =
  startAddr :: U32
  endAddr :: U32
  FMBlist :: U32
  kh_kern :: kernel

type_synonym memory = "U32 \<Rightarrow> U32"

text \<open>The fields of \<open>FMB\<close> and \<open>UMB\<close> are words at fixed offsets.\<close>

abbreviation (input) nextFMB :: "U32 \<Rightarrow> U32" where "nextFMB a \<equiv> a"
abbreviation (input) nextUMB :: "U32 \<Rightarrow> U32" where "nextUMB a \<equiv> a + 4"
abbreviation (input) preUMB :: "U32 \<Rightarrow> U32" where "preUMB a \<equiv> a + 8"
abbreviation (input) nextMB :: "U32 \<Rightarrow> U32" where "nextMB a \<equiv> a"
abbreviation (input) preMB :: "U32 \<Rightarrow> U32" where "preMB a \<equiv> a + 4"

section \<open>The operations\<close>

text \<open>The array \<open>KernelHeap\<close> is at address \<open>base\<close>.\<close>

definition CoCreateKheap :: "U32 \<Rightarrow> kheap_state \<Rightarrow> kheap_state" where
  "CoCreateKheap base s =
     (let m = Mem (kh_kern s);
          m = m(nextFMB base := 0);
          m = m(nextUMB base := 0);
          m = m(preUMB base := 0)
      in s\<lparr>startAddr := base, endAddr := base + word_of_nat (KHEAP_SIZE * 4), FMBlist := base,
           kh_kern := (kh_kern s)\<lparr>Mem := m\<rparr>\<rparr>)"

text \<open>The three ways of giving a free block away work on the head of the free list and the memory.\<close>

definition kmalloc_whole :: "U32 \<Rightarrow> U32 \<Rightarrow> U32 \<times> memory \<Rightarrow> U32 \<times> memory" where
  "kmalloc_whole preFMB freeMB h =
     (case h of (f, m) \<Rightarrow>
       (let (f, m) = (if preFMB \<noteq> 0 then (f, m(nextFMB preFMB := m (nextFMB freeMB)))
                      else (m (nextFMB freeMB), m));
            m = (if m (nextUMB freeMB) \<noteq> 0 then m(preMB (m (nextUMB freeMB) - 1) := freeMB OR 1) else m);
            m = m(nextMB freeMB := m (nextUMB freeMB));
            m = m(preMB freeMB := m (preUMB freeMB))
        in (f, m)))"

definition kmalloc_split :: "U32 \<Rightarrow> U32 \<Rightarrow> U32 \<Rightarrow> U32 \<times> memory \<Rightarrow> U32 \<times> memory" where
  "kmalloc_split preFMB freeMB sz h =
     (case h of (f, m) \<Rightarrow>
       (let newFMB = freeMB + sz;
            (f, m) = (if preFMB \<noteq> 0 then (f, m(nextFMB preFMB := newFMB)) else (newFMB, m));
            m = m(preUMB newFMB := freeMB OR 1);
            m = m(nextUMB newFMB := m (nextUMB freeMB));
            m = m(nextFMB newFMB := m (nextFMB freeMB));
            m = (if m (nextUMB freeMB) \<noteq> 0 then m(preMB (m (nextUMB freeMB) - 1) := newFMB) else m);
            m = m(nextMB freeMB := newFMB);
            m = m(preMB freeMB := m (preUMB freeMB))
        in (f, m)))"

definition kmalloc_take :: "U32 \<Rightarrow> U32 \<Rightarrow> U32 \<Rightarrow> U32 \<Rightarrow> U32 \<times> memory \<Rightarrow> U32 \<times> memory" where
  "kmalloc_take preFMB freeMB freeSize sz h =
     (case (if freeSize - sz < 12 then kmalloc_whole preFMB freeMB h
            else kmalloc_split preFMB freeMB sz h) of
        (f, m) \<Rightarrow> (f, if m (preUMB freeMB) \<noteq> 0 then m(nextMB (m (preUMB freeMB) - 1) := freeMB OR 1) else m))"

text \<open>
  The search along the free list. The walks along blocks are given one round per word of the heap,
  more than it can have blocks; \<open>None\<close>: the walk has not ended by then, it follows pointers
  that are not a list of blocks.
\<close>

fun kmalloc_loop :: "nat \<Rightarrow> U32 \<Rightarrow> U32 \<Rightarrow> U32 \<Rightarrow> U32 \<Rightarrow> U32 \<times> memory \<Rightarrow> (U32 \<times> U32 \<times> memory) option" where
  "kmalloc_loop k kheapAddr sz preFMB freeMB h =
     (if freeMB = 0 then Some (0, h)
      else case k of
             0 \<Rightarrow> None
           | Suc k \<Rightarrow>
               (let m = snd h;
                    freeSize = (if m (nextUMB freeMB) = 0 then kheapAddr - freeMB
                                else m (nextUMB freeMB) - 1 - freeMB)
                in if freeSize \<ge> sz then Some (freeMB + 8, kmalloc_take preFMB freeMB freeSize sz h)
                   else kmalloc_loop k kheapAddr sz freeMB (m (nextFMB freeMB)) h))"

declare kmalloc_loop.simps [simp del]

abbreviation kh_lock :: "kheap_state \<Rightarrow> kheap_state" where
  "kh_lock s \<equiv> s\<lparr>kh_kern := OsSchedLock (kh_kern s)\<rparr>"

abbreviation kh_unlock :: "unlock \<Rightarrow> kheap_state \<Rightarrow> kheap_state" where
  "kh_unlock u s \<equiv> s\<lparr>kh_kern := u (kh_kern s)\<rparr>"

abbreviation kh_hang :: "kheap_state \<Rightarrow> kheap_state" where
  "kh_hang s \<equiv> s\<lparr>kh_kern := (kh_kern s)\<lparr>hang := True\<rparr>\<rparr>"

definition heap_of :: "kheap_state \<Rightarrow> U32 \<times> memory" where
  "heap_of s = (FMBlist s, Mem (kh_kern s))"

definition set_heap :: "U32 \<times> memory \<Rightarrow> kheap_state \<Rightarrow> kheap_state" where
  "set_heap h s = s\<lparr>FMBlist := fst h, kh_kern := (kh_kern s)\<lparr>Mem := snd h\<rparr>\<rparr>"

text \<open>The length of a block with its header, for a request of \<open>sz\<close> bytes.\<close>

definition kblock_size :: "U32 \<Rightarrow> U32" where
  "kblock_size sz = push_bit 2 (drop_bit 2 (sz + 3)) + 8"

definition CoKmalloc :: "unlock \<Rightarrow> U32 \<Rightarrow> kheap_state \<Rightarrow> U32 \<times> kheap_state" where
  "CoKmalloc u sz s =
     (if sz = 0 then (0, s)
      else
        (let s = kh_lock s
         in case kmalloc_loop KHEAP_SIZE (endAddr s) (kblock_size sz) 0 (FMBlist s) (heap_of s) of
              None \<Rightarrow> (0, kh_hang s)
            | Some (p, h) \<Rightarrow> (p, kh_unlock u (set_heap h s))))"

text \<open>The check that the block is one of the used blocks, before and behind the first free block.\<close>

fun check_before :: "nat \<Rightarrow> memory \<Rightarrow> U32 \<Rightarrow> U32 \<Rightarrow> bool option" where
  "check_before k m usedMB pre =
     (if pre = usedMB then Some True
      else if pre = 0 then Some False
      else case k of 0 \<Rightarrow> None | Suc k \<Rightarrow> check_before k m usedMB (m (preMB pre) - 1))"

fun check_behind :: "nat \<Rightarrow> memory \<Rightarrow> U32 \<Rightarrow> U32 \<Rightarrow> bool option" where
  "check_behind k m usedMB nxt =
     (if nxt = usedMB then Some True
      else if nxt = 0 then Some False
      else case k of
             0 \<Rightarrow> None
           | Suc k \<Rightarrow>
               if m (nextMB nxt) AND 1 = 0 then check_behind k m usedMB (m (nextUMB (m (nextMB nxt))) - 1)
               else check_behind k m usedMB (m (nextMB nxt) - 1))"

declare check_before.simps [simp del] check_behind.simps [simp del]

definition kfree_check :: "U32 \<Rightarrow> U32 \<Rightarrow> U32 \<times> memory \<Rightarrow> bool option" where
  "kfree_check start usedMB h =
     (case h of (f, m) \<Rightarrow>
       if usedMB < f then check_before KHEAP_SIZE m usedMB (m (preUMB f) - 1)
       else check_behind KHEAP_SIZE m usedMB
              (if f = 0 then start else if m (nextUMB f) \<noteq> 0 then m (nextUMB f) - 1 else 0))"

fun pre_fmb_loop :: "nat \<Rightarrow> memory \<Rightarrow> U32 \<Rightarrow> U32 option" where
  "pre_fmb_loop k m pre =
     (if m (preMB pre) AND 1 = 0 then Some (m (preMB pre))
      else case k of 0 \<Rightarrow> None | Suc k \<Rightarrow> pre_fmb_loop k m (m (preMB pre) - 1))"

declare pre_fmb_loop.simps [simp del]

definition GetPreFMB :: "memory \<Rightarrow> U32 \<Rightarrow> U32 option" where
  "GetPreFMB m usedMB = pre_fmb_loop KHEAP_SIZE m usedMB"

text \<open>The block lies between two free blocks or the ends of the heap.\<close>

definition kfree_both :: "U32 \<Rightarrow> U32 \<times> memory \<Rightarrow> U32 \<times> U32 \<times> memory" where
  "kfree_both usedMB h =
     (case h of (f, m) \<Rightarrow>
       if m (nextMB usedMB) = 0 \<and> m (preMB usedMB) = 0 then
         (usedMB, usedMB, ((m(nextFMB usedMB := 0))(nextUMB usedMB := 0))(preUMB usedMB := 0))
       else if m (preMB usedMB) = 0 then
         (let cur = usedMB;
              nxt = m (nextMB usedMB);
              m = m(nextFMB cur := m (nextFMB nxt));
              m = m(nextUMB cur := m (nextUMB nxt));
              m = m(preUMB cur := 0)
          in (cur, cur, m))
       else if m (nextMB usedMB) = 0 then
         (let cur = m (preMB usedMB)
          in (cur, f, (m(nextFMB cur := 0))(nextUMB cur := 0)))
       else
         (let nxt = m (nextMB usedMB);
              cur = m (preMB usedMB);
              m = m(nextFMB cur := m (nextFMB nxt));
              m = m(nextUMB cur := m (nextUMB nxt))
          in (cur, f, m)))"

text \<open>Only the block before is free, or the block is the first of the heap.\<close>

definition kfree_before :: "U32 \<Rightarrow> U32 \<times> memory \<Rightarrow> U32 \<times> U32 \<times> memory" where
  "kfree_before usedMB h =
     (case h of (f, m) \<Rightarrow>
       if m (preMB usedMB) = 0 then
         (let cur = usedMB;
              nxt = m (nextMB usedMB);
              m = m(nextUMB cur := nxt);
              m = m(preUMB cur := 0);
              m = m(nextFMB cur := f)
          in (cur, cur, m))
       else
         (let cur = m (preMB usedMB);
              nxt = m (nextMB usedMB)
          in (cur, f, m(nextUMB cur := nxt))))"

text \<open>The new free block enters the free list behind the free block before it, if there is one.\<close>

definition free_link :: "U32 \<Rightarrow> U32 \<Rightarrow> U32 \<times> memory \<Rightarrow> U32 \<times> U32 \<times> memory" where
  "free_link preFMB cur h =
     (case h of (f, m) \<Rightarrow>
       if preFMB = 0 then (f, cur, m) else (m (nextFMB preFMB), f, m(nextFMB preFMB := cur)))"

text \<open>Only the block behind is free, or the block is the last of the heap.\<close>

definition kfree_behind :: "U32 \<Rightarrow> U32 \<times> memory \<Rightarrow> (U32 \<times> U32 \<times> memory) option" where
  "kfree_behind usedMB h =
     (let m = snd h;
          pre = m (preMB usedMB);
          cur = usedMB
      in case GetPreFMB m usedMB of
           None \<Rightarrow> None
         | Some preFMB \<Rightarrow>
             (case free_link preFMB cur h of
                (nxt, f, m) \<Rightarrow>
                  (let m = m(preUMB cur := pre);
                       m = (if nxt = 0 then (m(nextUMB cur := 0))(nextFMB cur := 0)
                            else (let m = m(nextUMB cur := m (nextUMB nxt))
                                  in m(nextFMB cur := m (nextFMB nxt))))
                   in Some (cur, f, m))))"

text \<open>Both neighbours are used.\<close>

definition kfree_none :: "U32 \<Rightarrow> U32 \<times> memory \<Rightarrow> (U32 \<times> U32 \<times> memory) option" where
  "kfree_none usedMB h =
     (let m = snd h;
          cur = usedMB
      in case GetPreFMB m usedMB of
           None \<Rightarrow> None
         | Some preFMB \<Rightarrow>
             (let pre = m (preMB usedMB);
                  nextU = m (nextMB usedMB)
              in case free_link preFMB cur h of
                   (nxt, f, m) \<Rightarrow>
                     (let m = m(preUMB cur := pre);
                          m = m(nextUMB cur := nextU);
                          m = m(nextFMB cur := nxt)
                      in Some (cur, f, m))))"

definition kfree_release :: "U32 \<Rightarrow> U32 \<times> memory \<Rightarrow> (U32 \<times> memory) option" where
  "kfree_release usedMB h =
     (let m = snd h;
          even = (\<lambda>p. p AND 1 = (0::U32));
          r = (if even (m (nextMB usedMB)) \<and> even (m (preMB usedMB)) then Some (kfree_both usedMB h)
               else if even (m (preMB usedMB)) then Some (kfree_before usedMB h)
               else if even (m (nextMB usedMB)) then kfree_behind usedMB h
               else kfree_none usedMB h)
      in case r of
           None \<Rightarrow> None
         | Some (cur, f, m) \<Rightarrow>
             (let m = (if m (preUMB cur) \<noteq> 0 then m(nextMB (m (preUMB cur) - 1) := cur) else m);
                  m = (if m (nextUMB cur) \<noteq> 0 then m(preMB (m (nextUMB cur) - 1) := cur) else m)
              in Some (f, m)))"

definition CoKfree :: "unlock \<Rightarrow> U32 \<Rightarrow> kheap_state \<Rightarrow> kheap_state" where
  "CoKfree u memBuf s =
     (if memBuf = 0 then s
      else
        (let usedMB = memBuf - 8
         in if memBuf < startAddr s then s
            else if memBuf > endAddr s then s
            else
              (let s = kh_lock s
               in case kfree_check (startAddr s) usedMB (heap_of s) of
                    None \<Rightarrow> kh_hang s
                  | Some False \<Rightarrow> kh_unlock u s
                  | Some True \<Rightarrow>
                      (case kfree_release usedMB (heap_of s) of
                         None \<Rightarrow> kh_hang s
                       | Some h \<Rightarrow> kh_unlock u (set_heap h s)))))"

section \<open>The heap as a sequence of blocks\<close>

text \<open>A block: whether it is used, and its address. It ends where the next one starts.\<close>

type_synonym seg = "bool \<times> U32"

definition enc :: "seg option \<Rightarrow> U32" where
  "enc p = (case p of None \<Rightarrow> 0 | Some (u, a) \<Rightarrow> if u then a OR 1 else a)"

definition next_seg :: "seg list \<Rightarrow> seg option \<Rightarrow> seg option" where
  "next_seg xs nx = (case xs of [] \<Rightarrow> nx | x # _ \<Rightarrow> Some x)"

definition last_seg :: "seg list \<Rightarrow> seg option \<Rightarrow> seg option" where
  "last_seg xs p = (if xs = [] then p else Some (last xs))"

fun next_free :: "seg list \<Rightarrow> U32 \<Rightarrow> U32" where
  "next_free [] nf = nf"
| "next_free ((u, a) # xs) nf = (if u then next_free xs nf else a)"

definition last_free :: "seg list \<Rightarrow> U32" where
  "last_free xs = (case rev (filter (\<lambda>x. \<not> fst x) xs) of [] \<Rightarrow> 0 | x # _ \<Rightarrow> snd x)"

text \<open>The header of a block between the blocks \<open>p\<close> and \<open>nx\<close>, with \<open>nf\<close> the next free block behind it.\<close>

fun hdr :: "memory \<Rightarrow> seg option \<Rightarrow> seg \<Rightarrow> seg option \<Rightarrow> U32 \<Rightarrow> bool" where
  "hdr m p (True, a) nx nf \<longleftrightarrow> m a = enc nx \<and> m (a + 4) = enc p"
| "hdr m p (False, a) nx nf \<longleftrightarrow> m a = nf \<and> m (a + 4) = enc nx \<and> m (a + 8) = enc p"

fun hsegs :: "memory \<Rightarrow> seg option \<Rightarrow> seg list \<Rightarrow> seg option \<Rightarrow> U32 \<Rightarrow> bool" where
  "hsegs m p [] nx nf \<longleftrightarrow> True"
| "hsegs m p (x # xs) nx nf \<longleftrightarrow> hdr m p x (next_seg xs nx) (next_free xs nf) \<and> hsegs m (Some x) xs nx nf"

text \<open>Where the block at the head of a list ends, and the layout of blocks up to address \<open>e\<close>.\<close>

fun seg_end :: "nat \<Rightarrow> seg list \<Rightarrow> nat" where
  "seg_end e [] = e"
| "seg_end e ((u, a) # xs) = unat a"

fun geo :: "nat \<Rightarrow> seg list \<Rightarrow> bool" where
  "geo e [] \<longleftrightarrow> True"
| "geo e ((u, a) # xs) \<longleftrightarrow> a AND 3 = 0 \<and> a \<noteq> 0 \<and> unat a + 12 \<le> seg_end e xs \<and> geo e xs"

definition alt :: "seg list \<Rightarrow> bool" where
  "alt xs \<longleftrightarrow> successively (\<lambda>x y. fst x \<or> fst y) xs"

definition hrep :: "nat \<Rightarrow> seg list \<Rightarrow> U32 \<times> memory \<Rightarrow> bool" where
  "hrep e xs h \<longleftrightarrow> e < 2 ^ 32 \<and> geo e xs \<and> alt xs \<and> hsegs (snd h) None xs None 0 \<and> fst h = next_free xs 0"

text \<open>The specification of the allocator: first fit, and coalescing of free neighbours.\<close>

fun kalloc :: "nat \<Rightarrow> nat \<Rightarrow> seg list \<Rightarrow> (U32 \<times> seg list) option" where
  "kalloc sz e [] = None"
| "kalloc sz e ((u, a) # xs) =
     (if \<not> u \<and> sz \<le> seg_end e xs - unat a then
        Some (a + 8, (True, a) # (if seg_end e xs - unat a - sz < 12 then xs
                                  else (False, a + word_of_nat sz) # xs))
      else map_option (apsnd ((#) (u, a))) (kalloc sz e xs))"

fun drop_free :: "seg list \<Rightarrow> seg list" where
  "drop_free ((False, a) # xs) = xs"
| "drop_free xs = xs"

fun kfree :: "U32 \<Rightarrow> seg list \<Rightarrow> seg list" where
  "kfree b [] = []"
| "kfree b ((True, a) # xs) = (if a = b then (False, a) # drop_free xs else (True, a) # kfree b xs)"
| "kfree b ((False, f) # (True, a) # xs) =
     (if a = b then (False, f) # drop_free xs else (False, f) # (True, a) # kfree b xs)"
| "kfree b ((False, f) # xs) = (False, f) # kfree b xs"

section \<open>Layout\<close>

lemma seg_end_append: "seg_end e (us @ vs) = seg_end (seg_end e vs) us"
  by (cases us) auto

lemma geo_append: "geo e (us @ vs) \<longleftrightarrow> geo (seg_end e vs) us \<and> geo e vs"
  by (induction us) (auto simp: seg_end_append)

lemma seg_end_le: "geo e xs \<Longrightarrow> seg_end e xs \<le> e"
  by (induction xs) auto

lemma geo_bound: "geo e xs \<Longrightarrow> (u, a) \<in> set xs \<Longrightarrow> seg_end e xs \<le> unat a \<and> unat a + 12 \<le> e"
proof (induction xs)
  case (Cons x xs)
  obtain v b where x: "x = (v, b)" by (cases x)
  have le: "seg_end e xs \<le> e" using Cons.prems(1) x seg_end_le by auto
  show ?case
  proof (cases "(u, a) \<in> set xs")
    case True
    with Cons x show ?thesis by auto
  next
    case False
    with Cons.prems x le show ?thesis by auto
  qed
qed simp

lemma next_seg_append: "next_seg (us @ vs) nx = next_seg us (next_seg vs nx)"
  by (cases us) (auto simp: next_seg_def)

lemma next_free_append: "next_free (us @ vs) nf = next_free us (next_free vs nf)"
  by (induction us) auto

lemma hsegs_append:
  "hsegs m p (us @ vs) nx nf \<longleftrightarrow>
     hsegs m p us (next_seg vs nx) (next_free vs nf) \<and> hsegs m (last_seg us p) vs nx nf"
  by (induction us arbitrary: p) (auto simp: last_seg_def next_seg_append next_free_append)

text \<open>The words a header occupies.\<close>

definition cells :: "seg \<Rightarrow> U32 set" where
  "cells x = {snd x, snd x + 4, snd x + 8}"

lemma hdr_cong: "(\<And>c. c \<in> cells x \<Longrightarrow> m c = m' c) \<Longrightarrow> hdr m p x nx nf = hdr m' p x nx nf"
  by (cases "(m, p, x, nx, nf)" rule: hdr.cases) (auto simp: cells_def)

lemma hsegs_cong:
  "(\<And>x c. x \<in> set xs \<Longrightarrow> c \<in> cells x \<Longrightarrow> m c = m' c) \<Longrightarrow> hsegs m p xs nx nf = hsegs m' p xs nx nf"
proof (induction xs arbitrary: p)
  case (Cons x xs)
  have "hdr m p x a b = hdr m' p x a b" for a b
    by (rule hdr_cong) (rule Cons.prems [of x]; simp)
  moreover have "hsegs m (Some x) xs nx nf = hsegs m' (Some x) xs nx nf"
    by (rule Cons.IH) (rule Cons.prems; simp)
  ultimately show ?case by simp
qed simp

lemma unat_plus_small: "unat (a::U32) + n < 2 ^ 32 \<Longrightarrow> unat (a + word_of_nat n) = unat a + n"
  by (simp add: unat_word_ariths unat_of_nat)

lemma cells_range:
  assumes "c \<in> cells (u, a)" "unat a + 12 \<le> e" "e < 2 ^ 32"
  shows "unat a \<le> unat c \<and> unat c < unat a + 12"
  using assms unat_plus_small [of a 4] unat_plus_small [of a 8] by (auto simp: cells_def)

lemma geo_cells:
  assumes "geo e xs" "e < 2 ^ 32" "x \<in> set xs" "c \<in> cells x"
  shows "seg_end e xs \<le> unat c \<and> unat c < e"
proof -
  obtain u a where x: "x = (u, a)" by (cases x)
  from geo_bound [OF assms(1)] assms(3) x have "seg_end e xs \<le> unat a \<and> unat a + 12 \<le> e" by blast
  with cells_range [of c u a e] assms x show ?thesis by auto
qed

text \<open>The pointers that lead from the blocks \<open>us\<close> into what follows them can be redirected.\<close>

lemma hsegs_used: "(\<forall>x \<in> set xs. fst x) \<Longrightarrow> hsegs m p xs nx nf = hsegs m p xs nx nf'"
proof (induction xs arbitrary: p)
  case (Cons x xs)
  then show ?case by (cases x) auto
qed simp

lemma split_last_free:
  obtains (used) "\<forall>x \<in> set xs. fst x" "last_free xs = 0"
  | (free) us f vs where "xs = us @ (False, f) # vs" "\<forall>x \<in> set vs. fst x" "last_free xs = f"
proof (cases "\<forall>x \<in> set xs. fst x")
  case True
  then show ?thesis using used by (simp add: last_free_def filter_empty_conv)
next
  case False
  then obtain us x vs where "xs = us @ x # vs" "\<not> fst x" "\<forall>y \<in> set vs. \<not> \<not> fst y"
    using split_list_last_prop [of xs "\<lambda>x. \<not> fst x"] by blast
  moreover obtain f where "x = (False, f)" using \<open>\<not> fst x\<close> by (cases x) auto
  moreover have "filter (\<lambda>x. \<not> fst x) vs = []" using \<open>\<forall>y \<in> set vs. \<not> \<not> fst y\<close> by (simp add: filter_empty_conv)
  ultimately show ?thesis using free [of us f vs] by (simp add: last_free_def)
qed

lemma geo_split_neq:
  assumes "geo e (us @ x # vs)" "e < 2 ^ 32" "y \<in> set us \<union> set vs" "c \<in> cells y"
  shows "c \<noteq> snd x \<and> c \<noteq> snd x + 4 \<and> c \<noteq> snd x + 8"
proof -
  obtain u a where x: "x = (u, a)" by (cases x)
  have g: "geo (unat a) us" "geo e vs" "unat a + 12 \<le> seg_end e vs" "seg_end e vs \<le> e"
    using assms(1) x seg_end_le by (auto simp: geo_append)
  have "c' \<in> cells (u, a) \<Longrightarrow> unat a \<le> unat c' \<and> unat c' < unat a + 12" for c'
    using cells_range [of c' u a e] g assms(2) by auto
  moreover have "unat c < unat a \<or> seg_end e vs \<le> unat c"
    using assms(2-4) geo_cells [OF g(1), of y c] geo_cells [OF g(2), of y c] g by auto
  ultimately show ?thesis using g(3) x by (fastforce simp: cells_def)
qed

lemma relink_free:
  assumes "geo e us" "e < 2 ^ 32" "hsegs m p us nx nf"
  shows "hsegs (if last_free us = 0 then m else m(last_free us := nf')) p us nx nf'"
proof (cases us rule: split_last_free)
  case used
  then show ?thesis using assms(3) hsegs_used [OF used(1), of m p nx nf nf'] by simp
next
  case (free us' f vs)
  have f: "f \<noteq> 0" using assms(1) free(1) by (simp add: geo_append)
  let ?m = "m(f := nf')"
  have eq: "m c = ?m c" if "y \<in> set us' \<union> set vs" "c \<in> cells y" for y c
    using geo_split_neq [OF assms(1) [unfolded free(1)] assms(2) that] by simp
  have "hsegs m p us' (next_seg ((False, f) # vs) nx) f"  "hdr m (last_seg us' p) (False, f) (next_seg vs nx) (next_free vs nf)"
      "hsegs m (Some (False, f)) vs nx nf"
    using assms(3) free(1) by (simp_all add: hsegs_append)
  moreover have "hsegs m p us' a b = hsegs ?m p us' a b"
      "hsegs m (Some (False, f)) vs a b = hsegs ?m (Some (False, f)) vs a b" for a b
    by (rule hsegs_cong, rule eq; simp)+
  moreover have "next_free vs nf' = nf'" using free(2) by (induction vs) auto
  moreover have "f + 4 \<noteq> f" "f + 8 \<noteq> f" by simp_all
  ultimately show ?thesis
    using f free hsegs_used [OF free(2), of m "Some (False, f)" nx nf nf'] by (simp add: hsegs_append)
qed

lemma relink_next:
  assumes "geo e (us @ [(True, l)])" "e < 2 ^ 32" "hsegs m p (us @ [(True, l)]) nx nf"
  shows "hsegs (m(l := enc nx')) p (us @ [(True, l)]) nx' nf"
proof -
  have "hsegs m p us a b = hsegs (m(l := enc nx')) p us a b" for a b
    using geo_split_neq [OF assms(1,2)] by (intro hsegs_cong) auto
  moreover have "l + 4 \<noteq> l" by simp
  ultimately show ?thesis using assms(3) by (simp add: hsegs_append next_seg_def)
qed

lemma relink_prev:
  assumes "geo e ((True, b) # vs)" "e < 2 ^ 32" "hsegs m p ((True, b) # vs) nx nf"
  shows "hsegs (m(b + 4 := enc p')) p' ((True, b) # vs) nx nf"
proof -
  have "hsegs m (Some (True, b)) vs nx nf = hsegs (m(b + 4 := enc p')) (Some (True, b)) vs nx nf"
    using geo_split_neq [of e "[]" "(True, b)" vs] assms(1,2) by (intro hsegs_cong) auto
  moreover have "b \<noteq> b + 4" by simp
  ultimately show ?thesis using assms(3) by simp
qed

lemma left_part:
  assumes g: "geo e us" "e < 2 ^ 32" "hsegs m p us nx nf" "us \<noteq> [] \<Longrightarrow> fst (last us)"
    and m': "us \<noteq> [] \<Longrightarrow> m' (snd (last us)) = enc nx'" "last_free us \<noteq> 0 \<Longrightarrow> m' (last_free us) = nf'"
      "\<And>x c. x \<in> set us \<Longrightarrow> c \<in> cells x \<Longrightarrow> last_free us = 0 \<or> c \<noteq> last_free us \<Longrightarrow> c \<noteq> snd (last us) \<Longrightarrow> m' c = m c"
  shows "hsegs m' p us nx' nf'"
proof (cases us rule: rev_cases)
  case (snoc us' x)
  then obtain l where l: "us = us' @ [(True, l)]" using g(4) by (cases x) auto
  let ?m = "if last_free us = 0 then m else m(last_free us := nf')"
  have "hsegs (?m(l := enc nx')) p us nx' nf'"
    using relink_next [OF g(1) [unfolded l] g(2)] relink_free [OF g(1-3), of nf'] l by simp
  moreover have "(?m(l := enc nx')) c = m' c" if "x \<in> set us" "c \<in> cells x" for x c
    using m'(1) m'(2) m'(3) [OF that] l by (auto simp: fun_upd_def)
  ultimately show ?thesis using hsegs_cong [of us "?m(l := enc nx')" m'] by blast
qed simp

lemma right_part:
  assumes g: "geo e vs" "e < 2 ^ 32" "hsegs m p vs nx nf" "vs \<noteq> [] \<Longrightarrow> fst (hd vs)"
    and m': "vs \<noteq> [] \<Longrightarrow> m' (snd (hd vs) + 4) = enc p'"
      "\<And>x c. x \<in> set vs \<Longrightarrow> c \<in> cells x \<Longrightarrow> c \<noteq> snd (hd vs) + 4 \<Longrightarrow> m' c = m c"
  shows "hsegs m' p' vs nx nf"
proof (cases vs)
  case (Cons x vs')
  then obtain b where b: "vs = (True, b) # vs'" using g(4) by (cases x) auto
  have "hsegs (m(b + 4 := enc p')) p' vs nx nf" using relink_prev [of e b vs'] g b by simp
  moreover have "(m(b + 4 := enc p')) c = m' c" if "x \<in> set vs" "c \<in> cells x" for x c
    using m'(1) m'(2) [OF that] b by (auto simp: fun_upd_def)
  ultimately show ?thesis using hsegs_cong [of vs "m(b + 4 := enc p')" m'] by blast
qed simp

text \<open>
  Replacing the blocks \<open>mid\<close> by \<open>mid'\<close>, between blocks whose next to \<open>mid\<close> are used:
  the new memory may differ in the cells of \<open>mid\<close> and in the pointers to them.
\<close>

definition ends_used :: "seg list \<Rightarrow> bool" where
  "ends_used us \<longleftrightarrow> us = [] \<or> fst (last us)"

definition starts_used :: "seg list \<Rightarrow> bool" where
  "starts_used vs \<longleftrightarrow> vs = [] \<or> fst (hd vs)"

lemma splice:
  assumes rep: "hrep e (us @ mid @ vs) (f, m)" and ends: "ends_used us" "starts_used vs" "mid \<noteq> []" "mid' \<noteq> []"
    and lay: "snd (hd mid') = snd (hd mid)" "geo (seg_end e vs) mid'" "alt mid'"
    and new: "hsegs m' (last_seg us None) mid' (next_seg vs None) (next_free vs 0)"
    and m': "us \<noteq> [] \<Longrightarrow> m' (snd (last us)) = enc (Some (hd mid'))"
      "last_free us \<noteq> 0 \<Longrightarrow> m' (last_free us) = next_free mid' (next_free vs 0)"
      "vs \<noteq> [] \<Longrightarrow> m' (snd (hd vs) + 4) = enc (Some (last mid'))"
      "\<And>c. unat c < unat (snd (hd mid)) \<Longrightarrow> last_free us = 0 \<or> c \<noteq> last_free us \<Longrightarrow> us \<noteq> [] \<Longrightarrow> c \<noteq> snd (last us) \<Longrightarrow> m' c = m c"
      "\<And>c. seg_end e vs \<le> unat c \<Longrightarrow> vs \<noteq> [] \<Longrightarrow> c \<noteq> snd (hd vs) + 4 \<Longrightarrow> m' c = m c"
  shows "hrep e (us @ mid' @ vs) (next_free (us @ mid' @ vs) 0, m')"
proof -
  obtain z a where h: "hd mid = (z, a)" by (cases "hd mid")
  have se: "seg_end x mid = unat a" "seg_end x mid' = unat a" for x
    using h lay(1) ends(3,4) by (cases mid; cases mid'; auto)+
  have r: "e < 2 ^ 32" "geo e (us @ mid @ vs)" "alt (us @ mid @ vs)" "hsegs m None (us @ mid @ vs) None 0"
    using rep by (simp_all add: hrep_def)
  have g: "geo (unat a) us" "geo e vs" "seg_end e vs \<le> e" "unat a \<le> e"
    using r(2) se seg_end_le [of e vs] seg_end_le [of "seg_end e vs" mid] by (auto simp: geo_append seg_end_append)
  have lt: "unat a < 2 ^ 32" using g(4) r(1) by simp
  have L: "hsegs m' None us (Some (hd mid')) (next_free mid' (next_free vs 0))"
  proof (rule left_part [OF g(1) lt])
    show "hsegs m None us (next_seg (mid @ vs) None) (next_free (mid @ vs) 0)" using r(4) by (simp add: hsegs_append)
    show "us \<noteq> [] \<Longrightarrow> fst (last us)" using ends(1) by (simp add: ends_used_def)
    show "x \<in> set us \<Longrightarrow> c \<in> cells x \<Longrightarrow> last_free us = 0 \<or> c \<noteq> last_free us \<Longrightarrow> c \<noteq> snd (last us) \<Longrightarrow> m' c = m c" for x c
      using m'(4) [of c] geo_cells [OF g(1) lt, of x c] h length_pos_if_in_set [of x us] by auto
  qed (use m'(1,2) in auto)
  have R: "hsegs m' (Some (last mid')) vs None 0"
  proof (rule right_part [OF g(2) r(1)])
    show "hsegs m (last_seg (us @ mid) None) vs None 0" using r(4) hsegs_append [of m None "us @ mid" vs] by simp
    show "vs \<noteq> [] \<Longrightarrow> fst (hd vs)" using ends(2) by (simp add: starts_used_def)
    show "x \<in> set vs \<Longrightarrow> c \<in> cells x \<Longrightarrow> c \<noteq> snd (hd vs) + 4 \<Longrightarrow> m' c = m c" for x c
      using m'(5) [of c] geo_cells [OF g(2) r(1), of x c] length_pos_if_in_set [of x vs] by auto
  qed (use m'(3) in auto)
  have "hsegs m' None (us @ mid' @ vs) None 0"
  proof -
    have "next_seg (mid' @ vs) None = Some (hd mid')" "last_seg mid' x = Some (last mid')" for x
      using ends(4) by (auto simp: next_seg_def last_seg_def neq_Nil_conv)
    then show ?thesis using L R new by (simp only: hsegs_append next_free_append)
  qed
  moreover have "geo e (us @ mid' @ vs)"
    using g lay(2) se by (simp add: geo_append seg_end_append)
  moreover have "alt (us @ mid' @ vs)"
    using r(3) lay(3) ends by (auto simp: alt_def successively_append_iff ends_used_def starts_used_def)
  ultimately show ?thesis using r(1) by (simp add: hrep_def)
qed

section \<open>Allocation\<close>

lemma mark_used:
  assumes "(a::U32) AND 3 = 0"
  shows "a OR 1 = a + 1" "(a OR 1) - 1 = a" "a OR 1 \<noteq> 0" "(a OR 1) AND 1 = 1" "a AND 1 = 0"
proof -
  have "a AND (3 AND 1) = (a AND 3) AND 1" by (rule and.assoc [symmetric])
  then show z: "a AND 1 = 0" using assms by simp
  show p: "a OR 1 = a + 1" by (rule disjunctive_add_eq_or [OF z, symmetric])
  show "(a OR 1) - 1 = a" unfolding p by simp
  have "(a OR 1) AND 1 = (a AND 1) OR (1 AND 1)" by (rule bit.conj_disj_distrib2)
  then show q: "(a OR 1) AND 1 = 1" unfolding z by simp
  show "a OR 1 \<noteq> 0"
  proof
    assume "a OR 1 = 0"
    with q show False by simp
  qed
qed

text \<open>What a free block \<open>a\<close> between \<open>us\<close> and \<open>vs\<close> knows of its neighbours.\<close>

lemma hrep_free:
  assumes "hrep e (us @ (False, a) # vs) (f, m)"
  shows "ends_used us" "starts_used vs" "a AND 3 = 0" "a \<noteq> 0" "unat a + 12 \<le> seg_end e vs" "seg_end e vs \<le> e" "e < 2 ^ 32"
    "m a = next_free vs 0" "m (a + 4) = enc (next_seg vs None)" "m (a + 8) = enc (last_seg us None)" "f = next_free us a"
proof -
  have r: "e < 2 ^ 32" "geo e (us @ (False, a) # vs)" "alt (us @ (False, a) # vs)" "hsegs m None (us @ (False, a) # vs) None 0"
    "f = next_free (us @ (False, a) # vs) 0"
    using assms by (simp_all add: hrep_def)
  show "a AND 3 = 0" "a \<noteq> 0" "unat a + 12 \<le> seg_end e vs" "seg_end e vs \<le> e" "e < 2 ^ 32"
    using r(1,2) seg_end_le [of e vs] by (auto simp: geo_append)
  show "m a = next_free vs 0" "m (a + 4) = enc (next_seg vs None)" "m (a + 8) = enc (last_seg us None)"
    using r(4) by (simp_all add: hsegs_append)
  show "ends_used us" using r(3) by (auto simp: alt_def successively_append_iff ends_used_def)
  show "starts_used vs" using r(3)
    by (cases vs) (auto simp: alt_def successively_append_iff starts_used_def)
  show "f = next_free us a" using r(5) by (simp add: next_free_append)
qed

lemma last_free_bound:
  assumes "geo e us" "ends_used us" "last_free us \<noteq> 0"
  shows "unat (last_free us) + 12 \<le> e" "us \<noteq> []" "last_free us \<noteq> snd (last us)"
proof -
  from assms(3) obtain us' f vs where s: "us = us' @ (False, f) # vs" "last_free us = f" "\<forall>x \<in> set vs. fst x"
    by (cases us rule: split_last_free) auto
  then show "unat (last_free us) + 12 \<le> e" "us \<noteq> []" using geo_bound [OF assms(1), of False f] by simp_all
  have "vs \<noteq> []" using s assms(2) by (auto simp: ends_used_def)
  moreover have "unat f + 12 \<le> unat (snd (last vs))"
  proof -
    have g: "geo e vs" "unat f + 12 \<le> seg_end e vs" using assms(1) s(1) by (auto simp: geo_append)
    then show ?thesis
      using geo_bound [OF g(1), of "fst (last vs)" "snd (last vs)"] \<open>vs \<noteq> []\<close> by auto
  qed
  ultimately show "last_free us \<noteq> snd (last us)" using s by auto
qed

lemma neq_by_unat: "unat x < unat y \<Longrightarrow> x \<noteq> y" "unat x < unat y \<Longrightarrow> y \<noteq> x"
  by auto

text \<open>Addresses in the blocks before \<open>a\<close>, in the header of \<open>a\<close> and behind it differ.\<close>

lemma apart:
  assumes "unat (a::U32) + 12 \<le> E" "E < 2 ^ 32"
  shows "unat c < unat a \<Longrightarrow> c \<noteq> a \<and> c \<noteq> a + 4 \<and> c \<noteq> a + 8"
    "E \<le> unat c \<Longrightarrow> c \<noteq> a \<and> c \<noteq> a + 4 \<and> c \<noteq> a + 8"
    "a \<noteq> a + 4" "a \<noteq> a + 8" "a + 4 \<noteq> a + 8"
  using assms unat_plus_small [of a 4] unat_plus_small [of a 8] by auto

lemma ends_used_last:
  assumes "geo e us" "ends_used us" "us \<noteq> []"
  shows "last us = (True, snd (last us))" "unat (snd (last us)) + 12 \<le> e" "snd (last us) AND 3 = 0"
proof -
  obtain us' l where us: "us = us' @ [(True, l)]"
    using assms(2,3) by (cases us rule: rev_cases) (auto simp: ends_used_def)
  then show "last us = (True, snd (last us))" "unat (snd (last us)) + 12 \<le> e" "snd (last us) AND 3 = 0"
    using assms(1) by (simp_all add: geo_append)
qed

lemma starts_used_hd:
  assumes "geo e vs" "starts_used vs" "vs \<noteq> []"
  shows "hd vs = (True, snd (hd vs))" "seg_end e vs = unat (snd (hd vs))" "snd (hd vs) AND 3 = 0"
    "unat (snd (hd vs)) + 12 \<le> e" "next_seg vs nx = Some (hd vs)"
proof -
  obtain b vs' where vs: "vs = (True, b) # vs'"
    using assms(2,3) by (cases vs) (auto simp: starts_used_def)
  then show "hd vs = (True, snd (hd vs))" "seg_end e vs = unat (snd (hd vs))" "snd (hd vs) AND 3 = 0"
    "unat (snd (hd vs)) + 12 \<le> e" "next_seg vs nx = Some (hd vs)"
    using assms(1) seg_end_le [of e vs'] by (auto simp: next_seg_def)
qed

text \<open>A write that happens only when the block it goes to exists.\<close>

definition put :: "bool \<Rightarrow> U32 \<Rightarrow> U32 \<Rightarrow> memory \<Rightarrow> memory" where
  "put b x v m = (if b then m(x := v) else m)"

lemma put_apply [simp]: "put b x v m c = (if b \<and> c = x then v else m c)"
  by (simp add: put_def)

definition links :: "seg list \<Rightarrow> seg list \<Rightarrow> seg list \<Rightarrow> memory \<Rightarrow> memory" where
  "links us mid vs m =
     put (us \<noteq> []) (snd (last us)) (enc (Some (hd mid)))
       (put (last_free us \<noteq> 0) (last_free us) (next_free mid (next_free vs 0))
         (put (vs \<noteq> []) (snd (hd vs) + 4) (enc (Some (last mid))) m))"

lemma links_frame:
  assumes "geo e us" "geo e' vs" "ends_used us" "e \<le> seg_end e' vs" "e' < 2 ^ 32"
    and "e \<le> unat c" "unat c < seg_end e' vs"
  shows "links us mid vs m c = m c"
proof -
  have "us \<noteq> [] \<Longrightarrow> c \<noteq> snd (last us)" using ends_used_last [OF assms(1,3)] assms(6) by auto
  moreover have "last_free us \<noteq> 0 \<Longrightarrow> c \<noteq> last_free us" using last_free_bound [OF assms(1,3)] assms(6) by auto
  moreover have "c \<noteq> snd (hd vs) + 4" if "vs \<noteq> []"
  proof -
    obtain u b vs' where vs: "vs = (u, b) # vs'" using \<open>vs \<noteq> []\<close> by (cases vs) auto
    then have "unat (b + 4) = unat b + 4"
      using assms(2,5) geo_bound [OF assms(2), of u b] unat_plus_small [of b 4] by simp
    then show ?thesis using vs assms(7) by auto
  qed
  ultimately show ?thesis unfolding links_def put_apply by argo
qed

text \<open>The words of the used blocks behind their headers: the contents of the blocks.\<close>

fun payload :: "nat \<Rightarrow> seg list \<Rightarrow> U32 set" where
  "payload e [] = {}"
| "payload e ((u, a) # xs) = (if u then {c. unat a + 8 \<le> unat c \<and> unat c < seg_end e xs} else {}) \<union> payload e xs"

lemma payload_append [simp]: "payload e (us @ vs) = payload (seg_end e vs) us \<union> payload e vs"
  by (induction us) (auto simp: seg_end_append)

lemma payload_range: "geo e xs \<Longrightarrow> c \<in> payload e xs \<Longrightarrow> seg_end e xs + 8 \<le> unat c \<and> unat c < e"
proof (induction xs)
  case (Cons x xs)
  obtain u a where x: "x = (u, a)" by (cases x)
  then show ?case using Cons seg_end_le [of e xs] by (auto split: if_splits)
qed simp

lemma payload_apart: "geo e xs \<Longrightarrow> (u, b) \<in> set xs \<Longrightarrow> c \<in> payload e xs \<Longrightarrow> unat c < unat b \<or> unat b + 8 \<le> unat c"
proof (induction xs)
  case (Cons x xs)
  obtain v a where x: "x = (v, a)" by (cases x)
  have g: "geo e xs" "unat a + 12 \<le> seg_end e xs" using Cons.prems(1) x by simp_all
  show ?case
  proof (cases "c \<in> payload e xs")
    case True
    then show ?thesis using Cons x g payload_range [OF g(1) True] by auto
  next
    case False
    then have c: "unat a + 8 \<le> unat c" "unat c < seg_end e xs" using Cons.prems(3) x by (auto split: if_splits)
    then show ?thesis using Cons.prems(2) x geo_bound [OF g(1), of u b] by auto
  qed
qed simp

lemma last_free_in: "last_free us \<noteq> 0 \<Longrightarrow> (False, last_free us) \<in> set us"
  by (cases us rule: split_last_free) auto

lemma links_payload:
  assumes "geo e us" "geo e' vs" "e \<le> seg_end e' vs" "e' < 2 ^ 32" "starts_used vs" "c \<in> payload e us \<union> payload e' vs"
  shows "links us mid vs m c = m c"
proof -
  have c: "unat c < e \<and> c \<in> payload e us \<or> seg_end e' vs + 8 \<le> unat c"
    using assms(6) payload_range [OF assms(1), of c] payload_range [OF assms(2), of c] by blast
  have hd: "c \<noteq> b" if "(u, b) \<in> set us" for u b
    using c payload_apart [OF assms(1) that, of c] geo_bound [OF assms(1) that] assms(3) by auto
  have "us \<noteq> [] \<Longrightarrow> c \<noteq> snd (last us)" using hd [of "fst (last us)" "snd (last us)"] by simp
  moreover have "last_free us \<noteq> 0 \<Longrightarrow> c \<noteq> last_free us" using hd last_free_in by blast
  moreover have "c \<noteq> snd (hd vs) + 4" if "vs \<noteq> []"
  proof -
    have "unat (snd (hd vs) + 4) = seg_end e' vs + 4"
      using starts_used_hd [OF assms(2,5) that] unat_plus_small [of "snd (hd vs)" 4] assms(4) by simp
    then show ?thesis using c assms(3) by auto
  qed
  ultimately show ?thesis unfolding links_def put_apply by argo
qed

text \<open>The memory has the new layout, and the blocks that stay in use keep their contents.\<close>

definition refit :: "nat \<Rightarrow> seg list \<Rightarrow> memory \<Rightarrow> seg list \<Rightarrow> U32 \<times> memory \<Rightarrow> bool" where
  "refit e xs m ys h \<longleftrightarrow> hrep e ys h \<and> (\<forall>c \<in> payload e xs \<inter> payload e ys. snd h c = m c)"

lemma splice_links:
  assumes rep: "hrep e (us @ mid @ vs) (f, m)" and ends: "ends_used us" "starts_used vs" "mid \<noteq> []" "mid' \<noteq> []"
    and lay: "snd (hd mid') = snd (hd mid)" "geo (seg_end e vs) mid'" "alt mid'"
    and new: "hsegs mm (last_seg us None) mid' (next_seg vs None) (next_free vs 0)"
    and out: "\<And>c. unat c < unat (snd (hd mid)) \<or> seg_end e vs \<le> unat c \<Longrightarrow> mm c = m c"
    and pay: "payload (seg_end e vs) mid = {} \<or> payload (seg_end e vs) mid' = {}"
  shows "refit e (us @ mid @ vs) m (us @ mid' @ vs) (next_free (us @ mid' @ vs) 0, links us mid' vs mm)"
proof -
  let ?a = "unat (snd (hd mid))"
  have se: "seg_end x mid = ?a" "seg_end x mid' = ?a" for x
    using lay(1) ends(3,4) by (cases mid; cases mid'; auto)+
  have g: "geo ?a us" "geo e vs" "e < 2 ^ 32" "?a \<le> seg_end e vs"
    using rep se seg_end_le [of "seg_end e vs" mid] by (auto simp: hrep_def geo_append seg_end_append)
  have E: "seg_end e vs < 2 ^ 32" using g seg_end_le [OF g(2)] by simp
  note fr = links_frame [OF g(1,2) ends(1) g(4,3)]
  have "hsegs (links us mid' vs mm) p mid' nx nf = hsegs mm p mid' nx nf" for p nx nf
    by (rule hsegs_cong) (use fr geo_cells [OF lay(2) E] se in auto)
  then have h: "hsegs (links us mid' vs mm) (last_seg us None) mid' (next_seg vs None) (next_free vs 0)"
    using new by simp
  have L: "us \<noteq> [] \<Longrightarrow> unat (snd (last us)) + 12 \<le> ?a" using ends_used_last [OF g(1) ends(1)] by simp
  have P: "last_free us \<noteq> 0 \<Longrightarrow> unat (last_free us) + 12 \<le> ?a \<and> us \<noteq> [] \<and> last_free us \<noteq> snd (last us)"
    using last_free_bound [OF g(1) ends(1)] by simp
  have B: "seg_end e vs = unat (snd (hd vs)) \<and> unat (snd (hd vs) + 4) = unat (snd (hd vs)) + 4" if "vs \<noteq> []"
    using starts_used_hd [OF g(2) ends(2) that] unat_plus_small [of "snd (hd vs)" 4] g(3) by simp
  have "hrep e (us @ mid' @ vs) (next_free (us @ mid' @ vs) 0, links us mid' vs mm)"
  proof (rule splice [OF rep ends lay h])
    show "us \<noteq> [] \<Longrightarrow> links us mid' vs mm (snd (last us)) = enc (Some (hd mid'))" by (simp add: links_def)
    show "last_free us \<noteq> 0 \<Longrightarrow> links us mid' vs mm (last_free us) = next_free mid' (next_free vs 0)"
      using P by (simp add: links_def)
    have "snd (hd vs) + 4 \<noteq> c" if "vs \<noteq> []" "unat c < unat (snd (hd vs))" for c using B [OF that(1)] that(2) by auto
    then show "vs \<noteq> [] \<Longrightarrow> links us mid' vs mm (snd (hd vs) + 4) = enc (Some (last mid'))"
      using L P B g(4) by (fastforce simp: links_def)
    show "unat c < unat (snd (hd mid)) \<Longrightarrow> last_free us = 0 \<or> c \<noteq> last_free us \<Longrightarrow> us \<noteq> [] \<Longrightarrow> c \<noteq> snd (last us)
        \<Longrightarrow> links us mid' vs mm c = m c" for c
      using out [of c] B g(4) by (auto simp: links_def)
    show "seg_end e vs \<le> unat c \<Longrightarrow> vs \<noteq> [] \<Longrightarrow> c \<noteq> snd (hd vs) + 4 \<Longrightarrow> links us mid' vs mm c = m c" for c
      using out [of c] L P g(4) by (auto simp: links_def)
  qed
  moreover have "links us mid' vs mm c = m c" if "c \<in> payload ?a us \<union> payload e vs" for c
    using links_payload [OF g(1,2,4,3) ends(2) that] out [of c] that payload_range [OF g(1), of c] payload_range [OF g(2), of c] by auto
  ultimately show ?thesis using pay se by (auto simp: refit_def seg_end_append)
qed

lemma next_free_last_free:
  assumes "geo e us"
  shows "last_free us = 0 \<Longrightarrow> next_free us x = x" "last_free us \<noteq> 0 \<Longrightarrow> next_free us x = next_free us y"
proof -
  have used: "\<forall>x \<in> set us. fst x \<Longrightarrow> next_free us x = x" by (induction us) auto
  show "last_free us = 0 \<Longrightarrow> next_free us x = x"
    using assms used by (cases us rule: split_last_free) (auto simp: geo_append)
  show "last_free us \<noteq> 0 \<Longrightarrow> next_free us x = next_free us y"
    by (cases us rule: split_last_free) (auto simp: next_free_append)
qed

lemma enc_used:
  assumes "a AND 3 = 0" shows "enc (Some (True, a)) = a OR 1" "enc (Some (True, a)) \<noteq> 0" "enc (Some (True, a)) - 1 = a"
  using mark_used [OF assms] by (simp_all add: enc_def)

text \<open>The pointers of a block between \<open>us\<close> and \<open>vs\<close> to its neighbours.\<close>

lemma enc_last:
  assumes "geo e us" "ends_used us"
  shows "enc (last_seg us None) = 0 \<longleftrightarrow> us = []" "us \<noteq> [] \<Longrightarrow> enc (last_seg us None) - 1 = snd (last us)"
proof -
  have "enc (last_seg us None) \<noteq> 0 \<and> enc (last_seg us None) - 1 = snd (last us)" if us: "us \<noteq> []"
    using ends_used_last(1) [OF assms us] enc_used [OF ends_used_last(3) [OF assms us]] us
    by (metis last_seg_def)
  then show "enc (last_seg us None) = 0 \<longleftrightarrow> us = []" "us \<noteq> [] \<Longrightarrow> enc (last_seg us None) - 1 = snd (last us)"
    by (auto simp: last_seg_def enc_def)
qed

lemma enc_next:
  assumes "geo e vs" "starts_used vs"
  shows "enc (next_seg vs None) = 0 \<longleftrightarrow> vs = []" "vs \<noteq> [] \<Longrightarrow> enc (next_seg vs None) - 1 = snd (hd vs)"
proof -
  have "enc (next_seg vs None) \<noteq> 0 \<and> enc (next_seg vs None) - 1 = snd (hd vs)" if vs: "vs \<noteq> []"
    using starts_used_hd(1,5) [OF assms vs] enc_used [OF starts_used_hd(3) [OF assms vs]] by metis
  then show "enc (next_seg vs None) = 0 \<longleftrightarrow> vs = []" "vs \<noteq> [] \<Longrightarrow> enc (next_seg vs None) - 1 = snd (hd vs)"
    by (auto simp: next_seg_def enc_def)
qed

text \<open>The pointers that \<open>links\<close> sets lie outside the header at \<open>a\<close> and are different.\<close>

lemma outside:
  assumes "geo (unat a) us" "geo e vs" "ends_used us" "starts_used vs" "unat (a::U32) + 12 \<le> seg_end e vs" "e < 2 ^ 32"
  shows "us \<noteq> [] \<Longrightarrow> snd (last us) \<noteq> a \<and> snd (last us) \<noteq> a + 4 \<and> snd (last us) \<noteq> a + 8"
    "last_free us \<noteq> 0 \<Longrightarrow> last_free us \<noteq> a \<and> last_free us \<noteq> a + 4 \<and> last_free us \<noteq> a + 8"
    "vs \<noteq> [] \<Longrightarrow> snd (hd vs) + 4 \<noteq> a \<and> snd (hd vs) + 4 \<noteq> a + 4 \<and> snd (hd vs) + 4 \<noteq> a + 8"
    "us \<noteq> [] \<Longrightarrow> vs \<noteq> [] \<Longrightarrow> snd (last us) \<noteq> snd (hd vs) + 4"
    "last_free us \<noteq> 0 \<Longrightarrow> vs \<noteq> [] \<Longrightarrow> last_free us \<noteq> snd (hd vs) + 4"
    "last_free us \<noteq> 0 \<Longrightarrow> us \<noteq> [] \<and> last_free us \<noteq> snd (last us)"
proof -
  have E: "seg_end e vs < 2 ^ 32" using assms(6) seg_end_le [OF assms(2)] by simp
  note ap = apart [OF assms(5) E]
  have B: "unat a + 12 \<le> unat (snd (hd vs) + 4) \<and> seg_end e vs \<le> unat (snd (hd vs) + 4)" if "vs \<noteq> []"
    using starts_used_hd [OF assms(2,4) that] unat_plus_small [of "snd (hd vs)" 4] assms(5,6) by simp
  note L = ends_used_last(2) [OF assms(1,3)] and P = last_free_bound [OF assms(1,3)]
  show "us \<noteq> [] \<Longrightarrow> snd (last us) \<noteq> a \<and> snd (last us) \<noteq> a + 4 \<and> snd (last us) \<noteq> a + 8" using L ap(1) by simp
  show "last_free us \<noteq> 0 \<Longrightarrow> last_free us \<noteq> a \<and> last_free us \<noteq> a + 4 \<and> last_free us \<noteq> a + 8" using P ap(1) by simp
  show "vs \<noteq> [] \<Longrightarrow> snd (hd vs) + 4 \<noteq> a \<and> snd (hd vs) + 4 \<noteq> a + 4 \<and> snd (hd vs) + 4 \<noteq> a + 8"
    using B by (intro ap(2)) simp
  show "us \<noteq> [] \<Longrightarrow> vs \<noteq> [] \<Longrightarrow> snd (last us) \<noteq> snd (hd vs) + 4" using L B by (intro neq_by_unat(1)) fastforce
  show "last_free us \<noteq> 0 \<Longrightarrow> vs \<noteq> [] \<Longrightarrow> last_free us \<noteq> snd (hd vs) + 4" using P(1) B by (intro neq_by_unat(1)) fastforce
  show "last_free us \<noteq> 0 \<Longrightarrow> us \<noteq> [] \<and> last_free us \<noteq> snd (last us)" using P by simp
qed

lemma put_elsewhere: "(b \<Longrightarrow> c \<noteq> x) \<Longrightarrow> put b x v m c = m c"
  by auto

lemma put_marked: "(w \<noteq> 0 \<Longrightarrow> w = x + 1) \<Longrightarrow> put (w \<noteq> 0) (w - 1) v m = put (w \<noteq> 0) x v m"
    "(w \<noteq> 0 \<Longrightarrow> w = x + 1) \<Longrightarrow> put (w \<noteq> 0) (w - 1 + 4) v m = put (w \<noteq> 0) (x + 4) v m"
  by (auto simp: put_def)

lemma kmalloc_whole_put:
  "kmalloc_take p a freeSize sz (f, m) =
    (let m1 = put (p \<noteq> 0) p (m a) m;
         m2 = put (m1 (a + 4) \<noteq> 0) (m1 (a + 4) - 1 + 4) (a OR 1) m1;
         m3 = put True a (m2 (a + 4)) m2;
         m4 = put True (a + 4) (m3 (a + 8)) m3
     in (if p \<noteq> 0 then f else m a, put (m4 (a + 8) \<noteq> 0) (m4 (a + 8) - 1) (a OR 1) m4))"
  if "freeSize - sz < 12"
  using that unfolding kmalloc_take_def kmalloc_whole_def Let_def put_def by auto

lemma kmalloc_whole_eval:
  assumes v: "m a = nf" "m (a + 4) = nx" "m (a + 8) = pv" "nx \<noteq> 0 \<Longrightarrow> nx = b + 1" "pv \<noteq> 0 \<Longrightarrow> pv = l + 1"
    and o: "p \<noteq> 0 \<Longrightarrow> p \<noteq> a \<and> p \<noteq> a + 4 \<and> p \<noteq> a + 8" "nx \<noteq> 0 \<Longrightarrow> b + 4 \<noteq> a \<and> b + 4 \<noteq> a + 4 \<and> b + 4 \<noteq> a + 8"
    and sz: "freeSize - sz < 12"
  shows "kmalloc_take p a freeSize sz (f, m) =
    (if p \<noteq> 0 then f else nf,
     put (pv \<noteq> 0) l (a OR 1) (put True (a + 4) pv (put True a nx
       (put (nx \<noteq> 0) (b + 4) (a OR 1) (put (p \<noteq> 0) p nf m)))))"
proof -
  define m1 where "m1 = put (p \<noteq> 0) p nf m"
  define m2 where "m2 = put (nx \<noteq> 0) (b + 4) (a OR 1) m1"
  define m3 where "m3 = put True a nx m2"
  define m4 where "m4 = put True (a + 4) pv m3"
  have 1: "m1 (a + 4) = nx" "m1 (a + 8) = pv" unfolding m1_def by (subst put_elsewhere; use v o in auto)+
  have 2: "m2 (a + 4) = nx" "m2 (a + 8) = pv" unfolding m2_def by (subst put_elsewhere; use 1 o in auto)+
  have 3: "m3 (a + 8) = pv" "m4 (a + 8) = pv" unfolding m4_def m3_def using 2 by simp_all
  have "put (nx \<noteq> 0) (nx - 1 + 4) (a OR 1) m1 = m2" unfolding m2_def by (rule put_marked(2)) (rule v)
  moreover have "put (pv \<noteq> 0) (pv - 1) (a OR 1) m4 = put (pv \<noteq> 0) l (a OR 1) m4" by (rule put_marked(1)) (rule v)
  ultimately show ?thesis
    unfolding kmalloc_whole_put [OF sz] Let_def v(1) m1_def [symmetric] 1 2 3 m2_def [symmetric] m3_def [symmetric] m4_def [symmetric]
    by (simp only: 2 3 m3_def [symmetric] m4_def [symmetric])
qed

lemma kmalloc_split_put:
  "kmalloc_take p a freeSize sz (f, m) =
    (let n = a + sz;
         m1 = put (p \<noteq> 0) p n m;
         m2 = put True (n + 8) (a OR 1) m1;
         m3 = put True (n + 4) (m2 (a + 4)) m2;
         m4 = put True n (m3 a) m3;
         m5 = put (m4 (a + 4) \<noteq> 0) (m4 (a + 4) - 1 + 4) n m4;
         m6 = put True a n m5;
         m7 = put True (a + 4) (m6 (a + 8)) m6
     in (if p \<noteq> 0 then f else n, put (m7 (a + 8) \<noteq> 0) (m7 (a + 8) - 1) (a OR 1) m7))"
  if "\<not> freeSize - sz < 12"
  by (cases "p = 0") (simp_all only: that kmalloc_take_def kmalloc_split_def put_def Let_def prod.case if_True if_False simp_thms)

lemma kmalloc_split_eval:
  assumes v: "m a = nf" "m (a + 4) = nx" "m (a + 8) = pv" "nx \<noteq> 0 \<Longrightarrow> nx = b + 1" "pv \<noteq> 0 \<Longrightarrow> pv = l + 1"
    and o: "p \<noteq> 0 \<Longrightarrow> p \<noteq> a \<and> p \<noteq> a + 4 \<and> p \<noteq> a + 8" "nx \<noteq> 0 \<Longrightarrow> b + 4 \<noteq> a \<and> b + 4 \<noteq> a + 4 \<and> b + 4 \<noteq> a + 8"
    and n: "n = a + sz" "\<And>c. c \<in> {n, n + 4, n + 8} \<Longrightarrow> c \<noteq> a \<and> c \<noteq> a + 4 \<and> c \<noteq> a + 8"
    and sz: "\<not> freeSize - sz < 12"
  shows "kmalloc_take p a freeSize sz (f, m) =
    (if p \<noteq> 0 then f else n,
     put (pv \<noteq> 0) l (a OR 1) (put True (a + 4) pv (put True a n (put (nx \<noteq> 0) (b + 4) n
       (put True n nf (put True (n + 4) nx (put True (n + 8) (a OR 1) (put (p \<noteq> 0) p n m))))))))"
proof -
  define m1 where "m1 = put (p \<noteq> 0) p n m"
  define m2 where "m2 = put True (n + 8) (a OR 1) m1"
  define m3 where "m3 = put True (n + 4) nx m2"
  define m4 where "m4 = put True n nf m3"
  define m5 where "m5 = put (nx \<noteq> 0) (b + 4) n m4"
  define m6 where "m6 = put True a n m5"
  define m7 where "m7 = put True (a + 4) pv m6"
  have n': "a \<noteq> n" "a + 4 \<noteq> n" "a + 8 \<noteq> n" "a \<noteq> n + 4" "a + 4 \<noteq> n + 4" "a + 8 \<noteq> n + 4" "a \<noteq> n + 8" "a + 4 \<noteq> n + 8" "a + 8 \<noteq> n + 8"
    using n(2) [of n] n(2) [of "n + 4"] n(2) [of "n + 8"] by auto
  have 1: "m1 a = nf" "m1 (a + 4) = nx" "m1 (a + 8) = pv" unfolding m1_def by (subst put_elsewhere; use v o in auto)+
  have 2: "m2 a = nf" "m2 (a + 4) = nx" "m2 (a + 8) = pv" unfolding m2_def by (subst put_elsewhere; use 1 n' in simp)+
  have 3: "m3 a = nf" "m3 (a + 4) = nx" "m3 (a + 8) = pv" unfolding m3_def by (subst put_elsewhere; use 2 n' in simp)+
  have 4: "m4 (a + 4) = nx" "m4 (a + 8) = pv" unfolding m4_def by (subst put_elsewhere; use 3 n' in simp)+
  have 5: "m5 (a + 8) = pv" unfolding m5_def by (subst put_elsewhere; use 4 o in auto)
  have 6: "m6 (a + 8) = pv" "m7 (a + 8) = pv" unfolding m7_def m6_def using 5 by simp_all
  have "put (nx \<noteq> 0) (nx - 1 + 4) n m4 = m5" unfolding m5_def by (rule put_marked(2)) (rule v)
  moreover have "put (pv \<noteq> 0) (pv - 1) (a OR 1) m7 = put (pv \<noteq> 0) l (a OR 1) m7" by (rule put_marked(1)) (rule v)
  ultimately show ?thesis
    unfolding kmalloc_split_put [OF sz] Let_def n(1) [symmetric] m1_def [symmetric] m2_def [symmetric]
    by (simp only: 2 3 4 5 6 m2_def [symmetric] m3_def [symmetric] m4_def [symmetric] m5_def [symmetric] m6_def [symmetric] m7_def [symmetric])
qed

text \<open>The order of writes to different places does not matter.\<close>

lemma put_swap: "(b \<Longrightarrow> b' \<Longrightarrow> x \<noteq> y) \<Longrightarrow> put b x v (put b' y w m) = put b' y w (put b x v m)"
  by (cases b; cases b') (auto simp: put_def fun_upd_twist)

lemma put_inner:
  assumes "geo (unat a) us" "geo e vs" "ends_used us" "starts_used vs" "unat a \<le> unat x" "unat x < seg_end e vs" "e < 2 ^ 32"
  shows "put True x v (put (vs \<noteq> []) (snd (hd vs) + 4) w m) = put (vs \<noteq> []) (snd (hd vs) + 4) w (put True x v m)"
    "put True x v (put (last_free us \<noteq> 0) (last_free us) w m) = put (last_free us \<noteq> 0) (last_free us) w (put True x v m)"
    "put (vs \<noteq> []) (snd (hd vs) + 4) v (put (last_free us \<noteq> 0) (last_free us) w m) =
       put (last_free us \<noteq> 0) (last_free us) w (put (vs \<noteq> []) (snd (hd vs) + 4) v m)"
proof -
  note P = last_free_bound(1) [OF assms(1,3)]
  have B: "seg_end e vs \<le> unat (snd (hd vs) + 4)" if "vs \<noteq> []"
    using starts_used_hd [OF assms(2,4) that] unat_plus_small [of "snd (hd vs)" 4] assms(7) by simp
  show "put True x v (put (vs \<noteq> []) (snd (hd vs) + 4) w m) = put (vs \<noteq> []) (snd (hd vs) + 4) w (put True x v m)"
    using B assms(6) by (intro put_swap neq_by_unat(1)) simp
  show "put True x v (put (last_free us \<noteq> 0) (last_free us) w m) = put (last_free us \<noteq> 0) (last_free us) w (put True x v m)"
    using P assms(5) by (intro put_swap neq_by_unat(2)) simp
  show "put (vs \<noteq> []) (snd (hd vs) + 4) v (put (last_free us \<noteq> 0) (last_free us) w m) =
      put (last_free us \<noteq> 0) (last_free us) w (put (vs \<noteq> []) (snd (hd vs) + 4) v m)"
    using P B assms(5,6) by (intro put_swap neq_by_unat(2)) fastforce
qed

text \<open>What the code reads in a free block, in the shape the evaluation needs.\<close>

lemma free_reads:
  assumes "hrep e (us @ (False, a) # vs) (f, m)"
  shows "geo (unat a) us" "geo e vs"
    "enc (next_seg vs None) \<noteq> 0 \<Longrightarrow> enc (next_seg vs None) = snd (hd vs) + 1"
    "enc (last_seg us None) \<noteq> 0 \<Longrightarrow> enc (last_seg us None) = snd (last us) + 1"
    "enc (next_seg vs None) \<noteq> 0 \<Longrightarrow> snd (hd vs) + 4 \<noteq> a \<and> snd (hd vs) + 4 \<noteq> a + 4 \<and> snd (hd vs) + 4 \<noteq> a + 8"
    "unat (a + 4) = unat a + 4" "unat (a + 8) = unat a + 8"
proof -
  note h = hrep_free [OF assms]
  show g: "geo (unat a) us" "geo e vs" using assms by (auto simp: hrep_def geo_append)
  note o = outside(3) [OF g h(1,2,5,7)]
  note el = enc_last [OF g(1) h(1)] and en = enc_next [OF g(2) h(2)]
  show "enc (next_seg vs None) \<noteq> 0 \<Longrightarrow> enc (next_seg vs None) = snd (hd vs) + 1" using en by (metis diff_add_cancel)
  show "enc (last_seg us None) \<noteq> 0 \<Longrightarrow> enc (last_seg us None) = snd (last us) + 1" using el by (metis diff_add_cancel)
  show "enc (next_seg vs None) \<noteq> 0 \<Longrightarrow> snd (hd vs) + 4 \<noteq> a \<and> snd (hd vs) + 4 \<noteq> a + 4 \<and> snd (hd vs) + 4 \<noteq> a + 8"
    using o en(1) by blast
  show "unat (a + 4) = unat a + 4" "unat (a + 8) = unat a + 8"
    using unat_plus_small [of a 4] unat_plus_small [of a 8] h(5-7) by auto
qed

lemma kmalloc_take_whole:
  assumes rep: "hrep e (us @ (False, a) # vs) (f, m)" and small: "freeSize - sz < 12"
  shows "refit e (us @ (False, a) # vs) m (us @ [(True, a)] @ vs) (kmalloc_take (last_free us) a freeSize sz (f, m))"
proof -
  note h = hrep_free [OF rep] and r = free_reads [OF rep]
  note o = outside(2) [OF r(1,2) h(1,2,5,7)] and nf = next_free_last_free [OF r(1)]
  note el = enc_last(1) [OF r(1) h(1)] and en = enc_next(1) [OF r(2) h(2)]
  note inner = put_inner(1,2) [OF r(1,2) h(1,2) _ _ h(7)] put_inner(3) [OF r(1,2) h(1,2) order_refl _ h(7)]
  let ?nx = "enc (next_seg vs None)" and ?pv = "enc (last_seg us None)"
  let ?mm = "put True (a + 4) ?pv (put True a ?nx m)"
  have "put (?pv \<noteq> 0) (snd (last us)) (a OR 1) (put True (a + 4) ?pv (put True a ?nx
      (put (?nx \<noteq> 0) (snd (hd vs) + 4) (a OR 1) (put (last_free us \<noteq> 0) (last_free us) (next_free vs 0) m)))) = links us [(True, a)] vs ?mm"
    using h(5) r(6) by (simp add: links_def el en inner enc_used(1) [OF h(3)] del: put_apply)
  moreover have "(if last_free us \<noteq> 0 then f else next_free vs 0) = next_free (us @ [(True, a)] @ vs) 0"
    using nf(1) nf(2) [of a "next_free vs 0"] h(11) by (simp add: next_free_append)
  ultimately have "kmalloc_take (last_free us) a freeSize sz (f, m) = (next_free (us @ [(True, a)] @ vs) 0, links us [(True, a)] vs ?mm)"
    using kmalloc_whole_eval [OF h(8-10) r(3,4) o r(5) small, of f] by presburger
  moreover have "refit e (us @ [(False, a)] @ vs) m (us @ [(True, a)] @ vs) (next_free (us @ [(True, a)] @ vs) 0, links us [(True, a)] vs ?mm)"
  proof (rule splice_links [OF _ h(1,2)])
    show "hrep e (us @ [(False, a)] @ vs) (f, m)" using rep by simp
    show "geo (seg_end e vs) [(True, a)]" using h by simp
    show "hsegs ?mm (last_seg us None) [(True, a)] (next_seg vs None) (next_free vs 0)" by (simp add: next_seg_def)
    show "unat c < unat (snd (hd [(False, a)])) \<or> seg_end e vs \<le> unat c \<Longrightarrow> ?mm c = m c" for c
      using apart(1,2) [of a "seg_end e vs" c] h by auto
  qed (simp_all add: alt_def)
  ultimately show ?thesis by simp
qed

lemma kmalloc_take_split:
  assumes rep: "hrep e (us @ (False, a) # vs) (f, m)" and big: "\<not> freeSize - sz < 12"
    and n: "n = a + sz" "unat a + 12 \<le> unat n" "unat n + 12 \<le> seg_end e vs" "n AND 3 = 0"
  shows "refit e (us @ (False, a) # vs) m (us @ [(True, a), (False, n)] @ vs) (kmalloc_take (last_free us) a freeSize sz (f, m))"
proof -
  note h = hrep_free [OF rep] and r = free_reads [OF rep]
  note o = outside(2) [OF r(1,2) h(1,2,5,7)] and nf = next_free_last_free [OF r(1)]
  note el = enc_last(1) [OF r(1) h(1)] and en = enc_next(1) [OF r(2) h(2)]
  note inner = put_inner(1,2) [OF r(1,2) h(1,2) _ _ h(7)] put_inner(3) [OF r(1,2) h(1,2) order_refl _ h(7)]
  let ?nx = "enc (next_seg vs None)" and ?pv = "enc (last_seg us None)"
  let ?mid = "[(True, a), (False, n)]"
  let ?mm = "put True (a + 4) ?pv (put True a n (put True n (next_free vs 0) (put True (n + 4) ?nx (put True (n + 8) (a OR 1) m))))"
  have nu: "unat (n + 4) = unat n + 4" "unat (n + 8) = unat n + 8"
    using unat_plus_small [of n 4] unat_plus_small [of n 8] h(6,7) n(3) by auto
  have na: "c \<noteq> a \<and> c \<noteq> a + 4 \<and> c \<noteq> a + 8" if "c \<in> {n, n + 4, n + 8}" for c
    using that apart(2) [of a "unat a + 12" c] nu n(2,3) h(6,7) by auto
  have en1: "enc (Some (False, n)) = n" by (simp add: enc_def)
  have "put (?pv \<noteq> 0) (snd (last us)) (a OR 1) (put True (a + 4) ?pv (put True a n
      (put (?nx \<noteq> 0) (snd (hd vs) + 4) n (put True n (next_free vs 0) (put True (n + 4) ?nx (put True (n + 8) (a OR 1)
        (put (last_free us \<noteq> 0) (last_free us) n m))))))) = links us ?mid vs ?mm"
    using h(5) r(6) n(2-4) nu by (simp add: links_def el en inner enc_used(1) [OF h(3)] en1 del: put_apply)
  moreover have "(if last_free us \<noteq> 0 then f else n) = next_free (us @ ?mid @ vs) 0"
    using nf(1) nf(2) [of a n] h(11) by (simp add: next_free_append)
  ultimately have "kmalloc_take (last_free us) a freeSize sz (f, m) = (next_free (us @ ?mid @ vs) 0, links us ?mid vs ?mm)"
    using kmalloc_split_eval [OF h(8-10) r(3,4) o r(5) n(1) na big, of f] by presburger
  moreover have "refit e (us @ [(False, a)] @ vs) m (us @ ?mid @ vs) (next_free (us @ ?mid @ vs) 0, links us ?mid vs ?mm)"
  proof (rule splice_links [OF _ h(1,2)])
    show "hrep e (us @ [(False, a)] @ vs) (f, m)" using rep by simp
    show "geo (seg_end e vs) ?mid" using h n by auto
    show "hsegs ?mm (last_seg us None) ?mid (next_seg vs None) (next_free vs 0)"
      using na [of n] na [of "n + 4"] na [of "n + 8"] by (simp add: next_seg_def en1 enc_used(1) [OF h(3)])
    show "unat c < unat (snd (hd [(False, a)])) \<or> seg_end e vs \<le> unat c \<Longrightarrow> ?mm c = m c" for c
      using apart(1,2) [of a "seg_end e vs" c] apart(1,2) [of n "seg_end e vs" c] h(5-7) n(2,3) by auto
  qed (simp_all add: alt_def)
  ultimately show ?thesis by simp
qed

text \<open>The block that is given away, and the free block that is left when it is large enough.\<close>

definition kcut :: "nat \<Rightarrow> nat \<Rightarrow> U32 \<Rightarrow> seg list" where
  "kcut sz E a = (True, a) # (if E - unat a - sz < 12 then [] else [(False, a + word_of_nat sz)])"

lemma and_3_iff: "a AND 3 = 0 \<longleftrightarrow> unat (a::U32) mod 4 = 0"
proof -
  have "a AND 3 = take_bit 2 a" by (simp add: take_bit_eq_mask mask_eq_exp_minus_1)
  then have "unat (a AND 3) = unat a mod 4" by (simp only: unsigned_take_bit_eq) (simp add: take_bit_eq_mod)
  then show ?thesis by (metis unat_eq_0)
qed

lemma kmalloc_take_refines:
  assumes rep: "hrep e (us @ (False, a) # vs) (f, m)"
    and sz: "12 \<le> sz" "sz mod 4 = 0" "unat a + sz \<le> seg_end e vs"
  shows "refit e (us @ (False, a) # vs) m (us @ kcut sz (seg_end e vs) a @ vs)
    (kmalloc_take (last_free us) a (word_of_nat (seg_end e vs - unat a)) (word_of_nat sz) (f, m))"
proof -
  note h = hrep_free [OF rep]
  let ?E = "seg_end e vs" and ?n = "a + word_of_nat sz"
  let ?fs = "word_of_nat (?E - unat a) :: U32" and ?sz = "word_of_nat sz :: U32"
  have d: "unat (?fs - ?sz) = ?E - unat a - sz"
    using sz h(6,7) by (simp add: unat_sub_if' unat_of_nat)
  show ?thesis
  proof (cases "?E - unat a - sz < 12")
    case True
    then show ?thesis
      using kmalloc_take_whole [OF rep, of ?fs ?sz] d by (simp add: word_less_nat_alt kcut_def)
  next
    case False
    have n: "unat ?n = unat a + sz" using sz(3) h(6,7) by (intro unat_plus_small) simp
    have "?n AND 3 = 0" using n h(3) sz(2) by (simp add: and_3_iff mod_add_eq [symmetric])
    then show ?thesis
      using kmalloc_take_split [OF rep, of ?fs ?sz ?n] d n False sz by (simp add: word_less_nat_alt kcut_def)
  qed
qed

lemma last_free_snoc [simp]: "last_free (us @ [(u, a)]) = (if u then last_free us else a)"
  by (simp add: last_free_def)

lemma word_of_nat_le:
  "x < 2 ^ 32 \<Longrightarrow> y < 2 ^ 32 \<Longrightarrow> (word_of_nat x :: U32) \<le> word_of_nat y \<longleftrightarrow> x \<le> y"
  by (simp add: word_le_nat_alt unat_of_nat)

text \<open>The allocator's answer: the address, 0 when no free block is large enough, and the new layout.\<close>

definition kalloc_result :: "nat \<Rightarrow> nat \<Rightarrow> seg list \<Rightarrow> U32 \<times> seg list" where
  "kalloc_result sz e xs = (case kalloc sz e xs of None \<Rightarrow> (0, xs) | Some r \<Rightarrow> r)"

lemma kalloc_result_simps:
  "kalloc_result sz e [] = (0, [])"
  "kalloc_result sz e ((u, a) # xs) =
     (if \<not> u \<and> sz \<le> seg_end e xs - unat a then (a + 8, kcut sz (seg_end e xs) a @ xs)
      else apsnd ((#) (u, a)) (kalloc_result sz e xs))"
  by (auto simp: kalloc_result_def kcut_def split: option.splits)

lemma free_size:
  assumes "hrep e (us @ (False, a) # vs) (f, m)"
  shows "(if m (a + 4) = 0 then word_of_nat e - a else m (a + 4) - 1 - a) = word_of_nat (seg_end e vs - unat a)"
proof -
  note h = hrep_free [OF assms] and r = free_reads [OF assms]
  note en = enc_next [OF r(2) h(2)]
  have "word_of_nat (seg_end e vs - unat a) = (word_of_nat (seg_end e vs) - word_of_nat (unat a) :: U32)"
    using h(5) by (intro of_nat_diff) simp
  then have s: "word_of_nat (seg_end e vs - unat a) = (word_of_nat (seg_end e vs) - a :: U32)" by simp
  show ?thesis
  proof (cases "vs = []")
    case False
    then have "word_of_nat (seg_end e vs) = snd (hd vs)" using starts_used_hd(2) [OF r(2) h(2)] by simp
    then show ?thesis using s False en h(9) by simp
  qed (use s en h(9) in simp)
qed

lemma kmalloc_loop_refines:
  assumes "hrep e (us @ vs) h" "12 \<le> sz" "sz mod 4 = 0" "sz < 2 ^ 32" "length vs \<le> k"
  shows "\<exists>h'. kmalloc_loop k (word_of_nat e) (word_of_nat sz) (last_free us) (next_free vs 0) h =
      Some (fst (kalloc_result sz e vs), h') \<and> refit e (us @ vs) (snd h) (us @ snd (kalloc_result sz e vs)) h'"
  using assms
proof (induction vs arbitrary: us k)
  case Nil
  then show ?case by (simp add: kmalloc_loop.simps kalloc_result_simps refit_def)
next
  case (Cons x vs)
  obtain u a where x: "x = (u, a)" by (cases x)
  have rep: "hrep e ((us @ [(u, a)]) @ vs) h" using Cons.prems(1) x by simp
  note IH = Cons.IH [OF rep Cons.prems(2-4)]
  obtain f m where h: "h = (f, m)" by (cases h)
  show ?case
  proof (cases u)
    case True
    then show ?thesis using IH [of k] Cons.prems(5) x by (auto simp: kalloc_result_simps)
  next
    case False
    obtain k' where k: "k = Suc k'" "length vs \<le> k'" using Cons.prems(5) by (cases k) auto
    have rf: "hrep e (us @ (False, a) # vs) (f, m)" using Cons.prems(1) x h False by simp
    note hf = hrep_free [OF rf]
    have fit: "(word_of_nat sz :: U32) \<le> word_of_nat (seg_end e vs - unat a) \<longleftrightarrow> sz \<le> seg_end e vs - unat a"
      using hf(5-7) Cons.prems(4) by (intro word_of_nat_le) simp_all
    have loop: "kmalloc_loop k (word_of_nat e) (word_of_nat sz) (last_free us) (next_free (x # vs) 0) h =
       (if sz \<le> seg_end e vs - unat a
        then Some (a + 8, kmalloc_take (last_free us) a (word_of_nat (seg_end e vs - unat a)) (word_of_nat sz) h)
        else kmalloc_loop k' (word_of_nat e) (word_of_nat sz) a (next_free vs 0) h)"
      using free_size [OF rf] hf(4,8) k(1) x False h fit by (simp add: kmalloc_loop.simps [of "Suc k'"] Let_def)
    show ?thesis
    proof (cases "sz \<le> seg_end e vs - unat a")
      case True
      then show ?thesis using kmalloc_take_refines [OF rf Cons.prems(2,3)] loop x False h hf(5)
        by (simp add: kalloc_result_simps)
    next
      case no: False
      then show ?thesis using IH [OF k(2)] loop x False by (auto simp: kalloc_result_simps)
    qed
  qed
qed

section \<open>Release\<close>

text \<open>What a used block \<open>a\<close> between \<open>us\<close> and \<open>vs\<close> knows of its neighbours.\<close>

lemma hrep_used:
  assumes "hrep e (us @ (True, a) # vs) (f, m)"
  shows "a AND 3 = 0" "a \<noteq> 0" "unat a + 12 \<le> seg_end e vs" "seg_end e vs \<le> e" "e < 2 ^ 32"
    "m a = enc (next_seg vs None)" "m (a + 4) = enc (last_seg us None)" "f = next_free us (next_free vs 0)"
    "geo (unat a) us" "geo e vs"
  using assms seg_end_le [of e vs] by (auto simp: hrep_def geo_append hsegs_append next_free_append)

lemma enc_even:
  assumes "a AND 3 = 0"
  shows "enc (Some (u, a)) AND 1 = 0 \<longleftrightarrow> \<not> u"
  using mark_used [OF assms] by (simp add: enc_def)

lemma pre_fmb_loop_refines:
  assumes "hrep e (us @ (True, a) # vs) (f, m)" "length us \<le> k"
  shows "pre_fmb_loop k m a = Some (last_free us)"
  using assms
proof (induction us arbitrary: a vs k rule: rev_induct)
  case Nil
  then show ?case using hrep_used(7) [OF Nil.prems(1)]
    by (simp add: pre_fmb_loop.simps last_free_def last_seg_def enc_def)
next
  case (snoc x us)
  obtain u l where x: "x = (u, l)" by (cases x)
  have g: "l AND 3 = 0" using snoc.prems(1) x by (simp add: hrep_def geo_append)
  have v: "m (a + 4) = enc (Some (u, l))" using hrep_used(7) [OF snoc.prems(1)] x by (simp add: last_seg_def)
  show ?case
  proof (cases u)
    case True
    obtain k' where k: "k = Suc k'" "length us \<le> k'" using snoc.prems(2) by (cases k) auto
    have "m (a + 4) AND 1 \<noteq> 0" "m (a + 4) - 1 = l" using v enc_even [OF g] enc_used [OF g] True by auto
    then show ?thesis
      using snoc.IH [of l "(True, a) # vs" k'] snoc.prems k x True by (simp add: pre_fmb_loop.simps [of "Suc k'"])
  next
    case False
    then show ?thesis using v x enc_even [OF g, of False] by (simp add: pre_fmb_loop.simps enc_def)
  qed
qed

lemma geo_distinct: "geo e (us @ (u, a) # vs) \<Longrightarrow> x \<in> set us \<union> set vs \<Longrightarrow> snd x \<noteq> a"
proof -
  assume g: "geo e (us @ (u, a) # vs)" and x: "x \<in> set us \<union> set vs"
  obtain v c where c: "x = (v, c)" by (cases x)
  have "geo (unat a) us" "geo e vs" "unat a + 12 \<le> seg_end e vs" using g by (auto simp: geo_append)
  then have "unat c \<noteq> unat a" using geo_bound [of "unat a" us v c] geo_bound [of e vs v c] x c by auto
  then show "snd x \<noteq> a" using c by auto
qed

lemma check_before_finds:
  assumes "hrep e (us @ ((True, a) # ws) @ vs) (g, m)" "\<forall>x \<in> set ws. fst x" "length ws \<le> k"
  shows "check_before k m a (snd (last ((True, a) # ws))) = Some True"
  using assms
proof (induction ws arbitrary: vs k rule: rev_induct)
  case Nil
  then show ?case by (simp add: check_before.simps)
next
  case (snoc x ws)
  obtain l where x: "x = (True, l)" using snoc.prems(2) by (cases x) auto
  obtain k' where k: "k = Suc k'" "length ws \<le> k'" using snoc.prems(3) by (cases k) auto
  have rep: "hrep e ((us @ (True, a) # ws) @ (True, l) # vs) (g, m)" using snoc.prems(1) x by simp
  note h = hrep_used [OF rep]
  have "geo e ((us @ (True, a) # ws) @ (True, l) # vs)" using rep by (simp add: hrep_def)
  from geo_distinct [OF this, of "(True, a)"] have ne: "l \<noteq> a" by auto
  have "last ((True, a) # ws) = (True, snd (last ((True, a) # ws)))" "snd (last ((True, a) # ws)) AND 3 = 0"
    using ends_used_last [OF h(9)] snoc.prems(2) by (auto simp: ends_used_def)
  then have "m (l + 4) - 1 = snd (last ((True, a) # ws))"
    using h(7) enc_used(3) by (metis last_seg_def append_is_Nil_conv last_appendR list.distinct(1))
  then show ?case using snoc.IH [of "(True, l) # vs" k'] snoc.prems k x ne h(2)
    by (simp add: check_before.simps [of "Suc k'"])
qed

lemma check_behind_finds:
  assumes "hrep e (us @ (True, b) # vs) (g, m)" "a = b \<or> (True, a) \<in> set vs" "length vs \<le> k"
  shows "check_behind k m a b = Some True"
  using assms
proof (induction vs arbitrary: us b k rule: length_induct)
  case (1 vs)
  note h = hrep_used [OF 1(2)]
  show ?case
  proof (cases "b = a")
    case False
    then have "(True, a) \<in> set vs" using 1(3) by simp
    then obtain u n vs' where vs: "vs = (u, n) # vs'" by (cases vs) auto
    obtain k' where k: "k = Suc k'" "length vs' \<le> k'" using 1(4) vs by (cases k) auto
    have n: "n AND 3 = 0" using h(10) vs by simp
    have mb: "m b = enc (Some (u, n))" using h(6) vs by (simp add: next_seg_def)
    show ?thesis
    proof (cases u)
      case True
      have "check_behind k' m a n = Some True"
        using 1(1) [rule_format, of vs' "us @ [(True, b)]" n k'] 1(2) \<open>(True, a) \<in> set vs\<close> vs k True by auto
      then show ?thesis using False h(2) k(1) mb enc_even [OF n, of u] enc_used(3) [OF n] True
        by (simp add: check_behind.simps [of "Suc k'"])
    next
      case free: False
      then have "(True, a) \<in> set vs'" using \<open>(True, a) \<in> set vs\<close> vs by auto
      have rf: "hrep e ((us @ [(True, b)]) @ (False, n) # vs') (g, m)" using 1(2) vs free by simp
      note hf = hrep_free [OF rf]
      obtain c vs'' where vs': "vs' = (True, c) # vs''"
        using hf(2) \<open>(True, a) \<in> set vs'\<close> by (cases vs') (auto simp: starts_used_def)
      have "c AND 3 = 0" using h(10) vs vs' by simp
      then have "m (n + 4) - 1 = c" using hf(9) vs' enc_used(3) by (simp add: next_seg_def)
      moreover have "check_behind k' m a c = Some True"
        using 1(1) [rule_format, of vs'' "us @ [(True, b), (False, n)]" c k'] 1(2) \<open>(True, a) \<in> set vs'\<close> vs vs' k free by auto
      moreover have "m b = n" using mb free by (simp add: enc_def)
      ultimately show ?thesis using False h(2) k(1) enc_even [OF n, of u] free mb
        by (simp add: check_behind.simps [of "Suc k'"])
    qed
  qed (simp add: check_behind.simps)
qed

lemma split_next_free:
  obtains (used) "\<forall>x \<in> set xs. fst x" "next_free xs nf = nf"
  | (free) us f vs where "xs = us @ (False, f) # vs" "\<forall>x \<in> set us. fst x" "next_free xs nf = f"
proof (cases "\<forall>x \<in> set xs. fst x")
  case True
  moreover then have "next_free xs nf = nf" by (induction xs) auto
  ultimately show ?thesis by (rule used)
next
  case False
  then obtain us x vs where s: "xs = us @ x # vs" "\<not> fst x" "\<forall>y \<in> set us. \<not> \<not> fst y"
    using split_list_first_prop [of xs "\<lambda>x. \<not> fst x"] by blast
  moreover obtain f where "x = (False, f)" using s(2) by (cases x) auto
  moreover have "next_free us c = c" for c using s(3) by (induction us) auto
  ultimately show ?thesis using free [of us f vs] by (simp add: next_free_append)
qed

lemma kfree_check_accepts:
  assumes rep: "hrep e (us @ (True, a) # vs) (f, m)" and len: "length (us @ (True, a) # vs) \<le> KHEAP_SIZE"
    and start: "unat start = seg_end e (us @ (True, a) # vs)"
  shows "kfree_check start a (f, m) = Some True"
proof -
  note h = hrep_used [OF rep]
  have g: "geo e (us @ (True, a) # vs)" using rep by (simp add: hrep_def)
  show ?thesis
  proof (cases us "next_free vs 0" rule: split_next_free)
    case (free u1 f' u2)
    then have f: "f = f'" using h(8) by simp
    have rf: "hrep e (u1 @ (False, f) # (u2 @ (True, a) # vs)) (f, m)" using rep free(1) f by simp
    note hf = hrep_free [OF rf] and rd = free_reads [OF rf]
    obtain b ys where ys: "u2 @ (True, a) # vs = (True, b) # ys"
      using hf(2) by (cases "u2 @ (True, a) # vs") (auto simp: starts_used_def)
    have "b AND 3 = 0" using rd(2) ys by simp
    then have mf: "m (f + 4) \<noteq> 0" "m (f + 4) - 1 = b" using hf(9) ys enc_used by (simp_all add: next_seg_def)
    have "(True, a) \<in> set ((True, b) # ys)" unfolding ys [symmetric] by simp
    moreover have "length ys \<le> KHEAP_SIZE" using len ys free(1) arg_cong [OF ys, of length] by simp
    ultimately have "check_behind KHEAP_SIZE m a b = Some True"
      using check_behind_finds [of e "u1 @ [(False, f)]" b ys f m a KHEAP_SIZE] rf ys by auto
    moreover have "unat f < unat a" using geo_bound [OF h(9), of False f] free(1) f by simp
    ultimately show ?thesis using mf hf(4) by (simp add: kfree_check_def word_less_nat_alt)
  next
    case used
    then have f: "f = next_free vs 0" using h(8) by simp
    show ?thesis
    proof (cases vs "0::U32" rule: split_next_free)
      case (free ws f' vs')
      then have rf: "hrep e ((us @ (True, a) # ws) @ (False, f) # vs') (f, m)" using rep f by simp
      note hf = hrep_free [OF rf] and rd = free_reads [OF rf]
      have "m (f + 8) - 1 = snd (last ((True, a) # ws))"
        using hf(10) enc_last(2) [OF rd(1) hf(1)] by simp
      moreover have "check_before KHEAP_SIZE m a (snd (last ((True, a) # ws))) = Some True"
        using check_before_finds [of e us a ws "(False, f) # vs'" f m] rf free(1,2) len by simp
      moreover have "unat a < unat f"
        using g free f geo_bound [of e vs False f] by (auto simp: geo_append)
      ultimately show ?thesis by (simp add: kfree_check_def word_less_nat_alt)
    next
      case all: used
      then have "f = 0" using f by simp
      obtain b ys where ys: "us @ (True, a) # vs = (True, b) # ys"
        using used(1) by (cases us) auto
      have "start = b" using start ys by (simp add: word_unat_eq_iff)
      moreover have "(True, a) \<in> set ((True, b) # ys)" unfolding ys [symmetric] by simp
      moreover have "length ys \<le> KHEAP_SIZE" using len arg_cong [OF ys, of length] by simp
      ultimately have "check_behind KHEAP_SIZE m a start = Some True"
        using check_behind_finds [of e "[]" b ys f m a KHEAP_SIZE] rep ys by auto
      then show ?thesis using \<open>f = 0\<close> by (simp add: kfree_check_def)
    qed
  qed
qed

text \<open>The memory after the blocks from \<open>c\<close> up to \<open>vs\<close> have become one free block, before its neighbours learn of it.\<close>

definition freed :: "seg list \<Rightarrow> U32 \<Rightarrow> seg list \<Rightarrow> memory \<Rightarrow> memory" where
  "freed us c vs m =
     put True c (next_free vs 0) (put True (c + 4) (enc (next_seg vs None)) (put True (c + 8) (enc (last_seg us None))
       (put (last_free us \<noteq> 0) (last_free us) c m)))"

definition kfree_tail :: "U32 \<times> U32 \<times> memory \<Rightarrow> U32 \<times> memory" where
  "kfree_tail r =
     (case r of (cur, f, m) \<Rightarrow>
        (let m = put (m (cur + 8) \<noteq> 0) (m (cur + 8) - 1) cur m;
             m = put (m (cur + 4) \<noteq> 0) (m (cur + 4) - 1 + 4) cur m
         in (f, m)))"

lemma kfree_tail_refines:
  assumes rep: "hrep e (us @ mid @ vs) (f, m)" and ends: "ends_used us" "starts_used vs" "mid \<noteq> []"
  shows "refit e (us @ mid @ vs) m (us @ [(False, snd (hd mid))] @ vs) (kfree_tail (snd (hd mid), next_free us (snd (hd mid)), freed us (snd (hd mid)) vs m))"
proof -
  obtain u c ms where mid: "mid = (u, c) # ms" using ends(3) by (cases mid) auto
  have g: "geo (unat c) us" "geo e vs" "e < 2 ^ 32" "c AND 3 = 0" "c \<noteq> 0" "unat c + 12 \<le> seg_end e vs" "seg_end e vs \<le> e"
    using rep mid seg_end_le [of e vs] seg_end_le [of "seg_end e vs" ms] by (auto simp: hrep_def geo_append seg_end_append)
  note o = outside [OF g(1,2) ends(1,2) g(6,3)]
  note el = enc_last [OF g(1) ends(1)] and en = enc_next [OF g(2) ends(2)]
  note inner = put_inner(1,2) [OF g(1,2) ends(1,2) _ _ g(3)] put_inner(3) [OF g(1,2) ends(1,2) order_refl _ g(3)]
  let ?nx = "enc (next_seg vs None)" and ?pv = "enc (last_seg us None)"
  let ?mm = "put True c (next_free vs 0) (put True (c + 4) ?nx (put True (c + 8) ?pv m))"
  have ec: "enc (Some (False, c)) = c" by (simp add: enc_def)
  have cu: "unat (c + 4) = unat c + 4" "unat (c + 8) = unat c + 8"
    using unat_plus_small [of c 4] unat_plus_small [of c 8] g(3,6,7) by auto
  have b: "?nx \<noteq> 0 \<Longrightarrow> ?nx = snd (hd vs) + 1" using en by (metis diff_add_cancel)
  have l: "?pv \<noteq> 0 \<Longrightarrow> ?pv = snd (last us) + 1" using el by (metis diff_add_cancel)
  have b: "put (?nx \<noteq> 0) (?nx - 1 + 4) c m' = put (?nx \<noteq> 0) (snd (hd vs) + 4) c m'" for m' by (rule put_marked(2)) (rule b)
  have l: "put (?pv \<noteq> 0) (?pv - 1) c m' = put (?pv \<noteq> 0) (snd (last us)) c m'" for m' by (rule put_marked(1)) (rule l)
  have v: "freed us c vs m (c + 8) = ?pv" "put (?pv \<noteq> 0) (snd (last us)) c (freed us c vs m) (c + 4) = ?nx"
    using o(1) el(1) by (auto simp: freed_def)
  have "kfree_tail (c, next_free us c, freed us c vs m) =
      (next_free us c, put (?nx \<noteq> 0) (snd (hd vs) + 4) c (put (?pv \<noteq> 0) (snd (last us)) c (freed us c vs m)))"
    unfolding kfree_tail_def prod.case Let_def v(1) l v(2) b ..
  moreover have "put (?nx \<noteq> 0) (snd (hd vs) + 4) c (put (?pv \<noteq> 0) (snd (last us)) c (freed us c vs m)) = links us [(False, c)] vs ?mm"
  proof -
    have "put (?nx \<noteq> 0) (snd (hd vs) + 4) c (put (?pv \<noteq> 0) (snd (last us)) c m') =
        put (?pv \<noteq> 0) (snd (last us)) c (put (?nx \<noteq> 0) (snd (hd vs) + 4) c m')" for m'
      using o(4) el(1) en(1) by (intro put_swap) metis
    then show ?thesis
      using g(6) cu by (simp add: links_def freed_def el(1) en(1) inner ec del: put_apply)
  qed
  moreover have "refit e (us @ mid @ vs) m (us @ [(False, c)] @ vs) (next_free (us @ [(False, c)] @ vs) 0, links us [(False, c)] vs ?mm)"
  proof (rule splice_links [OF rep ends])
    show "hsegs ?mm (last_seg us None) [(False, c)] (next_seg vs None) (next_free vs 0)" by (simp add: next_seg_def)
    show "unat x < unat (snd (hd mid)) \<or> seg_end e vs \<le> unat x \<Longrightarrow> ?mm x = m x" for x
      using apart(1,2) [of c "seg_end e vs" x] g mid by auto
  qed (use mid g in \<open>simp_all add: alt_def\<close>)
  ultimately show ?thesis using mid by (simp add: next_free_append)
qed

lemma kfree_release_put:
  "kfree_release a h =
     (let m = snd h;
          r = (if m a AND 1 = 0 \<and> m (a + 4) AND 1 = 0 then Some (kfree_both a h)
               else if m (a + 4) AND 1 = 0 then Some (kfree_before a h)
               else if m a AND 1 = 0 then kfree_behind a h
               else kfree_none a h)
      in map_option kfree_tail r)"
  unfolding kfree_release_def kfree_tail_def put_def Let_def by (simp split: option.split prod.split)

lemma put_same: "(b \<Longrightarrow> m x = v) \<Longrightarrow> put b x v m = m"
  by (auto simp: put_def)

lemma upd_put: "m(x := v) = put True x v m"
  by (simp add: put_def)

lemma put_offsets [simp]:
  "put True (a + 4) v (put True a w m) = put True a w (put True (a + 4) v m)"
  "put True (a + 8) v (put True a w m) = put True a w (put True (a + 8) v m)"
  "put True (a + 8) v (put True (a + 4) w m) = put True (a + 4) w (put True (a + 8) v m)"
  by (rule put_swap; simp)+

lemma last_free_points:
  assumes "hsegs m p us nx nf" "last_free us \<noteq> 0"
  shows "m (last_free us) = nf"
proof (cases us rule: split_last_free)
  case (free us' f vs)
  then have "next_free vs nf = nf" by (cases vs nf rule: split_next_free) auto
  then show ?thesis using assms(1) free by (simp add: hsegs_append)
qed (use assms(2) in simp)

text \<open>The free block in front of a used block.\<close>

lemma free_before:
  assumes "hrep e ((us @ [(False, c)]) @ (True, a) # vs) (f, m)"
  shows "m c = next_free vs 0" "m (a + 4) = c" "c \<noteq> 0" "c AND 1 = 0" "f = next_free us c" "ends_used us"
    "put True c (next_free vs 0) m = m" "put True (c + 8) (enc (last_seg us None)) m = m"
    "put (last_free us \<noteq> 0) (last_free us) c m = m" "unat c + 12 \<le> unat a"
proof -
  have rep: "hrep e (us @ (False, c) # (True, a) # vs) (f, m)" using assms by simp
  note h = hrep_free [OF rep]
  show "m c = next_free vs 0" "c \<noteq> 0" "f = next_free us c" "ends_used us" using h by simp_all
  show "c AND 1 = 0" using mark_used [OF h(3)] by simp
  show "m (a + 4) = c" using hrep_used(7) [OF assms] by (simp add: last_seg_def enc_def)
  show "put True c (next_free vs 0) m = m" "put True (c + 8) (enc (last_seg us None)) m = m" using h by (auto intro!: put_same)
  have "hsegs m None us (Some (False, c)) c" using rep by (simp add: hrep_def hsegs_append next_seg_def)
  from last_free_points [OF this] show "put (last_free us \<noteq> 0) (last_free us) c m = m" by (rule put_same)
  show "unat c + 12 \<le> unat a" using h(5) by simp
qed

text \<open>The free block behind a used block.\<close>

lemma free_behind:
  assumes "hrep e (us @ (True, a) # (False, n) # vs) (f, m)"
  shows "m a = n" "n \<noteq> 0" "n AND 1 = 0" "m n = next_free vs 0" "m (n + 4) = enc (next_seg vs None)" "unat a + 12 \<le> unat n"
    "unat n + 12 < 2 ^ 32" "starts_used vs"
proof -
  have rep: "hrep e ((us @ [(True, a)]) @ (False, n) # vs) (f, m)" using assms by simp
  note h = hrep_free [OF rep] and u = hrep_used [OF assms]
  show "m n = next_free vs 0" "n \<noteq> 0" "m (n + 4) = enc (next_seg vs None)" "starts_used vs" using h by simp_all
  show "n AND 1 = 0" using mark_used [OF h(3)] by simp
  show "m a = n" using u(6) by (simp add: next_seg_def enc_def)
  show "unat a + 12 \<le> unat n" "unat n + 12 < 2 ^ 32" using u(3) h by simp_all
qed

lemma kfree_both_first:
  "hrep e ((True, a) # []) (f, m) \<Longrightarrow> kfree_both a (f, m) = (a, a, freed [] a [] m)"
  "hrep e ((True, a) # (False, n) # vs) (f, m) \<Longrightarrow> kfree_both a (f, m) = (a, a, freed [] a vs m)"
proof -
  assume rep: "hrep e ((True, a) # []) (f, m)"
  have "m a = 0" "m (a + 4) = 0" using hrep_used [of e "[]" a "[]" f m] rep by (simp_all add: next_seg_def last_seg_def enc_def)
  then show "kfree_both a (f, m) = (a, a, freed [] a [] m)"
    by (simp add: kfree_both_def freed_def next_seg_def last_seg_def last_free_def enc_def upd_put put_same [of False])
next
  assume rep: "hrep e ((True, a) # (False, n) # vs) (f, m)"
  note n = free_behind [of e "[]" a n vs f m, simplified, OF rep]
  have "m (a + 4) = 0" using hrep_used [of e "[]" a "(False, n) # vs" f m] rep by (simp add: last_seg_def enc_def)
  moreover have "n + 4 \<noteq> a" using n(6,7) unat_plus_small [of n 4] by auto
  ultimately show "kfree_both a (f, m) = (a, a, freed [] a vs m)"
    using n(1,2,4,5)
    by (simp add: kfree_both_def freed_def last_seg_def last_free_def enc_def [of None] upd_put put_same [of False] Let_def)
qed

lemma kfree_both_behind:
  "hrep e ((us @ [(False, c)]) @ (True, a) # []) (f, m) \<Longrightarrow> kfree_both a (f, m) = (c, f, freed us c [] m)"
  "hrep e ((us @ [(False, c)]) @ (True, a) # (False, n) # vs) (f, m) \<Longrightarrow> kfree_both a (f, m) = (c, f, freed us c vs m)"
proof -
  assume rep: "hrep e ((us @ [(False, c)]) @ (True, a) # []) (f, m)"
  note c = free_before [OF rep]
  have "m a = 0" using hrep_used(6) [OF rep] by (simp add: next_seg_def enc_def)
  then show "kfree_both a (f, m) = (c, f, freed us c [] m)"
    using c(2,3,8,9) by (simp add: kfree_both_def freed_def next_seg_def enc_def [of None] upd_put Let_def)
next
  assume rep: "hrep e ((us @ [(False, c)]) @ (True, a) # (False, n) # vs) (f, m)"
  note c = free_before [OF rep] and n = free_behind [OF rep]
  have "n + 4 \<noteq> c" using c(10) n(6,7) unat_plus_small [of n 4] by auto
  then show "kfree_both a (f, m) = (c, f, freed us c vs m)"
    using c(2,3,8,9) n(1,2,4,5) by (simp add: kfree_both_def freed_def upd_put Let_def)
qed

lemma kfree_before_first:
  assumes "hrep e ((True, a) # (True, b) # vs) (f, m)"
  shows "kfree_before a (f, m) = (a, a, freed [] a ((True, b) # vs) m)"
proof -
  have "hrep e ([] @ (True, a) # (True, b) # vs) (f, m)" using assms by simp
  note h = hrep_used [OF this]
  have "m (a + 4) = 0" using h by (simp add: last_seg_def enc_def)
  then show ?thesis
    using h(6,8) by (simp add: kfree_before_def freed_def last_free_def last_seg_def enc_def [of None] upd_put Let_def put_same [of False])
qed

lemma kfree_before_behind:
  assumes "hrep e ((us @ [(False, c)]) @ (True, a) # (True, b) # vs) (f, m)"
  shows "kfree_before a (f, m) = (c, f, freed us c ((True, b) # vs) m)"
proof -
  note h = hrep_used [OF assms] and c = free_before [OF assms]
  have "put True c (next_free ((True, b) # vs) 0) (put True (c + 4) w m) = put True (c + 4) w m" for w
    using c(1) by (intro put_same) simp
  then show ?thesis using h(6) c(2,3,8,9) by (simp add: kfree_before_def freed_def upd_put Let_def)
qed

lemma free_link_refines:
  assumes rep: "hrep e (us @ (True, a) # vs) (f, m)"
  shows "free_link (last_free us) a (f, m) =
    (next_free vs 0, next_free us a, put (last_free us \<noteq> 0) (last_free us) a m)"
proof -
  note h = hrep_used [OF rep]
  have "hsegs m None us (Some (True, a)) (next_free vs 0)" using rep by (simp add: hrep_def hsegs_append next_seg_def)
  from last_free_points [OF this] show ?thesis
    using h(8) next_free_last_free [OF h(9)] by (auto simp: free_link_def put_def)
qed

lemma kfree_none_refines:
  assumes rep: "hrep e (us @ (True, a) # vs) (f, m)" and len: "length us \<le> KHEAP_SIZE"
  shows "kfree_none a (f, m) = Some (a, next_free us a, freed us a vs m)"
  using pre_fmb_loop_refines [OF rep len] hrep_used(6,7) [OF rep]
  by (simp add: kfree_none_def GetPreFMB_def free_link_refines [OF rep] freed_def Let_def upd_put)

lemma kfree_behind_last:
  assumes rep: "hrep e (us @ (True, a) # []) (f, m)" and len: "length us \<le> KHEAP_SIZE"
  shows "kfree_behind a (f, m) = Some (a, next_free us a, freed us a [] m)"
  using pre_fmb_loop_refines [OF rep len] hrep_used(7) [OF rep]
  by (simp add: kfree_behind_def GetPreFMB_def free_link_refines [OF rep] freed_def Let_def upd_put next_seg_def enc_def [of None])

lemma kfree_behind_free:
  assumes rep: "hrep e (us @ (True, a) # (False, n) # vs) (f, m)" and len: "length us \<le> KHEAP_SIZE" and ends: "ends_used us"
  shows "kfree_behind a (f, m) = Some (a, next_free us a, freed us a vs m)"
proof -
  note h = hrep_used [OF rep] and n = free_behind [OF rep]
  let ?m1 = "put True (a + 8) (m (a + 4)) (put (last_free us \<noteq> 0) (last_free us) a m)"
  have "unat (a + 4) = unat a + 4" "unat (a + 8) = unat a + 8" "unat (n + 4) = unat n + 4"
    using n(6,7) unat_plus_small [of a 4] unat_plus_small [of a 8] unat_plus_small [of n 4] by auto
  then have ne: "n \<noteq> a + 4" "n \<noteq> a + 8" "n + 4 \<noteq> a + 8" "n + 4 \<noteq> a + 4" 
    using n(6) by (intro neq_by_unat(2); simp)+
  have "last_free us \<noteq> 0 \<Longrightarrow> last_free us \<noteq> n \<and> last_free us \<noteq> n + 4"
    using last_free_bound(1) [OF h(9) ends] n(6) \<open>unat (n + 4) = unat n + 4\<close> by auto
  then have v: "?m1 (n + 4) = enc (next_seg vs None)" "put True (a + 4) w ?m1 n = next_free vs 0" for w
    using ne n(4,5) by auto
  have "kfree_behind a (f, m) =
      Some (a, next_free us a, put True a (put True (a + 4) (?m1 (n + 4)) ?m1 n) (put True (a + 4) (?m1 (n + 4)) ?m1))"
    using pre_fmb_loop_refines [OF rep len] n(2)
    by (simp only: kfree_behind_def GetPreFMB_def free_link_refines [OF rep] Let_def upd_put snd_conv option.case prod.case next_free.simps if_False)
  then show ?thesis unfolding v [unfolded h(7)] h(7) freed_def .
qed

text \<open>The specification, at the block that is released.\<close>

lemma kfree_at:
  assumes "\<forall>x \<in> set us. snd x \<noteq> a"
  shows "kfree a (us @ (True, a) # vs) =
    (if us \<noteq> [] \<and> \<not> fst (last us) then us @ drop_free vs else us @ (False, a) # drop_free vs)"
  using assms
proof (induction a us rule: kfree.induct)
  case (3 b f c xs)
  then show ?case by (cases xs) auto
qed (auto simp: neq_Nil_conv)

lemma neighbour_parity:
  assumes rep: "hrep e (us @ (True, a) # vs) (f, m)"
  shows "m a AND 1 = 0 \<longleftrightarrow> vs = [] \<or> \<not> fst (hd vs)" "m (a + 4) AND 1 = 0 \<longleftrightarrow> us = [] \<or> \<not> fst (last us)"
proof -
  note h = hrep_used [OF rep]
  show "m a AND 1 = 0 \<longleftrightarrow> vs = [] \<or> \<not> fst (hd vs)"
  proof (cases vs)
    case (Cons x vs')
    then have "snd x AND 3 = 0" using h(10) by (cases x) simp
    then show ?thesis using h(6) Cons enc_even [of "snd x" "fst x"] by (simp add: next_seg_def)
  qed (use h(6) in \<open>simp add: next_seg_def enc_def\<close>)
  show "m (a + 4) AND 1 = 0 \<longleftrightarrow> us = [] \<or> \<not> fst (last us)"
  proof (cases us rule: rev_cases)
    case (snoc us' x)
    then have "snd x AND 3 = 0" using h(9) by (cases x) (simp add: geo_append)
    then show ?thesis using h(7) snoc enc_even [of "snd x" "fst x"] by (simp add: last_seg_def)
  qed (use h(7) in \<open>simp add: last_seg_def enc_def\<close>)
qed

lemma split_drop_free:
  obtains (none) "vs = []" "drop_free vs = []"
  | (used) b vs' where "vs = (True, b) # vs'" "drop_free vs = vs"
  | (free) n vs' where "vs = (False, n) # vs'" "drop_free vs = vs'"
proof (cases vs)
  case (Cons x vs')
  then show ?thesis using used free by (cases x; cases "fst x") auto
qed (use none in simp)

lemma release_used:
  assumes rep: "hrep e (us @ (True, a) # vs) (f, m)" and len: "length us \<le> KHEAP_SIZE" and ends: "ends_used us"
  shows "kfree_release a (f, m) = Some (kfree_tail (a, next_free us a, freed us a (drop_free vs) m))"
proof (cases "us = []")
  case True
  show ?thesis
    by (cases vs rule: split_drop_free;
        insert rep True neighbour_parity [OF rep] kfree_both_first kfree_before_first; auto simp: kfree_release_put Let_def)
next
  case False
  then have "fst (last us)" using ends by (simp add: ends_used_def)
  then show ?thesis
    by (cases vs rule: split_drop_free;
        insert rep False len ends neighbour_parity [OF rep] kfree_none_refines [OF rep len] kfree_behind_last kfree_behind_free;
        auto simp: kfree_release_put Let_def)
qed

lemma release_free:
  assumes rep: "hrep e ((us @ [(False, c)]) @ (True, a) # vs) (f, m)"
  shows "kfree_release a (f, m) = Some (kfree_tail (c, next_free us c, freed us c (drop_free vs) m))"
  by (cases vs rule: split_drop_free;
      insert rep neighbour_parity [OF rep] free_before(5) [OF rep] kfree_both_behind kfree_before_behind;
      auto simp: kfree_release_put Let_def)

lemma starts_used_drop_free: "alt vs \<Longrightarrow> starts_used (drop_free vs)"
proof (cases vs rule: split_drop_free)
  case (free n vs')
  then show "alt vs \<Longrightarrow> ?thesis" by (cases vs') (auto simp: alt_def starts_used_def)
qed (simp_all add: starts_used_def)

lemma drop_free_append: "\<exists>fr. vs = fr @ drop_free vs"
  by (cases vs rule: split_drop_free) (auto intro: exI [of _ "[]"])

lemma kfree_release_refines:
  assumes rep: "hrep e (us @ (True, a) # vs) (f, m)" and len: "length us \<le> KHEAP_SIZE"
  shows "\<exists>h'. kfree_release a (f, m) = Some h' \<and> refit e (us @ (True, a) # vs) m (kfree a (us @ (True, a) # vs)) h'"
proof -
  have g: "geo e (us @ (True, a) # vs)" and al: "alt (us @ (True, a) # vs)" using rep by (simp_all add: hrep_def)
  have at: "kfree a (us @ (True, a) # vs) = (if us \<noteq> [] \<and> \<not> fst (last us) then us @ drop_free vs else us @ (False, a) # drop_free vs)"
    by (rule kfree_at) (use geo_distinct [OF g] in auto)
  have sv: "starts_used (drop_free vs)" using al
    by (intro starts_used_drop_free) (cases vs; auto simp: alt_def successively_append_iff)
  obtain fr where fr: "vs = fr @ drop_free vs" using drop_free_append by blast
  show ?thesis
  proof (cases "us \<noteq> [] \<and> \<not> fst (last us)")
    case True
    then obtain us' c where us: "us = us' @ [(False, c)]" by (cases us rule: rev_cases) auto
    have "hrep e (us' @ ((False, c) # (True, a) # fr) @ drop_free vs) (f, m)" using rep us fr by simp
    from kfree_tail_refines [OF this] free_before(6) [OF rep [unfolded us]] sv
    show ?thesis using release_free [OF rep [unfolded us]] at us fr [symmetric] by simp
  next
    case False
    then have ends: "ends_used us" by (auto simp: ends_used_def)
    have "hrep e (us @ ((True, a) # fr) @ drop_free vs) (f, m)" using rep fr by simp
    from kfree_tail_refines [OF this ends sv] show ?thesis
      using release_used [OF rep len ends] at False fr [symmetric] by auto
  qed
qed

section \<open>The heap of the kernel\<close>

text \<open>The heap has the layout \<open>xs\<close>, and no request of an interrupt waits for the end of the lock.\<close>

definition heap_ok :: "seg list \<Rightarrow> kheap_state \<Rightarrow> bool" where
  "heap_ok xs s \<longleftrightarrow> \<not> IsrReq (kh_kern s) \<and> xs \<noteq> []
     \<and> seg_end (unat (endAddr s)) xs = unat (startAddr s)
     \<and> unat (startAddr s) + KHEAP_SIZE * 4 = unat (endAddr s)
     \<and> hrep (unat (endAddr s)) xs (heap_of s)"

lemma geo_length: "geo e xs \<Longrightarrow> seg_end e xs + 12 * length xs \<le> e"
  by (induction xs) auto

lemma heap_length: "heap_ok xs s \<Longrightarrow> length xs \<le> KHEAP_SIZE"
  using geo_length [of "unat (endAddr s)" xs] by (simp add: heap_ok_def hrep_def KHEAP_SIZE_def)

lemma kblock_size_unat:
  assumes "unat sz + 12 \<le> 2 ^ 32"
  shows "unat (kblock_size sz) = (unat sz + 3) div 4 * 4 + 8"
proof -
  have u: "unat (sz + 3) = unat sz + 3" using assms unat_plus_small [of sz 3] by simp
  have p: "unat (push_bit 2 (drop_bit 2 (sz + 3))) = take_bit 32 ((unat sz + 3) div 4 * 4)"
    unfolding unsigned_push_bit_eq unsigned_drop_bit_eq u using assms
    by (simp add: push_bit_eq_mult drop_bit_eq_div take_bit_nat_eq_self)
  have lt: "(unat sz + 3) div 4 * 4 + 8 < 2 ^ 32" using assms by simp
  then have "unat (push_bit 2 (drop_bit 2 (sz + 3))) = (unat sz + 3) div 4 * 4"
    unfolding p by (simp add: take_bit_eq_mod)
  then show ?thesis
    using lt unat_plus_small [of "push_bit 2 (drop_bit 2 (sz + 3))" 8] unfolding kblock_size_def by simp
qed

text \<open>The layout keeps its first address.\<close>

lemma kalloc_seg_end:
  "seg_end e (snd (kalloc_result n e xs)) = seg_end e xs" "snd (kalloc_result n e xs) = [] \<longleftrightarrow> xs = []"
proof -
  have "seg_end e (snd (kalloc_result n e xs)) = seg_end e xs \<and> (snd (kalloc_result n e xs) = [] \<longleftrightarrow> xs = [])"
  proof (cases xs)
    case (Cons x xs')
    then show ?thesis by (cases x) (simp add: kalloc_result_simps kcut_def)
  qed (simp add: kalloc_result_simps)
  then show "seg_end e (snd (kalloc_result n e xs)) = seg_end e xs" "snd (kalloc_result n e xs) = [] \<longleftrightarrow> xs = []"
    by simp_all
qed

lemma kfree_seg_end: "seg_end e (kfree a xs) = seg_end e xs" "kfree a xs = [] \<longleftrightarrow> xs = []"
  by (cases "(a, xs)" rule: kfree.cases; simp)+

lemma CoKmalloc_refines:
  assumes ok: "heap_ok xs s" and u: "mem_neutral u" and sz: "sz \<noteq> 0" "unat sz + 12 \<le> 2 ^ 32"
    and n: "n = (unat sz + 3) div 4 * 4 + 8"
  shows "fst (CoKmalloc u sz s) = fst (kalloc_result n (unat (endAddr s)) xs)
    \<and> heap_ok (snd (kalloc_result n (unat (endAddr s)) xs)) (snd (CoKmalloc u sz s))
    \<and> (\<forall>c \<in> payload (unat (endAddr s)) xs \<inter> payload (unat (endAddr s)) (snd (kalloc_result n (unat (endAddr s)) xs)).
         Mem (kh_kern (snd (CoKmalloc u sz s))) c = Mem (kh_kern s) c)"
proof -
  let ?e = "unat (endAddr s)"
  have rep: "hrep ?e ([] @ xs) (heap_of s)" using ok by (simp add: heap_ok_def)
  have "unat sz \<noteq> 0" using sz(1) by (simp add: unat_eq_0)
  then have n': "12 \<le> n" "n mod 4 = 0" "n < 2 ^ 32" using sz(2) n by auto
  have "word_of_nat n = kblock_size sz" unfolding n kblock_size_unat [OF sz(2), symmetric] by simp
  then obtain h' where h': "kmalloc_loop KHEAP_SIZE (endAddr s) (kblock_size sz) 0 (FMBlist s) (heap_of s) =
      Some (fst (kalloc_result n ?e xs), h')" "refit ?e xs (Mem (kh_kern s)) (snd (kalloc_result n ?e xs)) h'"
    using kmalloc_loop_refines [OF rep n' heap_length [OF ok]] ok
    by (auto simp: heap_ok_def hrep_def heap_of_def last_free_def)
  let ?t = "(kh_lock s)\<lparr>FMBlist := fst h', kh_kern := (OsSchedLock (kh_kern s))\<lparr>Mem := snd h'\<rparr>\<rparr>"
  have r: "CoKmalloc u sz s = (fst (kalloc_result n ?e xs), kh_unlock u ?t)"
    using sz(1) h'(1) by (simp add: CoKmalloc_def Let_def heap_of_def set_heap_def)
  have "Mem (u (kh_kern ?t)) = snd h'" "\<not> IsrReq (u (kh_kern ?t))"
    using u ok by (simp_all add: mem_neutral_def heap_ok_def)
  then show ?thesis
    unfolding r using h'(2) ok kalloc_seg_end(1) [of ?e n xs] kalloc_seg_end(2) [of n ?e xs] by (simp add: refit_def heap_ok_def heap_of_def)
qed

lemma CoKfree_refines:
  assumes ok: "heap_ok xs s" and u: "mem_neutral u" and a: "(True, a) \<in> set xs"
  shows "heap_ok (kfree a xs) (CoKfree u (a + 8) s)
    \<and> (\<forall>c \<in> payload (unat (endAddr s)) xs \<inter> payload (unat (endAddr s)) (kfree a xs).
         Mem (kh_kern (CoKfree u (a + 8) s)) c = Mem (kh_kern s) c)"
proof -
  let ?e = "unat (endAddr s)"
  obtain us vs where xs: "xs = us @ (True, a) # vs" using a by (meson split_list)
  have rep: "hrep ?e (us @ (True, a) # vs) (FMBlist s, Mem (kh_kern s))" using ok xs by (simp add: heap_ok_def heap_of_def)
  have g: "geo ?e xs" "?e < 2 ^ 32" using rep xs by (simp_all add: hrep_def)
  have b: "unat (startAddr s) \<le> unat a" "unat a + 12 \<le> ?e" using geo_bound [OF g(1) a] ok by (simp_all add: heap_ok_def)
  have a8: "unat (a + 8) = unat a + 8" using b(2) g(2) unat_plus_small [of a 8] by simp
  have "a + 8 \<noteq> 0" using a8 by auto
  moreover have "\<not> a + 8 < startAddr s" "\<not> endAddr s < a + 8" using b a8 by (simp_all add: word_less_nat_alt)
  moreover have "kfree_check (startAddr s) a (heap_of s) = Some True"
    using kfree_check_accepts [OF rep] heap_length [OF ok] ok xs by (simp add: heap_of_def heap_ok_def)
  moreover obtain h' where h': "kfree_release a (heap_of s) = Some h'" "refit ?e xs (Mem (kh_kern s)) (kfree a xs) h'"
    using kfree_release_refines [OF rep] heap_length [OF ok] xs by (auto simp: heap_of_def)
  moreover define t where "t = (kh_lock s)\<lparr>FMBlist := fst h', kh_kern := (OsSchedLock (kh_kern s))\<lparr>Mem := snd h'\<rparr>\<rparr>"
  ultimately have r: "CoKfree u (a + 8) s = kh_unlock u t"
    by (simp add: CoKfree_def Let_def heap_of_def set_heap_def)
  have "Mem (u (kh_kern t)) = snd h'" "\<not> IsrReq (u (kh_kern t))" "startAddr t = startAddr s" "endAddr t = endAddr s" "FMBlist t = fst h'"
    using u ok by (simp_all add: mem_neutral_def heap_ok_def t_def)
  then show ?thesis
    unfolding r using h'(2) ok kfree_seg_end(1) [of ?e a xs] kfree_seg_end(2) [of a xs]
    by (simp add: refit_def heap_ok_def heap_of_def)
qed

text \<open>The block the specification hands out: fresh memory of the requested length.\<close>

lemma kalloc_fresh:
  assumes "geo e xs" "e < 2 ^ 32" "n \<ge> 12" "kalloc_result n e xs = (p, ys)" "p \<noteq> 0"
  shows "(True, p - 8) \<in> set ys \<and> seg_end e xs \<le> unat (p - 8) \<and> unat (p - 8) + 8 = unat p \<and> payload e xs \<subseteq> payload e ys
    \<and> {c. unat p \<le> unat c \<and> unat c < unat (p - 8) + n} \<subseteq> payload e ys - payload e xs"
  using assms
proof (induction xs arbitrary: ys)
  case (Cons x xs)
  obtain u a where x: "x = (u, a)" by (cases x)
  have g: "geo e xs" "unat a + 12 \<le> seg_end e xs" "seg_end e xs \<le> e" using Cons.prems(1) x seg_end_le by auto
  show ?case
  proof (cases "\<not> u \<and> n \<le> seg_end e xs - unat a")
    case True
    then have p: "p = a + 8" "ys = kcut n (seg_end e xs) a @ xs" using Cons.prems(4) x by (simp_all add: kalloc_result_simps)
    have "unat a + n < 2 ^ 32" using g True Cons.prems(2) by linarith
    then have "unat (a + 8) = unat a + 8" "unat (a + word_of_nat n) = unat a + n"
      using unat_plus_small [of a 8] unat_plus_small [of a n] g True Cons.prems(2) by simp_all
    moreover have "c \<notin> payload e xs" if "unat c < seg_end e xs" for c
      using payload_range [OF g(1), of c] that by auto
    ultimately show ?thesis using p True x g by (auto simp: kcut_def)
  next
    case False
    then obtain ys' where ys: "kalloc_result n e xs = (p, ys')" "ys = (u, a) # ys'"
      using Cons.prems(4) x by (cases "kalloc_result n e xs") (auto simp: kalloc_result_simps)
    have se: "seg_end e ys' = seg_end e xs" using kalloc_seg_end(1) [of e n xs] ys(1) by simp
    note IH = Cons.IH [OF g(1) Cons.prems(2,3) ys(1) Cons.prems(5)]
    have "unat c < seg_end e xs \<Longrightarrow> unat c < unat p" for c using IH by auto
    then show ?thesis using IH x ys(2) se g(2) by (auto split: if_splits)
  qed
qed (simp add: kalloc_result_simps)

lemma CoCreateKheap_ok:
  assumes "base AND 3 = 0" "base \<noteq> 0" "unat base + 200 < 2 ^ 32" "\<not> IsrReq (kh_kern s)"
  shows "heap_ok [(False, base)] (CoCreateKheap base s)"
proof -
  have "unat (base + 200) = unat base + 200" using unat_plus_small [of base 200] assms(3) by simp
  then show ?thesis using assms
    by (simp add: heap_ok_def CoCreateKheap_def Let_def KHEAP_SIZE_def hrep_def heap_of_def alt_def next_seg_def enc_def)
qed

text \<open>Runs of requests and releases, on the heap and on its layout.\<close>

datatype kop = Malloc U32 | Free U32

fun kstep :: "unlock \<Rightarrow> kop \<Rightarrow> kheap_state \<Rightarrow> kheap_state" where
  "kstep u (Malloc sz) s = snd (CoKmalloc u sz s)"
| "kstep u (Free p) s = CoKfree u p s"

fun kspec :: "nat \<Rightarrow> kop \<Rightarrow> seg list \<Rightarrow> seg list" where
  "kspec e (Malloc sz) xs = (if sz = 0 then xs else snd (kalloc_result ((unat sz + 3) div 4 * 4 + 8) e xs))"
| "kspec e (Free p) xs = kfree (p - 8) xs"

fun kvalid :: "nat \<Rightarrow> kop list \<Rightarrow> seg list \<Rightarrow> bool" where
  "kvalid e [] xs \<longleftrightarrow> True"
| "kvalid e (x # ops) xs \<longleftrightarrow>
     (case x of Malloc sz \<Rightarrow> unat sz + 12 \<le> 2 ^ 32 | Free p \<Rightarrow> (True, p - 8) \<in> set xs) \<and> kvalid e ops (kspec e x xs)"

lemma kstep_frame: "endAddr (kstep u x s) = endAddr s"
proof (cases x)
  case (Malloc sz)
  then show ?thesis by (simp add: CoKmalloc_def Let_def set_heap_def split: option.split)
next
  case (Free p)
  then show ?thesis by (simp add: CoKfree_def Let_def set_heap_def split: option.split bool.split)
qed

lemma kstep_refines:
  assumes ok: "heap_ok xs s" and u: "mem_neutral u" and v: "kvalid (unat (endAddr s)) [x] xs"
  shows "heap_ok (kspec (unat (endAddr s)) x xs) (kstep u x s)"
proof (cases x)
  case (Malloc sz)
  show ?thesis
  proof (cases "sz = 0")
    case True
    then show ?thesis using ok Malloc by (simp add: CoKmalloc_def)
  next
    case False
    then show ?thesis using CoKmalloc_refines [OF ok u False] v Malloc by simp
  qed
next
  case (Free p)
  then show ?thesis using CoKfree_refines [OF ok u, of "p - 8"] v by simp
qed

lemma krun_refines:
  "heap_ok xs s \<Longrightarrow> mem_neutral u \<Longrightarrow> kvalid (unat (endAddr s)) ops xs
   \<Longrightarrow> heap_ok (fold (kspec (unat (endAddr s))) ops xs) (fold (kstep u) ops s)"
proof (induction ops arbitrary: xs s)
  case (Cons x ops)
  have "heap_ok (kspec (unat (endAddr s)) x xs) (kstep u x s)"
    using kstep_refines [OF Cons.prems(1,2)] Cons.prems(3) by simp
  from Cons.IH [OF this Cons.prems(2)] show ?case using Cons.prems(3) by (simp add: kstep_frame)
qed simp

text \<open>Releasing the block that was handed out last restores the layout.\<close>

lemma kalloc_split:
  assumes "kalloc_result n e xs = (p, ys)" "p \<noteq> 0"
  obtains us a vs where "xs = us @ (False, a) # vs" "p = a + 8" "ys = us @ kcut n (seg_end e vs) a @ vs"
  using assms
proof (induction xs arbitrary: ys thesis)
  case (Cons x xs)
  obtain u a where x: "x = (u, a)" by (cases x)
  show ?case
  proof (cases "\<not> u \<and> n \<le> seg_end e xs - unat a")
    case True
    then show ?thesis using Cons.prems(1) [of "[]" a xs] Cons.prems(2) x by (simp add: kalloc_result_simps)
  next
    case False
    then obtain ys' where ys: "kalloc_result n e xs = (p, ys')" "ys = (u, a) # ys'"
      using Cons.prems(2) x by (cases "kalloc_result n e xs") (auto simp: kalloc_result_simps)
    from Cons.IH [OF _ ys(1) Cons.prems(3)] Cons.prems(1) x ys(2) show ?thesis by (metis append_Cons)
  qed
qed (simp add: kalloc_result_simps)

lemma kalloc_miss: "e < 2 ^ 32 \<Longrightarrow> geo e xs \<Longrightarrow> kalloc_result n e xs = (0, ys) \<Longrightarrow> ys = xs"
proof (induction xs arbitrary: ys)
  case (Cons x xs)
  obtain u a where x: "x = (u, a)" by (cases x)
  have "unat a + 12 < 2 ^ 32" using Cons.prems(1,2) x seg_end_le [of e xs] by simp
  then have "a + 8 \<noteq> 0" using unat_plus_small [of a 8] by auto
  then show ?case using Cons x by (cases "kalloc_result n e xs") (auto simp: kalloc_result_simps split: if_splits)
qed (simp add: kalloc_result_simps)

lemma kfree_payload:
  assumes "geo e (us @ (True, a) # vs)"
  shows "payload e (kfree a (us @ (True, a) # vs)) = payload (unat a) us \<union> payload e vs"
proof -
  have at: "kfree a (us @ (True, a) # vs) = (if us \<noteq> [] \<and> \<not> fst (last us) then us @ drop_free vs else us @ (False, a) # drop_free vs)"
    by (rule kfree_at) (use geo_distinct [OF assms] in auto)
  have d: "payload e (drop_free vs) = payload e vs" by (cases vs rule: split_drop_free) auto
  show ?thesis
  proof (cases us rule: rev_cases)
    case (snoc us' x)
    then show ?thesis using at d by (cases x) auto
  qed (use at d in simp)
qed

lemma kfree_kalloc:
  assumes "geo e xs" "alt xs" "kalloc_result n e xs = (p, ys)" "p \<noteq> 0"
  shows "kfree (p - 8) ys = xs"
proof -
  obtain us a vs where s: "xs = us @ (False, a) # vs" "p = a + 8" "ys = us @ kcut n (seg_end e vs) a @ vs"
    using kalloc_split [OF assms(3,4)] by blast
  have "\<forall>x \<in> set us. snd x \<noteq> a" using geo_distinct [of e us False a vs] assms(1) s(1) by auto
  moreover have "us = [] \<or> fst (last us)" "drop_free vs = vs"
    using assms(2) s(1) by (cases vs rule: split_drop_free; auto simp: alt_def successively_append_iff)+
  ultimately show ?thesis using s by (auto simp: kcut_def kfree_at)
qed

lemma kblock_size_wraps:
  assumes "0xFFFFFFF5 \<le> sz"
  shows "kblock_size sz \<le> 8"
proof -
  define d where "d = sz - 0xFFFFFFF5"
  have s: "sz = 0xFFFFFFF5 + d" by (simp add: d_def)
  have "unat sz < 2 ^ 32" by (rule order_less_le_trans [OF unsigned_less]) simp
  then have "unat d < 11" using assms by (simp add: d_def unat_sub word_le_nat_alt)
  then have "unat d \<in> {0..<11}" by simp
  then have "d \<in> {0, 1, 2, 3, 4, 5, 6, 7, 8, 9, 10}"
    by (auto simp: word_unat_eq_iff upt_conv_Cons atLeastLessThan_upt)
  then show ?thesis by (auto simp: s kblock_size_def)
qed

lemma CoKmalloc_small:
  assumes ok: "heap_ok xs s" and sz: "kblock_size sz \<le> 12" "sz \<noteq> 0" and free: "FMBlist s \<noteq> 0"
  shows "fst (CoKmalloc u sz s) = FMBlist s + 8"
proof -
  have rep: "hrep (unat (endAddr s)) xs (FMBlist s, Mem (kh_kern s))" using ok by (simp add: heap_ok_def heap_of_def)
  then have f: "FMBlist s = next_free xs 0" by (simp add: hrep_def)
  obtain us vs where "xs = us @ (False, FMBlist s) # vs"
    using free f by (cases xs "0::U32" rule: split_next_free) auto
  with rep have rf: "hrep (unat (endAddr s)) (us @ (False, FMBlist s) # vs) (FMBlist s, Mem (kh_kern s))" by simp
  note h = hrep_free [OF rf]
  let ?n = "seg_end (unat (endAddr s)) vs - unat (FMBlist s)"
  have "unat (word_of_nat ?n :: U32) = ?n" using h(5-7) by (simp only: unat_of_nat) simp
  then have "kblock_size sz \<le> word_of_nat ?n" using sz(1) h(5) by (simp only: word_le_nat_alt) simp
  then have "kblock_size sz \<le> (if Mem (kh_kern s) (FMBlist s + 4) = 0 then endAddr s - FMBlist s
      else Mem (kh_kern s) (FMBlist s + 4) - 1 - FMBlist s)"
    unfolding free_size [OF rf, symmetric] by (auto split: if_splits)
  moreover obtain k where K: "KHEAP_SIZE = Suc k" by (simp add: KHEAP_SIZE_def)
  ultimately have "\<exists>h'. kmalloc_loop KHEAP_SIZE (endAddr s) (kblock_size sz) 0 (FMBlist s) (heap_of s) = Some (FMBlist s + 8, h')"
    using free
    unfolding K by (simp add: kmalloc_loop.simps [of "Suc k"] heap_of_def Let_def)
  then show ?thesis using sz(2) by (auto simp: CoKmalloc_def Let_def heap_of_def)
qed

section \<open>Properties\<close>

definition example_heap0 :: kheap_state where
  "example_heap0 = CoCreateKheap 0x2000 \<lparr>startAddr = 0, endAddr = 0, FMBlist = 0, kh_kern = example\<rparr>"

lemma example_heap0_ok: "heap_ok [(False, 0x2000)] example_heap0"
  unfolding example_heap0_def using example_not_isr by (intro CoCreateKheap_ok) simp_all

lemma example_heap0_end: "endAddr example_heap0 = 0x20C8"
  by (simp add: example_heap0_def CoCreateKheap_def Let_def KHEAP_SIZE_def)





text \<open>
  C36. Releasing a block in use makes it free memory, joined with its free neighbours, and leaves the
  contents of all other blocks in use as they are.
\<close>

theorem CoKfree_coalesces:
  assumes "heap_ok (us @ (True, a) # vs) s" "s' = CoKfree (OsSchedUnlock cb) (a + 8) s" "ys = kfree a (us @ (True, a) # vs)"
  shows "heap_ok ys s' \<and> payload (unat (endAddr s)) ys = payload (unat a) us \<union> payload (unat (endAddr s)) vs
    \<and> (\<forall>c \<in> payload (unat a) us \<union> payload (unat (endAddr s)) vs. Mem (kh_kern s') c = Mem (kh_kern s) c)
    \<and> successively (\<lambda>x y. fst x \<or> fst y) ys"
proof -
  have "geo (unat (endAddr s)) (us @ (True, a) # vs)" using assms(1) by (simp add: heap_ok_def hrep_def)
  note p = kfree_payload [OF this, folded assms(3)]
  have "heap_ok ys s'" "\<forall>c \<in> payload (unat (endAddr s)) (us @ (True, a) # vs) \<inter> payload (unat (endAddr s)) ys.
      Mem (kh_kern s') c = Mem (kh_kern s) c"
    using CoKfree_refines [OF assms(1) mem_neutral_unlock [of cb], of a] assms(2,3) by auto
  moreover then have "successively (\<lambda>x y. fst x \<or> fst y) ys" by (simp add: heap_ok_def hrep_def alt_def)
  ultimately show ?thesis using p by auto
qed

definition example_heap :: kheap_state where
  "example_heap = fold (kstep (OsSchedUnlock (\<lambda>_ s. s))) [Malloc 5, Malloc 12, Free 0x2008] example_heap0"

lemma example_heap_ok: "heap_ok [(False, 0x2000), (True, 0x2010), (False, 0x2024)] example_heap"
proof -
  have "kvalid 0x20C8 [Malloc 5, Malloc 12, Free 0x2008] [(False, 0x2000)]"
    "fold (kspec 0x20C8) [Malloc 5, Malloc 12, Free 0x2008] [(False, 0x2000)] = [(False, 0x2000), (True, 0x2010), (False, 0x2024)]"
    by (simp_all add: kalloc_result_def)
  then show ?thesis
    using krun_refines [OF example_heap0_ok mem_neutral_unlock, of "[Malloc 5, Malloc 12, Free 0x2008]" "\<lambda>_ s. s"]
    by (simp add: example_heap0_end example_heap_def)
qed

theorem CoKfree_coalesces_witness:
  "heap_ok [(False, 0x2000)] (CoKfree (OsSchedUnlock (\<lambda>_ s. s)) 0x2018 example_heap)"
  using CoKfree_coalesces [of "[(False, 0x2000)]" "0x2010" "[(False, 0x2024)]" example_heap _ "\<lambda>_ s. s", OF _ refl refl]
    example_heap_ok by simp

text \<open>
  Releasing the block that \<open>CoKmalloc\<close> has just returned gives back the layout the heap had before.
\<close>

lemma kernel_heap_round_trip:
  assumes "heap_ok xs s" "sz \<noteq> 0" "unat sz + 12 \<le> 2 ^ 32" "CoKmalloc (OsSchedUnlock cb) sz s = (p, s')" "p \<noteq> 0"
  shows "heap_ok xs (CoKfree (OsSchedUnlock cb) p s')"
proof -
  let ?e = "unat (endAddr s)" and ?n = "(unat sz + 3) div 4 * 4 + 8"
  obtain ys where r: "kalloc_result ?n ?e xs = (p, ys)" "heap_ok ys s'"
    using CoKmalloc_refines [OF assms(1) mem_neutral_unlock assms(2,3) refl, of cb] assms(4) by (cases "kalloc_result ?n ?e xs") auto
  have g: "geo ?e xs" "?e < 2 ^ 32" "alt xs" using assms(1) by (simp_all add: heap_ok_def hrep_def)
  have "12 \<le> ?n" using assms(2) by (auto simp: unat_eq_0 [symmetric])
  from kalloc_fresh [OF g(1,2) this r(1) assms(5)] have "(True, p - 8) \<in> set ys" by simp
  from CoKfree_refines [OF r(2) mem_neutral_unlock this] show ?thesis
    using kfree_kalloc [OF g(1,3) r(1) assms(5)] by simp
qed

text \<open>
  A request of almost the whole address space succeeds: the block size wraps around to at most
  8 bytes, so \<open>CoKmalloc\<close> returns the first free block for it instead of the null pointer.
\<close>

lemma CoKmalloc_size_wraps:
  assumes "heap_ok xs s" "FMBlist s \<noteq> 0" "0xFFFFFFF5 \<le> sz"
  shows "kblock_size sz \<le> 8 \<and> fst (CoKmalloc u sz s) = FMBlist s + 8"
proof -
  have "kblock_size sz \<le> 8" by (rule kblock_size_wraps) fact
  moreover have "sz \<noteq> 0" using assms(3) by auto
  moreover have "(8::U32) \<le> 12" by simp
  ultimately show ?thesis using CoKmalloc_small [OF assms(1) _ _ assms(2)] order_trans by blast
qed

end
