(* ===== verification/Grbl_Stepper.thy ===== *)
theory Grbl_Stepper
  imports Ring_Buffer
begin

text \<open>
  The stepper interrupt (\<open>grbl/src/stepper.c\<close>) and the ring buffer of motion blocks it serves
  (\<open>grbl/src/planner.c\<close>), as configured by \<open>machine.h\<close> (\<open>STEP_LED_FLASH_VARIABLE\<close>). What the code
  writes to the pins, the timers and the analog output is recorded in \<open>trace\<close>. The position of the
  end stops and the temperature are inputs of the interrupt.
\<close>

section \<open>Data\<close>

datatype action_type = AT_MOVE | AT_MOVE_ENDSTOP | AT_WAIT | AT_WAIT_TEMPS

text \<open>
  A block, without the fields in floating point that only the planner uses (\<open>speeds\<close> in \<open>Grbl_Speed\<close>). The counts that
  the code declares signed are words as well; they are compared and shifted with their sign
  where the code does so.
\<close>

record block_t =
  action_type :: action_type
  steps_x :: U32
  steps_y :: U32
  steps_z :: U32
  steps_e :: U32
  direction_bits :: U32
  step_event_count :: U32
  nominal_rate :: U32
  initial_rate :: U32
  final_rate :: U32
  rate_delta :: U32
  accelerate_until :: U32
  decelerate_after :: U32
  check_endstops :: bool

text \<open>Output: pins set and cleared (port and mask), timers, the analog output.\<close>

datatype pin_event = SetPin nat U32 | ClrPin nat U32 | TimerInterval nat U32 | TimerOn nat | TimerOff nat | DacValue U32

record stepper =
  block_buffer :: "nat \<Rightarrow> block_t"
  block_buffer_head :: U8
  block_buffer_tail :: U8
  led_count :: "nat \<Rightarrow> U8"
  led_on :: U8
  leds_enabled :: bool
  dac_scale :: U32
  current_block :: ptr
  dir_bits :: U32
  step_bits_e :: U32
  step_bits_xyz :: U32
  counter_x :: U32
  counter_y :: U32
  counter_z :: U32
  counter_e :: U32
  step_events_completed :: U32
  busy :: bool
  cycles_per_step_event :: U32
  trapezoid_tick_cycle_counter :: U32
  trapezoid_adjusted_rate :: U32
  min_safe_rate :: U32
  accel_flag :: bool
  trace :: "pin_event list"

definition BLOCK_BUFFER_SIZE :: U8 where "BLOCK_BUFFER_SIZE = 5"
definition F_CPU :: U32 where "F_CPU = 100000000"
definition TICKS_PER_MICROSECOND :: U32 where "TICKS_PER_MICROSECOND = F_CPU div 1000000"
definition ACCELERATION_TICKS_PER_SECOND :: U32 where "ACCELERATION_TICKS_PER_SECOND = 1000"
definition CYCLES_PER_ACCELERATION_TICK :: U32 where
  "CYCLES_PER_ACCELERATION_TICK = (TICKS_PER_MICROSECOND * 1000000) div ACCELERATION_TICKS_PER_SECOND"
definition MINIMUM_STEPS_PER_MINUTE :: U32 where "MINIMUM_STEPS_PER_MINUTE = 1200"

definition X_STEP_BIT :: nat where "X_STEP_BIT = 20"
definition Y_STEP_BIT :: nat where "Y_STEP_BIT = 25"
definition Z_STEP_BIT :: nat where "Z_STEP_BIT = 29"
definition E_STEP_BIT :: nat where "E_STEP_BIT = 10"
definition X_DIRECTION_BIT :: nat where "X_DIRECTION_BIT = 23"
definition Y_DIRECTION_BIT :: nat where "Y_DIRECTION_BIT = 26"
definition Z_DIRECTION_BIT :: nat where "Z_DIRECTION_BIT = 0"
definition E_DIRECTION_BIT :: nat where "E_DIRECTION_BIT = 11"

lemmas stepper_consts = BLOCK_BUFFER_SIZE_def F_CPU_def TICKS_PER_MICROSECOND_def
  ACCELERATION_TICKS_PER_SECOND_def CYCLES_PER_ACCELERATION_TICK_def MINIMUM_STEPS_PER_MINUTE_def
lemmas pin_consts = X_STEP_BIT_def Y_STEP_BIT_def Z_STEP_BIT_def E_STEP_BIT_def
  X_DIRECTION_BIT_def Y_DIRECTION_BIT_def Z_DIRECTION_BIT_def E_DIRECTION_BIT_def

text \<open>Step and direction pins of X and Y and the step pin of Z are on port 1, the others on port 0.\<close>

abbreviation pin :: "nat \<Rightarrow> U32" where "pin b \<equiv> push_bit b 1"

definition emit :: "pin_event \<Rightarrow> stepper \<Rightarrow> stepper" where
  "emit x s = s\<lparr>trace := trace s @ [x]\<rparr>"

section \<open>The ring buffer of blocks\<close>

definition next_block_index :: "U8 \<Rightarrow> U8" where
  "next_block_index i = (let i = i + 1 in if i = BLOCK_BUFFER_SIZE then 0 else i)"

definition prev_block_index :: "U8 \<Rightarrow> U8" where
  "prev_block_index i = (let i = (if i = 0 then BLOCK_BUFFER_SIZE else i) in i - 1)"

definition plan_discard_current_block :: "stepper \<Rightarrow> stepper" where
  "plan_discard_current_block s =
     (if block_buffer_head s \<noteq> block_buffer_tail s
      then s\<lparr>block_buffer_tail := next_block_index (block_buffer_tail s)\<rparr> else s)"

definition plan_get_current_block :: "stepper \<Rightarrow> ptr" where
  "plan_get_current_block s =
     (if block_buffer_head s = block_buffer_tail s then None else Some (unat (block_buffer_tail s)))"

definition plan_queue_full :: "stepper \<Rightarrow> bool" where
  "plan_queue_full s \<longleftrightarrow> block_buffer_tail s = next_block_index (block_buffer_head s)"

definition plan_queue_empty :: "stepper \<Rightarrow> bool" where
  "plan_queue_empty s \<longleftrightarrow> block_buffer_head s = block_buffer_tail s"

section \<open>Pins and timers\<close>

definition inc_led_count :: "nat \<Rightarrow> stepper \<Rightarrow> stepper" where
  "inc_led_count axis s =
     (let s = s\<lparr>led_count := (led_count s)(axis := led_count s axis + 1)\<rparr>
      in if led_count s axis = 128
         then s\<lparr>led_on := led_on s XOR push_bit axis 1, led_count := (led_count s)(axis := 0)\<rparr> else s)"

definition set_direction_pins :: "stepper \<Rightarrow> stepper" where
  "set_direction_pins s =
     (let put_dir = (\<lambda>port p s. emit (if dir_bits s AND p \<noteq> 0 then ClrPin port p else SetPin port p) s)
      in put_dir 0 (pin E_DIRECTION_BIT) (put_dir 0 (pin Z_DIRECTION_BIT)
           (put_dir 1 (pin Y_DIRECTION_BIT) (put_dir 1 (pin X_DIRECTION_BIT) s))))"

definition set_step_pins :: "stepper \<Rightarrow> stepper" where
  "set_step_pins s =
     (let s = (if step_bits_xyz s AND pin X_STEP_BIT \<noteq> 0 then inc_led_count 0 s else s);
          s = (if step_bits_xyz s AND pin Y_STEP_BIT \<noteq> 0 then inc_led_count 1 s else s);
          s = (if step_bits_xyz s AND pin Z_STEP_BIT \<noteq> 0 then inc_led_count 2 s else s);
          s = emit (SetPin 1 (step_bits_xyz s)) s
      in if step_bits_e s \<noteq> 0
         then (let s = (if step_bits_e s AND pin E_STEP_BIT \<noteq> 0 then inc_led_count 3 s else s)
               in emit (SetPin 0 (step_bits_e s)) s)
         else s)"

definition clear_all_step_pins :: "stepper \<Rightarrow> stepper" where
  "clear_all_step_pins s =
     emit (ClrPin 0 (pin E_STEP_BIT))
       (emit (ClrPin 1 (pin X_STEP_BIT OR pin Y_STEP_BIT OR pin Z_STEP_BIT)) s)"

definition clear_step_pins :: "stepper \<Rightarrow> stepper" where
  "clear_step_pins s =
     (let s = emit (ClrPin 1 (step_bits_xyz s)) s
      in if step_bits_e s \<noteq> 0 then emit (ClrPin 0 (step_bits_e s)) s else s)"

definition clear_step_pins_by_state :: "stepper \<Rightarrow> stepper" where
  "clear_step_pins_by_state s =
     (let step_pins = (0 :: U32);
          step_pins = (if led_on s AND push_bit 0 1 = 0 then step_pins OR pin X_STEP_BIT else step_pins);
          step_pins = (if led_on s AND push_bit 1 1 = 0 then step_pins OR pin Y_STEP_BIT else step_pins);
          step_pins = (if led_on s AND push_bit 2 1 = 0 then step_pins OR pin Z_STEP_BIT else step_pins);
          s = emit (ClrPin 1 step_pins) s
      in if led_on s AND push_bit 3 1 = 0 then emit (ClrPin 0 (pin E_STEP_BIT)) s else s)"

text \<open>\<open>d\<close>: the value of the floating-point expression for \<open>dac_scale\<close> in the configuration.\<close>

definition st_wake_up :: "U32 \<Rightarrow> stepper \<Rightarrow> stepper" where
  "st_wake_up d s = (emit (TimerOn 1) s)\<lparr>dac_scale := d\<rparr>"

definition st_go_idle :: "stepper \<Rightarrow> stepper" where
  "st_go_idle s = clear_all_step_pins (emit (TimerOff 1) s)"

definition config_step_timer :: "U32 \<Rightarrow> stepper \<Rightarrow> U32 \<times> stepper" where
  "config_step_timer cycles s =
     (let cycles = (if cycles > 0x3ffffff then 0x4000000 else cycles)
      in (cycles, emit (TimerInterval 1 cycles) s))"

text \<open>A division by \<open>dac_scale = 0\<close> gives 0 on the processor, as \<open>div\<close> does on words.\<close>

definition set_step_events_per_minute :: "U32 \<Rightarrow> stepper \<Rightarrow> stepper" where
  "set_step_events_per_minute r s =
     (let r = (if r < MINIMUM_STEPS_PER_MINUTE then MINIMUM_STEPS_PER_MINUTE else r);
          (c, s) = config_step_timer ((TICKS_PER_MICROSECOND * 1000000 * 6) div r * 10) s;
          s = s\<lparr>cycles_per_step_event := c\<rparr>
      in emit (DacValue (r div dac_scale s)) s)"

definition trapezoid_generator_reset :: "block_t \<Rightarrow> stepper \<Rightarrow> stepper" where
  "trapezoid_generator_reset b s =
     (let s = s\<lparr>trapezoid_adjusted_rate := initial_rate b,
                min_safe_rate := rate_delta b + signed_drop_bit 1 (rate_delta b),
                trapezoid_tick_cycle_counter := CYCLES_PER_ACCELERATION_TICK div 2\<rparr>
      in set_step_events_per_minute (trapezoid_adjusted_rate s) s)"

section \<open>The interrupt\<close>

text \<open>Taking the next block from the buffer.\<close>

definition st_fetch :: "stepper \<Rightarrow> stepper" where
  "st_fetch s =
     (case current_block s of
        Some _ \<Rightarrow> s
      | None \<Rightarrow>
          (let s = s\<lparr>current_block := plan_get_current_block s\<rparr>
           in case current_block s of
                None \<Rightarrow> st_go_idle s
              | Some i \<Rightarrow>
                  (let b = block_buffer s i;
                       s = trapezoid_generator_reset b s;
                       c = - (signed_drop_bit 1 (step_event_count b));
                       s = s\<lparr>counter_x := c, counter_y := c, counter_z := c, counter_e := c,
                             step_events_completed := 0, dir_bits := direction_bits b\<rparr>;
                       s = set_direction_pins s
                   in s\<lparr>step_bits_xyz := 0, step_bits_e := 0\<rparr>)))"

text \<open>One step of the line tracer for one axis: the new counter, and whether the axis steps.\<close>

definition bresenham :: "U32 \<Rightarrow> U32 \<Rightarrow> U32 \<Rightarrow> U32 \<times> bool" where
  "bresenham st n c = (let c = c + st in if sint c > 0 then (c - n, True) else (c, False))"

definition st_trace_line :: "block_t \<Rightarrow> stepper \<Rightarrow> stepper" where
  "st_trace_line b s =
     (let s = s\<lparr>step_bits_xyz := 0, step_bits_e := 0\<rparr>;
          (c, st) = bresenham (steps_x b) (step_event_count b) (counter_x s);
          s = s\<lparr>counter_x := c, step_bits_xyz := step_bits_xyz s OR (if st then pin X_STEP_BIT else 0)\<rparr>;
          (c, st) = bresenham (steps_y b) (step_event_count b) (counter_y s);
          s = s\<lparr>counter_y := c, step_bits_xyz := step_bits_xyz s OR (if st then pin Y_STEP_BIT else 0)\<rparr>;
          (c, st) = bresenham (steps_z b) (step_event_count b) (counter_z s);
          s = s\<lparr>counter_z := c, step_bits_xyz := step_bits_xyz s OR (if st then pin Z_STEP_BIT else 0)\<rparr>;
          (c, st) = bresenham (steps_e b) (step_event_count b) (counter_e s)
      in s\<lparr>counter_e := c, step_bits_e := step_bits_e s OR (if st then pin E_STEP_BIT else 0)\<rparr>)"

text \<open>The end stops, read with the direction of the axis (\<open>hit_home_stop_x\<close>, \<open>_y\<close>, \<open>_z\<close>), and whether the temperature is reached.\<close>

record inputs =
  home_x :: "U32 \<Rightarrow> bool"
  home_y :: "U32 \<Rightarrow> bool"
  home_z :: "U32 \<Rightarrow> bool"
  temp_achieved :: bool

definition st_endstops :: "inputs \<Rightarrow> block_t \<Rightarrow> stepper \<Rightarrow> stepper" where
  "st_endstops inp b s =
     (if check_endstops b
         \<and> (steps_x b \<noteq> 0 \<and> home_x inp (dir_bits s AND pin X_DIRECTION_BIT)
            \<or> steps_y b \<noteq> 0 \<and> home_y inp (dir_bits s AND pin Y_DIRECTION_BIT)
            \<or> steps_z b \<noteq> 0 \<and> home_z inp (dir_bits s AND pin Z_DIRECTION_BIT))
      then s\<lparr>step_events_completed := step_event_count b, step_bits_xyz := 0, step_bits_e := 0\<rparr>
      else s)"

definition st_trapezoid :: "block_t \<Rightarrow> stepper \<Rightarrow> stepper" where
  "st_trapezoid b s =
     (if step_events_completed s < accelerate_until b then
        (if accel_flag s then
           (let s = s\<lparr>trapezoid_adjusted_rate := trapezoid_adjusted_rate s + rate_delta b\<rparr>;
                s = (if trapezoid_adjusted_rate s \<ge> nominal_rate b
                     then s\<lparr>trapezoid_adjusted_rate := nominal_rate b\<rparr> else s);
                s = set_step_events_per_minute (trapezoid_adjusted_rate s) s
            in s\<lparr>accel_flag := False\<rparr>)
         else s)
      else if step_events_completed s \<ge> decelerate_after b then
        (if step_events_completed s = decelerate_after b
         then s\<lparr>trapezoid_tick_cycle_counter := CYCLES_PER_ACCELERATION_TICK div 2\<rparr>
         else if accel_flag s then
           (let s = (if trapezoid_adjusted_rate s > rate_delta b
                     then s\<lparr>trapezoid_adjusted_rate := trapezoid_adjusted_rate s - rate_delta b\<rparr> else s);
                s = (if trapezoid_adjusted_rate s < final_rate b
                     then s\<lparr>trapezoid_adjusted_rate := final_rate b\<rparr> else s);
                s = set_step_events_per_minute (trapezoid_adjusted_rate s) s
            in s\<lparr>accel_flag := False\<rparr>)
         else s)
      else if trapezoid_adjusted_rate s \<noteq> nominal_rate b then
        (let s = s\<lparr>trapezoid_adjusted_rate := nominal_rate b\<rparr>
         in set_step_events_per_minute (trapezoid_adjusted_rate s) s)
      else s)"

definition st_finish :: "stepper \<Rightarrow> stepper" where
  "st_finish s = plan_discard_current_block (s\<lparr>current_block := None\<rparr>)"

definition st_move :: "inputs \<Rightarrow> block_t \<Rightarrow> stepper \<Rightarrow> stepper" where
  "st_move inp b s =
     (let s = st_trace_line b s;
          s = clear_step_pins s;
          s = s\<lparr>step_events_completed := step_events_completed s + 1\<rparr>;
          s = st_endstops inp b s;
          s = set_step_pins s
      in if step_events_completed s < step_event_count b then st_trapezoid b s else st_finish s)"

definition st_serve :: "inputs \<Rightarrow> stepper \<Rightarrow> stepper" where
  "st_serve inp s =
     (case current_block s of
        None \<Rightarrow> s\<lparr>step_bits_xyz := 0, step_bits_e := 0\<rparr>
      | Some i \<Rightarrow>
          (let b = block_buffer s i
           in if action_type b = AT_MOVE then st_move inp b s
              else if action_type b = AT_WAIT_TEMPS then
                (let s = s\<lparr>step_bits_xyz := 0, step_bits_e := 0\<rparr>
                 in if temp_achieved inp then st_finish s else s)
              else s))"

definition st_interrupt :: "inputs \<Rightarrow> stepper \<Rightarrow> stepper" where
  "st_interrupt inp s =
     (if busy s then s
      else
        (let s = s\<lparr>busy := True\<rparr>;
             s = st_fetch s;
             s = st_serve inp s;
             s = (if current_block s = None
                  then clear_all_step_pins (s\<lparr>leds_enabled := False, led_on := 0\<rparr>)
                  else clear_step_pins_by_state s)
         in s\<lparr>busy := False\<rparr>))"

definition st_reset_interrupt :: "stepper \<Rightarrow> stepper" where
  "st_reset_interrupt s = clear_all_step_pins s"

definition accelCallback :: "stepper \<Rightarrow> stepper" where
  "accelCallback s = s\<lparr>accel_flag := True\<rparr>"

definition stepCallback :: "inputs \<Rightarrow> stepper \<Rightarrow> stepper" where
  "stepCallback inp s = emit (ClrPin 1 (pin 15)) (st_interrupt inp (emit (SetPin 1 (pin 15)) s))"

definition st_init :: "stepper \<Rightarrow> stepper" where
  "st_init s =
     (let s = emit (TimerInterval 0 (TICKS_PER_MICROSECOND * 1000)) s;
          s = emit (TimerOn 0) s;
          s = set_step_events_per_minute 6000 s;
          s = s\<lparr>trapezoid_tick_cycle_counter := 0\<rparr>
      in st_go_idle s)"

section \<open>Pulses on the pins\<close>

text \<open>The level of a pin after a trace, and the number of times it rises.\<close>

fun level :: "nat \<Rightarrow> nat \<Rightarrow> bool \<Rightarrow> pin_event list \<Rightarrow> bool" where
  "level p b l [] = l"
| "level p b l (SetPin q m # tr) = level p b (l \<or> q = p \<and> bit m b) tr"
| "level p b l (ClrPin q m # tr) = level p b (l \<and> \<not> (q = p \<and> bit m b)) tr"
| "level p b l (_ # tr) = level p b l tr"

fun rises :: "nat \<Rightarrow> nat \<Rightarrow> bool \<Rightarrow> pin_event list \<Rightarrow> nat" where
  "rises p b l [] = 0"
| "rises p b l (SetPin q m # tr) = (if \<not> l \<and> q = p \<and> bit m b then 1 else 0) + rises p b (l \<or> q = p \<and> bit m b) tr"
| "rises p b l (ClrPin q m # tr) = rises p b (l \<and> \<not> (q = p \<and> bit m b)) tr"
| "rises p b l (_ # tr) = rises p b l tr"

lemma rises_append: "rises p b l (xs @ ys) = rises p b l xs + rises p b (level p b l xs) ys"
  by (induction p b l xs rule: rises.induct) auto

text \<open>Between two states the pin rises \<open>n\<close> times, whatever its level before.\<close>

definition stepped :: "nat \<Rightarrow> nat \<Rightarrow> stepper \<Rightarrow> stepper \<Rightarrow> nat \<Rightarrow> bool" where
  "stepped p b s s' n \<longleftrightarrow> (\<exists>d. trace s' = trace s @ d \<and> (\<forall>l. rises p b l d = n))"

lemma stepped_refl: "trace s' = trace s \<Longrightarrow> stepped p b s s' 0"
  by (auto simp: stepped_def)

lemma stepped_trans: "stepped p b s t m \<Longrightarrow> stepped p b t u n \<Longrightarrow> stepped p b s u (m + n)"
  by (fastforce simp: stepped_def rises_append)

lemma stepped_rises: "stepped p b s s' n \<Longrightarrow> rises p b l (trace s') = rises p b l (trace s) + n"
  by (auto simp: stepped_def rises_append)

lemma stepped_cong: "stepped p b s s' n \<Longrightarrow> trace t = trace s \<Longrightarrow> trace t' = trace s' \<Longrightarrow> stepped p b t t' n"
  by (simp add: stepped_def)

text \<open>The step pins of the four axes.\<close>

definition step_pin :: "nat \<Rightarrow> nat \<Rightarrow> bool" where
  "step_pin p b \<longleftrightarrow> (p, b) \<in> {(1, X_STEP_BIT), (1, Y_STEP_BIT), (1, Z_STEP_BIT), (0, E_STEP_BIT)}"

lemma trace_emit [simp]: "trace (emit x s) = trace s @ [x]"
  by (simp add: emit_def)

lemma emit_frame [simp]:
  "block_buffer (emit x s) = block_buffer s" "block_buffer_head (emit x s) = block_buffer_head s"
  "block_buffer_tail (emit x s) = block_buffer_tail s" "current_block (emit x s) = current_block s"
  "counter_x (emit x s) = counter_x s" "counter_y (emit x s) = counter_y s"
  "counter_z (emit x s) = counter_z s" "counter_e (emit x s) = counter_e s"
  "step_events_completed (emit x s) = step_events_completed s" "busy (emit x s) = busy s"
  "step_bits_xyz (emit x s) = step_bits_xyz s" "step_bits_e (emit x s) = step_bits_e s"
  "dir_bits (emit x s) = dir_bits s" "accel_flag (emit x s) = accel_flag s" "led_on (emit x s) = led_on s"
  by (simp_all add: emit_def)

text \<open>What the line tracer relies on is untouched by pins, rates and lights.\<close>

definition same_line :: "stepper \<Rightarrow> stepper \<Rightarrow> bool" where
  "same_line s t \<longleftrightarrow> block_buffer t = block_buffer s \<and> block_buffer_head t = block_buffer_head s
     \<and> block_buffer_tail t = block_buffer_tail s \<and> current_block t = current_block s
     \<and> counter_x t = counter_x s \<and> counter_y t = counter_y s \<and> counter_z t = counter_z s \<and> counter_e t = counter_e s
     \<and> step_events_completed t = step_events_completed s \<and> busy t = busy s
     \<and> step_bits_xyz t = step_bits_xyz s \<and> step_bits_e t = step_bits_e s"

lemma same_line_refl [simp]: "same_line s s"
  by (simp add: same_line_def)

lemma same_line_trans: "same_line s t \<Longrightarrow> same_line t u \<Longrightarrow> same_line s u"
  by (simp add: same_line_def)

lemma rate_same_line: "same_line s (set_step_events_per_minute r s)"
  by (simp add: set_step_events_per_minute_def config_step_timer_def Let_def same_line_def)

lemma rate_stepped: "stepped p b s (set_step_events_per_minute r s) 0"
  by (auto simp: set_step_events_per_minute_def config_step_timer_def Let_def stepped_def)

lemma trapezoid_same_line: "same_line s (st_trapezoid b s)"
  using rate_same_line by (auto simp: st_trapezoid_def Let_def same_line_def)

lemma stepped_rate:
  assumes "trace t = trace s"
  shows "stepped p b s (set_step_events_per_minute r t) 0"
    "stepped p b s ((set_step_events_per_minute r t)\<lparr>accel_flag := x\<rparr>) 0"
  using rate_stepped [of p b t r] assms by (simp_all add: stepped_def)

lemma trapezoid_stepped: "stepped p n s (st_trapezoid b s) 0"
  unfolding st_trapezoid_def Let_def by (simp add: stepped_refl stepped_rate)

lemma leds_same_line: "same_line s (inc_led_count a s)" "trace (inc_led_count a s) = trace s"
  by (simp_all add: inc_led_count_def Let_def same_line_def)

lemma pins_same_line:
  "same_line s (set_direction_pins s)" "same_line s (clear_step_pins s)" "same_line s (clear_step_pins_by_state s)"
  "same_line s (clear_all_step_pins s)"
  by (simp_all add: set_direction_pins_def clear_step_pins_def clear_step_pins_by_state_def clear_all_step_pins_def
      Let_def same_line_def)

lemma pins_stepped:
  "stepped p b s (clear_step_pins_by_state s) 0" "stepped p b s (clear_all_step_pins s) 0"
  "step_pin p b \<Longrightarrow> stepped p b s (set_direction_pins s) 0"
  by (auto simp: stepped_def clear_step_pins_by_state_def clear_all_step_pins_def set_direction_pins_def Let_def
      step_pin_def pin_consts bit_push_bit_iff)

text \<open>Lowering and raising the selected pins makes one pulse on each of them.\<close>

definition selected :: "nat \<Rightarrow> nat \<Rightarrow> stepper \<Rightarrow> bool" where
  "selected p b s \<longleftrightarrow> bit (if p = 1 then step_bits_xyz s else step_bits_e s) b"

lemma set_step_pins_trace:
  "trace (set_step_pins s) = trace s @ SetPin 1 (step_bits_xyz s) # (if step_bits_e s \<noteq> 0 then [SetPin 0 (step_bits_e s)] else [])"
proof -
  have l: "step_bits_xyz (inc_led_count a t) = step_bits_xyz t" "step_bits_e (inc_led_count a t) = step_bits_e t" for a t
    using leds_same_line(1) [of t a] by (simp_all add: same_line_def)
  show ?thesis by (simp add: set_step_pins_def Let_def leds_same_line(2) l)
qed

lemma set_step_pins_same_line: "same_line s (set_step_pins s)"
proof -
  have i: "same_line s (inc_led_count a t) = same_line s t" for a s t
    using leds_same_line(1) [of t a] by (simp add: same_line_def)
  have e: "same_line s (emit x t) = same_line s t" for x s t by (simp add: same_line_def)
  show ?thesis unfolding set_step_pins_def Let_def by (simp add: i e)
qed

lemma pulse:
  assumes "step_pin p b" "trace t = trace (clear_step_pins s)" "step_bits_xyz t = step_bits_xyz s" "step_bits_e t = step_bits_e s"
  shows "stepped p b s (set_step_pins t) (if selected p b s then 1 else 0)"
proof -
  have "\<not> bit (step_bits_e s) b" if "step_bits_e s = 0" using that by simp
  then show ?thesis using assms
    by (auto simp: stepped_def set_step_pins_trace clear_step_pins_def Let_def selected_def step_pin_def)
qed

section \<open>The line tracer\<close>

text \<open>The counter and the number of steps of an axis after \<open>k\<close> events, in unbounded arithmetic.\<close>

fun line_at :: "int \<Rightarrow> int \<Rightarrow> nat \<Rightarrow> int \<times> nat" where
  "line_at st n 0 = (- (n div 2), 0)"
| "line_at st n (Suc k) =
     (case line_at st n k of (c, d) \<Rightarrow> if c + st > 0 then (c + st - n, Suc d) else (c + st, d))"

lemma line_inv:
  assumes "0 \<le> st" "st \<le> n" "0 < n"
  shows "fst (line_at st n k) = int k * st - n div 2 - n * int (snd (line_at st n k)) \<and> - n < fst (line_at st n k) \<and> fst (line_at st n k) \<le> 0"
proof (induction k)
  case 0
  then show ?case using assms by simp
next
  case (Suc k)
  obtain c d where l: "line_at st n k = (c, d)" by (cases "line_at st n k")
  show ?case using Suc l assms by (auto simp: algebra_simps)
qed

lemma line_exact:
  assumes "0 \<le> st" "st \<le> n" "0 < n"
  shows "int (snd (line_at st n (nat n))) = st"
proof -
  let ?c = "fst (line_at st n (nat n))" and ?d = "int (snd (line_at st n (nat n)))"
  have c: "?c = n * st - n div 2 - n * ?d" "- n < ?c" "?c \<le> 0"
    using line_inv [OF assms, of "nat n"] assms(3) by simp_all
  then have e: "?c = n * (st - ?d) - n div 2" by (simp add: algebra_simps)
  have "st - ?d < 1"
  proof (rule ccontr)
    assume "\<not> st - ?d < 1"
    then have "n * 1 \<le> n * (st - ?d)" using assms(3) by (intro mult_left_mono) simp_all
    moreover have "n div 2 < n" using assms(3) by simp
    ultimately show False using c(3) e by linarith
  qed
  moreover have "st - ?d > -1"
  proof (rule ccontr)
    assume "\<not> st - ?d > -1"
    then have "n * (st - ?d) \<le> n * (-1)" using assms(3) by (intro mult_left_mono) simp_all
    moreover have "0 \<le> n div 2" using assms(3) by simp
    ultimately show False using c(2) e by linarith
  qed
  ultimately show ?thesis by simp
qed

lemma sint_add:
  "- 2147483648 \<le> sint a + sint b \<Longrightarrow> sint a + sint b < 2147483648 \<Longrightarrow> sint (a + b :: U32) = sint a + sint b"
  "- 2147483648 \<le> sint a - sint b \<Longrightarrow> sint a - sint b < 2147483648 \<Longrightarrow> sint (a - b :: U32) = sint a - sint b"
  by (simp_all add: sint_word_ariths signed_take_bit_int_eq_self)

lemma sint_small: "uint (a::U32) < 2 ^ 31 \<Longrightarrow> sint a = uint a"
proof -
  assume "uint a < 2 ^ 31"
  moreover have "- (2 ^ 31) \<le> uint a" by (rule order_trans [OF _ unsigned_greater_eq]) simp
  ultimately have "signed_take_bit 31 (uint a) = uint a" by (intro signed_take_bit_int_eq_self)
  then show ?thesis by (simp add: sint_uint)
qed

text \<open>A counter of the interrupt is the counter of the line after \<open>k\<close> events.\<close>

definition on_line :: "U32 \<Rightarrow> U32 \<Rightarrow> nat \<Rightarrow> U32 \<Rightarrow> bool" where
  "on_line st n k c \<longleftrightarrow> sint c = fst (line_at (uint st) (uint n) k)"

lemma bresenham_line:
  assumes "on_line st n k c" "st \<le> n" "0 < n" "uint n < 2 ^ 30"
  shows "on_line st n (Suc k) (fst (bresenham st n c))"
    "snd (line_at (uint st) (uint n) (Suc k)) = snd (line_at (uint st) (uint n) k) + (if snd (bresenham st n c) then 1 else 0)"
proof -
  have b: "0 \<le> uint st" "uint st \<le> uint n" "0 < uint n" using assms(2,3) by (simp_all add: word_le_def word_less_def)
  obtain z d where l: "line_at (uint st) (uint n) k = (z, d)" by (cases "line_at (uint st) (uint n) k")
  have z: "sint c = z" "- uint n < z" "z \<le> 0" using line_inv [OF b, of k] l assms(1) by (simp_all add: on_line_def)
  have s: "sint st = uint st" "sint n = uint n" using sint_small [of st] sint_small [of n] b assms(4) by auto
  have n: "uint n < 1073741824" using assms(4) by simp
  have a: "sint (c + st) = z + uint st" 
  proof -
    have "- 2147483648 \<le> sint c + sint st" "sint c + sint st < 2147483648" using z b s n by linarith+
    then show ?thesis using sint_add(1) z s by simp
  qed
  have "sint (c + st - n) = z + uint st - uint n" 
  proof -
    have "- 2147483648 \<le> sint (c + st) - sint n" "sint (c + st) - sint n < 2147483648" using a z b s n by linarith+
    then show ?thesis using sint_add(2) a s by simp
  qed
  then show "on_line st n (Suc k) (fst (bresenham st n c))"
    "snd (line_at (uint st) (uint n) (Suc k)) = snd (line_at (uint st) (uint n) k) + (if snd (bresenham st n c) then 1 else 0)"
    using a l by (auto simp: on_line_def bresenham_def Let_def)
qed

lemma start_on_line:
  assumes "uint n < 2 ^ 30"
  shows "on_line st n 0 (- signed_drop_bit 1 n)"
proof -
  have "sint n = uint n" using sint_small [of n] assms by simp
  then have "sint (signed_drop_bit 1 n) = uint n div 2"
    by (simp add: sint_signed_drop_bit_eq drop_bit_eq_div)
  moreover have "uint n div 2 < 1073741824" "0 \<le> uint n div 2" using assms by simp_all
  moreover have z: "sint (0::U32) = 0" by simp
  ultimately have "- 2147483648 \<le> sint (0::U32) - sint (signed_drop_bit 1 n)" "sint (0::U32) - sint (signed_drop_bit 1 n) < 2147483648"
    by linarith+
  then have "sint (0 - signed_drop_bit 1 n) = sint (0::U32) - sint (signed_drop_bit 1 n)" by (rule sint_add(2))
  then show ?thesis using \<open>sint (signed_drop_bit 1 n) = uint n div 2\<close> by (simp add: on_line_def)
qed

section \<open>A block is traced exactly\<close>

text \<open>The interrupt is in block \<open>i\<close>, a movement without end stops, and has done \<open>k\<close> of its events.\<close>

definition tracing :: "nat \<Rightarrow> block_t \<Rightarrow> nat \<Rightarrow> stepper \<Rightarrow> bool" where
  "tracing i b k s \<longleftrightarrow> current_block s = Some i \<and> block_buffer s i = b \<and> block_buffer_head s \<noteq> block_buffer_tail s
     \<and> unat (block_buffer_tail s) = i \<and> step_events_completed s = word_of_nat k
     \<and> on_line (steps_x b) (step_event_count b) k (counter_x s) \<and> on_line (steps_y b) (step_event_count b) k (counter_y s)
     \<and> on_line (steps_z b) (step_event_count b) k (counter_z s) \<and> on_line (steps_e b) (step_event_count b) k (counter_e s)"

definition move_block :: "block_t \<Rightarrow> bool" where
  "move_block b \<longleftrightarrow> action_type b = AT_MOVE \<and> \<not> check_endstops b \<and> 0 < step_event_count b \<and> uint (step_event_count b) < 2 ^ 30
     \<and> steps_x b \<le> step_event_count b \<and> steps_y b \<le> step_event_count b
     \<and> steps_z b \<le> step_event_count b \<and> steps_e b \<le> step_event_count b"

text \<open>The steps of a block on the axis of a step pin.\<close>

definition steps_on :: "nat \<Rightarrow> nat \<Rightarrow> block_t \<Rightarrow> U32" where
  "steps_on p b blk = (if p = 0 then steps_e blk else if b = X_STEP_BIT then steps_x blk
     else if b = Y_STEP_BIT then steps_y blk else steps_z blk)"

definition steps_after :: "nat \<Rightarrow> nat \<Rightarrow> block_t \<Rightarrow> nat \<Rightarrow> nat" where
  "steps_after p b blk k = snd (line_at (uint (steps_on p b blk)) (uint (step_event_count blk)) k)"

lemma steps_after_0 [simp]: "steps_after p b blk 0 = 0"
  by (simp add: steps_after_def)

lemma steps_after_mono: "k \<le> m \<Longrightarrow> steps_after p b blk k \<le> steps_after p b blk m"
  unfolding steps_after_def by (rule lift_Suc_mono_le) (auto split: prod.split)

lemma st_trace_line_eq:
  "st_trace_line b s =
     (let bx = bresenham (steps_x b) (step_event_count b) (counter_x s);
          by = bresenham (steps_y b) (step_event_count b) (counter_y s);
          bz = bresenham (steps_z b) (step_event_count b) (counter_z s);
          be = bresenham (steps_e b) (step_event_count b) (counter_e s)
      in s\<lparr>counter_x := fst bx, counter_y := fst by, counter_z := fst bz, counter_e := fst be,
           step_bits_xyz := (if snd bx then pin X_STEP_BIT else 0) OR (if snd by then pin Y_STEP_BIT else 0)
             OR (if snd bz then pin Z_STEP_BIT else 0),
           step_bits_e := (if snd be then pin E_STEP_BIT else 0)\<rparr>)"
  by (rule stepper.equality) (simp_all add: st_trace_line_def Let_def split_def or.assoc)

lemma trace_line_selects:
  assumes "tracing i blk k s" "move_block blk" "step_pin p b"
  shows "steps_after p b blk (Suc k) = steps_after p b blk k + (if selected p b (st_trace_line blk s) then 1 else 0)"
proof -
  have m: "0 < step_event_count blk" "uint (step_event_count blk) < 2 ^ 30" using assms(2) by (simp_all add: move_block_def)
  have step: "snd (line_at (uint st) (uint (step_event_count blk)) (Suc k)) =
      snd (line_at (uint st) (uint (step_event_count blk)) k) + (if snd (bresenham st (step_event_count blk) c) then 1 else 0)"
    if "on_line st (step_event_count blk) k c" "st \<le> step_event_count blk" for st c
    by (rule bresenham_line(2) [OF that m])
  have x: "step_bits_xyz (st_trace_line blk s) = 
      (if snd (bresenham (steps_x blk) (step_event_count blk) (counter_x s)) then pin X_STEP_BIT else 0)
      OR (if snd (bresenham (steps_y blk) (step_event_count blk) (counter_y s)) then pin Y_STEP_BIT else 0)
      OR (if snd (bresenham (steps_z blk) (step_event_count blk) (counter_z s)) then pin Z_STEP_BIT else 0)"
    "step_bits_e (st_trace_line blk s) =
      (if snd (bresenham (steps_e blk) (step_event_count blk) (counter_e s)) then pin E_STEP_BIT else 0)"
    by (simp_all add: st_trace_line_eq Let_def)
  show ?thesis
    using assms step [of "steps_x blk" "counter_x s"] step [of "steps_y blk" "counter_y s"]
      step [of "steps_z blk" "counter_z s"] step [of "steps_e blk" "counter_e s"]
    unfolding selected_def x steps_after_def steps_on_def tracing_def move_block_def step_pin_def
    by (auto simp: pin_consts bit_or_iff bit_push_bit_iff bit_1_iff simp del: line_at.simps)
qed

lemma trace_line_counts:
  assumes "tracing i blk k s" "move_block blk"
  shows "tracing i blk (Suc k) ((st_trace_line blk s)\<lparr>step_events_completed := step_events_completed s + 1\<rparr>)"
    "trace (st_trace_line blk s) = trace s" "busy (st_trace_line blk s) = busy s"
  using assms
  by (simp_all add: tracing_def move_block_def st_trace_line_eq Let_def bresenham_line(1) add.commute)

lemma tracing_cong: "same_line s t \<Longrightarrow> tracing i b k t = tracing i b k s"
  by (simp add: same_line_def tracing_def)

lemma serve_traces:
  assumes tr: "tracing i blk k s" and mv: "move_block blk" and k: "k < unat (step_event_count blk)" and s': "s' = st_serve inp s"
  shows "step_pin p b \<Longrightarrow> stepped p b s s' (steps_after p b blk (Suc k) - steps_after p b blk k)"
    "busy s' = busy s"
    "Suc k < unat (step_event_count blk) \<Longrightarrow> tracing i blk (Suc k) s'"
    "Suc k = unat (step_event_count blk) \<Longrightarrow>
       current_block s' = None \<and> block_buffer_tail s' = next_block_index (block_buffer_tail s)"
    "block_buffer s' = block_buffer s" "block_buffer_head s' = block_buffer_head s"
proof -
  define s1 where "s1 = st_trace_line blk s"
  define s4 where "s4 = (clear_step_pins s1)\<lparr>step_events_completed := step_events_completed s + 1\<rparr>"
  define s5 where "s5 = set_step_pins s4"
  have c: "step_events_completed (clear_step_pins s1) = step_events_completed s"
    using pins_same_line(2) [of s1] by (simp add: same_line_def s1_def st_trace_line_eq Let_def)
  have cb: "current_block s = Some i" "block_buffer s i = blk" using tr by (simp_all add: tracing_def)
  have e: "\<not> check_endstops blk" "action_type blk = AT_MOVE" using mv by (simp_all add: move_block_def)
  have "s' = (if step_events_completed s5 < step_event_count blk then st_trapezoid blk s5 else st_finish s5)"
    unfolding s' st_serve_def cb option.case Let_def st_move_def
    using c e by (simp add: st_endstops_def s5_def s4_def s1_def)
  note s' = this
  have t4: "tracing i blk (Suc k) s4"
    using trace_line_counts(1) [OF tr mv] pins_same_line(2) [of s1]
    by (simp add: s4_def s1_def same_line_def tracing_def)
  have t5: "tracing i blk (Suc k) s5" using tracing_cong [OF set_step_pins_same_line] t4 by (simp add: s5_def)
  have lt: "unat (step_event_count blk) < 2 ^ 32" by (rule order_less_le_trans [OF unsigned_less]) simp
  have cmp: "step_events_completed s5 < step_event_count blk \<longleftrightarrow> Suc k < unat (step_event_count blk)"
  proof -
    have "unat (word_of_nat (Suc k) :: U32) = Suc k" using k lt by (simp only: unat_of_nat) simp
    moreover have "step_events_completed s5 = word_of_nat (Suc k)" using t5 by (simp only: tracing_def)
    ultimately show ?thesis by (simp only: word_less_nat_alt)
  qed
  have l5: "block_buffer s5 = block_buffer s" "block_buffer_head s5 = block_buffer_head s"
    "block_buffer_tail s5 = block_buffer_tail s" "busy s5 = busy s"
    using set_step_pins_same_line [of s4] pins_same_line(2) [of s1]
    by (simp_all add: same_line_def s5_def s4_def s1_def st_trace_line_eq Let_def)
  have p5: "stepped p b s s5 (if selected p b s1 then 1 else 0)" if "step_pin p b"
  proof -
    have "stepped p b s1 (set_step_pins s4) (if selected p b s1 then 1 else 0)"
      using pins_same_line(2) [of s1] by (intro pulse [OF that]) (simp_all add: s4_def same_line_def)
    then show ?thesis by (rule stepped_cong) (simp_all add: s5_def s1_def trace_line_counts(2) [OF tr mv])
  qed
  have f: "stepped p b s5 s' 0"
    using trapezoid_stepped [of p b s5 blk]
    by (simp add: s' st_finish_def plan_discard_current_block_def stepped_refl)
  show "stepped p b s s' (steps_after p b blk (Suc k) - steps_after p b blk k)" if "step_pin p b"
    using stepped_trans [OF p5 [OF that] f] trace_line_selects [OF tr mv that] by (simp add: s1_def split: if_splits)
  have z: "same_line s5 (st_trapezoid blk s5)" by (rule trapezoid_same_line)
  show "busy s' = busy s" "block_buffer s' = block_buffer s" "block_buffer_head s' = block_buffer_head s"
    using z l5 by (simp_all add: s' same_line_def st_finish_def plan_discard_current_block_def)
  show "Suc k < unat (step_event_count blk) \<Longrightarrow> tracing i blk (Suc k) s'"
    using cmp tracing_cong [OF z] t5 by (simp add: s')
  show "Suc k = unat (step_event_count blk) \<Longrightarrow>
      current_block s' = None \<and> block_buffer_tail s' = next_block_index (block_buffer_tail s)"
    using cmp l5 tr by (simp add: s' st_finish_def plan_discard_current_block_def tracing_def)
qed

text \<open>The two interrupts: a step event with the inputs it reads, and a tick of the acceleration timer.\<close>

datatype interrupt = Step inputs | Accel

fun st_event :: "interrupt \<Rightarrow> stepper \<Rightarrow> stepper" where
  "st_event (Step inp) s = st_interrupt inp s"
| "st_event Accel s = accelCallback s"

fun is_step :: "interrupt \<Rightarrow> bool" where
  "is_step (Step inp) = True"
| "is_step Accel = False"

lemma close_pins:
  defines "close \<equiv> \<lambda>s. (if current_block s = None then clear_all_step_pins (s\<lparr>leds_enabled := False, led_on := 0\<rparr>)
     else clear_step_pins_by_state s)\<lparr>busy := False\<rparr>"
  shows "stepped p b s (close s) 0" "same_line (s\<lparr>busy := False\<rparr>) (close s)"
proof -
  have "stepped p b (s\<lparr>leds_enabled := False, led_on := 0\<rparr>) (clear_all_step_pins (s\<lparr>leds_enabled := False, led_on := 0\<rparr>)) 0"
    by (rule pins_stepped)
  then show "stepped p b s (close s) 0" using pins_stepped(1) [of p b s] by (simp add: close_def stepped_def)
  show "same_line (s\<lparr>busy := False\<rparr>) (close s)"
    using pins_same_line(4) [of "s\<lparr>leds_enabled := False, led_on := 0\<rparr>"] pins_same_line(3) [of s]
    by (simp add: close_def same_line_def)
qed

lemma interrupt_traces:
  assumes tr: "tracing i blk k s" "\<not> busy s" and mv: "move_block blk" and k: "k < unat (step_event_count blk)"
    and s': "s' = st_interrupt inp s"
  shows "step_pin p b \<Longrightarrow> stepped p b s s' (steps_after p b blk (Suc k) - steps_after p b blk k)"
    "\<not> busy s'"
    "Suc k < unat (step_event_count blk) \<Longrightarrow> tracing i blk (Suc k) s'"
    "Suc k = unat (step_event_count blk) \<Longrightarrow>
       current_block s' = None \<and> block_buffer_tail s' = next_block_index (block_buffer_tail s)"
proof -
  define t where "t = st_serve inp (s\<lparr>busy := True\<rparr>)"
  have "tracing i blk k (s\<lparr>busy := True\<rparr>)" using tr(1) by (simp add: tracing_def)
  note sv = serve_traces [OF this mv k t_def]
  have f: "st_fetch (s\<lparr>busy := True\<rparr>) = s\<lparr>busy := True\<rparr>" using tr(1) by (simp add: st_fetch_def tracing_def)
  have s': "s' = (if current_block t = None then clear_all_step_pins (t\<lparr>leds_enabled := False, led_on := 0\<rparr>)
     else clear_step_pins_by_state t)\<lparr>busy := False\<rparr>"
    using tr(2) by (simp add: s' st_interrupt_def Let_def f t_def)
  note cl = close_pins(1) [where s = t, folded s'] close_pins(2) [of t, folded s']
  show "stepped p b s s' (steps_after p b blk (Suc k) - steps_after p b blk k)" if "step_pin p b"
    using stepped_trans [OF sv(1) [OF that] cl(1)] by (simp add: stepped_def)
  show "\<not> busy s'" by (simp add: s')
  show "Suc k < unat (step_event_count blk) \<Longrightarrow> tracing i blk (Suc k) s'"
    using sv(3) cl(2) by (simp add: tracing_def same_line_def)
  show "Suc k = unat (step_event_count blk) \<Longrightarrow>
      current_block s' = None \<and> block_buffer_tail s' = next_block_index (block_buffer_tail s)"
    using sv(4) cl(2) by (simp add: same_line_def)
qed

text \<open>Between blocks, with block \<open>blk\<close> next in the buffer.\<close>

definition at_block :: "nat \<Rightarrow> block_t \<Rightarrow> stepper \<Rightarrow> bool" where
  "at_block i blk s \<longleftrightarrow> current_block s = None \<and> \<not> busy s \<and> block_buffer_head s \<noteq> block_buffer_tail s
     \<and> unat (block_buffer_tail s) = i \<and> block_buffer s i = blk"

lemma fetch_starts:
  assumes "at_block i blk s" "move_block blk"
  shows "tracing i blk 0 ((st_fetch (s\<lparr>busy := True\<rparr>))\<lparr>busy := False\<rparr>)"
    "step_pin p b \<Longrightarrow> stepped p b s (st_fetch (s\<lparr>busy := True\<rparr>)) 0"
    "block_buffer_tail (st_fetch (s\<lparr>busy := True\<rparr>)) = block_buffer_tail s"
    "busy (st_fetch (s\<lparr>busy := True\<rparr>))"
proof -
  define t where "t = s\<lparr>busy := True, current_block := Some i\<rparr>"
  define t1 where "t1 = trapezoid_generator_reset blk t"
  define c where "c = - signed_drop_bit 1 (step_event_count blk)"
  define t2 where "t2 = t1\<lparr>counter_x := c, counter_y := c, counter_z := c, counter_e := c,
      step_events_completed := 0, dir_bits := direction_bits blk\<rparr>"
  have f: "st_fetch (s\<lparr>busy := True\<rparr>) = (set_direction_pins t2)\<lparr>step_bits_xyz := 0, step_bits_e := 0\<rparr>"
    using assms(1) by (auto simp: st_fetch_def Let_def at_block_def plan_get_current_block_def t2_def t1_def t_def c_def)
  have l1: "same_line t t1" using rate_same_line by (simp add: t1_def trapezoid_generator_reset_def Let_def same_line_def)
  have l2: "same_line t2 (set_direction_pins t2)" by (rule pins_same_line)
  have "on_line st (step_event_count blk) 0 c" for st
    unfolding c_def by (rule start_on_line) (use assms(2) in \<open>simp add: move_block_def\<close>)
  then show "tracing i blk 0 ((st_fetch (s\<lparr>busy := True\<rparr>))\<lparr>busy := False\<rparr>)"
    using assms(1) l1 l2 by (simp add: f tracing_def same_line_def t2_def t_def at_block_def)
  show "block_buffer_tail (st_fetch (s\<lparr>busy := True\<rparr>)) = block_buffer_tail s" "busy (st_fetch (s\<lparr>busy := True\<rparr>))"
    using l1 l2 by (simp_all add: f same_line_def t2_def t_def)
  have "stepped p b s t2 0"
    using stepped_rate(1) [of "t\<lparr>trapezoid_adjusted_rate := r, min_safe_rate := x, trapezoid_tick_cycle_counter := y\<rparr>" s for r x y]
    by (simp add: stepped_def t2_def t1_def t_def trapezoid_generator_reset_def Let_def)
  then show "step_pin p b \<Longrightarrow> stepped p b s (st_fetch (s\<lparr>busy := True\<rparr>)) 0"
    using stepped_trans [OF _ pins_stepped(3)] by (simp add: f stepped_def)
qed

lemma first_interrupt:
  assumes "at_block i blk s" "move_block blk"
  shows "st_interrupt inp s = st_interrupt inp ((st_fetch (s\<lparr>busy := True\<rparr>))\<lparr>busy := False\<rparr>)"
proof -
  define t where "t = st_fetch (s\<lparr>busy := True\<rparr>)"
  have "busy t" "current_block t = Some i" using fetch_starts(1,4) [OF assms] by (simp_all add: t_def tracing_def)
  then have "t\<lparr>busy := True\<rparr> = t" "st_fetch t = t" by (simp_all add: st_fetch_def)
  then show ?thesis using assms(1)
    by (simp add: st_interrupt_def Let_def at_block_def flip: t_def)
qed

text \<open>The state after \<open>k\<close> events of the block at position \<open>i\<close> of the buffer.\<close>

definition traced :: "nat \<Rightarrow> block_t \<Rightarrow> nat \<Rightarrow> stepper \<Rightarrow> bool" where
  "traced i blk k s \<longleftrightarrow> \<not> busy s
     \<and> (if k = 0 then at_block i blk s
        else if k < unat (step_event_count blk) then tracing i blk k s
        else current_block s = None \<and> block_buffer_tail s = next_block_index (word_of_nat i))"

lemma step_traced:
  assumes "traced i blk k s" "move_block blk" "k < unat (step_event_count blk)" "step_pin p b"
  shows "traced i blk (Suc k) (st_interrupt inp s)
    \<and> stepped p b s (st_interrupt inp s) (steps_after p b blk (Suc k) - steps_after p b blk k)"
proof -
  define t where "t = (if k = 0 then (st_fetch (s\<lparr>busy := True\<rparr>))\<lparr>busy := False\<rparr> else s)"
  have t: "tracing i blk k t" "\<not> busy t" "stepped p b s t 0" "st_interrupt inp s = st_interrupt inp t"
    using assms fetch_starts [of i blk s] first_interrupt [of i blk s inp] stepped_refl [of s s]
    by (auto simp: t_def traced_def stepped_def)
  note n = interrupt_traces [OF t(1,2) assms(2,3) refl, where inp = inp]
  have "block_buffer_tail t = word_of_nat i" using t(1) by (auto simp: tracing_def)
  then have "traced i blk (Suc k) (st_interrupt inp t)"
    using n(2,3,4) assms(3) by (auto simp: traced_def)
  then show ?thesis using stepped_trans [OF t(3) n(1) [OF assms(4)]] t(4) by simp
qed

lemma run_traced:
  assumes "traced i blk k s" "move_block blk" "k + length (filter is_step evs) = unat (step_event_count blk)" "step_pin p b"
  shows "traced i blk (unat (step_event_count blk)) (fold st_event evs s)
    \<and> stepped p b s (fold st_event evs s) (steps_after p b blk (unat (step_event_count blk)) - steps_after p b blk k)"
  using assms(1,3)
proof (induction evs arbitrary: s k)
  case Nil
  then show ?case by (simp add: stepped_refl)
next
  case (Cons ev evs)
  show ?case
  proof (cases ev)
    case (Step inp)
    have k: "k < unat (step_event_count blk)" using Cons.prems(2) Step by simp
    note st = step_traced [OF Cons.prems(1) assms(2) k assms(4), of inp]
    have "traced i blk (unat (step_event_count blk)) (fold st_event evs (st_interrupt inp s))
      \<and> stepped p b (st_interrupt inp s) (fold st_event evs (st_interrupt inp s))
          (steps_after p b blk (unat (step_event_count blk)) - steps_after p b blk (Suc k))"
      by (rule Cons.IH) (use st Cons.prems(2) Step in simp_all)
    then show ?thesis
      using stepped_trans [OF st [THEN conjunct2]] Step
        steps_after_mono [of k "Suc k" p b blk] steps_after_mono [of "Suc k" "unat (step_event_count blk)" p b blk] k
      by fastforce
  next
    case Accel
    have "traced i blk k (accelCallback s)" using Cons.prems(1)
      by (auto simp: traced_def accelCallback_def at_block_def tracing_def split: if_splits)
    from Cons.IH [OF this] Cons.prems(2) Accel show ?thesis
      by (simp add: stepped_def accelCallback_def)
  qed
qed

lemma steps_after_all:
  assumes "move_block blk" "step_pin p b"
  shows "steps_after p b blk (unat (step_event_count blk)) = unat (steps_on p b blk)"
proof -
  have "steps_on p b blk \<le> step_event_count blk" "0 < step_event_count blk"
    using assms by (auto simp: steps_on_def move_block_def)
  then have "int (steps_after p b blk (nat (uint (step_event_count blk)))) = uint (steps_on p b blk)"
    unfolding steps_after_def by (intro line_exact) (simp_all add: word_le_def word_less_def)
  then show ?thesis by (metis nat_int unat_eq_nat_uint)
qed

section \<open>Properties\<close>

definition example_block :: block_t where
  "example_block = \<lparr>action_type = AT_MOVE, steps_x = 3, steps_y = 2, steps_z = 0, steps_e = 1, direction_bits = 0,
     step_event_count = 3, nominal_rate = 3000, initial_rate = 1500, final_rate = 1500, rate_delta = 100,
     accelerate_until = 1, decelerate_after = 2, check_endstops = False\<rparr>"

definition example_stepper :: stepper where
  "example_stepper = \<lparr>block_buffer = (\<lambda>_. example_block), block_buffer_head = 1, block_buffer_tail = 0,
     led_count = (\<lambda>_. 0), led_on = 0, leds_enabled = False, dac_scale = 1, current_block = None, dir_bits = 0,
     step_bits_e = 0, step_bits_xyz = 0, counter_x = 0, counter_y = 0, counter_z = 0, counter_e = 0,
     step_events_completed = 0, busy = False, cycles_per_step_event = 0, trapezoid_tick_cycle_counter = 0,
     trapezoid_adjusted_rate = 0, min_safe_rate = 0, accel_flag = False, trace = []\<rparr>"

text \<open>The interrupts of a block, from the fetch to the discard.\<close>

lemma block_traced:
  assumes "at_block i blk s" "move_block blk" "length (filter is_step evs) = unat (step_event_count blk)"
  shows "let s' = fold st_event evs s in
      rises 1 X_STEP_BIT l (trace s') = rises 1 X_STEP_BIT l (trace s) + unat (steps_x blk)
    \<and> rises 1 Y_STEP_BIT l (trace s') = rises 1 Y_STEP_BIT l (trace s) + unat (steps_y blk)
    \<and> rises 1 Z_STEP_BIT l (trace s') = rises 1 Z_STEP_BIT l (trace s) + unat (steps_z blk)
    \<and> rises 0 E_STEP_BIT l (trace s') = rises 0 E_STEP_BIT l (trace s) + unat (steps_e blk)
    \<and> current_block s' = None \<and> block_buffer_tail s' = next_block_index (block_buffer_tail s)"
proof -
  have "traced i blk 0 s" using assms(1) by (simp add: traced_def at_block_def)
  note run = run_traced [OF this assms(2) _, of evs]
  have r: "rises p b l (trace (fold st_event evs s)) = rises p b l (trace s) + unat (steps_on p b blk)" if "step_pin p b" for p b
    using stepped_rises [OF run [OF _ that, THEN conjunct2]] steps_after_all [OF assms(2) that] assms(3) by simp
  have "traced i blk (unat (step_event_count blk)) (fold st_event evs s)"
    using run [of 1 X_STEP_BIT] assms(3) by (simp add: step_pin_def)
  moreover have "word_of_nat i = block_buffer_tail s" using assms(1) by (auto simp: at_block_def)
  moreover have "unat (step_event_count blk) \<noteq> 0" using assms(2) by (auto simp: move_block_def unat_eq_0)
  ultimately show ?thesis
    using r [of 1 X_STEP_BIT] r [of 1 Y_STEP_BIT] r [of 1 Z_STEP_BIT] r [of 0 E_STEP_BIT]
    by (simp add: traced_def step_pin_def steps_on_def Let_def pin_consts)
qed



text \<open>A block that waits for a time, which the planner accepts, is never finished: the motion stops there.\<close>

lemma wait_block_stays:
  assumes "current_block s = Some i" "action_type (block_buffer s i) = AT_WAIT"
  shows "current_block (st_interrupt inp s) = Some i \<and> block_buffer (st_interrupt inp s) = block_buffer s
    \<and> block_buffer_tail (st_interrupt inp s) = block_buffer_tail s"
  using assms by (simp add: st_interrupt_def Let_def st_fetch_def st_serve_def 
      clear_step_pins_by_state_def emit_def)

end
