(* ===== verification/C_Double.thy ===== *)
theory C_Double
  imports Prelude "HOL-Library.Log_Nat"
begin

text \<open>
  The arithmetic of the type \<open>double\<close> of C, as far as the firmware uses it.
\<close>

section \<open>Rounding and conversion\<close>

text \<open>
  A finite double is a rational number; every operation rounds its exact result to the nearest
  double, to the even one of two. The numbers of the firmware stay far from the largest double, so that
  there are no infinities.
\<close>

definition round_even :: "rat \<Rightarrow> int" where
  "round_even x =
     (let f = \<lfloor>x\<rfloor>; d = x - of_int f
      in if d < 1 / 2 \<or> d = 1 / 2 \<and> even f then f else f + 1)"

definition exponent_of :: "rat \<Rightarrow> int" where
  "exponent_of x =
     (case quotient_of x of (p, q) \<Rightarrow>
        let k = bitlen p - bitlen q in if 2 powi k \<le> x then k else k - 1)"

definition double_of :: "rat \<Rightarrow> rat" where
  "double_of x =
     (if x = 0 then 0
      else let e = max (exponent_of \<bar>x\<bar> - 52) (- 1074) in of_int (round_even (x / 2 powi e)) * 2 powi e)"

text \<open>A conversion to an integer type drops the fraction; it is undefined outside the range of the type.\<close>

definition truncated :: "rat \<Rightarrow> int" where
  "truncated x = (if 0 \<le> x then \<lfloor>x\<rfloor> else \<lceil>x\<rceil>)"

definition to_range :: "int \<Rightarrow> int \<Rightarrow> rat \<Rightarrow> 'a::len word option" where
  "to_range a b x = (let i = truncated x in if a \<le> i \<and> i \<le> b then Some (word_of_int i) else None)"

section \<open>Whole numbers\<close>

lemma round_even_int [simp]: "round_even (of_int n) = n"
  by (simp add: round_even_def)

text \<open>A whole number of at most 53 bits is a double.\<close>

lemma double_of_int:
  assumes "\<bar>n\<bar> < 2 ^ 53"
  shows "double_of (of_int n) = of_int n"
proof (cases "n = 0")
  case False
  define e where "e = max (exponent_of \<bar>of_int n\<bar> - 52) (- 1074)"
  have q: "quotient_of \<bar>of_int n\<bar> = (\<bar>n\<bar>, 1)" by (simp flip: of_int_abs)
  have "bitlen \<bar>n\<bar> \<le> 53" using assms False bitlen_le_iff_power [of "\<bar>n\<bar>" 53] by simp
  moreover have "bitlen 1 = 1" by (simp add: compute_bitlen [of 1] compute_bitlen [of 0])
  ultimately have "exponent_of \<bar>of_int n\<bar> \<le> 52" by (simp add: exponent_of_def q Let_def)
  then have "e \<le> 0" by (simp add: e_def)
  then obtain k where e: "e = - int k" by (metis minus_minus neg_0_le_iff_le nonneg_int_cases)
  have "of_int n / 2 powi e = (of_int (n * 2 ^ k) :: rat)" by (simp add: e power_int_minus power_int_of_nat divide_inverse)
  then show ?thesis using False
    by (simp add: double_of_def Let_def power_int_minus e flip: e_def del: of_int_mult) (simp add: field_simps)
qed (simp add: double_of_def)

lemma double_of_nat: "n < 2 ^ 53 \<Longrightarrow> double_of (of_nat n) = of_nat n"
  using double_of_int [of "int n"] by simp

lemma to_range_nat: "a \<le> 0 \<Longrightarrow> int n \<le> b \<Longrightarrow> to_range a b (of_nat n) = Some (word_of_nat n)"
  by (simp add: to_range_def truncated_def Let_def)

section \<open>The grid of the doubles\<close>

text \<open>Numbers of at most 53 bits, times a power of two.\<close>

definition is_double :: "rat \<Rightarrow> bool" where
  "is_double x \<longleftrightarrow> (\<exists>n e. x = of_int n * 2 powi e \<and> \<bar>n\<bar> \<le> 2 ^ 53 \<and> - 1074 \<le> e)"

lemma powi_le_iff [simp]: "(2::rat) powi a \<le> 2 powi b \<longleftrightarrow> a \<le> b"
  using power_int_increasing [of a b "2::rat"] power_int_strict_increasing [of b a "2::rat"] by fastforce

lemma powi_less_iff [simp]: "(2::rat) powi a < 2 powi b \<longleftrightarrow> a < b"
  by (simp flip: not_le)

lemma powi_split: "(2::rat) powi a = 2 powi b * 2 powi (a - b)"
  by (simp flip: power_int_add)

lemma pow_powi: "(2::rat) ^ n * 2 powi a = 2 powi (a + int n)"
  by (simp add: power_int_add)

text \<open>A multiple of a larger power is a multiple of a smaller one.\<close>

lemma powi_grid: "b \<le> a \<Longrightarrow> (of_int n :: rat) * 2 powi a = of_int (n * 2 ^ nat (a - b)) * 2 powi b"
proof -
  assume "b \<le> a"
  then have "(2::rat) powi (a - b) = 2 ^ nat (a - b)" by (simp add: power_int_def)
  then show ?thesis by (simp add: powi_split [of a b])
qed

lemma round_even_bounds: "x \<le> of_int n \<Longrightarrow> round_even x \<le> n" "of_int n \<le> x \<Longrightarrow> n \<le> round_even x"
proof -
  assume "x \<le> of_int n"
  then consider "\<lfloor>x\<rfloor> < n" | "x = of_int n" by linarith
  then show "round_even x \<le> n" by cases (auto simp: round_even_def Let_def)
next
  assume "of_int n \<le> x"
  then have "n \<le> \<lfloor>x\<rfloor>" by linarith
  then show "n \<le> round_even x" by (simp add: round_even_def Let_def)
qed

lemma round_even_mono:
  assumes "x \<le> y"
  shows "round_even x \<le> round_even y"
proof (cases "\<lfloor>x\<rfloor> = \<lfloor>y\<rfloor>")
  case True
  then show ?thesis using assms by (auto simp: round_even_def Let_def)
next
  case False
  then have "\<lfloor>x\<rfloor> + 1 \<le> \<lfloor>y\<rfloor>" using floor_mono [OF assms] by simp
  moreover have "round_even x \<le> \<lfloor>x\<rfloor> + 1" "\<lfloor>y\<rfloor> \<le> round_even y" by (simp_all add: round_even_def Let_def)
  ultimately show ?thesis by simp
qed

lemma round_even_minus: "round_even (- x) = - round_even x"
proof (cases "x = of_int \<lfloor>x\<rfloor>")
  case True
  then show ?thesis using round_even_int [of "\<lfloor>x\<rfloor>"] round_even_int [of "- \<lfloor>x\<rfloor>"] by simp
next
  case False
  then have "\<lfloor>- x\<rfloor> = - \<lfloor>x\<rfloor> - 1" by linarith
  then show ?thesis by (auto simp: round_even_def Let_def)
qed

lemma round_even_near: "\<bar>of_int (round_even x) - x\<bar> \<le> 1 / 2"
proof -
  define f where "f = \<lfloor>x\<rfloor>"
  have "of_int f \<le> x" "x < of_int f + 1" unfolding f_def by linarith+
  then show ?thesis unfolding round_even_def Let_def abs_le_iff by (fold f_def) auto
qed

lemma bitlen_powi:
  assumes "0 < p"
  shows "2 powi (bitlen p - 1) \<le> (of_int p :: rat)" "(of_int p :: rat) < 2 powi bitlen p"
proof -
  have b: "2 ^ nat (bitlen p - 1) \<le> p" "p < 2 ^ nat (bitlen p)" using bitlen_bounds [OF assms] by simp_all
  have "1 \<le> bitlen p" using bitlen_nonneg [of p] bitlen_eq_zero_iff [of p] assms by linarith
  moreover have "(2 ^ nat (bitlen p - 1) :: rat) \<le> of_int p" "(of_int p :: rat) < 2 ^ nat (bitlen p)"
    using b by (metis of_int_le_iff of_int_numeral of_int_power, metis of_int_less_iff of_int_numeral of_int_power)
  ultimately show "2 powi (bitlen p - 1) \<le> (of_int p :: rat)" "(of_int p :: rat) < 2 powi bitlen p"
    by (simp_all add: power_int_def)
qed

lemma exponent_of_bounds:
  assumes "0 < x"
  shows "2 powi exponent_of x \<le> x" "x < 2 powi (exponent_of x + 1)"
proof -
  obtain p q where pq: "quotient_of x = (p, q)" by (cases "quotient_of x")
  have q: "0 < q" using quotient_of_denom_pos [OF pq] .
  have x: "x = of_int p / of_int q" using quotient_of_div [OF pq] .
  then have p: "0 < p" using assms q by (simp add: zero_less_divide_iff)
  define k where "k = bitlen p - bitlen q"
  have "x * of_int q < 2 powi bitlen p" using bitlen_powi(2) [OF p] q by (simp add: x)
  also have "2 powi bitlen p = 2 powi (k + 1) * (2 powi (bitlen q - 1) :: rat)" by (simp add: k_def flip: power_int_add)
  also have "\<dots> \<le> 2 powi (k + 1) * of_int q" using bitlen_powi(1) [OF q] by simp
  finally have hi: "x < 2 powi (k + 1)" using q by simp
  have "2 powi (k - 1) * of_int q \<le> (2 powi (k - 1) * 2 powi bitlen q :: rat)" using bitlen_powi(2) [OF q] by simp
  also have "\<dots> = 2 powi (bitlen p - 1)" by (simp add: k_def flip: power_int_add)
  also have "\<dots> \<le> x * of_int q" using bitlen_powi(1) [OF p] q by (simp add: x)
  finally have lo: "2 powi (k - 1) \<le> x" using q by simp
  show "2 powi exponent_of x \<le> x" "x < 2 powi (exponent_of x + 1)"
    using hi lo by (auto simp: exponent_of_def pq Let_def simp flip: k_def)
qed

lemma exponent_of_eq: "2 powi k \<le> x \<Longrightarrow> x < 2 powi (k + 1) \<Longrightarrow> exponent_of x = k"
proof -
  assume a: "2 powi k \<le> x" "x < 2 powi (k + 1)"
  then have "0 < x" by (meson less_le_trans zero_less_numeral zero_less_power_int)
  note b = exponent_of_bounds [OF this]
  have "(2::rat) powi k < 2 powi (exponent_of x + 1)" "(2::rat) powi exponent_of x < 2 powi (k + 1)" using a b by linarith+
  then show ?thesis by simp
qed

lemma exponent_of_mono: "0 < x \<Longrightarrow> x \<le> y \<Longrightarrow> exponent_of x \<le> exponent_of y"
proof -
  assume a: "0 < x" "x \<le> y"
  then have "(2::rat) powi exponent_of x < 2 powi (exponent_of y + 1)"
    using exponent_of_bounds(1) [of x] exponent_of_bounds(2) [of y] by linarith
  then show ?thesis by simp
qed

text \<open>The exponent of the last bit of a number.\<close>

definition ulp :: "rat \<Rightarrow> int" where
  "ulp x = max (exponent_of x - 52) (- 1074)"

lemma double_of_pos: "0 < x \<Longrightarrow> double_of x = of_int (round_even (x / 2 powi ulp x)) * 2 powi ulp x"
  by (simp add: double_of_def ulp_def Let_def)

lemma double_of_minus: "double_of (- x) = - double_of x"
  by (simp add: double_of_def Let_def round_even_minus)

lemma double_of_zero [simp]: "double_of 0 = 0"
  by (simp add: double_of_def)

lemma ulp_mono: "0 < x \<Longrightarrow> x \<le> y \<Longrightarrow> ulp x \<le> ulp y"
  using exponent_of_mono [of x y] by (auto simp: ulp_def)

text \<open>A multiple of the last bit is not crossed.\<close>

lemma double_of_grid:
  assumes "0 < x"
  shows "x \<le> of_int n * 2 powi ulp x \<Longrightarrow> double_of x \<le> of_int n * 2 powi ulp x"
    "of_int n * 2 powi ulp x \<le> x \<Longrightarrow> of_int n * 2 powi ulp x \<le> double_of x"
  using round_even_bounds(1) [of "x / 2 powi ulp x" n] round_even_bounds(2) [of n "x / 2 powi ulp x"] by (simp_all add: double_of_pos [OF assms] field_simps)

lemma double_of_nonneg: "0 \<le> x \<Longrightarrow> 0 \<le> double_of x"
  using double_of_grid(2) [of x 0] by (cases "x = 0") simp_all

lemma double_of_mono_pos:
  assumes "0 < x" "x \<le> y"
  shows "double_of x \<le> double_of y"
proof (cases "ulp x = ulp y")
  case True
  moreover have "x / 2 powi ulp y \<le> y / 2 powi ulp y" using assms by (simp add: divide_right_mono)
  ultimately show ?thesis using assms round_even_mono by (simp add: double_of_pos)
next
  case False
  then have u: "ulp x < ulp y" using ulp_mono [OF assms] by simp
  then have e: "ulp y = exponent_of y - 52" "exponent_of x < exponent_of y" "- 1074 \<le> ulp x" by (auto simp: ulp_def)
  have g: "2 powi exponent_of y = (of_int (2 ^ nat (exponent_of y - z)) * 2 powi z :: rat)" if "z \<le> exponent_of y" for z
    using powi_grid [OF that, of 1] by simp
  have "x \<le> 2 powi exponent_of y"
    using exponent_of_bounds(2) [OF assms(1)] e(2) powi_le_iff [of "exponent_of x + 1" "exponent_of y"] by linarith
  moreover have "ulp x \<le> exponent_of y" using u e by simp
  ultimately have "double_of x \<le> 2 powi exponent_of y" using double_of_grid(1) [OF assms(1)] g [of "ulp x"] by metis
  also have "\<dots> \<le> double_of y"
  proof -
    have "0 < y" "ulp y \<le> exponent_of y" using assms e(1) by simp_all
    then show ?thesis using double_of_grid(2) [of y] g [of "ulp y"] exponent_of_bounds(1) [of y] by metis
  qed
  finally show ?thesis .
qed

lemma double_of_mono:
  assumes "x \<le> y"
  shows "double_of x \<le> double_of y"
proof -
  consider "0 < x" | "y < 0" | "x \<le> 0" "0 \<le> y" by linarith
  then show ?thesis
  proof cases
    case 1
    then show ?thesis using double_of_mono_pos assms by blast
  next
    case 2
    then show ?thesis using double_of_mono_pos [of "- y" "- x"] assms by (simp add: double_of_minus)
  next
    case 3
    then have "double_of x \<le> 0" using double_of_nonneg [of "- x"] by (simp add: double_of_minus)
    then show ?thesis using double_of_nonneg [OF 3(2)] by linarith
  qed
qed

lemma is_double_minus: "is_double (- x) = is_double x"
proof -
  have "is_double y \<Longrightarrow> is_double (- y)" for y 
  proof -
    assume "is_double y"
    then obtain n e where "y = of_int n * 2 powi e" "\<bar>n\<bar> \<le> 2 ^ 53" "- 1074 \<le> e" by (auto simp: is_double_def)
    then show "is_double (- y)" unfolding is_double_def by (intro exI [of _ "- n"] exI [of _ e]) simp
  qed
  from this [of x] this [of "- x"] show ?thesis by auto
qed

lemma double_of_id_pos:
  assumes "0 < x" "is_double x"
  shows "double_of x = x"
proof -
  obtain n f where x: "x = of_int n * 2 powi f" and n: "\<bar>n\<bar> \<le> 2 ^ 53" and f: "- 1074 \<le> f"
    using assms(2) by (auto simp: is_double_def)
  have "ulp x \<le> f \<or> exponent_of x - 52 = ulp x \<and> f < ulp x" using f by (auto simp: ulp_def)
  then have "\<exists>k. x = of_int k * 2 powi ulp x"
  proof
    assume "ulp x \<le> f"
    then show ?thesis using powi_grid [of "ulp x" f n] x by metis
  next
    assume u: "exponent_of x - 52 = ulp x \<and> f < ulp x"
    have "(2 ^ 53 :: rat) * 2 powi (ulp x - 1) = 2 powi exponent_of x" 
    proof -
      have "exponent_of x = ulp x - 1 + 53" using u by simp
      then show ?thesis using pow_powi [of 53 "ulp x - 1"] by (simp only: of_nat_numeral)
    qed
    also have "\<dots> \<le> x" using exponent_of_bounds(1) [OF assms(1)] .
    also have le: "x \<le> 2 ^ 53 * 2 powi f"
    proof -
      have "of_int n \<le> (of_int (2 ^ 53) :: rat)" using n by (subst of_int_le_iff) simp
      then have "of_int n \<le> (2 ^ 53 :: rat)" by simp
      then show ?thesis unfolding x by (intro mult_right_mono) simp_all
    qed
    finally have "ulp x - 1 \<le> f" by simp
    then have "f = ulp x - 1" using u by simp
    then have "f + 53 = exponent_of x" using u by simp
    then have "x \<le> 2 powi exponent_of x" using le pow_powi [of 53 f] by (simp only: of_nat_numeral)
    moreover have "2 powi exponent_of x \<le> x" using exponent_of_bounds(1) [OF assms(1)] .
    ultimately have "x = of_int 1 * 2 powi exponent_of x" by simp
    also have "\<dots> = of_int (1 * 2 ^ nat (exponent_of x - ulp x)) * 2 powi ulp x" using u by (intro powi_grid) simp
    finally show ?thesis by blast
  qed
  then show ?thesis using double_of_grid [OF assms(1)] by (metis order_antisym order_refl)
qed

lemma double_of_id: "is_double x \<Longrightarrow> double_of x = x"
  using double_of_id_pos [of x] double_of_id_pos [of "- x"] double_of_minus [of x] is_double_minus [of x]
  by (cases x "0::rat" rule: linorder_cases) auto

lemma double_of_le: "x \<le> d \<Longrightarrow> is_double d \<Longrightarrow> double_of x \<le> d"
  using double_of_mono [of x d] by (simp add: double_of_id)

lemma double_of_ge: "d \<le> x \<Longrightarrow> is_double d \<Longrightarrow> d \<le> double_of x"
  using double_of_mono [of d x] by (simp add: double_of_id)

lemma is_double_int: "\<bar>n\<bar> \<le> 2 ^ 53 \<Longrightarrow> is_double (of_int n)"
  unfolding is_double_def by (intro exI [of _ n] exI [of _ 0]) simp

lemma is_double_powi: "- 1074 \<le> e \<Longrightarrow> is_double (2 powi e)"
  unfolding is_double_def by (intro exI [of _ 1] exI [of _ e]) simp

lemma is_double_abs: "is_double x \<Longrightarrow> is_double \<bar>x\<bar>"
  by (simp add: abs_if is_double_minus)

lemma is_double_round:
  assumes "0 < x"
  shows "is_double (double_of x)"
proof -
  have "exponent_of x + 1 \<le> ulp x + 53" by (auto simp: ulp_def)
  then have "x \<le> 2 powi (ulp x + 53)"
    using exponent_of_bounds(2) [OF assms] powi_le_iff [of "exponent_of x + 1" "ulp x + 53"] by linarith
  also have "\<dots> = of_int (2 ^ 53) * 2 powi ulp x" using pow_powi [of 53 "ulp x"] by simp
  finally have "x / 2 powi ulp x \<le> of_int (2 ^ 53)" by (simp add: field_simps)
  then have "round_even (x / 2 powi ulp x) \<le> 2 ^ 53" by (rule round_even_bounds)
  moreover have "0 \<le> round_even (x / 2 powi ulp x)" using assms by (intro round_even_bounds) simp
  ultimately show ?thesis unfolding is_double_def double_of_pos [OF assms]
    by (intro exI [of _ "round_even (x / 2 powi ulp x)"] exI [of _ "ulp x"]) (simp add: ulp_def)
qed

lemma is_double_double_of [simp]: "is_double (double_of x)"
  using is_double_round [of x] is_double_round [of "- x"] is_double_int [of 0]
  by (cases x "0::rat" rule: linorder_cases) (simp_all add: double_of_minus is_double_minus)

text \<open>The error of a rounding is at most half of the last bit.\<close>

lemma double_of_near:
  assumes "0 < x"
  shows "x - 2 powi (ulp x - 1) \<le> double_of x"
proof -
  have "x / 2 powi ulp x - 1 / 2 \<le> of_int (round_even (x / 2 powi ulp x))"
    using round_even_near [of "x / 2 powi ulp x"] by linarith
  then have "(x / 2 powi ulp x - 1 / 2) * 2 powi ulp x \<le> double_of x"
    unfolding double_of_pos [OF assms] by (intro mult_right_mono) simp_all
  then show ?thesis by (simp add: left_diff_distrib power_int_diff)
qed

section \<open>Square roots\<close>

text \<open>The square root of a whole number, rounded down.\<close>

function isqrt :: "int \<Rightarrow> int" where
  "isqrt n = (if n \<le> 0 then 0 else let r = 2 * isqrt (n div 4) in if (r + 1) * (r + 1) \<le> n then r + 1 else r)"
  by pat_completeness auto
termination by (relation "measure nat") auto

declare isqrt.simps [simp del]

lemma isqrt_bounds: "0 \<le> n \<Longrightarrow> 0 \<le> isqrt n \<and> (isqrt n)\<^sup>2 \<le> n \<and> n < (isqrt n + 1)\<^sup>2"
proof (induction n rule: isqrt.induct)
  case (1 n)
  show ?case
  proof (cases "n = 0")
    case False
    define r where "r = isqrt (n div 4)"
    have "0 \<le> r" "r\<^sup>2 \<le> n div 4" "n div 4 < (r + 1)\<^sup>2" using 1 False by (simp_all add: r_def)
    then have "0 \<le> r" "4 * r\<^sup>2 \<le> n" "n < 4 * (r + 1)\<^sup>2" by linarith+
    then have "0 \<le> r" "(2 * r)\<^sup>2 \<le> n" "n < (2 * r + 2)\<^sup>2" by (simp_all add: power2_eq_square algebra_simps)
    then show ?thesis using False 1(2) by (simp add: isqrt.simps [of n] r_def Let_def power2_eq_square add.commute)
  qed (simp add: isqrt.simps)
qed

text \<open>The whole number nearest to the square root of \<open>y\<close>.\<close>

definition near_sqrt :: "rat \<Rightarrow> int" where
  "near_sqrt y = (let s = isqrt \<lfloor>y\<rfloor> in if y \<le> (of_int s + 1 / 2)\<^sup>2 then s else s + 1)"

lemma near_sqrt_bounds:
  assumes "1 \<le> y"
  shows "0 < near_sqrt y" "(of_int (near_sqrt y) - 1 / 2)\<^sup>2 < y" "y \<le> (of_int (near_sqrt y) + 1 / 2)\<^sup>2"
proof -
  define s where "s = isqrt \<lfloor>y\<rfloor>"
  have b: "0 \<le> s" "s\<^sup>2 \<le> \<lfloor>y\<rfloor>" "\<lfloor>y\<rfloor> < (s + 1)\<^sup>2" using isqrt_bounds [of "\<lfloor>y\<rfloor>"] assms by (simp_all add: s_def)
  then have y: "(of_int s)\<^sup>2 \<le> y" "y < (of_int s + 1)\<^sup>2"
    by (simp_all add: le_floor_iff floor_less_iff)
  have "s \<noteq> 0" using b(3) assms by auto
  then have s: "0 < s" using b(1) by simp
  show "0 < near_sqrt y" using s by (simp add: near_sqrt_def Let_def flip: s_def)
  show "(of_int (near_sqrt y) - 1 / 2)\<^sup>2 < y"
  proof -
    have "(of_int s - 1 / 2)\<^sup>2 < (of_int s :: rat)\<^sup>2" using s by (intro power_strict_mono) simp_all
    then show ?thesis using y by (auto simp: near_sqrt_def Let_def add.commute simp flip: s_def)
  qed
  show "y \<le> (of_int (near_sqrt y) + 1 / 2)\<^sup>2"
  proof -
    have "(of_int s + 1)\<^sup>2 \<le> (of_int s + 1 + 1 / 2 :: rat)\<^sup>2" using s by (intro power_mono) simp_all
    then show ?thesis using y by (auto simp: near_sqrt_def Let_def add.commute simp flip: s_def)
  qed
qed

lemma near_sqrt_ge: "1 \<le> y \<Longrightarrow> (of_int m - 1 / 2)\<^sup>2 < y \<Longrightarrow> m \<le> near_sqrt y"
proof (rule ccontr)
  assume a: "1 \<le> y" "(of_int m - 1 / 2)\<^sup>2 < y" "\<not> m \<le> near_sqrt y"
  have "(of_int (near_sqrt y) + 1 :: rat) \<le> of_int m" using a(3) by (metis add1_zle_eq not_le of_int_1 of_int_add of_int_le_iff)
  then have "(of_int (near_sqrt y) + 1 / 2)\<^sup>2 \<le> (of_int m - 1 / 2 :: rat)\<^sup>2"
    using near_sqrt_bounds(1) [OF a(1)] by (intro power_mono) simp_all
  then show False using near_sqrt_bounds(3) [OF a(1)] a(2) by linarith
qed

lemma near_sqrt_le: "1 \<le> y \<Longrightarrow> 0 \<le> m \<Longrightarrow> y \<le> (of_int m + 1 / 2)\<^sup>2 \<Longrightarrow> near_sqrt y \<le> m"
proof (rule ccontr)
  assume a: "1 \<le> y" "0 \<le> m" "y \<le> (of_int m + 1 / 2)\<^sup>2" "\<not> near_sqrt y \<le> m"
  have "(of_int m + 1 :: rat) \<le> of_int (near_sqrt y)" using a(4) by (metis add1_zle_eq not_le of_int_1 of_int_add of_int_le_iff)
  then have "(of_int m + 1 / 2)\<^sup>2 \<le> (of_int (near_sqrt y) - 1 / 2 :: rat)\<^sup>2" using a(2) by (intro power_mono) simp_all
  then show False using near_sqrt_bounds(2) [OF a(1)] a(3) by linarith
qed

text \<open>
  The square root in double precision. The argument is scaled by a power of four to 104 or more bits, so
  that its root has 53; as the argument is a double, the scaled number is whole and no root lies
  halfway between two numbers of 53 bits. The root of a negative number is not a number.
\<close>

definition root_double :: "rat \<Rightarrow> rat" where
  "root_double x =
     (if x = 0 then 0
      else let e = exponent_of x div 2 - 52 in of_int (near_sqrt (x / (2 powi e)\<^sup>2)) * 2 powi e)"

definition sqrt_double :: "rat \<Rightarrow> rat option" where
  "sqrt_double x = (if x < 0 then None else Some (root_double x))"

lemma powi_square: "((2::rat) powi e)\<^sup>2 = 2 powi (2 * e)"
  by (simp add: power2_eq_square flip: power_int_add)

lemma root_scaled:
  assumes "0 < x"
  defines "e \<equiv> exponent_of x div 2 - 52"
  shows "(2 ^ 52)\<^sup>2 \<le> x / (2 powi e)\<^sup>2" "x / (2 powi e)\<^sup>2 < (2 ^ 53)\<^sup>2" "1 \<le> x / (2 powi e)\<^sup>2"
proof -
  have k: "2 * e + 104 \<le> exponent_of x" "exponent_of x + 1 \<le> 2 * e + 106" by (simp_all add: e_def)
  have "2 powi (2 * e + 104) \<le> x" "x < 2 powi (2 * e + 106)"
    using exponent_of_bounds [OF assms(1)] k powi_le_iff [of "2 * e + 104" "exponent_of x"]
      powi_le_iff [of "exponent_of x + 1" "2 * e + 106"] by linarith+
  moreover have "2 powi (2 * e + 104) = ((2 ^ 52)\<^sup>2 * (2 powi e)\<^sup>2 :: rat)" "2 powi (2 * e + 106) = ((2 ^ 53)\<^sup>2 * (2 powi e)\<^sup>2 :: rat)"
    using pow_powi [of 104 "2 * e"] pow_powi [of 106 "2 * e"] by (simp_all add: powi_square)
  ultimately show "(2 ^ 52)\<^sup>2 \<le> x / (2 powi e)\<^sup>2" "x / (2 powi e)\<^sup>2 < (2 ^ 53)\<^sup>2"
    by (simp_all add: le_divide_eq divide_less_eq)
  moreover have "(1::rat) \<le> (2 ^ 52)\<^sup>2" by simp
  ultimately show "1 \<le> x / (2 powi e)\<^sup>2" by linarith
qed

lemma root_double_pos: "0 < x \<Longrightarrow>
  root_double x = of_int (near_sqrt (x / (2 powi (exponent_of x div 2 - 52))\<^sup>2)) * 2 powi (exponent_of x div 2 - 52)"
  by (simp add: root_double_def Let_def)

lemma root_mantissa:
  assumes "0 < x"
  defines "y \<equiv> x / (2 powi (exponent_of x div 2 - 52))\<^sup>2"
  shows "2 ^ 52 \<le> near_sqrt y" "near_sqrt y \<le> 2 ^ 53"
proof -
  note s = root_scaled [OF assms(1), folded y_def]
  have "(of_int (2 ^ 52) - 1 / 2)\<^sup>2 < (2 ^ 52 :: rat)\<^sup>2" by (simp add: power2_eq_square)
  then show "2 ^ 52 \<le> near_sqrt y" using s by (intro near_sqrt_ge) simp_all
  have "(2 ^ 53)\<^sup>2 \<le> (of_int (2 ^ 53) + 1 / 2 :: rat)\<^sup>2" by (simp add: power2_eq_square)
  then show "near_sqrt y \<le> 2 ^ 53" using s by (intro near_sqrt_le) simp_all
qed

lemma root_double_bounds:
  assumes "0 < x"
  shows "2 powi (exponent_of x div 2) \<le> root_double x" "root_double x \<le> 2 powi (exponent_of x div 2 + 1)"
proof -
  define e where "e = exponent_of x div 2 - 52"
  define n where "n = near_sqrt (x / (2 powi e)\<^sup>2)"
  have n: "2 ^ 52 \<le> n" "n \<le> 2 ^ 53" using root_mantissa [OF assms] by (simp_all add: n_def e_def)
  have "of_int (2 ^ 52) \<le> (of_int n :: rat)" "of_int n \<le> (of_int (2 ^ 53) :: rat)" using n by (simp_all only: of_int_le_iff)
  then have "2 ^ 52 * 2 powi e \<le> of_int n * (2 powi e :: rat)" "of_int n * 2 powi e \<le> (2 ^ 53 * 2 powi e :: rat)"
    by (simp_all add: mult_right_mono)
  moreover have "e + int 52 = exponent_of x div 2" "e + int 53 = exponent_of x div 2 + 1" by (simp_all add: e_def)
  ultimately show "2 powi (exponent_of x div 2) \<le> root_double x" "root_double x \<le> 2 powi (exponent_of x div 2 + 1)"
    unfolding pow_powi root_double_pos [OF assms] e_def [symmetric] n_def [symmetric] by (simp_all only:)
qed

lemma root_double_nonneg: "0 \<le> x \<Longrightarrow> 0 \<le> root_double x"
proof (cases "x = 0")
  case False
  assume "0 \<le> x"
  then have "2 powi (exponent_of x div 2) \<le> root_double x" using False by (intro root_double_bounds) simp
  moreover have "(0::rat) < 2 powi (exponent_of x div 2)" by simp
  ultimately show ?thesis by linarith
qed (simp add: root_double_def)

lemma root_double_mono:
  assumes "0 \<le> x" "x \<le> y"
  shows "root_double x \<le> root_double y"
proof (cases "x = 0")
  case True
  then show ?thesis using root_double_nonneg [of y] assms by (simp add: root_double_def)
next
  case False
  then have x: "0 < x" and y: "0 < y" using assms by simp_all
  show ?thesis
  proof (cases "exponent_of x div 2 = exponent_of y div 2")
    case True
    define e where "e = exponent_of y div 2 - 52"
    have s: "x / (2 powi e)\<^sup>2 \<le> y / (2 powi e)\<^sup>2" using assms by (simp add: divide_right_mono)
    have r: "1 \<le> x / (2 powi e)\<^sup>2" "1 \<le> y / (2 powi e)\<^sup>2" using root_scaled(3) [OF x] root_scaled(3) [OF y] by (simp_all add: e_def True)
    have "near_sqrt (x / (2 powi e)\<^sup>2) \<le> near_sqrt (y / (2 powi e)\<^sup>2)"
      using s near_sqrt_bounds(2) [OF r(1)] by (intro near_sqrt_ge [OF r(2)]) linarith
    then show ?thesis using x y True by (simp add: root_double_pos e_def)
  next
    case False
    then have "exponent_of x div 2 + 1 \<le> exponent_of y div 2" using exponent_of_mono [OF x assms(2)] by simp
    then have "(2::rat) powi (exponent_of x div 2 + 1) \<le> 2 powi (exponent_of y div 2)" by simp
    then show ?thesis using root_double_bounds(2) [OF x] root_double_bounds(1) [OF y] by linarith
  qed
qed

lemma is_double_root:
  assumes "is_double x" "0 \<le> x"
  shows "is_double (root_double x)"
proof (cases "0 < x")
  case True
  obtain n f where x: "x = of_int n * 2 powi f" and f: "- 1074 \<le> f" using assms(1) by (auto simp: is_double_def)
  have "n \<noteq> 0" using True x by auto
  moreover have "0 \<le> n" using True x by (metis less_eq_rat_def mult_less_0_iff not_le of_int_less_0_iff order.strict_trans zero_less_numeral zero_less_power_int)
  ultimately have "1 \<le> n" by simp
  then have "2 powi f \<le> x" using x mult_right_mono [of 1 "of_int n" "2 powi f :: rat"] by simp
  then have "(2::rat) powi f < 2 powi (exponent_of x + 1)" using exponent_of_bounds(2) [OF True] by linarith
  then have e: "- 1074 \<le> exponent_of x div 2 - 52" using f by simp
  show ?thesis unfolding is_double_def root_double_pos [OF True]
    using root_mantissa [OF True] e
    by (intro exI [of _ "near_sqrt (x / (2 powi (exponent_of x div 2 - 52))\<^sup>2)"] exI [of _ "exponent_of x div 2 - 52"]) simp
qed (use assms(2) in \<open>simp add: root_double_def is_double_int [of 0, simplified]\<close>)

text \<open>The root of a square: squaring in double precision loses no more than the root gives back.\<close>

lemma root_square_ge:
  assumes "is_double v" "2 powi (- 500) \<le> v"
  shows "v \<le> root_double (double_of (v * v))"
proof -
  have v: "0 < v" by (rule less_le_trans [OF _ assms(2)]) simp
  define E where "E = exponent_of v"
  have E: "2 powi E \<le> v" "v < 2 powi (E + 1)" using exponent_of_bounds [OF v] by (simp_all add: E_def)
  have "(2::rat) powi (- 500) < 2 powi (E + 1)" using assms(2) E(2) by linarith
  then have E500: "- 500 \<le> E" unfolding powi_less_iff by simp
  then have u: "ulp v = E - 52" by (simp add: ulp_def E_def)
  define m where "m = round_even (v / 2 powi (E - 52))"
  have m: "v = of_int m * 2 powi (E - 52)" using double_of_id [OF assms(1)] double_of_pos [OF v] by (simp add: u m_def)
  have v2: "0 < v * v" using v by simp
  have sq: "2 powi (2 * E) \<le> v * v" "v * v < 2 powi (2 * E + 2)"
    using mult_mono [OF E(1) E(1)] mult_strict_mono [OF E(2) E(2)] v by (simp_all add: algebra_simps flip: power_int_add)
  define d where "d = double_of (v * v)"
  have d: "2 powi (2 * E) \<le> d" "d \<le> 2 powi (2 * E + 2)" unfolding d_def
    using sq E500 by (auto intro!: double_of_ge double_of_le is_double_powi)
  show ?thesis unfolding d_def [symmetric]
  proof (cases "d = 2 powi (2 * E + 2)")
    case True
    then have "exponent_of d = 2 * E + 2" by (intro exponent_of_eq) simp_all
    moreover have "0 < d" using True by simp
    ultimately have "2 powi (E + 1) \<le> root_double d" using root_double_bounds(1) [of d] by simp
    then show "v \<le> root_double d" using E(2) by linarith
  next
    case False
    then have d2: "d < 2 powi (2 * E + 2)" using d(2) by simp
    have d0: "0 < d" using d(1) by (meson less_le_trans zero_less_numeral zero_less_power_int)
    have "(2::rat) powi exponent_of d < 2 powi (2 * E + 2)" "(2::rat) powi (2 * E) < 2 powi (exponent_of d + 1)"
      using exponent_of_bounds [OF d0] d(1) d2 by linarith+
    then have e: "exponent_of d div 2 = E" by simp
    define e where "e = E - 52"
    have "of_int (2 ^ 52) * 2 powi e \<le> (of_int m * 2 powi e :: rat)"
      using E(1) pow_powi [of 52 e] unfolding m by (simp add: e_def)
    moreover have "(0::rat) < 2 powi e" by simp
    ultimately have m52: "2 ^ 52 \<le> m" by (metis mult_le_cancel_right_pos of_int_le_iff)
    have near: "v * v - 2 powi (ulp (v * v) - 1) \<le> d" unfolding d_def by (rule double_of_near [OF v2])
    define X where "X = exponent_of (v * v)"
    have X: "X = 2 * E \<or> X = 2 * E + 1"
    proof -
      have "(2::rat) powi X < 2 powi (2 * E + 2)" "(2::rat) powi (2 * E) < 2 powi (X + 1)"
        using exponent_of_bounds [OF v2] sq unfolding X_def by linarith+
      then show ?thesis unfolding powi_less_iff by linarith
    qed
    then have "ulp (v * v) = X - 52" using E500 by (auto simp: ulp_def simp flip: X_def)
    then have "ulp (v * v) - 1 - 2 * e = X - 2 * E + 51" by (simp add: e_def)
    then have p: "(2::rat) powi (ulp (v * v) - 1) = 2 powi (X - 2 * E + 51) * (2 powi e)\<^sup>2"
      using powi_split [of "ulp (v * v) - 1" "2 * e"] by (simp only: powi_square mult.commute)
    have "v * v = (of_int m)\<^sup>2 * (2 powi e)\<^sup>2" by (simp add: m e_def power2_eq_square)
    then have "((of_int m)\<^sup>2 - 2 powi (X - 2 * E + 51)) * (2 powi e)\<^sup>2 \<le> d" using near p by (simp add: left_diff_distrib)
    then have y: "(of_int m)\<^sup>2 - 2 powi (X - 2 * E + 51) \<le> d / (2 powi e)\<^sup>2" by (simp add: le_divide_eq)
    have "2 powi (X - 2 * E + 51) + 1 / 4 < (of_int m :: rat)"
    proof (cases "X = 2 * E")
      case True
      have "of_int (2 ^ 52) \<le> (of_int m :: rat)" using m52 unfolding of_int_le_iff .
      then show ?thesis by (simp add: True)
    next
      case False
      then have X1: "X - 2 * E + 51 = 52" using X by simp
      have "m \<noteq> 2 ^ 52"
      proof
        assume "m = 2 ^ 52"
        then have "v = 2 powi E" using m pow_powi [of 52 "E - 52"] by simp
        then have "v * v = 2 powi (2 * E)" by (simp flip: power_int_add)
        then have "X = 2 * E" unfolding X_def by (intro exponent_of_eq) simp_all
        then show False using False by simp
      qed
      then have "2 ^ 52 + 1 \<le> m" using m52 by simp
      then have "of_int (2 ^ 52 + 1) \<le> (of_int m :: rat)" unfolding of_int_le_iff .
      then show ?thesis by (simp add: X1)
    qed
    moreover have "(of_int m - 1 / 2 :: rat)\<^sup>2 = (of_int m)\<^sup>2 - of_int m + 1 / 4" by (simp add: power2_eq_square algebra_simps)
    ultimately have "(of_int m - 1 / 2)\<^sup>2 < d / (2 powi e)\<^sup>2" using y by linarith
    then have "m \<le> near_sqrt (d / (2 powi e)\<^sup>2)"
      using root_scaled(3) [OF d0] e by (intro near_sqrt_ge) (simp_all add: e_def)
    then show "v \<le> root_double d" using m by (simp add: root_double_pos [OF d0] e e_def)
  qed
qed

end
