(* ===== verification/Grbl_Planner.thy ===== *)
theory Grbl_Planner
  imports Grbl_Stepper C_Double
begin

text \<open>
  The positions of the motion planner (\<open>src/libraries/grbl/src/planner.c\<close>): how a target in
  millimetres becomes the steps and directions of a block, and how the planner keeps its position in
  steps and in millimetres.
\<close>

section \<open>State\<close>

record tTarget =
  target_x :: rat
  target_y :: rat
  target_z :: rat
  target_e :: rat
  feed_rate :: rat
  invert_feed_rate :: U8

text \<open>
  The values of the configuration that the planner reads, the position of each axis in steps, and the
  direction and speed of the last block.
\<close>

record planner =
  steps_per_mm_x :: rat
  steps_per_mm_y :: rat
  steps_per_mm_z :: rat
  steps_per_mm_e :: rat
  maximum_feedrate_x :: int
  maximum_feedrate_y :: int
  maximum_feedrate_z :: int
  maximum_feedrate_e :: int
  acceleration :: rat
  junction_deviation :: rat
  position_x :: int
  position_y :: int
  position_z :: int
  position_e :: int
  startpoint :: tTarget
  previous_unit_vec :: "rat \<times> rat \<times> rat"
  previous_nominal_speed :: rat
  acceleration_manager_enabled :: bool

text \<open>The step fields of a block.\<close>

record move =
  move_bits :: U32
  move_x :: U32
  move_y :: U32
  move_z :: U32
  move_e :: U32
  move_events :: U32
  move_endstops :: bool

section \<open>Operations\<close>

text \<open>\<open>lround\<close> rounds halves away from zero; its result is undefined outside the 32-bit range.\<close>

definition lround :: "rat \<Rightarrow> int" where
  "lround x = (if 0 \<le> x then \<lfloor>x + 1 / 2\<rfloor> else \<lceil>x - 1 / 2\<rceil>)"

definition in_int32 :: "int \<Rightarrow> bool" where
  "in_int32 i \<longleftrightarrow> - (2 ^ 31) \<le> i \<and> i < 2 ^ 31"

definition to_steps :: "rat \<Rightarrow> rat \<Rightarrow> int option" where
  "to_steps x k = (let i = lround (double_of (x * k)) in if in_int32 i then Some i else None)"

text \<open>The number of steps of an axis, \<open>labs(target - position)\<close>; undefined where the subtraction overflows.\<close>

definition axis_steps :: "int \<Rightarrow> int \<Rightarrow> U32 option" where
  "axis_steps t p = (if \<bar>t - p\<bar> < 2 ^ 31 then Some (word_of_int \<bar>t - p\<bar>) else None)"

definition direction :: "nat \<Rightarrow> int \<Rightarrow> int \<Rightarrow> U32" where
  "direction b t p = (if t < p then pin b else 0)"

text \<open>
  A line: the outer \<open>None\<close> is an undefined conversion, the inner one a line of no step, for which the
  planner does nothing.
\<close>

definition plan_steps :: "bool \<Rightarrow> tTarget \<Rightarrow> 'a planner_scheme \<Rightarrow> (move option \<times> 'a planner_scheme) option" where
  "plan_steps endstops t p =
     (case (to_steps (target_x t) (steps_per_mm_x p), to_steps (target_y t) (steps_per_mm_y p),
            to_steps (target_z t) (steps_per_mm_z p), to_steps (target_e t) (steps_per_mm_e p)) of
        (Some x, Some y, Some z, Some e) \<Rightarrow>
          (case (axis_steps x (position_x p), axis_steps y (position_y p),
                 axis_steps z (position_z p), axis_steps e (position_e p)) of
             (Some sx, Some sy, Some sz, Some se) \<Rightarrow>
               let bits = direction X_DIRECTION_BIT x (position_x p) OR direction Y_DIRECTION_BIT y (position_y p)
                     OR direction Z_DIRECTION_BIT z (position_z p) OR direction E_DIRECTION_BIT e (position_e p);
                   n = max (max sx (max sy sz)) se
               in if n = 0 then Some (None, p)
                  else Some (Some \<lparr>move_bits = bits, move_x = sx, move_y = sy, move_z = sz, move_e = se,
                                   move_events = n, move_endstops = endstops\<rparr>,
                             p\<lparr>position_x := x, position_y := y, position_z := z, position_e := e, startpoint := t\<rparr>)
           | _ \<Rightarrow> None)
      | _ \<Rightarrow> None)"

definition plan_set_current_position :: "tTarget \<Rightarrow> 'a planner_scheme \<Rightarrow> 'a planner_scheme option" where
  "plan_set_current_position t p =
     (case (to_steps (target_x t) (steps_per_mm_x p), to_steps (target_y t) (steps_per_mm_y p),
            to_steps (target_z t) (steps_per_mm_z p), to_steps (target_e t) (steps_per_mm_e p)) of
        (Some x, Some y, Some z, Some e) \<Rightarrow>
          Some (p\<lparr>startpoint := t, position_x := x, position_y := y, position_z := z, position_e := e,
                  previous_nominal_speed := 0, previous_unit_vec := (0, 0, 0)\<rparr>)
      | _ \<Rightarrow> None)"

definition plan_set_current_position_xyz :: "rat \<Rightarrow> rat \<Rightarrow> rat \<Rightarrow> 'a planner_scheme \<Rightarrow> 'a planner_scheme option" where
  "plan_set_current_position_xyz x y z p =
     plan_set_current_position ((startpoint p)\<lparr>target_x := x, target_y := y, target_z := z\<rparr>) p"

definition plan_set_feed_rate :: "tTarget \<Rightarrow> 'a planner_scheme \<Rightarrow> 'a planner_scheme" where
  "plan_set_feed_rate t p =
     p\<lparr>startpoint := (startpoint p)\<lparr>feed_rate := feed_rate t, invert_feed_rate := invert_feed_rate t\<rparr>\<rparr>"

text \<open>Move requests one after the other, with the blocks they give.\<close>

fun plan_run :: "(bool \<times> tTarget) list \<Rightarrow> 'a planner_scheme \<Rightarrow> (move list \<times> 'a planner_scheme) option" where
  "plan_run [] p = Some ([], p)"
| "plan_run ((b, t) # rs) p =
     (case plan_steps b t p of
        None \<Rightarrow> None
      | Some (m, p) \<Rightarrow>
          (case plan_run rs p of
             None \<Rightarrow> None
           | Some (ms, p) \<Rightarrow> Some (case m of None \<Rightarrow> ms | Some m \<Rightarrow> m # ms, p)))"

section \<open>Positions\<close>

text \<open>The position in steps is the position in millimetres, rounded.\<close>

definition plan_ok :: "'a planner_scheme \<Rightarrow> bool" where
  "plan_ok p \<longleftrightarrow> to_steps (target_x (startpoint p)) (steps_per_mm_x p) = Some (position_x p)
     \<and> to_steps (target_y (startpoint p)) (steps_per_mm_y p) = Some (position_y p)
     \<and> to_steps (target_z (startpoint p)) (steps_per_mm_z p) = Some (position_z p)
     \<and> to_steps (target_e (startpoint p)) (steps_per_mm_e p) = Some (position_e p)"

text \<open>The steps of an axis with the sign of its direction.\<close>

definition signed_steps :: "nat \<Rightarrow> move \<Rightarrow> U32 \<Rightarrow> int" where
  "signed_steps b m n = (if bit (move_bits m) b then - uint n else uint n)"

lemma direction_bits_apart:
  fixes a b c d :: bool
  defines "w \<equiv> (if a then pin X_DIRECTION_BIT else 0) OR (if b then pin Y_DIRECTION_BIT else 0)
      OR (if c then pin Z_DIRECTION_BIT else 0) OR (if d then pin E_DIRECTION_BIT else 0)"
  shows "bit w X_DIRECTION_BIT = a" "bit w Y_DIRECTION_BIT = b" "bit w Z_DIRECTION_BIT = c" "bit w E_DIRECTION_BIT = d"
  by (simp_all add: w_def X_DIRECTION_BIT_def Y_DIRECTION_BIT_def Z_DIRECTION_BIT_def E_DIRECTION_BIT_def
      bit_or_iff bit_simps)

lemma axis_steps_eq:
  assumes "axis_steps t p = Some n"
  shows "uint n = \<bar>t - p\<bar>" "\<bar>t - p\<bar> < 2 ^ 31"
  using assms by (auto simp: axis_steps_def uint_word_of_int split: if_splits)

lemma plan_steps_cases:
  assumes "plan_steps b t p = Some (m, p')"
  obtains x y z e sx sy sz se where
    "to_steps (target_x t) (steps_per_mm_x p) = Some x" "to_steps (target_y t) (steps_per_mm_y p) = Some y"
    "to_steps (target_z t) (steps_per_mm_z p) = Some z" "to_steps (target_e t) (steps_per_mm_e p) = Some e"
    "axis_steps x (position_x p) = Some sx" "axis_steps y (position_y p) = Some sy"
    "axis_steps z (position_z p) = Some sz" "axis_steps e (position_e p) = Some se"
    "(m, p') = (let bits = direction X_DIRECTION_BIT x (position_x p) OR direction Y_DIRECTION_BIT y (position_y p)
                     OR direction Z_DIRECTION_BIT z (position_z p) OR direction E_DIRECTION_BIT e (position_e p);
                   n = max (max sx (max sy sz)) se
               in if n = 0 then (None, p)
                  else (Some \<lparr>move_bits = bits, move_x = sx, move_y = sy, move_z = sz, move_e = se,
                                   move_events = n, move_endstops = b\<rparr>,
                        p\<lparr>position_x := x, position_y := y, position_z := z, position_e := e, startpoint := t\<rparr>))"
  using assms by (auto simp: plan_steps_def Let_def split: option.splits if_splits)

lemma signed_steps_axis:
  assumes "axis_steps t p = Some n" "bit (move_bits m) b \<longleftrightarrow> t < p"
  shows "signed_steps b m n = t - p"
  using axis_steps_eq [OF assms(1)] assms(2) by (auto simp: signed_steps_def)

text \<open>A block takes every axis from its position to the rounded target.\<close>

lemma plan_steps_moves:
  assumes "plan_steps b t p = Some (Some m, p')"
  shows "position_x p' = position_x p + signed_steps X_DIRECTION_BIT m (move_x m)"
    "position_y p' = position_y p + signed_steps Y_DIRECTION_BIT m (move_y m)"
    "position_z p' = position_z p + signed_steps Z_DIRECTION_BIT m (move_z m)"
    "position_e p' = position_e p + signed_steps E_DIRECTION_BIT m (move_e m)"
    "plan_ok p'" "startpoint p' = t" "move_endstops m = b"
    "move_events m = max (max (move_x m) (max (move_y m) (move_z m))) (move_e m)" "move_events m \<noteq> 0"
    "uint (move_x m) = \<bar>position_x p' - position_x p\<bar>" "uint (move_y m) = \<bar>position_y p' - position_y p\<bar>"
    "uint (move_z m) = \<bar>position_z p' - position_z p\<bar>" "uint (move_e m) = \<bar>position_e p' - position_e p\<bar>"
proof -
  obtain x y z e sx sy sz se where
    s: "to_steps (target_x t) (steps_per_mm_x p) = Some x" "to_steps (target_y t) (steps_per_mm_y p) = Some y"
      "to_steps (target_z t) (steps_per_mm_z p) = Some z" "to_steps (target_e t) (steps_per_mm_e p) = Some e"
    and a: "axis_steps x (position_x p) = Some sx" "axis_steps y (position_y p) = Some sy"
      "axis_steps z (position_z p) = Some sz" "axis_steps e (position_e p) = Some se"
    and r: "(Some m, p') = (let bits = direction X_DIRECTION_BIT x (position_x p) OR direction Y_DIRECTION_BIT y (position_y p)
                     OR direction Z_DIRECTION_BIT z (position_z p) OR direction E_DIRECTION_BIT e (position_e p);
                   n = max (max sx (max sy sz)) se
               in if n = 0 then (None, p)
                  else (Some \<lparr>move_bits = bits, move_x = sx, move_y = sy, move_z = sz, move_e = se,
                                   move_events = n, move_endstops = b\<rparr>,
                        p\<lparr>position_x := x, position_y := y, position_z := z, position_e := e, startpoint := t\<rparr>))"
    using plan_steps_cases [OF assms] by metis
  have n: "max (max sx (max sy sz)) se \<noteq> 0" using r by (auto simp: Let_def split: if_splits)
  define bits where "bits = direction X_DIRECTION_BIT x (position_x p) OR direction Y_DIRECTION_BIT y (position_y p)
      OR direction Z_DIRECTION_BIT z (position_z p) OR direction E_DIRECTION_BIT e (position_e p)"
  have m: "m = \<lparr>move_bits = bits, move_x = sx, move_y = sy, move_z = sz, move_e = se,
      move_events = max (max sx (max sy sz)) se, move_endstops = b\<rparr>"
    and p': "p' = p\<lparr>position_x := x, position_y := y, position_z := z, position_e := e, startpoint := t\<rparr>"
    using r n by (simp_all add: Let_def bits_def)
  have d: "bit bits X_DIRECTION_BIT \<longleftrightarrow> x < position_x p" "bit bits Y_DIRECTION_BIT \<longleftrightarrow> y < position_y p"
      "bit bits Z_DIRECTION_BIT \<longleftrightarrow> z < position_z p" "bit bits E_DIRECTION_BIT \<longleftrightarrow> e < position_e p"
    unfolding bits_def direction_def by (rule direction_bits_apart)+
  show "position_x p' = position_x p + signed_steps X_DIRECTION_BIT m (move_x m)"
    "position_y p' = position_y p + signed_steps Y_DIRECTION_BIT m (move_y m)"
    "position_z p' = position_z p + signed_steps Z_DIRECTION_BIT m (move_z m)"
    "position_e p' = position_e p + signed_steps E_DIRECTION_BIT m (move_e m)"
    using signed_steps_axis [OF a(1), of m] signed_steps_axis [OF a(2), of m] signed_steps_axis [OF a(3), of m]
      signed_steps_axis [OF a(4), of m] d by (simp_all add: m p')
  show "plan_ok p'" using s by (simp add: p' plan_ok_def)
  show "startpoint p' = t" "move_endstops m = b" "move_events m \<noteq> 0"
    "move_events m = max (max (move_x m) (max (move_y m) (move_z m))) (move_e m)" using n by (simp_all add: m p')
  show "uint (move_x m) = \<bar>position_x p' - position_x p\<bar>" "uint (move_y m) = \<bar>position_y p' - position_y p\<bar>"
    "uint (move_z m) = \<bar>position_z p' - position_z p\<bar>" "uint (move_e m) = \<bar>position_e p' - position_e p\<bar>"
    using axis_steps_eq(1) [OF a(1)] axis_steps_eq(1) [OF a(2)] axis_steps_eq(1) [OF a(3)] axis_steps_eq(1) [OF a(4)]
    by (simp_all add: m p')
qed

lemma plan_steps_none: "plan_steps b t p = Some (None, p') \<Longrightarrow> p' = p"
  by (erule plan_steps_cases) (simp add: Let_def split: if_splits)

lemma plan_steps_ok: "plan_steps b t p = Some (m, p') \<Longrightarrow> plan_ok p \<Longrightarrow> plan_ok p'"
  using plan_steps_moves(5) plan_steps_none by (cases m) blast+

lemma plan_set_current_position_ok: "plan_set_current_position t p = Some p' \<Longrightarrow> plan_ok p'"
  by (auto simp: plan_set_current_position_def plan_ok_def split: option.splits)

lemma plan_set_feed_rate_ok: "plan_ok (plan_set_feed_rate t p) = plan_ok p"
  by (simp add: plan_set_feed_rate_def plan_ok_def)

section \<open>Properties\<close>

lemma plan_run_moves:
  "plan_ok p \<Longrightarrow> plan_run rs p = Some (ms, p') \<Longrightarrow> plan_ok p'
    \<and> position_x p' = position_x p + (\<Sum>m\<leftarrow>ms. signed_steps X_DIRECTION_BIT m (move_x m))
    \<and> position_y p' = position_y p + (\<Sum>m\<leftarrow>ms. signed_steps Y_DIRECTION_BIT m (move_y m))
    \<and> position_z p' = position_z p + (\<Sum>m\<leftarrow>ms. signed_steps Z_DIRECTION_BIT m (move_z m))
    \<and> position_e p' = position_e p + (\<Sum>m\<leftarrow>ms. signed_steps E_DIRECTION_BIT m (move_e m))"
proof (induction rs arbitrary: p ms)
  case (Cons r rs)
  obtain b t where r: "r = (b, t)" by (cases r)
  obtain m q ns where q: "plan_steps b t p = Some (m, q)" "plan_run rs q = Some (ns, p')"
      "ms = (case m of None \<Rightarrow> ns | Some m \<Rightarrow> m # ns)"
    using Cons.prems(2) by (auto simp: r split: option.splits)
  note IH = Cons.IH [OF plan_steps_ok [OF q(1) Cons.prems(1)] q(2)]
  show ?case
  proof (cases m)
    case None
    then show ?thesis using IH q plan_steps_none [of b t p q] by simp
  next
    case (Some k)
    then show ?thesis using IH q(3) plan_steps_moves(1-4) [of b t p k q] q(1) by simp
  qed
qed simp


text \<open>A machine with 80 steps per millimetre on X and Y, at its origin, and two moves.\<close>

definition example_planner :: planner where
  "example_planner = \<lparr>steps_per_mm_x = 80, steps_per_mm_y = 80, steps_per_mm_z = 2560, steps_per_mm_e = 700,
     maximum_feedrate_x = 3000, maximum_feedrate_y = 3000, maximum_feedrate_z = 60, maximum_feedrate_e = 3000,
     acceleration = 100, junction_deviation = double_of (5 / 100),
     position_x = 0, position_y = 0, position_z = 0, position_e = 0,
     startpoint = \<lparr>target_x = 0, target_y = 0, target_z = 0, target_e = 0, feed_rate = 0, invert_feed_rate = 0\<rparr>,
     previous_unit_vec = (0, 0, 0), previous_nominal_speed = 0, acceleration_manager_enabled = True\<rparr>"

definition example_target :: "rat \<Rightarrow> rat \<Rightarrow> tTarget" where
  "example_target x y = \<lparr>target_x = x, target_y = y, target_z = 0, target_e = 0, feed_rate = 1500, invert_feed_rate = 0\<rparr>"

lemma to_steps_whole:
  assumes "\<bar>n\<bar> < 2 ^ 31" "x * k = of_int n"
  shows "to_steps x k = Some n"
proof -
  have "lround (of_int n) = n" by (auto simp: lround_def) linarith+
  moreover have "double_of (x * k) = of_int n" unfolding assms(2) using assms(1) by (intro double_of_int) simp
  moreover have "in_int32 n" using assms(1) unfolding in_int32_def by linarith
  ultimately show ?thesis by (simp add: to_steps_def)
qed

lemma example_steps:
  "to_steps 0 k = Some 0" "to_steps 10 80 = Some 800" "to_steps 5 80 = Some 400" "to_steps 2 80 = Some 160"
  using to_steps_whole [of 0 0 k] to_steps_whole [of 800 10 80] to_steps_whole [of 400 5 80] to_steps_whole [of 160 2 80]
  by simp_all

lemma example_plan:
  "plan_ok example_planner"
  "plan_steps False (example_target 10 5) example_planner
    = Some (Some \<lparr>move_bits = 0, move_x = 800, move_y = 400, move_z = 0, move_e = 0, move_events = 800, move_endstops = False\<rparr>,
        example_planner\<lparr>position_x := 800, position_y := 400, startpoint := example_target 10 5\<rparr>)"
  by (simp_all add: plan_ok_def example_planner_def example_steps plan_steps_def example_target_def axis_steps_def direction_def Let_def)


text \<open>The block of a move: the step fields of both agree.\<close>

definition block_of :: "move \<Rightarrow> block_t \<Rightarrow> bool" where
  "block_of m b \<longleftrightarrow> action_type b = AT_MOVE \<and> direction_bits b = move_bits m \<and> steps_x b = move_x m \<and> steps_y b = move_y m
     \<and> steps_z b = move_z m \<and> steps_e b = move_e m \<and> step_event_count b = move_events m \<and> check_endstops b = move_endstops m"

lemma block_of_move:
  assumes "plan_steps False t p = Some (Some m, p')" "block_of m b" "uint (move_events m) < 2 ^ 30"
  shows "move_block b"
  using plan_steps_moves(7-9) [OF assms(1)] assms(2,3)
  by (auto simp: move_block_def block_of_def word_gt_0 le_max_iff_disj)

text \<open>
  C29. A planned move is executed exactly: when the step interrupts have served the block of a move,
  the step pin of every axis has risen as often as the position of the planner has changed on that
  axis, and this position is the target of the move, rounded to steps.
\<close>

theorem planned_move_executed:
  assumes "plan_steps False t p = Some (Some m, p')" "block_of m blk" "uint (move_events m) < 2 ^ 30"
    and "at_block i blk s" "length (filter is_step evs) = unat (move_events m)"
  defines "s' \<equiv> fold st_event evs s"
  shows "int (rises 1 X_STEP_BIT l (trace s')) = int (rises 1 X_STEP_BIT l (trace s)) + \<bar>position_x p' - position_x p\<bar>
    \<and> int (rises 1 Y_STEP_BIT l (trace s')) = int (rises 1 Y_STEP_BIT l (trace s)) + \<bar>position_y p' - position_y p\<bar>
    \<and> int (rises 1 Z_STEP_BIT l (trace s')) = int (rises 1 Z_STEP_BIT l (trace s)) + \<bar>position_z p' - position_z p\<bar>
    \<and> int (rises 0 E_STEP_BIT l (trace s')) = int (rises 0 E_STEP_BIT l (trace s)) + \<bar>position_e p' - position_e p\<bar>
    \<and> plan_ok p' \<and> startpoint p' = t"
proof -
  have b: "length (filter is_step evs) = unat (step_event_count blk)" "steps_x blk = move_x m" "steps_y blk = move_y m"
      "steps_z blk = move_z m" "steps_e blk = move_e m"
    using assms(2,5) by (simp_all add: block_of_def)
  note steps = plan_steps_moves [OF assms(1)]
  show ?thesis
    using block_traced [OF assms(4) block_of_move [OF assms(1-3)] b(1), of l] steps(5,6) steps(10-13)
    by (simp add: Let_def s'_def b(2-5) flip: uint_nat)
qed

text \<open>The block of the first move of the example, and an idle stepper in front of it.\<close>

definition example_move_block :: block_t where
  "example_move_block = example_block\<lparr>steps_x := 800, steps_y := 400, steps_e := 0, step_event_count := 800\<rparr>"

theorem planned_move_executed_witness:
  "int (rises 1 Y_STEP_BIT False (trace (fold st_event
     (replicate 800 (Step (inputs.make (\<lambda>_. False) (\<lambda>_. False) (\<lambda>_. False) False)))
     (example_stepper\<lparr>block_buffer := \<lambda>_. example_move_block\<rparr>)))) = 400"
proof -
  let ?s = "example_stepper\<lparr>block_buffer := \<lambda>_. example_move_block\<rparr>"
  have a: "at_block 0 example_move_block ?s" by (simp add: at_block_def example_stepper_def)
  have "block_of \<lparr>move_bits = 0, move_x = 800, move_y = 400, move_z = 0, move_e = 0, move_events = 800, move_endstops = False\<rparr>
      example_move_block"
    by (simp add: block_of_def example_move_block_def example_block_def)
  from planned_move_executed [OF example_plan(2) this _ a,
      of "replicate 800 (Step (inputs.make (\<lambda>_. False) (\<lambda>_. False) (\<lambda>_. False) False))" False]
  show ?thesis by (simp add: example_planner_def example_stepper_def del: fold_replicate)
qed

end
