(* ===== verification/Speed_Plan.thy ===== *)
theory Speed_Plan
  imports Main
begin

text \<open>
  Speeds at the junctions of consecutive blocks. The interface \<open>speed_plan\<close> states what planning needs
  of the speed that can be reached over a distance; the lemmas show that a pass backwards and a pass
  forwards turn a valid plan with a new block at its end into a valid plan.
\<close>

section \<open>Plans\<close>

text \<open>Between two junctions the speed can be raised and lowered as planned.\<close>

definition feasible :: "('v::linorder \<Rightarrow> 'd \<Rightarrow> 'v) \<Rightarrow> 'd \<Rightarrow> 'v \<Rightarrow> 'v \<Rightarrow> bool" where
  "feasible reach d v w \<longleftrightarrow> w \<le> reach v d \<and> v \<le> reach w d"

text \<open>
  The new speed of a junction in the two passes: \<open>m\<close> is the maximum of the junction, \<open>e\<close> its speed,
  \<open>F\<close> says that the block can always reach its nominal speed.
\<close>

definition reverse_value :: "('v::linorder \<Rightarrow> 'd \<Rightarrow> 'v) \<Rightarrow> 'v \<Rightarrow> bool \<Rightarrow> 'd \<Rightarrow> 'v \<Rightarrow> 'v \<Rightarrow> 'v" where
  "reverse_value reach m F d e next =
     (if e \<noteq> m then (if \<not> F \<and> next < m then min m (reach next d) else m) else e)"

definition forward_value :: "('v::linorder \<Rightarrow> 'd \<Rightarrow> 'v) \<Rightarrow> bool \<Rightarrow> 'd \<Rightarrow> 'v \<Rightarrow> 'v \<Rightarrow> 'v" where
  "forward_value reach F d prev e = (if \<not> F \<and> prev < e then min e (reach prev d) else e)"

text \<open>
  A valid plan of \<open>n\<close> blocks with entry speeds \<open>e\<close>, their maxima \<open>m\<close>, nominal speeds \<open>N\<close>, lengths \<open>d\<close>
  and flags \<open>F\<close>: no junction is faster than its maximum, all changes of speed are feasible, and
  the machine can stop at the end of the last block.
\<close>

definition valid_block :: "('v::{linorder,zero} \<Rightarrow> bool) \<Rightarrow> ('v \<Rightarrow> 'd \<Rightarrow> 'v) \<Rightarrow> ('d \<Rightarrow> bool) \<Rightarrow> 'v \<Rightarrow> 'v \<Rightarrow> 'v \<Rightarrow> 'd \<Rightarrow> bool \<Rightarrow> bool" where
  "valid_block speed reach good e m N d F \<longleftrightarrow>
     speed e \<and> speed m \<and> good d \<and> e \<le> m \<and> m \<le> N \<and> (F \<longrightarrow> N \<le> reach 0 d)"

definition valid_plan :: "('v::{linorder,zero} \<Rightarrow> bool) \<Rightarrow> ('v \<Rightarrow> 'd \<Rightarrow> 'v) \<Rightarrow> ('d \<Rightarrow> bool) \<Rightarrow> (nat \<Rightarrow> 'v) \<Rightarrow> (nat \<Rightarrow> 'v) \<Rightarrow> (nat \<Rightarrow> 'v) \<Rightarrow> (nat \<Rightarrow> 'd) \<Rightarrow> (nat \<Rightarrow> bool) \<Rightarrow> nat \<Rightarrow> bool" where
  "valid_plan speed reach good e m N d F n \<longleftrightarrow>
     (\<forall>k<n. valid_block speed reach good (e k) (m k) (N k) (d k) (F k))
     \<and> (\<forall>k. Suc k < n \<longrightarrow> m (Suc k) \<le> N k \<and> feasible reach (d k) (e k) (e (Suc k)))
     \<and> (0 < n \<longrightarrow> e (n - 1) \<le> reach 0 (d (n - 1)))"

lemma valid_plan_cong:
  assumes "valid_plan speed reach good e m N d F n"
    and "\<forall>k<n. e' k = e k \<and> m' k = m k \<and> N' k = N k \<and> d' k = d k \<and> F' k = F k"
  shows "valid_plan speed reach good e' m' N' d' F' n"
  using assms by (cases n) (auto simp: valid_plan_def)

lemma valid_plan_tail:
  assumes "valid_plan speed reach good e m N d F (Suc n)"
  shows "valid_plan speed reach good (\<lambda>k. e (Suc k)) (\<lambda>k. m (Suc k)) (\<lambda>k. N (Suc k)) (\<lambda>k. d (Suc k)) (\<lambda>k. F (Suc k)) n"
  using assms by (cases n) (auto simp: valid_plan_def)

section \<open>The interface\<close>

locale speed_plan =
  fixes speed :: "'v::{linorder,zero} \<Rightarrow> bool" and reach :: "'v \<Rightarrow> 'd \<Rightarrow> 'v" and good :: "'d \<Rightarrow> bool"
  assumes speed_zero: "speed 0"
    and speed_nonneg: "speed v \<Longrightarrow> 0 \<le> v"
    and reach_speed: "speed v \<Longrightarrow> good d \<Longrightarrow> speed (reach v d)"
    and reach_mono: "speed v \<Longrightarrow> speed w \<Longrightarrow> good d \<Longrightarrow> v \<le> w \<Longrightarrow> reach v d \<le> reach w d"
    and reach_further: "speed v \<Longrightarrow> good d \<Longrightarrow> v \<le> reach v d"
begin

lemma reach_zero: "speed v \<Longrightarrow> good d \<Longrightarrow> reach 0 d \<le> reach v d"
  by (intro reach_mono speed_zero speed_nonneg)

lemma speed_min: "speed v \<Longrightarrow> speed w \<Longrightarrow> speed (min v w)"
  by (simp add: min_def)

text \<open>One junction in the pass backwards: the speed does not fall, and the block can brake to the next.\<close>

lemma reverse_value_ok:
  assumes "valid_block speed reach good e m N d F" "speed w" "x \<le> w" "speed x" "e \<le> reach x d"
  defines "r \<equiv> reverse_value reach m F d e w"
  shows "speed r" "e \<le> r" "r \<le> m" "r \<le> reach w d"
proof -
  have b: "speed e" "speed m" "good d" "e \<le> m" "m \<le> N" "F \<Longrightarrow> N \<le> reach 0 d" using assms(1) by (auto simp: valid_block_def)
  have ew: "e \<le> reach w d" using assms(5) reach_mono [OF assms(4,2) b(3) assms(3)] by (rule order_trans)
  show "speed r" using b reach_speed [OF assms(2) b(3)] speed_min by (auto simp: r_def reverse_value_def)
  show "e \<le> r" "r \<le> m" using b ew by (auto simp: r_def reverse_value_def)
  have "m \<le> reach w d" if "F"
    using b(5) b(6) [OF that] reach_zero [OF assms(2) b(3)] by (meson order_trans)
  moreover have "m \<le> reach w d" if "\<not> w < m"
    using that reach_further [OF assms(2) b(3)] by (meson not_less order_trans)
  ultimately show "r \<le> reach w d" using ew by (auto simp: r_def reverse_value_def min_def)
qed

text \<open>One junction in the pass forwards.\<close>

lemma forward_value_ok:
  assumes "speed v" "speed r" "good d" "F \<longrightarrow> r \<le> reach 0 d"
  defines "w \<equiv> forward_value reach F d v r"
  shows "speed w" "w \<le> r" "w \<le> reach v d" "e \<le> r \<Longrightarrow> e \<le> reach v d \<Longrightarrow> e \<le> w" "v \<le> reach r d \<Longrightarrow> v \<le> reach w d"
proof -
  note s = reach_speed [OF assms(1,3)] reach_further [OF assms(1,3)] reach_zero [OF assms(1,3)]
  show "speed w" "w \<le> r" using s(1) assms(2) speed_min by (auto simp: w_def forward_value_def)
  have "r \<le> reach v d" if "\<not> v < r" using s(2) that by (meson not_less order_trans)
  then show "w \<le> reach v d" using assms(4) s(3) by (auto simp: w_def forward_value_def intro: order_trans)
  show "e \<le> r \<Longrightarrow> e \<le> reach v d \<Longrightarrow> e \<le> w" by (auto simp: w_def forward_value_def)
  have "v \<le> reach (reach v d) d" using s(2) reach_further [OF s(1) assms(3)] by (rule order_trans)
  then show "v \<le> reach r d \<Longrightarrow> v \<le> reach w d" by (auto simp: w_def forward_value_def min_def)
qed

text \<open>The pass backwards over a plan with a new last block; the first block is left alone.\<close>

lemma reverse_pass_ok:
  assumes "valid_plan speed reach good e m N d F n"
    and "speed (e n)" "r n = e n"
    and "\<forall>k. 0 < k \<and> k < n \<longrightarrow> r k = reverse_value reach (m k) (F k) (d k) (e k) (r (Suc k))"
  shows "0 < k \<Longrightarrow> k < n \<Longrightarrow> speed (r k) \<and> e k \<le> r k \<and> r k \<le> m k \<and> r k \<le> reach (r (Suc k)) (d k)"
proof (induction "n - k" arbitrary: k)
  case (Suc j)
  have b: "valid_block speed reach good (e k) (m k) (N k) (d k) (F k)" using assms(1) Suc.prems by (simp add: valid_plan_def)
  then have good: "good (d k)" by (simp add: valid_block_def)
  have ex: "(\<exists>x. x \<le> r (Suc k) \<and> speed x \<and> e k \<le> reach x (d k)) \<and> speed (r (Suc k))"
  proof (cases "Suc k = n")
    case True
    then have "e k \<le> reach 0 (d k)" using assms(1) by (auto simp: valid_plan_def)
    then show ?thesis
      using assms(2,3) speed_zero speed_nonneg True by auto
  next
    case False
    then have "Suc k < n" using Suc.prems by simp
    then have "feasible reach (d k) (e k) (e (Suc k))" "speed (e (Suc k))"
      using assms(1) by (auto simp: valid_plan_def valid_block_def)
    then show ?thesis
      using Suc.hyps(1) [of "Suc k"] Suc.hyps(2) \<open>Suc k < n\<close> unfolding feasible_def
      by (metis Suc_diff_Suc Suc_inject Suc_lessD zero_less_Suc)
  qed
  then obtain x where x: "x \<le> r (Suc k)" "speed x" "e k \<le> reach x (d k)" by blast
  show ?case using reverse_value_ok [OF b conjunct2 [OF ex] x] assms(4) Suc.prems by simp
qed simp

lemma reverse_pass_all:
  assumes old: "valid_plan speed reach good e m N d F n"
    and new: "valid_block speed reach good (e n) (m n) (N n) (d n) (F n)"
    and r: "r 0 = e 0" "r n = e n"
    and rs: "\<forall>k. 0 < k \<and> k < n \<longrightarrow> r k = reverse_value reach (m k) (F k) (d k) (e k) (r (Suc k))"
  shows "k \<le> n \<Longrightarrow> speed (r k) \<and> e k \<le> r k \<and> r k \<le> m k" "k < n \<Longrightarrow> r k \<le> reach (r (Suc k)) (d k)"
proof -
  have sn: "speed (e n)" using new by (simp add: valid_block_def)
  note ps = reverse_pass_ok [OF old sn r(2) rs]
  have v: "valid_block speed reach good (e k) (m k) (N k) (d k) (F k)" if "k \<le> n" for k
    using old new that by (cases "k = n") (auto simp: valid_plan_def)
  show a: "speed (r k) \<and> e k \<le> r k \<and> r k \<le> m k" if "k \<le> n" for k
    using ps [of k] r v [OF that] that by (cases "k = 0"; cases "k = n") (auto simp: valid_block_def)
  show "r k \<le> reach (r (Suc k)) (d k)" if "k < n"
  proof (cases k)
    case 0
    have g: "good (d 0)" using v [of 0] by (simp add: valid_block_def)
    have s1: "speed (r 1)" "e 1 \<le> r 1" using a [of 1] that 0 by auto
    have "e 0 \<le> reach (r 1) (d 0)"
    proof (cases "n = 1")
      case True
      then have "e 0 \<le> reach 0 (d 0)" using old by (simp add: valid_plan_def)
      then show ?thesis using reach_zero [OF s1(1) g] by (rule order_trans)
    next
      case False
      then have "e 0 \<le> reach (e 1) (d 0)" using old that 0 by (auto simp: valid_plan_def feasible_def)
      moreover have "speed (e 1)" using v [of 1] that 0 by (simp add: valid_block_def)
      ultimately show ?thesis using reach_mono [OF _ s1(1) g s1(2)] by (meson order_trans)
    qed
    then show ?thesis using r 0 by simp
  qed (use ps [of k] that in simp)
qed

text \<open>The pass forwards behind it: no speed falls below the one of the old plan.\<close>

lemma forward_pass_ok:
  assumes old: "valid_plan speed reach good e m N d F n"
    and new: "valid_block speed reach good (e n) (m n) (N n) (d n) (F n)" "0 < n \<longrightarrow> m n \<le> N (n - 1)"
    and r: "r 0 = e 0" "r n = e n"
    and rs: "\<forall>k. 0 < k \<and> k < n \<longrightarrow> r k = reverse_value reach (m k) (F k) (d k) (e k) (r (Suc k))"
    and f0: "f 0 = r 0"
    and fs: "\<forall>k < n. f (Suc k) = forward_value reach (F k) (d k) (f k) (r (Suc k))"
  shows "k \<le> n \<Longrightarrow> speed (f k) \<and> f k \<le> r k \<and> (k < n \<longrightarrow> e k \<le> f k)"
    and "k < n \<Longrightarrow> feasible reach (d k) (f k) (f (Suc k))"
proof -
  note ra = reverse_pass_all [OF old new(1) r rs]
  have v: "valid_block speed reach good (e k) (m k) (N k) (d k) (F k)" if "k \<le> n" for k
    using old new that by (cases "k = n") (auto simp: valid_plan_def)
  have m: "F k \<longrightarrow> r (Suc k) \<le> reach 0 (d k)" if "k < n" for k
  proof
    assume "F k"
    have "m (Suc k) \<le> N k" using old new(2) that by (cases "Suc k = n") (auto simp: valid_plan_def)
    moreover have "r (Suc k) \<le> m (Suc k)" "N k \<le> reach 0 (d k)" using ra(1) [of "Suc k"] v [of k] that \<open>F k\<close> by (auto simp: valid_block_def)
    ultimately show "r (Suc k) \<le> reach 0 (d k)" by (meson order_trans)
  qed
  have g: "good (d k)" if "k < n" for k using v [of k] that by (simp add: valid_block_def)
  show a: "speed (f k) \<and> f k \<le> r k \<and> (k < n \<longrightarrow> e k \<le> f k)" if "k \<le> n" for k
    using that
  proof (induction k)
    case 0
    then show ?case using ra(1) [of 0] f0 r(1) by simp
  next
    case (Suc k)
    then have k: "k < n" and IH: "speed (f k)" "e k \<le> f k" by simp_all
    note fw = forward_value_ok [OF IH(1) conjunct1 [OF ra(1) [OF Suc.prems]] g [OF k] m [OF k], folded fs [rule_format, OF k]]
    have "e (Suc k) \<le> f (Suc k)" if "Suc k < n"
    proof -
      have "e (Suc k) \<le> reach (e k) (d k)" "speed (e k)" using old that by (auto simp: valid_plan_def feasible_def valid_block_def)
      then have "e (Suc k) \<le> reach (f k) (d k)" using reach_mono [OF _ IH(1) g [OF k] IH(2)] by (meson order_trans)
      then show ?thesis using fw(4) ra(1) [of "Suc k"] that by simp
    qed
    then show ?case using fw by simp
  qed
  show "feasible reach (d k) (f k) (f (Suc k))" if k: "k < n" for k
  proof -
    have fk: "speed (f k)" "f k \<le> r k" and sr: "speed (r (Suc k))" using a [of k] ra(1) [of "Suc k"] k by simp_all
    note fw = forward_value_ok [OF fk(1) sr g [OF k] m [OF k], folded fs [rule_format, OF k]]
    have "f k \<le> reach (r (Suc k)) (d k)" using fk(2) ra(2) [OF k] by (rule order_trans)
    then show ?thesis using fw by (simp add: feasible_def)
  qed
qed

text \<open>Both passes turn a valid plan and a new block into a valid plan.\<close>

lemma passes_valid:
  assumes old: "valid_plan speed reach good e m N d F n"
    and new: "valid_block speed reach good (e n) (m n) (N n) (d n) (F n)" "0 < n \<longrightarrow> m n \<le> N (n - 1)"
    and stop: "e n \<le> reach 0 (d n)"
    and r: "r 0 = e 0" "r n = e n"
    and rs: "\<forall>k. 0 < k \<and> k < n \<longrightarrow> r k = reverse_value reach (m k) (F k) (d k) (e k) (r (Suc k))"
    and f0: "f 0 = r 0"
    and fs: "\<forall>k < n. f (Suc k) = forward_value reach (F k) (d k) (f k) (r (Suc k))"
  shows "valid_plan speed reach good f m N d F (Suc n)"
proof -
  note ra = reverse_pass_all [OF old new(1) r rs]
  note fa = forward_pass_ok [OF old new r rs f0 fs]
  have v: "valid_block speed reach good (e k) (m k) (N k) (d k) (F k)" if "k \<le> n" for k
    using old new that by (cases "k = n") (auto simp: valid_plan_def)
  have "valid_block speed reach good (f k) (m k) (N k) (d k) (F k)" if "k \<le> n" for k
    using v [OF that] fa(1) [OF that] ra(1) [OF that] by (auto simp: valid_block_def)
  moreover have "m (Suc k) \<le> N k" if "k < n" for k
    using old new(2) that by (cases "Suc k = n") (auto simp: valid_plan_def)
  moreover have "f n \<le> reach 0 (d n)" using fa(1) [of n] r(2) stop by auto
  ultimately show ?thesis using fa(2) by (simp add: valid_plan_def less_Suc_eq_le)
qed

end

end
