(* ===== verification/Grbl_Speed.thy ===== *)
theory Grbl_Speed
  imports Grbl_Planner Speed_Plan "HOL-Library.Monad_Syntax"
begin

text \<open>
  The speeds of the motion planner (\<open>src/libraries/grbl/src/planner.c\<close>): how the planner limits the
  speed of a block, plans the speeds at the junctions of the queued blocks in two passes, and computes
  the trapezoid that the step interrupt follows.
\<close>

section \<open>State\<close>

text \<open>
  The fields of a block in floating point with the flags of the planner. The other fields of the
  same block are in the buffer of the stepper, under the same index.
\<close>

record speeds =
  nominal_speed :: rat
  entry_speed :: rat
  max_entry_speed :: rat
  millimeters :: rat
  recalculate_flag :: bool
  nominal_length_flag :: bool

record motion = planner +
  block_speeds :: "nat \<Rightarrow> speeds"
  stp :: stepper

abbreviation head_of :: "motion \<Rightarrow> U8" where "head_of p \<equiv> block_buffer_head (stp p)"
abbreviation tail_of :: "motion \<Rightarrow> U8" where "tail_of p \<equiv> block_buffer_tail (stp p)"
abbreviation speeds_at :: "motion \<Rightarrow> U8 \<Rightarrow> speeds" where "speeds_at p i \<equiv> block_speeds p (unat i)"
abbreviation block_at :: "motion \<Rightarrow> U8 \<Rightarrow> block_t" where "block_at p i \<equiv> block_buffer (stp p) (unat i)"

definition set_speeds :: "U8 \<Rightarrow> speeds \<Rightarrow> motion \<Rightarrow> motion" where
  "set_speeds i b p = p\<lparr>block_speeds := (block_speeds p)(unat i := b)\<rparr>"

definition set_block :: "U8 \<Rightarrow> block_t \<Rightarrow> motion \<Rightarrow> motion" where
  "set_block i b p = p\<lparr>stp := (stp p)\<lparr>block_buffer := (block_buffer (stp p))(unat i := b)\<rparr>\<rparr>"

section \<open>Arithmetic\<close>

text \<open>
  A division by zero gives an infinity or no number; the planner converts what depends on it to an
  integer, which is undefined, so that the model ends with \<open>None\<close> at the division. Conversions of
  rates and counts to integers are \<open>None\<close> outside the range of the type, sums of them where they overflow.
\<close>

definition fdiv :: "rat \<Rightarrow> rat \<Rightarrow> rat option" where
  "fdiv x y = (if y = 0 then None else Some (double_of (x / y)))"

definition to_uint32 :: "rat \<Rightarrow> U32 option" where
  "to_uint32 x = to_range 0 (2 ^ 32 - 1) x"

definition to_int32 :: "rat \<Rightarrow> int option" where
  "to_int32 x = (let i = truncated x in if in_int32 i then Some i else None)"

definition int32 :: "int \<Rightarrow> int option" where
  "int32 i = (if in_int32 i then Some i else None)"

abbreviation of_U32 :: "U32 \<Rightarrow> rat" where "of_U32 w \<equiv> of_int (uint w)"

definition estimate_acceleration_distance :: "rat \<Rightarrow> rat \<Rightarrow> rat \<Rightarrow> rat option" where
  "estimate_acceleration_distance initial target a =
     fdiv (double_of (double_of (target * target) - double_of (initial * initial))) (double_of (2 * a))"

definition intersection_distance :: "rat \<Rightarrow> rat \<Rightarrow> rat \<Rightarrow> rat \<Rightarrow> rat option" where
  "intersection_distance initial final a distance =
     fdiv (double_of (double_of (double_of (double_of (2 * a) * distance) - double_of (initial * initial))
             + double_of (final * final)))
       (double_of (4 * a))"

definition max_allowable_speed :: "rat \<Rightarrow> rat \<Rightarrow> rat \<Rightarrow> rat option" where
  "max_allowable_speed a target distance =
     sqrt_double (double_of (double_of (target * target)
       - double_of (double_of (double_of (double_of (2 * a) * 60) * 60) * distance)))"

definition MINIMUM_PLANNER_SPEED :: rat where "MINIMUM_PLANNER_SPEED = 0"

section \<open>Trapezoids\<close>

text \<open>The steps of acceleration and of the plateau.\<close>

definition trapezoid_steps :: "int \<Rightarrow> int \<Rightarrow> U32 \<Rightarrow> U32 \<Rightarrow> U32 \<Rightarrow> (int \<times> int) option" where
  "trapezoid_steps n a initial nominal final =
     do {
       d \<leftarrow> estimate_acceleration_distance (of_U32 initial) (of_U32 nominal) (of_int a);
       accelerate_steps \<leftarrow> to_int32 (of_int \<lceil>d\<rceil>);
       d \<leftarrow> estimate_acceleration_distance (of_U32 nominal) (of_U32 final) (of_int (- a));
       decelerate_steps \<leftarrow> to_int32 (of_int \<lfloor>d\<rfloor>);
       i \<leftarrow> int32 (n - accelerate_steps);
       plateau_steps \<leftarrow> int32 (i - decelerate_steps);
       if plateau_steps < 0 then
         do {
           d \<leftarrow> intersection_distance (of_U32 initial) (of_U32 final) (of_int a) (of_int n);
           accelerate_steps \<leftarrow> to_int32 (of_int \<lceil>d\<rceil>);
           Some (min (max accelerate_steps 0) n, 0)
         }
       else Some (accelerate_steps, plateau_steps)
     }"

definition calculate_trapezoid_for_block :: "rat \<Rightarrow> rat \<Rightarrow> block_t \<Rightarrow> block_t option" where
  "calculate_trapezoid_for_block entry_factor exit_factor b =
     do {
       initial \<leftarrow> to_uint32 (of_int \<lceil>double_of (of_U32 (nominal_rate b) * entry_factor)\<rceil>);
       final \<leftarrow> to_uint32 (of_int \<lceil>double_of (of_U32 (nominal_rate b) * exit_factor)\<rceil>);
       r \<leftarrow> int32 (sint (rate_delta b) * sint ACCELERATION_TICKS_PER_SECOND);
       a \<leftarrow> to_int32 (double_of (of_int r * 60));
       (accelerate_steps, plateau_steps) \<leftarrow> trapezoid_steps (sint (step_event_count b)) a initial (nominal_rate b) final;
       after \<leftarrow> int32 (accelerate_steps + plateau_steps);
       Some (b\<lparr>initial_rate := initial, final_rate := final, accelerate_until := word_of_int accelerate_steps,
               decelerate_after := word_of_int after\<rparr>)
     }"

section \<open>Junction speeds\<close>

text \<open>The kernels and passes. The pointer to the previous or next block is \<open>None\<close> at the ends.\<close>

definition reverse_speed :: "rat \<Rightarrow> speeds \<Rightarrow> speeds \<Rightarrow> speeds option" where
  "reverse_speed a current next =
     (if entry_speed current \<noteq> max_entry_speed current then
        map_option (\<lambda>v. current\<lparr>entry_speed := v, recalculate_flag := True\<rparr>)
          (if \<not> nominal_length_flag current \<and> entry_speed next < max_entry_speed current
           then map_option (min (max_entry_speed current)) (max_allowable_speed (- a) (entry_speed next) (millimeters current))
           else Some (max_entry_speed current))
      else Some current)"

definition planner_reverse_pass_kernel :: "U8 option \<Rightarrow> U8 option \<Rightarrow> motion \<Rightarrow> motion option" where
  "planner_reverse_pass_kernel current next p =
     (case (current, next) of
        (Some c, Some n) \<Rightarrow>
          map_option (\<lambda>b. set_speeds c b p) (reverse_speed (acceleration p) (speeds_at p c) (speeds_at p n))
      | _ \<Rightarrow> Some p)"

fun reverse_loop :: "nat \<Rightarrow> U8 \<Rightarrow> U8 option \<Rightarrow> U8 option \<Rightarrow> motion \<Rightarrow> motion option" where
  "reverse_loop fuel i b0 b1 p =
     (if i = tail_of p then Some p
      else
        (case fuel of
           0 \<Rightarrow> None
         | Suc fuel \<Rightarrow>
             let i = prev_block_index i
             in planner_reverse_pass_kernel b0 b1 p \<bind> reverse_loop fuel i (Some i) b0))"

definition planner_reverse_pass :: "motion \<Rightarrow> motion option" where
  "planner_reverse_pass p = reverse_loop (unat BLOCK_BUFFER_SIZE) (head_of p) None None p"

definition forward_speed :: "rat \<Rightarrow> speeds \<Rightarrow> speeds \<Rightarrow> speeds option" where
  "forward_speed a previous current =
     (if \<not> nominal_length_flag previous \<and> entry_speed previous < entry_speed current then
        map_option (\<lambda>m. let v = min (entry_speed current) m
            in if entry_speed current \<noteq> v then current\<lparr>entry_speed := v, recalculate_flag := True\<rparr> else current)
          (max_allowable_speed (- a) (entry_speed previous) (millimeters previous))
      else Some current)"

definition planner_forward_pass_kernel :: "U8 option \<Rightarrow> U8 option \<Rightarrow> motion \<Rightarrow> motion option" where
  "planner_forward_pass_kernel previous current p =
     (case (previous, current) of
        (Some b, Some c) \<Rightarrow>
          map_option (\<lambda>x. set_speeds c x p) (forward_speed (acceleration p) (speeds_at p b) (speeds_at p c))
      | _ \<Rightarrow> Some p)"

text \<open>The last kernel, behind the loop, takes the two newest blocks.\<close>

fun forward_loop :: "nat \<Rightarrow> U8 \<Rightarrow> U8 option \<Rightarrow> U8 option \<Rightarrow> motion \<Rightarrow> motion option" where
  "forward_loop fuel i b1 b2 p =
     (if i = head_of p then planner_forward_pass_kernel b1 b2 p
      else
        (case fuel of
           0 \<Rightarrow> None
         | Suc fuel \<Rightarrow> planner_forward_pass_kernel b1 b2 p \<bind> forward_loop fuel (next_block_index i) b2 (Some i)))"

definition planner_forward_pass :: "motion \<Rightarrow> motion option" where
  "planner_forward_pass p = forward_loop (unat BLOCK_BUFFER_SIZE) (tail_of p) None None p"

definition recalculate_block :: "U8 \<Rightarrow> rat \<Rightarrow> motion \<Rightarrow> motion option" where
  "recalculate_block i exit p =
     do {
       entry_factor \<leftarrow> fdiv (entry_speed (speeds_at p i)) (nominal_speed (speeds_at p i));
       exit_factor \<leftarrow> fdiv exit (nominal_speed (speeds_at p i));
       b \<leftarrow> calculate_trapezoid_for_block entry_factor exit_factor (block_at p i);
       Some (set_speeds i ((speeds_at p i)\<lparr>recalculate_flag := False\<rparr>) (set_block i b p))
     }"

definition recalculate_junction :: "U8 option \<Rightarrow> U8 \<Rightarrow> motion \<Rightarrow> motion option" where
  "recalculate_junction current next p =
     (case current of
        None \<Rightarrow> Some p
      | Some c \<Rightarrow>
          if recalculate_flag (speeds_at p c) \<or> recalculate_flag (speeds_at p next)
          then recalculate_block c (entry_speed (speeds_at p next)) p
          else Some p)"

text \<open>With no block in the buffer, the code would read through a null pointer.\<close>

fun trapezoids_loop :: "nat \<Rightarrow> U8 \<Rightarrow> U8 option \<Rightarrow> motion \<Rightarrow> motion option" where
  "trapezoids_loop fuel i next p =
     (if i = head_of p then (case next of None \<Rightarrow> None | Some n \<Rightarrow> recalculate_block n MINIMUM_PLANNER_SPEED p)
      else
        (case fuel of
           0 \<Rightarrow> None
         | Suc fuel \<Rightarrow> recalculate_junction next i p \<bind> trapezoids_loop fuel (next_block_index i) (Some i)))"

definition planner_recalculate_trapezoids :: "motion \<Rightarrow> motion option" where
  "planner_recalculate_trapezoids p = trapezoids_loop (unat BLOCK_BUFFER_SIZE) (tail_of p) None p"

definition planner_recalculate :: "motion \<Rightarrow> motion option" where
  "planner_recalculate p = planner_reverse_pass p \<bind> planner_forward_pass \<bind> planner_recalculate_trapezoids"

declare reverse_loop.simps [simp del] forward_loop.simps [simp del] trapezoids_loop.simps [simp del]

section \<open>Moves\<close>

text \<open>The length of a move; a move of the extruder alone has the length of the filament.\<close>

definition line_length :: "rat \<Rightarrow> rat \<Rightarrow> rat \<Rightarrow> rat \<Rightarrow> rat option" where
  "line_length dx dy dz de =
     map_option (\<lambda>mm. if mm = 0 then \<bar>de\<bar> else mm)
       (sqrt_double (double_of (double_of (double_of (dx * dx) + double_of (dy * dy)) + double_of (dz * dz))))"

definition limit_factor :: "int \<Rightarrow> rat \<Rightarrow> rat \<Rightarrow> rat option" where
  "limit_factor feedrate speed factor =
     (if of_int feedrate < \<bar>speed\<bar>
      then map_option (\<lambda>t. if t < factor then t else factor) (fdiv (of_int feedrate) \<bar>speed\<bar>)
      else Some factor)"

text \<open>From the feed rate, the number of times per minute that the move could be made, within the limits of the axes.\<close>

definition speed_multiplier :: "'a planner_scheme \<Rightarrow> rat \<Rightarrow> rat \<Rightarrow> rat \<Rightarrow> rat \<Rightarrow> rat \<Rightarrow> rat \<Rightarrow> rat option" where
  "speed_multiplier p dx dy dz de mm feed =
     do {
       q \<leftarrow> fdiv mm feed;
       microseconds \<leftarrow> int32 (lround (double_of (double_of (q * 60) * 1000000)));
       multiplier \<leftarrow> fdiv 60000000 (of_int microseconds);
       let speed = (\<lambda>d. double_of (d * multiplier));
       f \<leftarrow> (if of_int (maximum_feedrate_x p) < \<bar>speed dx\<bar> then fdiv (of_int (maximum_feedrate_x p)) \<bar>speed dx\<bar> else Some 1);
       f \<leftarrow> limit_factor (maximum_feedrate_y p) (speed dy) f;
       f \<leftarrow> limit_factor (maximum_feedrate_z p) (speed dz) f;
       f \<leftarrow> limit_factor (maximum_feedrate_e p) (speed de) f;
       Some (double_of (multiplier * f))
     }"

text \<open>The highest speed at the junction with the block before, from the angle between both.\<close>

definition vmax_junction :: "motion \<Rightarrow> rat \<times> rat \<times> rat \<Rightarrow> rat \<Rightarrow> rat option" where
  "vmax_junction p unit_vec nominal =
     (if head_of p \<noteq> tail_of p \<and> 0 < previous_nominal_speed p then
        (case (previous_unit_vec p, unit_vec) of
           ((px, py, pz), (ux, uy, uz)) \<Rightarrow>
             let cos_theta = double_of (double_of (double_of (- px * ux) - double_of (py * uy)) - double_of (pz * uz))
             in if cos_theta < double_of (95 / 100) then
                  let v = min (previous_nominal_speed p) nominal
                  in if - double_of (95 / 100) < cos_theta then
                       do {
                         s \<leftarrow> sqrt_double (double_of (1 / 2 * double_of (1 - cos_theta)));
                         q \<leftarrow> fdiv (double_of (double_of (double_of (double_of (acceleration p * 60) * 60) * junction_deviation p) * s))
                                (double_of (1 - s));
                         m \<leftarrow> sqrt_double q;
                         Some (min v m)
                       }
                     else Some v
                else Some MINIMUM_PLANNER_SPEED)
      else Some MINIMUM_PLANNER_SPEED)"

text \<open>
  The new block, from the steps \<open>m\<close> of the move and the change of the position, in the free place of
  the buffer. Its speeds are planned only if the acceleration manager is enabled.
\<close>

definition new_block :: "move \<Rightarrow> U32 \<Rightarrow> U32 \<Rightarrow> block_t \<Rightarrow> block_t" where
  "new_block m rate delta b =
     b\<lparr>action_type := AT_MOVE, direction_bits := move_bits m, steps_x := move_x m, steps_y := move_y m, steps_z := move_z m,
       steps_e := move_e m, step_event_count := move_events m, nominal_rate := rate, rate_delta := delta,
       check_endstops := move_endstops m\<rparr>"

definition constant_rate :: "block_t \<Rightarrow> block_t" where
  "constant_rate b =
     b\<lparr>initial_rate := nominal_rate b, final_rate := nominal_rate b, accelerate_until := 0,
       decelerate_after := step_event_count b, rate_delta := 0\<rparr>"

definition new_speeds :: "motion \<Rightarrow> rat \<times> rat \<times> rat \<Rightarrow> rat \<Rightarrow> rat \<Rightarrow> speeds option" where
  "new_speeds p unit_vec mm nominal =
     do {
       vmax \<leftarrow> vmax_junction p unit_vec nominal;
       v_allowable \<leftarrow> max_allowable_speed (- acceleration p) MINIMUM_PLANNER_SPEED mm;
       Some \<lparr>nominal_speed = nominal, entry_speed = min vmax v_allowable, max_entry_speed = vmax, millimeters = mm,
             recalculate_flag = True, nominal_length_flag = nominal \<le> v_allowable\<rparr>
     }"

definition plan_line :: "move \<Rightarrow> rat \<Rightarrow> planner \<Rightarrow> motion \<Rightarrow> motion option" where
  "plan_line m feed q p =
     do {
       dx \<leftarrow> fdiv (of_int (position_x q - position_x p)) (steps_per_mm_x p);
       dy \<leftarrow> fdiv (of_int (position_y q - position_y p)) (steps_per_mm_y p);
       dz \<leftarrow> fdiv (of_int (position_z q - position_z p)) (steps_per_mm_z p);
       de \<leftarrow> fdiv (of_int (position_e q - position_e p)) (steps_per_mm_e p);
       mm \<leftarrow> line_length dx dy dz de;
       inverse_mm \<leftarrow> fdiv 1 mm;
       multiplier \<leftarrow> speed_multiplier p dx dy dz de mm feed;
       let nominal = double_of (mm * multiplier);
       rate \<leftarrow> to_uint32 (of_int \<lceil>double_of (of_int (sint (move_events m)) * multiplier)\<rceil>);
       delta \<leftarrow> to_int32 (of_int \<lceil>double_of (double_of (double_of (double_of (of_int (sint (move_events m)) * inverse_mm)
                  * acceleration p) * 60) / 1000)\<rceil>);
       let h = head_of p;
       let b = new_block m rate (word_of_int delta) (block_at p h);
       let unit_vec = (double_of (dx * inverse_mm), double_of (dy * inverse_mm), double_of (dz * inverse_mm));
       if acceleration_manager_enabled p then
         map_option (\<lambda>s. (set_speeds h s (set_block h b p))\<lparr>previous_unit_vec := unit_vec, previous_nominal_speed := nominal\<rparr>)
           (new_speeds p unit_vec mm nominal)
       else
         Some (set_speeds h ((speeds_at p h)\<lparr>nominal_speed := nominal, millimeters := mm\<rparr>) (set_block h (constant_rate b) p))
     }"

text \<open>The buffer takes the block in, and the stepper is started.\<close>

definition push_block :: "motion \<Rightarrow> motion" where
  "push_block p = p\<lparr>stp := (stp p)\<lparr>block_buffer_head := next_block_index (head_of p)\<rparr>\<rparr>"

definition wake_up :: "motion \<Rightarrow> motion option" where
  "wake_up p =
     map_option (\<lambda>d. p\<lparr>stp := st_wake_up d (stp p)\<rparr>)
       (to_uint32 (double_of (double_of (double_of (double_of (1980 * steps_per_mm_x p) * 200) / 1024) / 10)))"

text \<open>\<open>Waits\<close>: the buffer is full, and the call sleeps until an interrupt has discarded a block.\<close>

datatype 'a outcome = Done 'a | Waits | Undefined

definition outcome_of :: "'a option \<Rightarrow> 'a outcome" where
  "outcome_of r = (case r of None \<Rightarrow> Undefined | Some x \<Rightarrow> Done x)"

definition plan_buffer_line :: "action_type \<Rightarrow> tTarget \<Rightarrow> motion \<Rightarrow> motion outcome" where
  "plan_buffer_line a t p =
     (case plan_steps (a \<noteq> AT_MOVE) t p of
        None \<Rightarrow> Undefined
      | Some (m, q) \<Rightarrow>
          if plan_queue_full (stp p) then Waits
          else
            (case m of
               None \<Rightarrow> Done p
             | Some m \<Rightarrow>
                 outcome_of
                   (do {
                      p \<leftarrow> plan_line m (feed_rate t) (planner.truncate q) p;
                      let p = (push_block p)\<lparr>position_x := position_x q, position_y := position_y q, position_z := position_z q,
                                position_e := position_e q, startpoint := t\<rparr>;
                      p \<leftarrow> (if acceleration_manager_enabled p then planner_recalculate p else Some p);
                      wake_up p
                    })))"

definition plan_buffer_wait :: "action_type \<Rightarrow> motion \<Rightarrow> motion outcome" where
  "plan_buffer_wait a p =
     (if plan_queue_full (stp p) then Waits
      else
        let h = head_of p;
            b = constant_rate ((block_at p h)\<lparr>action_type := a, nominal_rate := 1200, step_event_count := 1000\<rparr>);
            s = (speeds_at p h)\<lparr>millimeters := 10, nominal_speed := 600, entry_speed := 600\<rparr>;
            p = push_block (set_speeds h s (set_block h b p))
        in outcome_of
             (do {
                p \<leftarrow> (if acceleration_manager_enabled p then planner_recalculate p else Some p);
                wake_up p
              }))"

definition plan_buffer_action :: "action_type \<Rightarrow> tTarget \<Rightarrow> motion \<Rightarrow> motion outcome" where
  "plan_buffer_action a t p =
     (if a = AT_MOVE \<or> a = AT_MOVE_ENDSTOP then plan_buffer_line a t p else plan_buffer_wait a p)"

text \<open>A change of the acceleration manager waits until the buffer is empty (\<open>st_synchronize\<close>).\<close>

definition plan_set_acceleration_manager_enabled :: "bool \<Rightarrow> motion \<Rightarrow> motion outcome" where
  "plan_set_acceleration_manager_enabled enabled p =
     (if acceleration_manager_enabled p \<noteq> enabled then
        (if plan_get_current_block (stp p) = None then Done (p\<lparr>acceleration_manager_enabled := enabled\<rparr>) else Waits)
      else Done p)"

definition plan_init :: "motion \<Rightarrow> motion outcome" where
  "plan_init p =
     (let p = p\<lparr>stp := (stp p)\<lparr>block_buffer_head := 0, block_buffer_tail := 0\<rparr>\<rparr>
      in case plan_set_acceleration_manager_enabled True p of
           Done p \<Rightarrow>
             Done (p\<lparr>position_x := 0, position_y := 0, position_z := 0, position_e := 0, previous_unit_vec := (0, 0, 0),
                     previous_nominal_speed := 0,
                     startpoint := \<lparr>target_x = 0, target_y = 0, target_z = 0, target_e = 0, feed_rate = 0, invert_feed_rate = 0\<rparr>\<rparr>)
         | r \<Rightarrow> r)"

section \<open>Properties of the trapezoids\<close>

declare of_int_uint [simp del] of_int_sint [simp del]

lemma truncated_int [simp]: "truncated (of_int i) = i"
  by (simp add: truncated_def)

lemma to_uint32_int: "to_uint32 (of_int i) = Some w \<Longrightarrow> uint w = i"
  by (auto simp: to_uint32_def to_range_def Let_def uint_word_of_int split: if_splits)

lemma to_int32_int [simp]: "to_int32 (of_int i) = int32 i"
  by (simp add: to_int32_def int32_def Let_def)

lemma int32_Some [simp]: "int32 i = Some j \<longleftrightarrow> in_int32 i \<and> j = i"
  by (auto simp: int32_def)

text \<open>A rate that is scaled down stays below the nominal rate.\<close>

lemma scaled_rate:
  assumes "to_uint32 (of_int \<lceil>double_of (of_U32 n * f)\<rceil>) = Some w" "f \<le> 1"
  shows "w \<le> n"
proof -
  have "of_U32 n * f \<le> of_U32 n" using assms(2) by (simp add: mult_left_le)
  moreover have "is_double (of_U32 n)" using uint_bounded [of n] by (intro is_double_int) simp
  ultimately have "double_of (of_U32 n * f) \<le> of_U32 n" by (rule double_of_le)
  then have "\<lceil>double_of (of_U32 n * f)\<rceil> \<le> uint n" by (simp add: ceiling_le_iff)
  then show ?thesis using to_uint32_int [OF assms(1)] by (simp add: word_le_def)
qed

lemma double_of_square_mono: "0 \<le> x \<Longrightarrow> x \<le> y \<Longrightarrow> double_of (x * x) \<le> double_of (y * y)"
  by (intro double_of_mono mult_mono) simp_all

lemma estimate_nonneg:
  assumes "estimate_acceleration_distance x y a = Some d" "0 \<le> x" "0 \<le> y" "0 \<le> a \<and> x \<le> y \<or> a \<le> 0 \<and> y \<le> x"
  shows "0 \<le> d"
proof -
  define u where "u = double_of (double_of (y * y) - double_of (x * x))"
  have d: "d = double_of (u / double_of (2 * a))"
    using assms(1) by (simp add: estimate_acceleration_distance_def fdiv_def u_def split: if_splits)
  have "0 \<le> u \<and> 0 \<le> double_of (2 * a) \<or> u \<le> 0 \<and> double_of (2 * a) \<le> 0"
    using assms(4)
  proof
    assume "0 \<le> a \<and> x \<le> y"
    then show ?thesis using double_of_square_mono [OF assms(2)] unfolding u_def by (auto intro: double_of_nonneg)
  next
    assume a: "a \<le> 0 \<and> y \<le> x"
    then have "double_of (y * y) - double_of (x * x) \<le> 0" using double_of_square_mono [OF assms(3), of x] by simp
    then have "u \<le> 0" "double_of (2 * a) \<le> 0" unfolding u_def using a double_of_mono [of _ 0] by auto
    then show ?thesis by blast
  qed
  then show ?thesis unfolding d by (intro double_of_nonneg) (auto simp: zero_le_divide_iff)
qed

lemma trapezoid_steps_bounds:
  assumes "trapezoid_steps n a i v f = Some (s, pl)" "0 \<le> n" "0 \<le> a" "i \<le> v" "f \<le> v"
  shows "0 \<le> s" "0 \<le> pl" "s + pl \<le> n"
proof -
  have w: "of_U32 i \<le> of_U32 v" "of_U32 f \<le> of_U32 v" using assms(4,5) by (simp_all add: word_le_def)
  obtain d d' where e: "estimate_acceleration_distance (of_U32 i) (of_U32 v) (of_int a) = Some d"
      "estimate_acceleration_distance (of_U32 v) (of_U32 f) (of_int (- a)) = Some d'"
    and r: "n - \<lceil>d\<rceil> - \<lfloor>d'\<rfloor> < 0 \<and> (\<exists>c. s = min (max c 0) n) \<and> pl = 0 \<or> 0 \<le> n - \<lceil>d\<rceil> - \<lfloor>d'\<rfloor> \<and> s = \<lceil>d\<rceil> \<and> pl = n - \<lceil>d\<rceil> - \<lfloor>d'\<rfloor>"
    using assms(1) by (fastforce simp: trapezoid_steps_def Option.bind_eq_Some_conv split: if_splits)
  have "0 \<le> d" by (rule estimate_nonneg [OF e(1)]) (use w assms(3) in simp_all)
  moreover have "0 \<le> d'" by (rule estimate_nonneg [OF e(2)]) (use w assms(3) in simp_all)
  ultimately have "0 \<le> \<lceil>d\<rceil>" "0 \<le> \<lfloor>d'\<rfloor>" by simp_all
  then show "0 \<le> s" "0 \<le> pl" "s + pl \<le> n" using r assms(2) by (auto split: if_splits)
qed

lemma calculate_trapezoid_cases:
  assumes "calculate_trapezoid_for_block ef xf b = Some b'"
  obtains i f a s pl where
    "to_uint32 (of_int \<lceil>double_of (of_U32 (nominal_rate b) * ef)\<rceil>) = Some i"
    "to_uint32 (of_int \<lceil>double_of (of_U32 (nominal_rate b) * xf)\<rceil>) = Some f"
    "to_int32 (double_of (of_int (sint (rate_delta b) * 1000) * 60)) = Some a"
    "trapezoid_steps (sint (step_event_count b)) a i (nominal_rate b) f = Some (s, pl)" "in_int32 (s + pl)"
    "b' = b\<lparr>initial_rate := i, final_rate := f, accelerate_until := word_of_int s, decelerate_after := word_of_int (s + pl)\<rparr>"
  using assms by (auto simp: calculate_trapezoid_for_block_def Option.bind_eq_Some_conv ACCELERATION_TICKS_PER_SECOND_def)

lemma trapezoid_bounds:
  assumes "calculate_trapezoid_for_block ef xf b = Some b'" "ef \<le> 1" "xf \<le> 1"
    and "0 \<le> sint (rate_delta b)" "0 \<le> sint (step_event_count b)"
  shows "initial_rate b' \<le> nominal_rate b \<and> final_rate b' \<le> nominal_rate b
    \<and> accelerate_until b' \<le> decelerate_after b' \<and> decelerate_after b' \<le> step_event_count b"
  using assms(1)
proof (rule calculate_trapezoid_cases)
  fix i f a s pl
  assume r: "to_uint32 (of_int \<lceil>double_of (of_U32 (nominal_rate b) * ef)\<rceil>) = Some i"
    "to_uint32 (of_int \<lceil>double_of (of_U32 (nominal_rate b) * xf)\<rceil>) = Some f"
    and a: "to_int32 (double_of (of_int (sint (rate_delta b) * 1000) * 60)) = Some a"
    and t: "trapezoid_steps (sint (step_event_count b)) a i (nominal_rate b) f = Some (s, pl)" and n: "in_int32 (s + pl)"
    and b': "b' = b\<lparr>initial_rate := i, final_rate := f, accelerate_until := word_of_int s, decelerate_after := word_of_int (s + pl)\<rparr>"
  have le: "i \<le> nominal_rate b" "f \<le> nominal_rate b" using scaled_rate r assms(2,3) by blast+
  have "0 \<le> double_of (of_int (sint (rate_delta b) * 1000) * 60)" using assms(4) by (intro double_of_nonneg) simp
  then have "0 \<le> a" using a by (auto simp: to_int32_def truncated_def Let_def split: if_splits)
  note tb = trapezoid_steps_bounds [OF t assms(5) this le]
  have "uint (word_of_int s :: U32) = s" "uint (word_of_int (s + pl) :: U32) = s + pl"
    using tb n by (simp_all add: uint_word_of_int in_int32_def del: of_int_add)
  moreover have "uint (step_event_count b) = sint (step_event_count b)"
    using assms(5) sint_less [of "step_event_count b"] by (subst uint_sint) (simp add: take_bit_int_eq_self)
  ultimately show ?thesis using tb le by (simp add: b' word_le_def)
qed

section \<open>The speed that can be reached\<close>

text \<open>
  The value of \<open>max_allowable_speed\<close> as the planner calls it. Squares of speeds below \<open>TINY\<close> are lost
  by underflow, so that the speeds of a plan are zero or not below it.
\<close>

definition TINY :: rat where "TINY = 2 powi (- 500)"

definition speed_ok :: "rat \<Rightarrow> bool" where
  "speed_ok v \<longleftrightarrow> is_double v \<and> (v = 0 \<or> TINY \<le> v)"

definition reach :: "rat \<Rightarrow> rat \<Rightarrow> rat \<Rightarrow> rat" where
  "reach a v mm =
     root_double (double_of (double_of (v * v) - double_of (double_of (double_of (double_of (2 * - a) * 60) * 60) * mm)))"

definition length_ok :: "rat \<Rightarrow> rat \<Rightarrow> bool" where
  "length_ok a mm \<longleftrightarrow> 0 \<le> a \<and> 0 \<le> mm \<and> TINY \<le> reach a 0 mm"

lemma double_of_nonpos: "x \<le> 0 \<Longrightarrow> double_of x \<le> 0"
  using double_of_mono [of x 0] by simp

lemma reach_term:
  assumes "0 \<le> a" "0 \<le> mm"
  shows "double_of (double_of (double_of (double_of (2 * - a) * 60) * 60) * mm) \<le> 0"
proof -
  have "double_of (2 * - a) * 60 \<le> 0" using assms(1) double_of_nonpos [of "2 * - a"] by simp
  from double_of_nonpos [OF this] have "double_of (double_of (2 * - a) * 60) * 60 \<le> 0" by simp
  from double_of_nonpos [OF this] have "double_of (double_of (double_of (2 * - a) * 60) * 60) * mm \<le> 0"
    using assms(2) by (rule mult_nonpos_nonneg)
  then show ?thesis by (rule double_of_nonpos)
qed

lemma reach_argument:
  assumes "0 \<le> a" "0 \<le> mm"
  shows "double_of (v * v) \<le> double_of (double_of (v * v) - double_of (double_of (double_of (double_of (2 * - a) * 60) * 60) * mm))"
  using reach_term [OF assms] by (intro double_of_ge) simp_all

lemma square_nonneg: "0 \<le> double_of (v * v)"
  by (intro double_of_nonneg) simp

lemma reach_argument_nonneg:
  assumes "0 \<le> a" "0 \<le> mm"
  shows "0 \<le> double_of (double_of (v * v) - double_of (double_of (double_of (double_of (2 * - a) * 60) * 60) * mm))"
  using reach_argument [OF assms, of v] square_nonneg [of v] by linarith

lemma max_allowable_speed_reach: "0 \<le> a \<Longrightarrow> 0 \<le> mm \<Longrightarrow> max_allowable_speed (- a) v mm = Some (reach a v mm)"
  using reach_argument_nonneg [of a mm v] by (simp add: max_allowable_speed_def sqrt_double_def reach_def)

lemma reach_nonneg: "0 \<le> a \<Longrightarrow> 0 \<le> mm \<Longrightarrow> 0 \<le> reach a v mm"
  unfolding reach_def by (rule root_double_nonneg [OF reach_argument_nonneg])

lemma reach_mono_speed:
  assumes "0 \<le> a" "0 \<le> mm" "0 \<le> v" "v \<le> w"
  shows "reach a v mm \<le> reach a w mm"
  unfolding reach_def using double_of_square_mono [OF assms(3,4)]
  by (intro root_double_mono double_of_mono reach_argument_nonneg assms(1,2)) simp

lemma reach_above:
  assumes "0 \<le> a" "0 \<le> mm" "speed_ok v"
  shows "v \<le> reach a v mm"
proof (cases "v = 0")
  case True
  then show ?thesis using reach_nonneg [OF assms(1,2)] by simp
next
  case False
  then have "v \<le> root_double (double_of (v * v))"
    using assms(3) by (intro root_square_ge) (auto simp: speed_ok_def TINY_def)
  also have "\<dots> \<le> reach a v mm" unfolding reach_def
    by (intro root_double_mono reach_argument assms(1,2) square_nonneg)
  finally show ?thesis .
qed

lemma TINY_pos: "0 < TINY"
  unfolding TINY_def by (rule zero_less_power_int) simp

lemma speed_ok_nonneg: "speed_ok v \<Longrightarrow> 0 \<le> v"
  using TINY_pos by (auto simp: speed_ok_def)

lemma is_double_reach: "0 \<le> a \<Longrightarrow> 0 \<le> mm \<Longrightarrow> is_double (reach a v mm)"
  unfolding reach_def by (intro is_double_root is_double_double_of reach_argument_nonneg)

interpretation jct: speed_plan speed_ok "reach a" "length_ok a" for a
proof
  show "speed_ok 0" using is_double_int [of 0] by (simp add: speed_ok_def)
  show "0 \<le> v" if "speed_ok v" for v using speed_ok_nonneg [OF that] .
  show "speed_ok (reach a v d)" if "speed_ok v" "length_ok a d" for v d
  proof -
    have "TINY \<le> reach a v d"
      using that reach_mono_speed [of a d 0 v] speed_ok_nonneg [OF that(1)] by (auto simp: length_ok_def)
    then show ?thesis using that(2) by (simp add: speed_ok_def length_ok_def is_double_reach)
  qed
  show "reach a v d \<le> reach a w d" if "speed_ok v" "speed_ok w" "length_ok a d" "v \<le> w" for v w d
    using that speed_ok_nonneg [of v] by (intro reach_mono_speed) (simp_all add: length_ok_def)
  show "v \<le> reach a v d" if "speed_ok v" "length_ok a d" for v d
    using that by (intro reach_above) (simp_all add: length_ok_def)
qed

text \<open>The kernels compute the values of the passes.\<close>

lemma reverse_speed_value:
  assumes "0 \<le> a" "0 \<le> millimeters c"
  shows "reverse_speed a c n = Some (c\<lparr>entry_speed := reverse_value (reach a) (max_entry_speed c) (nominal_length_flag c)
            (millimeters c) (entry_speed c) (entry_speed n),
          recalculate_flag := recalculate_flag c \<or> entry_speed c \<noteq> max_entry_speed c\<rparr>)"
  using max_allowable_speed_reach [OF assms] by (cases c) (simp add: reverse_speed_def reverse_value_def)

lemma forward_speed_value:
  fixes c :: speeds
  assumes "0 \<le> a" "0 \<le> millimeters b"
  defines "v \<equiv> forward_value (reach a) (nominal_length_flag b) (millimeters b) (entry_speed b) (entry_speed c)"
  shows "forward_speed a b c = Some (c\<lparr>entry_speed := v, recalculate_flag := recalculate_flag c \<or> v \<noteq> entry_speed c\<rparr>)"
  by (cases c) (auto simp: forward_speed_def v_def forward_value_def max_allowable_speed_reach [OF assms(1,2)] Let_def)

section \<open>The ring of blocks\<close>

text \<open>The place of the \<open>k\<close>-th block of the queue, and its fields.\<close>

definition place :: "motion \<Rightarrow> nat \<Rightarrow> U8" where
  "place p k = (next_block_index ^^ k) (tail_of p)"

definition sp :: "motion \<Rightarrow> nat \<Rightarrow> speeds" where
  "sp p k = speeds_at p (place p k)"

definition blk :: "motion \<Rightarrow> nat \<Rightarrow> block_t" where
  "blk p k = block_at p (place p k)"

definition ring_ok :: "motion \<Rightarrow> nat \<Rightarrow> bool" where
  "ring_ok p n \<longleftrightarrow> tail_of p < BLOCK_BUFFER_SIZE \<and> n < 5 \<and> head_of p = place p n"

lemma index_cases:
  assumes "i < BLOCK_BUFFER_SIZE"
  shows "i = 0 \<or> i = 1 \<or> i = 2 \<or> i = 3 \<or> i = 4"
proof -
  have "unat i = 0 \<or> unat i = 1 \<or> unat i = 2 \<or> unat i = 3 \<or> unat i = 4"
    using assms by (auto simp: BLOCK_BUFFER_SIZE_def word_less_nat_alt)
  then have "(of_nat (unat i) :: U8) \<in> {0, 1, 2, 3, 4}" by (auto simp del: of_nat_unat)
  then show ?thesis by simp
qed

lemma next_block_index_unat: "i < BLOCK_BUFFER_SIZE \<Longrightarrow> unat (next_block_index i) = (unat i + 1) mod 5"
  by (drule index_cases) (auto simp: next_block_index_def BLOCK_BUFFER_SIZE_def Let_def)

lemma prev_next_block_index: "i < BLOCK_BUFFER_SIZE \<Longrightarrow> prev_block_index (next_block_index i) = i"
  by (drule index_cases) (auto simp: prev_block_index_def next_block_index_def BLOCK_BUFFER_SIZE_def Let_def)

lemma place_unat:
  assumes "ring_ok p n"
  shows "unat (place p k) = (unat (tail_of p) + k) mod 5"
proof (induction k)
  case 0
  then show ?case using assms by (simp add: place_def ring_ok_def BLOCK_BUFFER_SIZE_def word_less_nat_alt)
next
  case (Suc k)
  then have "place p k < BLOCK_BUFFER_SIZE" by (simp add: BLOCK_BUFFER_SIZE_def word_less_nat_alt)
  then show ?case using Suc by (simp add: place_def next_block_index_unat mod_Suc_eq)
qed

lemma place_inj:
  assumes "ring_ok p n" "j < 5" "k < 5"
  shows "unat (place p j) = unat (place p k) \<longleftrightarrow> j = k"
proof
  assume "unat (place p j) = unat (place p k)"
  then have "(unat (tail_of p) + j) mod 5 = (unat (tail_of p) + k) mod 5" by (simp add: place_unat [OF assms(1)])
  moreover have "unat (tail_of p) < 5" using assms(1) by (simp add: ring_ok_def BLOCK_BUFFER_SIZE_def word_less_nat_alt)
  moreover have "x mod 5 = (if x < 5 then x else x - 5)" if "x < 10" for x :: nat using that by (simp add: mod_if)
  ultimately show "j = k" using assms(2,3) by (auto split: if_splits)
qed simp

lemma prev_place:
  assumes "ring_ok p n"
  shows "prev_block_index (place p (Suc k)) = place p k"
  using place_unat [OF assms, of k] prev_next_block_index [of "place p k"]
  by (simp add: BLOCK_BUFFER_SIZE_def word_less_nat_alt place_def)

lemma place_zero [simp]: "place p 0 = tail_of p"
  by (simp add: place_def)

lemma next_place: "next_block_index (place p k) = place p (Suc k)"
  by (simp add: place_def)

lemma place_eq: "ring_ok p n \<Longrightarrow> j < 5 \<Longrightarrow> k < 5 \<Longrightarrow> place p j = place p k \<longleftrightarrow> j = k"
  using place_inj by metis

lemma set_speeds_simps [simp]:
  "place (set_speeds i b p) = place p" "ring_ok (set_speeds i b p) n = ring_ok p n" "blk (set_speeds i b p) = blk p"
  "acceleration (set_speeds i b p) = acceleration p" "stp (set_speeds i b p) = stp p"
  by (simp_all add: set_speeds_def place_def fun_eq_iff ring_ok_def blk_def)

lemma set_block_simps [simp]:
  "place (set_block i c p) = place p" "ring_ok (set_block i c p) n = ring_ok p n" "sp (set_block i c p) = sp p"
  "acceleration (set_block i c p) = acceleration p"
  by (simp_all add: set_block_def place_def fun_eq_iff ring_ok_def sp_def)

lemma sp_set_speeds: "ring_ok p n \<Longrightarrow> j < 5 \<Longrightarrow> k < 5 \<Longrightarrow> sp (set_speeds (place p j) b p) k = (if k = j then b else sp p k)"
  unfolding sp_def set_speeds_simps(1) by (simp add: set_speeds_def place_inj)

lemma blk_set_block: "ring_ok p n \<Longrightarrow> j < 5 \<Longrightarrow> k < 5 \<Longrightarrow> blk (set_block (place p j) b p) k = (if k = j then b else blk p k)"
  unfolding blk_def set_block_simps(1) by (simp add: set_block_def place_inj)

section \<open>The passes\<close>

text \<open>A junction after the pass backwards and after the pass forwards.\<close>

definition reversed :: "rat \<Rightarrow> speeds \<Rightarrow> speeds \<Rightarrow> speeds" where
  "reversed a c n =
     c\<lparr>entry_speed := reverse_value (reach a) (max_entry_speed c) (nominal_length_flag c) (millimeters c)
         (entry_speed c) (entry_speed n),
       recalculate_flag := recalculate_flag c \<or> entry_speed c \<noteq> max_entry_speed c\<rparr>"

definition forwarded :: "rat \<Rightarrow> speeds \<Rightarrow> speeds \<Rightarrow> speeds" where
  "forwarded a b c =
     (let v = forward_value (reach a) (nominal_length_flag b) (millimeters b) (entry_speed b) (entry_speed c)
      in c\<lparr>entry_speed := v, recalculate_flag := recalculate_flag c \<or> v \<noteq> entry_speed c\<rparr>)"

definition place_of :: "motion \<Rightarrow> nat \<Rightarrow> nat \<Rightarrow> U8 option" where
  "place_of p n k = (if k < n then Some (place p k) else None)"

lemma place_of_set_speeds [simp]: "place_of (set_speeds i b p) = place_of p"
  by (simp add: place_of_def fun_eq_iff)

lemma speeds_frame:
  assumes "(p' :: motion) = p\<lparr>block_speeds := s\<rparr>"
  shows "place p' = place p" "ring_ok p' n = ring_ok p n" "blk p' = blk p" "acceleration p' = acceleration p"
  using assms by (simp_all add: place_def fun_eq_iff ring_ok_def blk_def)

lemma frame_trans:
  assumes "(p' :: motion) = p1\<lparr>block_speeds := block_speeds p'\<rparr>" "p1 = p\<lparr>block_speeds := block_speeds p1\<rparr>"
  shows "p' = p\<lparr>block_speeds := block_speeds p'\<rparr>"
proof -
  have "p1\<lparr>block_speeds := z\<rparr> = p\<lparr>block_speeds := z\<rparr>" for z by (subst assms(2)) simp
  with assms(1) show ?thesis by simp
qed

lemma reverse_loop_spec:
  assumes "ring_ok p n" "0 \<le> acceleration p" "\<forall>j<n. 0 \<le> millimeters (sp p j)" "k \<le> n" "k \<le> fuel"
  shows "\<exists>p'. reverse_loop fuel (place p k) (place_of p n k) (place_of p n (Suc k)) p = Some p'
    \<and> p' = p\<lparr>block_speeds := block_speeds p'\<rparr>
    \<and> (\<forall>j<n. j = 0 \<or> k < j \<or> Suc j = n \<longrightarrow> sp p' j = sp p j)
    \<and> (\<forall>j. 0 < j \<and> j \<le> k \<and> Suc j < n \<longrightarrow> sp p' j = reversed (acceleration p) (sp p j) (sp p' (Suc j)))"
  using assms
proof (induction k arbitrary: p fuel)
  case 0
  then show ?case by (subst reverse_loop.simps) simp
next
  case (Suc k)
  have n: "n < 5" using Suc.prems(1) by (simp add: ring_ok_def)
  obtain f where f: "fuel = Suc f" "k \<le> f" using Suc.prems(5) by (cases fuel) simp_all
  have ne: "place p (Suc k) \<noteq> tail_of p" using place_eq [OF Suc.prems(1), of "Suc k" 0] n Suc.prems(4) by simp
  define b where "b = reversed (acceleration p) (sp p (Suc k)) (sp p (Suc (Suc k)))"
  define p1 where "p1 = (if Suc (Suc k) < n then set_speeds (place p (Suc k)) b p else p)"
  have kernel: "planner_reverse_pass_kernel (place_of p n (Suc k)) (place_of p n (Suc (Suc k))) p = Some p1"
    using reverse_speed_value [OF Suc.prems(2), of "sp p (Suc k)"] Suc.prems(3)
    by (simp add: planner_reverse_pass_kernel_def place_of_def p1_def b_def reversed_def flip: sp_def)
  have s1: "sp p1 j = (if j = Suc k \<and> Suc (Suc k) < n then b else sp p j)" if "j < 5" for j
    using sp_set_speeds [OF Suc.prems(1) _ that, of "Suc k" b] n by (auto simp: p1_def)
  have p1: "place p1 = place p" "ring_ok p1 n" "acceleration p1 = acceleration p" "place_of p1 = place_of p" "p1 = p\<lparr>block_speeds := block_speeds p1\<rparr>"
    using Suc.prems(1) by (simp_all add: p1_def) (simp add: set_speeds_def)
  have m: "\<forall>j<n. 0 \<le> millimeters (sp p1 j)" using Suc.prems(3) n by (simp add: s1 b_def reversed_def)
  have "k < n" using Suc.prems(4) by simp
  then have "place_of p n k = Some (place p k)" by (simp add: place_of_def)
  then have step: "reverse_loop fuel (place p (Suc k)) (place_of p n (Suc k)) (place_of p n (Suc (Suc k))) p
      = reverse_loop f (place p1 k) (place_of p1 n k) (place_of p1 n (Suc k)) p1"
    by (subst reverse_loop.simps) (simp add: ne f kernel prev_place [OF Suc.prems(1)] p1(1,4) Let_def)
  obtain p' where p': "reverse_loop f (place p1 k) (place_of p1 n k) (place_of p1 n (Suc k)) p1 = Some p'"
      "p' = p1\<lparr>block_speeds := block_speeds p'\<rparr>"
      "\<forall>j<n. j = 0 \<or> k < j \<or> Suc j = n \<longrightarrow> sp p' j = sp p1 j"
      "\<forall>j. 0 < j \<and> j \<le> k \<and> Suc j < n \<longrightarrow> sp p' j = reversed (acceleration p1) (sp p1 j) (sp p' (Suc j))"
    using Suc.IH [OF p1(2) _ m _ f(2)] Suc.prems(2,4) p1(3) by auto
  have "p' = p\<lparr>block_speeds := block_speeds p'\<rparr>" using frame_trans [OF p'(2) p1(5)] .
  moreover have "\<forall>j<n. j = 0 \<or> Suc k < j \<or> Suc j = n \<longrightarrow> sp p' j = sp p j" using p'(3) s1 n by auto
  moreover have "\<forall>j. 0 < j \<and> j \<le> Suc k \<and> Suc j < n \<longrightarrow> sp p' j = reversed (acceleration p) (sp p j) (sp p' (Suc j))"
  proof (intro allI impI)
    fix j assume j: "0 < j \<and> j \<le> Suc k \<and> Suc j < n"
    then show "sp p' j = reversed (acceleration p) (sp p j) (sp p' (Suc j))"
      using p'(3,4) s1 n p1(3) by (cases "j = Suc k") (simp_all add: b_def)
  qed
  ultimately show ?case using step p'(1) by auto
qed

lemma planner_reverse_pass_spec:
  assumes "ring_ok p n" "0 \<le> acceleration p" "\<forall>j<n. 0 \<le> millimeters (sp p j)"
  obtains p' where "planner_reverse_pass p = Some p'" "p' = p\<lparr>block_speeds := block_speeds p'\<rparr>"
    "\<forall>j<n. j = 0 \<or> Suc j = n \<longrightarrow> sp p' j = sp p j"
    "\<forall>j. 0 < j \<and> Suc j < n \<longrightarrow> sp p' j = reversed (acceleration p) (sp p j) (sp p' (Suc j))"
proof -
  have "head_of p = place p n" "place_of p n n = None" "place_of p n (Suc n) = None" "n \<le> unat BLOCK_BUFFER_SIZE"
    using assms(1) by (simp_all add: ring_ok_def place_of_def BLOCK_BUFFER_SIZE_def)
  then show ?thesis using reverse_loop_spec [OF assms, of n "unat BLOCK_BUFFER_SIZE"] that
    unfolding planner_reverse_pass_def by auto
qed

definition place_before :: "motion \<Rightarrow> nat \<Rightarrow> nat \<Rightarrow> U8 option" where
  "place_before p d k = (if d \<le> k then Some (place p (k - d)) else None)"

lemma place_before_set_speeds [simp]: "place_before (set_speeds i b p) = place_before p"
  by (simp add: place_before_def fun_eq_iff)

lemma forward_kernel_spec:
  assumes "ring_ok p n" "0 \<le> acceleration p" "\<forall>j<n. 0 \<le> millimeters (sp p j)" "k \<le> n"
  defines "p1 \<equiv> (if 2 \<le> k then set_speeds (place p (k - 1)) (forwarded (acceleration p) (sp p (k - 2)) (sp p (k - 1))) p else p)"
  shows "planner_forward_pass_kernel (place_before p 2 k) (place_before p 1 k) p = Some p1"
    "j < 5 \<Longrightarrow> sp p1 j = (if 2 \<le> k \<and> j = k - 1 then forwarded (acceleration p) (sp p (k - 2)) (sp p (k - 1)) else sp p j)"
    "place p1 = place p" "ring_ok p1 n" "acceleration p1 = acceleration p" "place_before p1 = place_before p"
    "p1 = p\<lparr>block_speeds := block_speeds p1\<rparr>" "\<forall>j<n. 0 \<le> millimeters (sp p1 j)" "stp p1 = stp p"
proof -
  have n: "n < 5" using assms(1) by (simp add: ring_ok_def)
  show "planner_forward_pass_kernel (place_before p 2 k) (place_before p 1 k) p = Some p1"
    using forward_speed_value [OF assms(2), of "sp p (k - 2)" "sp p (k - 1)"] assms(3,4)
    by (auto simp: planner_forward_pass_kernel_def place_before_def p1_def forwarded_def Let_def simp flip: sp_def)
  show s: "sp p1 j = (if 2 \<le> k \<and> j = k - 1 then forwarded (acceleration p) (sp p (k - 2)) (sp p (k - 1)) else sp p j)" if "j < 5" for j
    using sp_set_speeds [OF assms(1) _ that, of "k - 1"] n assms(4) by (auto simp: p1_def)
  show "place p1 = place p" "ring_ok p1 n" "acceleration p1 = acceleration p" "place_before p1 = place_before p" "stp p1 = stp p"
    using assms(1) by (simp_all add: p1_def)
  show "p1 = p\<lparr>block_speeds := block_speeds p1\<rparr>" by (simp add: p1_def set_speeds_def)
  show "\<forall>j<n. 0 \<le> millimeters (sp p1 j)" using assms(3) n by (auto simp: s forwarded_def Let_def)
qed

lemma forward_loop_spec:
  assumes "ring_ok p n" "0 \<le> acceleration p" "\<forall>j<n. 0 \<le> millimeters (sp p j)" "k \<le> n" "n - k \<le> fuel"
  shows "\<exists>p'. forward_loop fuel (place p k) (place_before p 2 k) (place_before p 1 k) p = Some p'
    \<and> p' = p\<lparr>block_speeds := block_speeds p'\<rparr>
    \<and> (\<forall>j<n. j = 0 \<or> Suc j < k \<longrightarrow> sp p' j = sp p j)
    \<and> (\<forall>j. Suc j < n \<and> k \<le> Suc (Suc j) \<longrightarrow> sp p' (Suc j) = forwarded (acceleration p) (sp p' j) (sp p (Suc j)))"
  using assms
proof (induction "n - k" arbitrary: k p fuel)
  case 0
  then have "place p k = head_of p" "k = n" by (simp_all add: ring_ok_def)
  obtain p1 where p1: "planner_forward_pass_kernel (place_before p 2 k) (place_before p 1 k) p = Some p1"
    "\<And>j. j < 5 \<Longrightarrow> sp p1 j = (if 2 \<le> k \<and> j = k - 1 then forwarded (acceleration p) (sp p (k - 2)) (sp p (k - 1)) else sp p j)"
    "place p1 = place p" "ring_ok p1 n" "acceleration p1 = acceleration p" "place_before p1 = place_before p"
    "p1 = p\<lparr>block_speeds := block_speeds p1\<rparr>" "\<forall>j<n. 0 \<le> millimeters (sp p1 j)" "stp p1 = stp p"
    using forward_kernel_spec [OF 0(2-5)] by blast
  have n: "n < 5" using 0(2) by (simp add: ring_ok_def)
  have "forward_loop fuel (place p k) (place_before p 2 k) (place_before p 1 k) p = Some p1"
    using p1(1) by (subst forward_loop.simps) (simp add: \<open>place p k = head_of p\<close>)
  moreover have "sp p1 (Suc j) = forwarded (acceleration p) (sp p1 j) (sp p (Suc j))" if "Suc j < n" "k \<le> Suc (Suc j)" for j
  proof -
    have "k = Suc (Suc j)" using that \<open>k = n\<close> by simp
    then show ?thesis using p1(2) [of j] p1(2) [of "Suc j"] that n by simp
  qed
  ultimately show ?case using p1(2,7) \<open>k = n\<close> n by auto
next
  case (Suc m)
  have n: "n < 5" using Suc.prems(1) by (simp add: ring_ok_def)
  have k: "k < n" using Suc.hyps(2) by simp
  obtain f where f: "fuel = Suc f" "n - Suc k \<le> f" using Suc.prems(5) Suc.hyps(2) by (cases fuel) simp_all
  have ne: "place p k \<noteq> head_of p" using place_eq [OF Suc.prems(1), of k n] n k Suc.prems(1) by (simp add: ring_ok_def)
  obtain p1 where p1: "planner_forward_pass_kernel (place_before p 2 k) (place_before p 1 k) p = Some p1"
    "\<And>j. j < 5 \<Longrightarrow> sp p1 j = (if 2 \<le> k \<and> j = k - 1 then forwarded (acceleration p) (sp p (k - 2)) (sp p (k - 1)) else sp p j)"
    "place p1 = place p" "ring_ok p1 n" "acceleration p1 = acceleration p" "place_before p1 = place_before p"
    "p1 = p\<lparr>block_speeds := block_speeds p1\<rparr>" "\<forall>j<n. 0 \<le> millimeters (sp p1 j)" "stp p1 = stp p"
    using forward_kernel_spec [OF Suc.prems(1-4)] by blast
  have pb: "place_before p 1 (Suc k) = Some (place p k)" "place_before p 2 (Suc k) = place_before p 1 k"
    by (simp_all add: place_before_def)
  have step: "forward_loop fuel (place p k) (place_before p 2 k) (place_before p 1 k) p
      = forward_loop f (place p1 (Suc k)) (place_before p1 2 (Suc k)) (place_before p1 1 (Suc k)) p1"
    using p1(1) pb by (subst forward_loop.simps) (simp add: ne f next_place p1(3,6))
  have m: "m = n - Suc k" and a: "0 \<le> acceleration p1" using Suc.hyps(2) Suc.prems(2) p1(5) by simp_all
  obtain p' where p': "forward_loop f (place p1 (Suc k)) (place_before p1 2 (Suc k)) (place_before p1 1 (Suc k)) p1 = Some p'"
      "p' = p1\<lparr>block_speeds := block_speeds p'\<rparr>" "\<forall>j<n. j = 0 \<or> Suc j < Suc k \<longrightarrow> sp p' j = sp p1 j"
      "\<forall>j. Suc j < n \<and> Suc k \<le> Suc (Suc j) \<longrightarrow> sp p' (Suc j) = forwarded (acceleration p1) (sp p' j) (sp p1 (Suc j))"
    using Suc.hyps(1) [OF m p1(4) a p1(8) Suc_leI [OF k] f(2)] by blast
  have "\<forall>j<n. j = 0 \<or> Suc j < k \<longrightarrow> sp p' j = sp p j" using p'(3) p1(2) n by auto
  moreover have "sp p' (Suc j) = forwarded (acceleration p) (sp p' j) (sp p (Suc j))" if "Suc j < n" "k \<le> Suc (Suc j)" for j
  proof (cases "k = Suc (Suc j)")
    case True
    then show ?thesis using p'(3) p1(2) that n by simp
  next
    case False
    then have "\<not> (2 \<le> k \<and> Suc j = k - 1)" by linarith
    then have "sp p1 (Suc j) = sp p (Suc j)" using p1(2) [of "Suc j"] that n by (simp only: if_False)
    then show ?thesis using p'(4) p1(5) that False by simp
  qed
  ultimately show ?case using step p'(1) frame_trans [OF p'(2) p1(7)] by auto
qed

lemma planner_forward_pass_spec:
  assumes "ring_ok p n" "0 \<le> acceleration p" "\<forall>j<n. 0 \<le> millimeters (sp p j)"
  obtains p' where "planner_forward_pass p = Some p'" "p' = p\<lparr>block_speeds := block_speeds p'\<rparr>"
    "0 < n \<longrightarrow> sp p' 0 = sp p 0" "\<forall>j. Suc j < n \<longrightarrow> sp p' (Suc j) = forwarded (acceleration p) (sp p' j) (sp p (Suc j))"
proof -
  have "place_before p 2 0 = None" "place_before p 1 0 = None" "n - 0 \<le> unat BLOCK_BUFFER_SIZE"
    using assms(1) by (simp_all add: ring_ok_def place_before_def BLOCK_BUFFER_SIZE_def)
  then show ?thesis using forward_loop_spec [OF assms, of 0 "unat BLOCK_BUFFER_SIZE"] that
    unfolding planner_forward_pass_def by auto
qed

definition feedrates_ok :: "'a planner_scheme \<Rightarrow> bool" where
  "feedrates_ok p \<longleftrightarrow> 0 \<le> maximum_feedrate_x p \<and> 0 \<le> maximum_feedrate_y p \<and> 0 \<le> maximum_feedrate_z p \<and> 0 \<le> maximum_feedrate_e p"

text \<open>The trapezoid of a block follows from its speeds and the speed at its end.\<close>

definition profiled :: "speeds \<Rightarrow> rat \<Rightarrow> block_t \<Rightarrow> block_t \<Rightarrow> bool" where
  "profiled s exit c c' \<longleftrightarrow>
     (\<exists>ef xf. fdiv (entry_speed s) (nominal_speed s) = Some ef \<and> fdiv exit (nominal_speed s) = Some xf
       \<and> calculate_trapezoid_for_block ef xf c = Some c')"

definition only_blocks :: "motion \<Rightarrow> motion \<Rightarrow> bool" where
  "only_blocks p p' \<longleftrightarrow>
     p' = p\<lparr>block_speeds := block_speeds p', stp := (stp p)\<lparr>block_buffer := block_buffer (stp p')\<rparr>\<rparr>"

lemma only_blocks_refl: "only_blocks p p"
  by (simp add: only_blocks_def)

lemma only_blocks_frame:
  assumes "only_blocks p p'"
  shows "place p' = place p" "ring_ok p' n = ring_ok p n" "acceleration p' = acceleration p" "place_before p' = place_before p"
    "head_of p' = head_of p" "tail_of p' = tail_of p"
proof -
  obtain s b where p': "p' = p\<lparr>block_speeds := s, stp := (stp p)\<lparr>block_buffer := b\<rparr>\<rparr>" using assms unfolding only_blocks_def by blast
  show "place p' = place p" "ring_ok p' n = ring_ok p n" "acceleration p' = acceleration p" "place_before p' = place_before p"
    "head_of p' = head_of p" "tail_of p' = tail_of p"
    by (simp_all add: p' place_def fun_eq_iff ring_ok_def place_before_def)
qed

lemma only_blocks_planner:
  assumes "only_blocks p p'"
  shows "acceleration p' = acceleration p" "feedrates_ok p' = feedrates_ok p" "acceleration_manager_enabled p' = acceleration_manager_enabled p"
    "previous_nominal_speed p' = previous_nominal_speed p"
proof -
  obtain s b where p': "p' = p\<lparr>block_speeds := s, stp := (stp p)\<lparr>block_buffer := b\<rparr>\<rparr>" using assms unfolding only_blocks_def by blast
  show "acceleration p' = acceleration p" "feedrates_ok p' = feedrates_ok p" "acceleration_manager_enabled p' = acceleration_manager_enabled p"
    "previous_nominal_speed p' = previous_nominal_speed p"
    by (simp_all add: p' feedrates_ok_def)
qed

lemma only_blocks_trans:
  assumes "only_blocks p p1" "only_blocks p1 p'"
  shows "only_blocks p p'"
proof -
  obtain s b where p1: "p1 = p\<lparr>block_speeds := s, stp := (stp p)\<lparr>block_buffer := b\<rparr>\<rparr>" using assms(1) unfolding only_blocks_def by blast
  obtain s' b' where p': "p' = p1\<lparr>block_speeds := s', stp := (stp p1)\<lparr>block_buffer := b'\<rparr>\<rparr>" using assms(2) unfolding only_blocks_def by blast
  show ?thesis by (simp add: only_blocks_def p' p1)
qed

lemma only_blocks_speeds: "p' = p\<lparr>block_speeds := s\<rparr> \<Longrightarrow> only_blocks p p'"
  by (simp add: only_blocks_def)

lemma recalculate_block_spec:
  assumes "ring_ok p n" "j < 5" "recalculate_block (place p j) x p = Some p'"
  shows "profiled (sp p j) x (blk p j) (blk p' j)" "sp p' j = (sp p j)\<lparr>recalculate_flag := False\<rparr>" "only_blocks p p'"
    "i < 5 \<Longrightarrow> i \<noteq> j \<Longrightarrow> sp p' i = sp p i \<and> blk p' i = blk p i"
proof -
  obtain ef xf b where r: "fdiv (entry_speed (sp p j)) (nominal_speed (sp p j)) = Some ef" "fdiv x (nominal_speed (sp p j)) = Some xf"
      "calculate_trapezoid_for_block ef xf (blk p j) = Some b"
      "p' = set_speeds (place p j) ((sp p j)\<lparr>recalculate_flag := False\<rparr>) (set_block (place p j) b p)"
    using assms(3) by (auto simp: recalculate_block_def Option.bind_eq_Some_conv sp_def blk_def)
  have s: "sp p' i = (if i = j then (sp p j)\<lparr>recalculate_flag := False\<rparr> else sp p i)" if "i < 5" for i
    using sp_set_speeds [of "set_block (place p j) b p" n j i] assms(1,2) that by (simp add: r(4))
  have b: "blk p' i = (if i = j then b else blk p i)" if "i < 5" for i
    using blk_set_block [OF assms(1,2) that] by (simp add: r(4))
  show "profiled (sp p j) x (blk p j) (blk p' j)" using r b [OF assms(2)] by (auto simp: profiled_def)
  show "sp p' j = (sp p j)\<lparr>recalculate_flag := False\<rparr>" using s [OF assms(2)] by simp
  show "i < 5 \<Longrightarrow> i \<noteq> j \<Longrightarrow> sp p' i = sp p i \<and> blk p' i = blk p i" using s b by simp
  show "only_blocks p p'" by (simp add: only_blocks_def r(4) set_speeds_def set_block_def)
qed

text \<open>What the last pass does to the \<open>j\<close>-th block.\<close>

definition retimed :: "motion \<Rightarrow> motion \<Rightarrow> nat \<Rightarrow> nat \<Rightarrow> bool" where
  "retimed p p' n j \<longleftrightarrow>
     sp p' j = (sp p j)\<lparr>recalculate_flag := False\<rparr>
     \<and> (if Suc j = n then profiled (sp p j) 0 (blk p j) (blk p' j)
        else if recalculate_flag (sp p j) \<or> recalculate_flag (sp p (Suc j))
        then profiled (sp p j) (entry_speed (sp p (Suc j))) (blk p j) (blk p' j)
        else blk p' j = blk p j)"

lemma recalculate_junction_spec:
  assumes "ring_ok p n" "k < n" "recalculate_junction (place_before p 1 k) (place p k) p = Some p'"
  shows "only_blocks p p'" "i < 5 \<Longrightarrow> Suc i \<noteq> k \<Longrightarrow> sp p' i = sp p i \<and> blk p' i = blk p i"
    "k = Suc j \<Longrightarrow> retimed p p' n j"
proof -
  have n: "n < 5" using assms(1) by (simp add: ring_ok_def)
  have *: "only_blocks p p' \<and> (\<forall>i<5. Suc i \<noteq> k \<longrightarrow> sp p' i = sp p i \<and> blk p' i = blk p i) \<and> (\<forall>j. k = Suc j \<longrightarrow> retimed p p' n j)"
  proof (cases k)
    case 0
    then show ?thesis using assms(3) by (auto simp: recalculate_junction_def place_before_def only_blocks_refl)
  next
    case (Suc j)
    have pb: "place_before p 1 k = Some (place p j)" by (simp add: place_before_def Suc)
    show ?thesis
    proof (cases "recalculate_flag (sp p j) \<or> recalculate_flag (sp p k)")
      case True
      then have r: "recalculate_block (place p j) (entry_speed (sp p k)) p = Some p'"
        using assms(3) [unfolded recalculate_junction_def pb] by (simp add: sp_def)
      note rb = recalculate_block_spec [OF assms(1) _ r]
      show ?thesis using rb Suc True assms(2) n by (auto simp: retimed_def)
    next
      case False
      then have "p' = p" using assms(3) [unfolded recalculate_junction_def pb] by (simp add: sp_def)
      moreover have "(sp p j)\<lparr>recalculate_flag := False\<rparr> = sp p j" using False by (cases "sp p j") simp
      ultimately show ?thesis using Suc False assms(2) by (auto simp: retimed_def only_blocks_refl)
    qed
  qed
  then show "only_blocks p p'" "i < 5 \<Longrightarrow> Suc i \<noteq> k \<Longrightarrow> sp p' i = sp p i \<and> blk p' i = blk p i"
    "k = Suc j \<Longrightarrow> retimed p p' n j" by blast+
qed

lemma trapezoids_loop_spec:
  assumes "ring_ok p n" "k \<le> n" "0 < n" "trapezoids_loop fuel (place p k) (place_before p 1 k) p = Some p'"
  shows "only_blocks p p' \<and> (\<forall>j. Suc j < k \<longrightarrow> sp p' j = sp p j \<and> blk p' j = blk p j)
    \<and> (\<forall>j<n. k \<le> Suc j \<longrightarrow> retimed p p' n j)"
  using assms
proof (induction "n - k" arbitrary: k p fuel)
  case 0
  have n: "n < 5" using 0(2) by (simp add: ring_ok_def)
  have k: "k = n" "place p k = head_of p" using 0 by (simp_all add: ring_ok_def)
  then obtain j where j: "k = Suc j" using 0(4) by (metis gr0_implies_Suc)
  then have r: "recalculate_block (place p j) 0 p = Some p'"
    using 0(5) k by (subst (asm) trapezoids_loop.simps) (simp add: place_before_def MINIMUM_PLANNER_SPEED_def)
  show ?case using recalculate_block_spec [OF 0(2) _ r] j k n by (auto simp: retimed_def less_Suc_eq)
next
  case (Suc m)
  have n: "n < 5" using Suc.prems(1) by (simp add: ring_ok_def)
  have k: "k < n" using Suc.hyps(2) by simp
  have ne: "place p k \<noteq> head_of p" using place_eq [OF Suc.prems(1), of k n] n k Suc.prems(1) by (simp add: ring_ok_def)
  then obtain f p1 where f: "fuel = Suc f" and p1: "recalculate_junction (place_before p 1 k) (place p k) p = Some p1"
    and r: "trapezoids_loop f (place p (Suc k)) (Some (place p k)) p1 = Some p'"
    using Suc.prems(4) by (subst (asm) (1) trapezoids_loop.simps) (auto simp: Option.bind_eq_Some_conv next_place split: nat.splits)
  note j = recalculate_junction_spec [OF Suc.prems(1) k p1]
  note fr = only_blocks_frame [OF j(1)]
  have "place_before p1 1 (Suc k) = Some (place p k)" by (simp add: place_before_def fr(1))
  then have IH: "only_blocks p1 p' \<and> (\<forall>j. Suc j < Suc k \<longrightarrow> sp p' j = sp p1 j \<and> blk p' j = blk p1 j)
      \<and> (\<forall>j<n. Suc k \<le> Suc j \<longrightarrow> retimed p1 p' n j)"
    using Suc.hyps(1) [of "Suc k" p1 f] Suc.hyps(2) Suc.prems(1,3) r fr(1,2) k by simp
  have "retimed p p' n j" if "j < n" "k \<le> Suc j" for j
  proof (cases "k = Suc j")
    case True
    then show ?thesis using j(3) IH that by (auto simp: retimed_def)
  next
    case False
    then show ?thesis using IH j(2) [of j] j(2) [of "Suc j"] that n by (auto simp: retimed_def)
  qed
  then show ?case using IH only_blocks_trans [OF j(1)] j(2) n k by auto
qed

lemma planner_recalculate_trapezoids_spec:
  assumes "ring_ok p n" "0 < n" "planner_recalculate_trapezoids p = Some p'"
  shows "only_blocks p p'" "j < n \<Longrightarrow> retimed p p' n j"
  using trapezoids_loop_spec [OF assms(1) _ assms(2), of 0 "unat BLOCK_BUFFER_SIZE" p'] assms(3)
  by (simp_all add: planner_recalculate_trapezoids_def place_before_def)

section \<open>Recalculating the plan\<close>

definition speeds_valid :: "motion \<Rightarrow> nat \<Rightarrow> bool" where
  "speeds_valid p n \<longleftrightarrow>
     valid_plan speed_ok (reach (acceleration p)) (length_ok (acceleration p)) (\<lambda>k. entry_speed (sp p k)) (\<lambda>k. max_entry_speed (sp p k))
       (\<lambda>k. nominal_speed (sp p k)) (\<lambda>k. millimeters (sp p k)) (\<lambda>k. nominal_length_flag (sp p k)) n"

definition exit_speed :: "motion \<Rightarrow> nat \<Rightarrow> nat \<Rightarrow> rat" where
  "exit_speed p n k = (if Suc k = n then 0 else entry_speed (sp p (Suc k)))"

definition timed :: "motion \<Rightarrow> nat \<Rightarrow> nat \<Rightarrow> bool" where
  "timed p n k \<longleftrightarrow> profiled (sp p k) (exit_speed p n k) (blk p k) (blk p k)"

lemma profiled_cong:
  "entry_speed s = entry_speed s' \<Longrightarrow> nominal_speed s = nominal_speed s' \<Longrightarrow> profiled s x c c' = profiled s' x c c'"
  by (simp add: profiled_def)

lemma profiled_idem: "profiled s x c c' \<Longrightarrow> profiled s x c' c'"
  by (auto simp: profiled_def calculate_trapezoid_for_block_def Option.bind_eq_Some_conv)

lemma profiled_keeps: "profiled s x c c' \<Longrightarrow> rate_delta c' = rate_delta c \<and> step_event_count c' = step_event_count c
    \<and> nominal_rate c' = nominal_rate c"
  by (auto simp: profiled_def calculate_trapezoid_for_block_def Option.bind_eq_Some_conv)

text \<open>What the passes keep of a block.\<close>

definition same_limits :: "speeds \<Rightarrow> speeds \<Rightarrow> bool" where
  "same_limits s s' \<longleftrightarrow> max_entry_speed s' = max_entry_speed s \<and> nominal_speed s' = nominal_speed s
     \<and> millimeters s' = millimeters s \<and> nominal_length_flag s' = nominal_length_flag s"

lemma passes_spec:
  assumes "ring_ok p n" "0 \<le> acceleration p" "\<forall>j<n. 0 \<le> millimeters (sp p j)" "planner_recalculate p = Some p'"
  obtains p1 p2 where
    "\<forall>j<n. j = 0 \<or> Suc j = n \<longrightarrow> sp p1 j = sp p j"
    "\<forall>j. 0 < j \<and> Suc j < n \<longrightarrow> sp p1 j = reversed (acceleration p) (sp p j) (sp p1 (Suc j))"
    "0 < n \<longrightarrow> sp p2 0 = sp p1 0"
    "\<forall>j. Suc j < n \<longrightarrow> sp p2 (Suc j) = forwarded (acceleration p) (sp p2 j) (sp p1 (Suc j))"
    "ring_ok p2 n" "only_blocks p p2" "blk p2 = blk p" "planner_recalculate_trapezoids p2 = Some p'"
    "\<forall>j<n. same_limits (sp p j) (sp p1 j) \<and> same_limits (sp p j) (sp p2 j)"
proof -
  obtain p1 where p1: "planner_reverse_pass p = Some p1" "p1 = p\<lparr>block_speeds := block_speeds p1\<rparr>"
    "\<forall>j<n. j = 0 \<or> Suc j = n \<longrightarrow> sp p1 j = sp p j"
    "\<forall>j. 0 < j \<and> Suc j < n \<longrightarrow> sp p1 j = reversed (acceleration p) (sp p j) (sp p1 (Suc j))"
    using planner_reverse_pass_spec [OF assms(1-3)] by blast
  note f1 = speeds_frame [OF p1(2)]
  have l1: "same_limits (sp p j) (sp p1 j)" if "j < n" for j
    using p1(3,4) that by (cases "j = 0 \<or> Suc j = n") (auto simp: same_limits_def reversed_def)
  then have m1: "\<forall>j<n. 0 \<le> millimeters (sp p1 j)" using assms(3) by (simp add: same_limits_def)
  have r1: "ring_ok p1 n" "0 \<le> acceleration p1" using assms(1,2) f1 by simp_all
  obtain p2 where p2: "planner_forward_pass p1 = Some p2" "p2 = p1\<lparr>block_speeds := block_speeds p2\<rparr>"
    "0 < n \<longrightarrow> sp p2 0 = sp p1 0" "\<forall>j. Suc j < n \<longrightarrow> sp p2 (Suc j) = forwarded (acceleration p1) (sp p2 j) (sp p1 (Suc j))"
    using planner_forward_pass_spec [OF r1 m1] by blast
  note f2 = speeds_frame [OF p2(2)]
  have "same_limits (sp p j) (sp p2 j)" if "j < n" for j
    using l1 [OF that] p2(3,4) that by (cases j) (auto simp: same_limits_def forwarded_def Let_def)
  moreover have "only_blocks p p2" using frame_trans [OF p2(2) p1(2)] by (rule only_blocks_speeds)
  moreover have "planner_recalculate_trapezoids p2 = Some p'" using assms(4) p1(1) p2(1) by (simp add: planner_recalculate_def)
  ultimately show ?thesis using that [of p1 p2] p1(3,4) p2(3,4) l1 f1 f2 r1 by simp
qed

lemma recalculate_limits:
  assumes "ring_ok p n" "0 \<le> acceleration p" "\<forall>j<n. 0 \<le> millimeters (sp p j)" "planner_recalculate p = Some p'" "j < n"
  shows "same_limits (sp p j) (sp p' j)" "only_blocks p p'"
proof -
  obtain p2 where p2: "ring_ok p2 n" "only_blocks p p2" "planner_recalculate_trapezoids p2 = Some p'" "same_limits (sp p j) (sp p2 j)"
    using passes_spec [OF assms(1-4)] assms(5) by metis
  have n: "0 < n" using assms(5) by simp
  note ts = planner_recalculate_trapezoids_spec [OF p2(1) n p2(3)]
  show "only_blocks p p'" using only_blocks_trans [OF p2(2) ts(1)] .
  show "same_limits (sp p j) (sp p' j)" using ts(2) [OF assms(5)] p2(4) by (simp add: retimed_def same_limits_def)
qed

text \<open>
  A valid plan with a new block at its end is recalculated to a valid plan, in which every trapezoid
  follows from the new speeds: the flags single out at least the blocks whose speeds have changed.
\<close>

lemma planner_recalculate_ok:
  assumes ring: "ring_ok p (Suc n)" and acc: "0 \<le> acceleration p" and old: "speeds_valid p n"
    and new: "valid_block speed_ok (reach (acceleration p)) (length_ok (acceleration p)) (entry_speed (sp p n)) (max_entry_speed (sp p n))
        (nominal_speed (sp p n)) (millimeters (sp p n)) (nominal_length_flag (sp p n))"
      "0 < n \<longrightarrow> max_entry_speed (sp p n) \<le> nominal_speed (sp p (n - 1))"
      "entry_speed (sp p n) \<le> reach (acceleration p) 0 (millimeters (sp p n))" "recalculate_flag (sp p n)"
    and time: "\<forall>k<n. timed p n k"
    and run: "planner_recalculate p = Some p'"
  shows "speeds_valid p' (Suc n)" "k < Suc n \<Longrightarrow> timed p' (Suc n) k \<and> \<not> recalculate_flag (sp p' k) \<and> same_limits (sp p k) (sp p' k)
      \<and> rate_delta (blk p' k) = rate_delta (blk p k) \<and> step_event_count (blk p' k) = step_event_count (blk p k)"
    "only_blocks p p'"
proof -
  define a where "a = acceleration p"
  have mm: "\<forall>j<Suc n. 0 \<le> millimeters (sp p j)"
    using old new(1) by (auto simp: speeds_valid_def valid_plan_def valid_block_def length_ok_def less_Suc_eq)
  obtain p1 p2 where
    r: "\<forall>j<Suc n. j = 0 \<or> j = n \<longrightarrow> sp p1 j = sp p j"
       "\<forall>j. 0 < j \<and> j < n \<longrightarrow> sp p1 j = reversed a (sp p j) (sp p1 (Suc j))"
    and f: "sp p2 0 = sp p1 0" "\<forall>j<n. sp p2 (Suc j) = forwarded a (sp p2 j) (sp p1 (Suc j))"
    and ring2: "ring_ok p2 (Suc n)" and fr: "only_blocks p p2" "blk p2 = blk p"
    and t: "planner_recalculate_trapezoids p2 = Some p'"
    and l: "\<forall>j<Suc n. same_limits (sp p j) (sp p1 j) \<and> same_limits (sp p j) (sp p2 j)"
    using passes_spec [OF ring acc mm run] by (auto simp: a_def)
  note ts = planner_recalculate_trapezoids_spec [OF ring2 _ t]
  show only: "only_blocks p p'" using only_blocks_trans [OF fr(1) ts(1)] by simp
  have rt: "retimed p2 p' (Suc n) j" if "j < Suc n" for j using ts(2) that by simp
  have e: "entry_speed (sp p' j) = entry_speed (sp p2 j)" "same_limits (sp p j) (sp p' j)" "\<not> recalculate_flag (sp p' j)" if "j < Suc n" for j
    using rt [OF that] l that by (auto simp: retimed_def same_limits_def)
  have r1: "entry_speed (sp p1 0) = entry_speed (sp p 0)" "entry_speed (sp p1 n) = entry_speed (sp p n)" using r(1) by auto
  have rs: "\<forall>k. 0 < k \<and> k < n \<longrightarrow> entry_speed (sp p1 k) = reverse_value (reach a) (max_entry_speed (sp p k)) (nominal_length_flag (sp p k))
      (millimeters (sp p k)) (entry_speed (sp p k)) (entry_speed (sp p1 (Suc k)))"
    using r(2) by (simp add: reversed_def)
  have fs: "\<forall>k<n. entry_speed (sp p2 (Suc k)) = forward_value (reach a) (nominal_length_flag (sp p k)) (millimeters (sp p k))
      (entry_speed (sp p2 k)) (entry_speed (sp p1 (Suc k)))"
    using f(2) l by (simp add: forwarded_def Let_def same_limits_def)
  have "valid_plan speed_ok (reach a) (length_ok a) (\<lambda>k. entry_speed (sp p2 k)) (\<lambda>k. max_entry_speed (sp p k)) (\<lambda>k. nominal_speed (sp p k))
      (\<lambda>k. millimeters (sp p k)) (\<lambda>k. nominal_length_flag (sp p k)) (Suc n)"
    using jct.passes_valid [OF old [unfolded speeds_valid_def] new(1-3), folded a_def, OF r1 rs _ fs] f(1) by simp
  then show "speeds_valid p' (Suc n)"
    unfolding speeds_valid_def only_blocks_frame(3) [OF only] a_def [symmetric]
    by (rule valid_plan_cong) (use e in \<open>auto simp: same_limits_def\<close>)
  have flags: "\<not> recalculate_flag (sp p2 j) \<Longrightarrow> j < n \<and> entry_speed (sp p2 j) = entry_speed (sp p j)" if "j < Suc n" for j
  proof -
    assume u: "\<not> recalculate_flag (sp p2 j)"
    have 1: "entry_speed (sp p2 j) = entry_speed (sp p1 j) \<and> \<not> recalculate_flag (sp p1 j)"
      using u f that by (cases j) (auto simp: forwarded_def Let_def)
    then have "j \<noteq> n" using r(1) new(4) by auto
    then have "j < n" using that by simp
    then have "entry_speed (sp p1 j) = entry_speed (sp p j)"
      using 1 r(1,2) by (cases "j = 0") (auto simp: reversed_def reverse_value_def)
    then show ?thesis using 1 \<open>j < n\<close> by simp
  qed
  have "profiled (sp p2 k) (exit_speed p' (Suc n) k) (blk p k) (blk p' k)" if k: "k < Suc n" for k
  proof (cases "recalculate_flag (sp p2 k) \<or> k < n \<and> recalculate_flag (sp p2 (Suc k)) \<or> k = n")
    case True
    then show ?thesis using rt [OF k] e(1) [of "Suc k"] k fr(2) by (auto simp: retimed_def exit_speed_def split: if_splits)
  next
    case False
    then have k2: "Suc k < n" "entry_speed (sp p2 k) = entry_speed (sp p k)" "entry_speed (sp p2 (Suc k)) = entry_speed (sp p (Suc k))"
      using flags [of k] flags [of "Suc k"] k by auto
    have "blk p' k = blk p k" using rt [OF k] False k fr(2) by (auto simp: retimed_def)
    moreover have "profiled (sp p k) (entry_speed (sp p (Suc k))) (blk p k) (blk p k)"
      using time [rule_format, of k] k2(1) by (simp add: timed_def exit_speed_def)
    moreover have "nominal_speed (sp p2 k) = nominal_speed (sp p k)" using l k by (simp add: same_limits_def)
    ultimately show ?thesis using k2 e(1) [of "Suc k"] profiled_cong [of "sp p2 k" "sp p k"] by (simp add: exit_speed_def)
  qed
  note pk = this
  show "timed p' (Suc n) k \<and> \<not> recalculate_flag (sp p' k) \<and> same_limits (sp p k) (sp p' k)
      \<and> rate_delta (blk p' k) = rate_delta (blk p k) \<and> step_event_count (blk p' k) = step_event_count (blk p k)" if k: "k < Suc n" for k
  proof -
    have "nominal_speed (sp p' k) = nominal_speed (sp p2 k)" using e(2) [OF k] l k by (simp add: same_limits_def)
    then have "timed p' (Suc n) k"
      unfolding timed_def using profiled_idem [OF pk [OF k]] profiled_cong [of "sp p' k" "sp p2 k"] e(1) [OF k] by simp
    then show ?thesis using profiled_keeps [OF pk [OF k]] e [OF k] by simp
  qed
qed

section \<open>New blocks\<close>

lemma fdiv_nonneg: "fdiv x y = Some z \<Longrightarrow> 0 \<le> x \<Longrightarrow> 0 \<le> y \<Longrightarrow> 0 \<le> z"
  by (auto simp: fdiv_def intro!: double_of_nonneg split: if_splits)

lemma line_length_nonneg: "line_length dx dy dz de = Some mm \<Longrightarrow> 0 \<le> mm"
  by (auto simp: line_length_def sqrt_double_def root_double_nonneg split: if_splits)

lemma limit_factor_nonneg: "limit_factor r s f = Some g \<Longrightarrow> 0 \<le> r \<Longrightarrow> 0 \<le> f \<Longrightarrow> 0 \<le> g"
  by (auto simp: limit_factor_def dest: fdiv_nonneg split: if_splits)

lemma lround_nonneg: "0 \<le> x \<Longrightarrow> 0 \<le> lround x"
  by (simp add: lround_def)

lemma speed_multiplier_nonneg:
  assumes "speed_multiplier p dx dy dz de mm feed = Some r" "feedrates_ok p" "0 \<le> mm" "0 \<le> feed"
  shows "0 \<le> r"
proof -
  obtain q mu f1 f2 f3 f4 where q: "fdiv mm feed = Some q"
    and mu: "fdiv 60000000 (of_int (lround (double_of (double_of (q * 60) * 1000000)))) = Some mu"
    and f: "(if of_int (maximum_feedrate_x p) < \<bar>double_of (dx * mu)\<bar> then fdiv (of_int (maximum_feedrate_x p)) \<bar>double_of (dx * mu)\<bar> else Some 1) = Some f1"
      "limit_factor (maximum_feedrate_y p) (double_of (dy * mu)) f1 = Some f2"
      "limit_factor (maximum_feedrate_z p) (double_of (dz * mu)) f2 = Some f3"
      "limit_factor (maximum_feedrate_e p) (double_of (de * mu)) f3 = Some f4"
    and r: "r = double_of (mu * f4)"
    using assms(1) by (auto simp: speed_multiplier_def Option.bind_eq_Some_conv Let_def)
  have "0 \<le> q" using fdiv_nonneg [OF q assms(3,4)] .
  then have "0 \<le> lround (double_of (double_of (q * 60) * 1000000))"
    by (intro lround_nonneg double_of_nonneg mult_nonneg_nonneg) simp_all
  then have "0 \<le> mu" using fdiv_nonneg [OF mu] by simp
  moreover have "0 \<le> f1" using f(1) assms(2) by (auto simp: feedrates_ok_def dest: fdiv_nonneg split: if_splits)
  then have "0 \<le> f4" using f(2-4) assms(2) limit_factor_nonneg by (metis feedrates_ok_def)
  ultimately show ?thesis unfolding r by (intro double_of_nonneg mult_nonneg_nonneg)
qed

lemma vmax_junction_ok:
  assumes "vmax_junction p u nominal = Some v" "0 \<le> nominal" "is_double nominal" "is_double (previous_nominal_speed p)"
  shows "is_double v \<and> 0 \<le> v \<and> v \<le> nominal \<and> (v = 0 \<or> v \<le> previous_nominal_speed p)"
proof -
  obtain px py pz ux uy uz where u: "previous_unit_vec p = (px, py, pz)" "u = (ux, uy, uz)" by (metis prod_cases3)
  have m: "is_double (min (previous_nominal_speed p) nominal)" using assms(3,4) by (simp add: min_def)
  have "v = 0 \<or> 0 < previous_nominal_speed p \<and> (v = min (previous_nominal_speed p) nominal
      \<or> (\<exists>x y q w. fdiv x y = Some q \<and> sqrt_double q = Some w \<and> v = min (min (previous_nominal_speed p) nominal) w))"
    using assms(1) unfolding vmax_junction_def u Let_def MINIMUM_PLANNER_SPEED_def
    by (auto simp: Option.bind_eq_Some_conv split: if_splits)
  then consider "v = 0" | "0 < previous_nominal_speed p" "v = min (previous_nominal_speed p) nominal"
    | x y q w where "0 < previous_nominal_speed p" "fdiv x y = Some q" "sqrt_double q = Some w" "v = min (min (previous_nominal_speed p) nominal) w"
    by blast
  then show ?thesis
  proof cases
    case 1
    then show ?thesis using assms(2) is_double_int [of 0] by simp
  next
    case 2
    then show ?thesis using assms(2) m by simp
  next
    case 3
    have "is_double q" "0 \<le> q" "w = root_double q"
      using 3(2,3) by (auto simp: fdiv_def sqrt_double_def split: if_splits)
    then have "is_double w" "0 \<le> w" using is_double_root root_double_nonneg by simp_all
    then have "is_double v" "0 \<le> v" using 3(1,4) m assms(2) by (simp_all add: min_def)
    moreover have "v \<le> nominal" "v \<le> previous_nominal_speed p" using 3(4) by (simp_all add: min_def)
    ultimately show ?thesis by simp
  qed
qed

lemma plan_steps_events:
  assumes "plan_steps b t p = Some (Some m, p')"
  shows "0 \<le> sint (move_events m)"
  using assms
proof (rule plan_steps_cases)
  fix x y z e sx sy sz se
  assume a: "axis_steps x (position_x p) = Some sx" "axis_steps y (position_y p) = Some sy" "axis_steps z (position_z p) = Some sz"
    "axis_steps e (position_e p) = Some se"
    and m: "(Some m, p') = (let bits = direction X_DIRECTION_BIT x (position_x p) OR direction Y_DIRECTION_BIT y (position_y p)
                     OR direction Z_DIRECTION_BIT z (position_z p) OR direction E_DIRECTION_BIT e (position_e p);
                   n = max (max sx (max sy sz)) se
               in if n = 0 then (None, p)
                  else (Some \<lparr>move_bits = bits, move_x = sx, move_y = sy, move_z = sz, move_e = se,
                                   move_events = n, move_endstops = b\<rparr>,
                        p\<lparr>position_x := x, position_y := y, position_z := z, position_e := e, startpoint := t\<rparr>))"
  have "move_events m = max (max sx (max sy sz)) se" using m by (auto simp: Let_def split: if_splits)
  then have "uint (move_events m) < 2 ^ 31" using a [THEN axis_steps_eq(1)] a [THEN axis_steps_eq(2)] by (simp add: max_def)
  then show ?thesis using sint_small [of "move_events m"] by simp
qed

text \<open>The new block as it enters the queue.\<close>

definition ordinary :: "rat \<Rightarrow> speeds \<Rightarrow> bool" where
  "ordinary a s \<longleftrightarrow> TINY \<le> reach a 0 (millimeters s) \<and> (max_entry_speed s = 0 \<or> TINY \<le> max_entry_speed s)"

lemma new_speeds_fields: "new_speeds p u mm nominal = Some s \<Longrightarrow> millimeters s = mm \<and> nominal_speed s = nominal"
  by (auto simp: new_speeds_def Option.bind_eq_Some_conv)

lemma new_speeds_ok:
  assumes "new_speeds p u mm nominal = Some s" "0 \<le> acceleration p" "0 \<le> mm" "0 \<le> nominal" "is_double nominal"
    "is_double (previous_nominal_speed p)" "ordinary (acceleration p) s"
  shows "valid_block speed_ok (reach (acceleration p)) (length_ok (acceleration p)) (entry_speed s) (max_entry_speed s)
      (nominal_speed s) (millimeters s) (nominal_length_flag s)"
    "entry_speed s \<le> reach (acceleration p) 0 (millimeters s)" "recalculate_flag s" "nominal_speed s = nominal"
    "max_entry_speed s = 0 \<or> max_entry_speed s \<le> previous_nominal_speed p"
proof -
  obtain v where v: "vmax_junction p u nominal = Some v"
    and s: "s = \<lparr>nominal_speed = nominal, entry_speed = min v (reach (acceleration p) 0 mm), max_entry_speed = v, millimeters = mm,
             recalculate_flag = True, nominal_length_flag = nominal \<le> reach (acceleration p) 0 mm\<rparr>"
    using assms(1) by (auto simp: new_speeds_def Option.bind_eq_Some_conv MINIMUM_PLANNER_SPEED_def max_allowable_speed_reach [OF assms(2,3)])
  note ok = vmax_junction_ok [OF v assms(4-6)]
  have "speed_ok v" "length_ok (acceleration p) mm" using assms(2,3,7) ok by (auto simp: ordinary_def s speed_ok_def length_ok_def)
  moreover from this have "speed_ok (min v (reach (acceleration p) 0 mm))"
    by (intro jct.speed_min jct.reach_speed jct.speed_zero)
  ultimately show "valid_block speed_ok (reach (acceleration p)) (length_ok (acceleration p)) (entry_speed s) (max_entry_speed s)
      (nominal_speed s) (millimeters s) (nominal_length_flag s)"
    using ok by (simp add: valid_block_def s)
  show "entry_speed s \<le> reach (acceleration p) 0 (millimeters s)" "recalculate_flag s" "nominal_speed s = nominal"
    "max_entry_speed s = 0 \<or> max_entry_speed s \<le> previous_nominal_speed p" using ok by (auto simp: s)
qed

lemma plan_line_ok:
  assumes "plan_line m feed q p = Some p1" "acceleration_manager_enabled p" "feedrates_ok p" "0 \<le> acceleration p" "0 \<le> feed"
    "0 \<le> sint (move_events m)"
  obtains u s c mm where "new_speeds p u mm (nominal_speed s) = Some s" "0 \<le> mm" "0 \<le> nominal_speed s" "is_double (nominal_speed s)"
    "0 \<le> sint (rate_delta c)" "step_event_count c = move_events m"
    "p1 = (set_speeds (head_of p) s (set_block (head_of p) c p))\<lparr>previous_unit_vec := u, previous_nominal_speed := nominal_speed s\<rparr>"
proof -
  obtain dx dy dz de mm imm mu rate delta s u where
    l: "line_length dx dy dz de = Some mm" and i: "fdiv 1 mm = Some imm" and mu: "speed_multiplier p dx dy dz de mm feed = Some mu"
    and delta: "to_int32 (of_int \<lceil>double_of (double_of (double_of (double_of (of_int (sint (move_events m)) * imm)
                  * acceleration p) * 60) / 1000)\<rceil>) = Some delta"
    and s: "new_speeds p u mm (double_of (mm * mu)) = Some s"
    and p1: "p1 = (set_speeds (head_of p) s (set_block (head_of p) (new_block m rate (word_of_int delta) (block_at p (head_of p))) p))
        \<lparr>previous_unit_vec := u, previous_nominal_speed := double_of (mm * mu)\<rparr>"
    using assms(1,2) by (auto simp: plan_line_def Option.bind_eq_Some_conv Let_def simp del: to_int32_int)
  have mm: "0 \<le> mm" using line_length_nonneg [OF l] .
  have "0 \<le> mu" using speed_multiplier_nonneg [OF mu assms(3) mm assms(5)] .
  then have n: "0 \<le> double_of (mm * mu)" using mm by (intro double_of_nonneg) simp
  have "0 \<le> imm" using fdiv_nonneg [OF i] mm by simp
  then have "0 \<le> double_of (double_of (double_of (double_of (of_int (sint (move_events m)) * imm) * acceleration p) * 60) / 1000)"
    using assms(4,6) by (intro double_of_nonneg divide_nonneg_nonneg mult_nonneg_nonneg) simp_all
  then have "0 \<le> delta" "in_int32 delta" using delta by auto
  then have "0 \<le> sint (word_of_int delta :: U32)" using sint_small [of "word_of_int delta"] by (simp add: in_int32_def uint_word_of_int)
  moreover have "nominal_speed s = double_of (mm * mu)" using new_speeds_fields [OF s] by simp
  ultimately show ?thesis using that [of u mm s "new_block m rate (word_of_int delta) (block_at p (head_of p))"] s mm n p1 by (simp add: new_block_def)
qed

section \<open>Valid plans\<close>

text \<open>
  A state of the planner with \<open>n\<close> queued blocks: the speeds at the junctions are valid, every trapezoid
  follows from them, and the last nominal speed is the one of the newest block.
\<close>

definition planned :: "motion \<Rightarrow> nat \<Rightarrow> bool" where
  "planned p n \<longleftrightarrow>
     ring_ok p n \<and> speeds_valid p n \<and> 0 \<le> acceleration p \<and> feedrates_ok p \<and> acceleration_manager_enabled p
     \<and> (\<forall>k<n. timed p n k \<and> 0 \<le> sint (rate_delta (blk p k)) \<and> 0 \<le> sint (step_event_count (blk p k)))
     \<and> is_double (previous_nominal_speed p)
     \<and> (0 < n \<longrightarrow> previous_nominal_speed p = 0 \<or> previous_nominal_speed p = nominal_speed (sp p (n - 1)))"

lemma not_full:
  assumes "ring_ok p n" "\<not> plan_queue_full (stp p)"
  shows "Suc n < 5"
proof (rule ccontr)
  assume "\<not> Suc n < 5"
  then have "n = 4" using assms(1) by (simp add: ring_ok_def)
  then have "unat (place p (Suc n)) = unat (tail_of p)"
    using place_unat [OF assms(1), of "Suc n"] place_unat [OF assms(1), of 0] by simp
  then have "place p (Suc n) = tail_of p" by (rule unsigned_word_eqI)
  then show False using assms by (simp add: plan_queue_full_def ring_ok_def next_place)
qed

text \<open>The queue after a new block has entered it.\<close>

lemma entered:
  fixes p :: motion
  assumes "ring_ok p n" "Suc n < 5"
    and "p1 = (set_speeds (head_of p) s (set_block (head_of p) c p))\<lparr>previous_unit_vec := u, previous_nominal_speed := v\<rparr>"
    and "p2 = (push_block p1)\<lparr>position_x := x, position_y := y, position_z := z, position_e := e, startpoint := t\<rparr>"
  shows "ring_ok p2 (Suc n)" "j < 5 \<Longrightarrow> sp p2 j = (if j = n then s else sp p j)" "j < 5 \<Longrightarrow> blk p2 j = (if j = n then c else blk p j)"
    "acceleration p2 = acceleration p" "feedrates_ok p2 = feedrates_ok p" "acceleration_manager_enabled p2 = acceleration_manager_enabled p"
    "previous_nominal_speed p2 = v" "place p2 = place p"
proof -
  have h: "head_of p = place p n" using assms(1) by (simp add: ring_ok_def)
  define p0 where "p0 = set_speeds (head_of p) s (set_block (head_of p) c p)"
  have pl: "place p2 = place p" by (simp add: assms(3,4) push_block_def place_def fun_eq_iff set_speeds_def set_block_def)
  then show "place p2 = place p" .
  have "head_of p2 = place p (Suc n)"
    by (simp add: assms(3,4) push_block_def set_speeds_def set_block_def h next_place)
  moreover have "tail_of p2 = tail_of p" by (simp add: assms(3,4) push_block_def set_speeds_def set_block_def)
  ultimately show "ring_ok p2 (Suc n)" using assms(1,2) pl by (simp add: ring_ok_def)
  have "sp p2 j = sp p0 j" "blk p2 j = blk p0 j" for j
    by (simp_all add: sp_def blk_def pl) (simp_all add: p0_def assms(3,4) push_block_def)
  then show "j < 5 \<Longrightarrow> sp p2 j = (if j = n then s else sp p j)" "j < 5 \<Longrightarrow> blk p2 j = (if j = n then c else blk p j)"
    using sp_set_speeds [of "set_block (place p n) c p" n n j s] blk_set_block [of p n n j c] assms(1,2)
    by (simp_all add: p0_def h)
  show "acceleration p2 = acceleration p" "feedrates_ok p2 = feedrates_ok p" "acceleration_manager_enabled p2 = acceleration_manager_enabled p"
    "previous_nominal_speed p2 = v"
    by (simp_all add: assms(3,4) push_block_def set_speeds_def set_block_def feedrates_ok_def)
qed

lemma wake_up_planned:
  assumes "wake_up p = Some p'"
  shows "planned p' n = planned p n" "sp p' = sp p" "block_speeds p' = block_speeds p" "place p' = place p"
proof -
  obtain d where p': "p' = p\<lparr>stp := st_wake_up d (stp p)\<rparr>" using assms by (auto simp: wake_up_def)
  have pl: "place p' = place p" "blk p' = blk p" and s: "sp p' = sp p"
    by (simp_all add: p' place_def fun_eq_iff blk_def sp_def st_wake_up_def emit_def)
  then show "sp p' = sp p" "place p' = place p" "block_speeds p' = block_speeds p" by (simp_all add: p')
  show "planned p' n = planned p n"
    unfolding planned_def ring_ok_def speeds_valid_def timed_def exit_speed_def pl s feedrates_ok_def by (simp add: p' st_wake_up_def emit_def)
qed

lemma plan_buffer_line_planned:
  assumes "planned p n" "plan_buffer_line a t p = Done p'" "0 \<le> feed_rate t"
    and "p' = p \<or> ordinary (acceleration p) (speeds_at p' (head_of p))"
  shows "p' = p \<or> planned p' (Suc n)"
proof -
  have pn: "ring_ok p n" "speeds_valid p n" "0 \<le> acceleration p" "feedrates_ok p" "acceleration_manager_enabled p"
    "is_double (previous_nominal_speed p)" using assms(1) by (simp_all add: planned_def)
  show ?thesis
  proof (cases "p' = p")
    case False
    obtain m q where q: "plan_steps (a \<noteq> AT_MOVE) t p = Some (Some m, q)" and full: "\<not> plan_queue_full (stp p)"
      using assms(2) False by (auto simp: plan_buffer_line_def split: option.splits if_splits)
    obtain p1 where p1: "plan_line m (feed_rate t) (planner.truncate q) p = Some p1"
      using assms(2) q full
      by (auto simp: plan_buffer_line_def outcome_of_def Option.bind_eq_Some_conv split: option.splits if_splits)
    obtain u s c mm where s: "new_speeds p u mm (nominal_speed s) = Some s" "0 \<le> mm" "0 \<le> nominal_speed s" "is_double (nominal_speed s)"
      and c: "0 \<le> sint (rate_delta c)" "step_event_count c = move_events m"
      and e1: "p1 = (set_speeds (head_of p) s (set_block (head_of p) c p))\<lparr>previous_unit_vec := u, previous_nominal_speed := nominal_speed s\<rparr>"
      using plan_line_ok [OF p1 pn(5,4,3) assms(3) plan_steps_events [OF q]] by metis
    define p2 where "p2 = (push_block p1)\<lparr>position_x := position_x q, position_y := position_y q, position_z := position_z q,
        position_e := position_e q, startpoint := t\<rparr>"
    note n5 = not_full [OF pn(1) full]
    note en = entered [OF pn(1) n5 e1 p2_def]
    have "acceleration_manager_enabled (push_block p1)" using en(6) pn(5) by (simp add: p2_def)
    then obtain p3 where p3: "planner_recalculate p2 = Some p3" and w: "wake_up p3 = Some p'"
      using assms(2) q full p1
      by (auto simp: plan_buffer_line_def outcome_of_def Option.bind_eq_Some_conv simp flip: p2_def split: option.splits if_splits)
    have keep: "sp p2 j = sp p j" "blk p2 j = blk p j" if "j < n" for j using en(2,3) [of j] n5 that by simp_all
    have new: "sp p2 n = s" "blk p2 n = c" using en(2,3) [of n] n5 by simp_all
    have old2: "speeds_valid p2 n"
      using pn(2) unfolding speeds_valid_def en(4) by (rule valid_plan_cong) (simp add: keep)
    have time2: "\<forall>k<n. timed p2 n k"
    proof (intro allI impI)
      fix k assume k: "k < n"
      then have "timed p n k" using assms(1) by (simp add: planned_def)
      moreover have "exit_speed p2 n k = exit_speed p n k" using k keep(1) [of "Suc k"] by (auto simp: exit_speed_def)
      ultimately show "timed p2 n k" using keep [OF k] by (simp add: timed_def)
    qed
    have "millimeters s = mm" using new_speeds_fields [OF s(1)] by simp
    then have mm: "\<forall>j<Suc n. 0 \<le> millimeters (sp p2 j)"
      using old2 new(1) s(2) by (auto simp: speeds_valid_def valid_plan_def valid_block_def length_ok_def less_Suc_eq)
    have a2: "0 \<le> acceleration p2" using pn(3) en(4) by simp
    have sl: "same_limits s (sp p3 n)" and only: "only_blocks p2 p3"
      using recalculate_limits [OF en(1) a2 mm p3, of n] new(1) by simp_all
    have "speeds_at p' (head_of p) = sp p3 n"
      using wake_up_planned(3) [OF w] only_blocks_frame(1) [OF only] en(8) pn(1) by (simp add: sp_def ring_ok_def)
    then have ord: "ordinary (acceleration p) s" using assms(4) False sl by (simp add: ordinary_def same_limits_def)
    note nb = new_speeds_ok [OF s(1) pn(3) s(2-4) pn(6) ord]
    have max: "0 < n \<longrightarrow> max_entry_speed (sp p2 n) \<le> nominal_speed (sp p2 (n - 1))"
    proof
      assume n: "0 < n"
      then have "valid_block speed_ok (reach (acceleration p)) (length_ok (acceleration p)) (entry_speed (sp p (n - 1)))
          (max_entry_speed (sp p (n - 1))) (nominal_speed (sp p (n - 1))) (millimeters (sp p (n - 1))) (nominal_length_flag (sp p (n - 1)))"
        using pn(2) by (simp add: speeds_valid_def valid_plan_def)
      then have "0 \<le> nominal_speed (sp p (n - 1))" using speed_ok_nonneg [of "max_entry_speed (sp p (n - 1))"] by (simp add: valid_block_def)
      moreover have "previous_nominal_speed p = 0 \<or> previous_nominal_speed p = nominal_speed (sp p (n - 1))"
        using assms(1) n by (simp add: planned_def)
      ultimately show "max_entry_speed (sp p2 n) \<le> nominal_speed (sp p2 (n - 1))" using nb(5) new(1) keep(1) [of "n - 1"] n by auto
    qed
    note ro = planner_recalculate_ok [OF en(1) _ old2 _ max _ _ time2 p3, unfolded new(1) en(4), OF pn(3) nb(1-3)]
    have "planned p3 (Suc n)"
      unfolding planned_def
    proof (intro conjI)
      show "ring_ok p3 (Suc n)" using only_blocks_frame(2) [OF only] en(1) by simp
      show "speeds_valid p3 (Suc n)" using ro(1) .
      show "\<forall>k<Suc n. timed p3 (Suc n) k \<and> 0 \<le> sint (rate_delta (blk p3 k)) \<and> 0 \<le> sint (step_event_count (blk p3 k))"
        using ro(2) keep(2) new(2) c plan_steps_events [OF q] assms(1) by (auto simp: planned_def less_Suc_eq)
      show "0 \<le> acceleration p3" "feedrates_ok p3" "acceleration_manager_enabled p3" "is_double (previous_nominal_speed p3)"
        "0 < Suc n \<longrightarrow> previous_nominal_speed p3 = 0 \<or> previous_nominal_speed p3 = nominal_speed (sp p3 (Suc n - 1))"
        using only_blocks_planner [OF only] en pn s(4) sl by (simp_all add: same_limits_def)
    qed
    then show ?thesis using wake_up_planned(1) [OF w] by simp
  qed simp
qed

section \<open>The interrupt and the plan\<close>

text \<open>The step interrupt leaves the queued blocks alone; it takes away at most the first one.\<close>

definition ring_of :: "stepper \<Rightarrow> (nat \<Rightarrow> block_t) \<times> U8 \<times> U8" where
  "ring_of s = (block_buffer s, block_buffer_head s, block_buffer_tail s)"

lemma same_line_ring: "same_line s s' \<Longrightarrow> ring_of s' = ring_of s"
  by (simp add: same_line_def ring_of_def)

lemma ring_of_emit [simp]: "ring_of (emit x s) = ring_of s"
  by (simp add: ring_of_def)

lemma ring_of_update [simp]:
  "ring_of (current_block_update f s) = ring_of s" "ring_of (step_bits_xyz_update g s) = ring_of s"
  "ring_of (step_bits_e_update g s) = ring_of s" "ring_of (busy_update h s) = ring_of s" "ring_of (accel_flag_update h s) = ring_of s"
  "ring_of (step_events_completed_update g s) = ring_of s" "ring_of (leds_enabled_update h s) = ring_of s" "ring_of (led_on_update l s) = ring_of s"
  "ring_of (counter_x_update g s) = ring_of s" "ring_of (counter_y_update g s) = ring_of s" "ring_of (counter_z_update g s) = ring_of s"
  "ring_of (counter_e_update g s) = ring_of s" "ring_of (dir_bits_update g s) = ring_of s" "ring_of (cycles_per_step_event_update g s) = ring_of s"
  "ring_of (trapezoid_adjusted_rate_update g s) = ring_of s" "ring_of (min_safe_rate_update g s) = ring_of s"
  "ring_of (trapezoid_tick_cycle_counter_update g s) = ring_of s"
  by (simp_all add: ring_of_def)

lemma ring_of_rate [simp]: "ring_of (set_step_events_per_minute r s) = ring_of s"
  by (rule same_line_ring [OF rate_same_line])

lemma ring_of_parts:
  "ring_of (set_direction_pins s) = ring_of s" "ring_of (st_go_idle s) = ring_of s" "ring_of (trapezoid_generator_reset b s) = ring_of s"
  "ring_of (st_trapezoid b s) = ring_of s" "ring_of (set_step_pins s) = ring_of s" "ring_of (clear_step_pins s) = ring_of s"
  "ring_of (clear_all_step_pins s) = ring_of s" "ring_of (clear_step_pins_by_state s) = ring_of s" "ring_of (st_trace_line b s) = ring_of s"
  "ring_of (st_endstops inp b s) = ring_of s"
  by (simp_all add: set_direction_pins_def st_go_idle_def trapezoid_generator_reset_def Let_def clear_step_pins_def
      clear_all_step_pins_def clear_step_pins_by_state_def st_trace_line_def st_endstops_def
      same_line_ring [OF trapezoid_same_line] same_line_ring [OF set_step_pins_same_line] split: prod.splits)

lemma ring_of_fetch: "ring_of (st_fetch s) = ring_of s"
  by (simp add: st_fetch_def Let_def ring_of_parts split: option.splits)

definition discards :: "stepper \<Rightarrow> stepper \<Rightarrow> bool" where
  "discards s s' \<longleftrightarrow> ring_of s' = ring_of s \<or> ring_of s' = ring_of (plan_discard_current_block s)"

lemma discards_finish: "ring_of s1 = ring_of s \<Longrightarrow> discards s (st_finish s1)"
  by (auto simp: discards_def st_finish_def plan_discard_current_block_def ring_of_def)

lemma discards_same: "ring_of s1 = ring_of s \<Longrightarrow> discards s s1"
  by (simp add: discards_def)

lemma discards_serve: "discards s (st_serve inp s)"
  unfolding st_serve_def st_move_def Let_def
  by (auto split: option.splits; (rule discards_finish | rule discards_same); simp add: ring_of_parts)

lemma st_event_discards: "discards s (st_event ev s)"
proof (cases ev)
  case (Step inp)
  have "discards s (st_serve inp (st_fetch (s\<lparr>busy := True\<rparr>)))"
    using discards_serve [of "st_fetch (s\<lparr>busy := True\<rparr>)" inp] ring_of_fetch [of "s\<lparr>busy := True\<rparr>"]
    by (auto simp: discards_def plan_discard_current_block_def ring_of_def)
  then show ?thesis by (auto simp: Step st_interrupt_def Let_def discards_def ring_of_parts)
qed (simp add: discards_def accelCallback_def)

end
