(* ===== verification/Grbl_Plan.thy ===== *)
theory Grbl_Plan
  imports Grbl_Speed
begin

text \<open>
  The planner over time: move requests, position changes and step interrupts in any order keep the
  plan valid (\<open>src/libraries/grbl/src/planner.c\<close> and \<open>stepper.c\<close>).
\<close>

section \<open>Steps\<close>

text \<open>
  What can happen between two moments of the machine: a request for a move is planned, the position or
  the feed rate is set, or an interrupt is served. The new block of a move must be of ordinary size, and
  its feed rate not negative.
\<close>

inductive motion_step :: "motion \<Rightarrow> motion \<Rightarrow> bool" where
  line: "plan_buffer_line a t p = Done p' \<Longrightarrow> 0 \<le> feed_rate t
    \<Longrightarrow> p' = p \<or> ordinary (acceleration p) (speeds_at p' (head_of p)) \<Longrightarrow> motion_step p p'"
| position: "plan_set_current_position t p = Some p' \<Longrightarrow> motion_step p p'"
| feed: "motion_step p (plan_set_feed_rate t p)"
| event: "motion_step p (p\<lparr>stp := st_event ev (stp p)\<rparr>)"

inductive_cases motion_stepE: "motion_step p p'"

text \<open>The plan depends on the stepper only through the ring of blocks.\<close>

lemma planned_ring:
  assumes "planned p n" "ring_of s = ring_of (stp p)"
  shows "planned (p\<lparr>stp := s\<rparr>) n"
proof -
  have r: "block_buffer s = block_buffer (stp p)" "block_buffer_head s = head_of p" "block_buffer_tail s = tail_of p"
    using assms(2) by (simp_all add: ring_of_def)
  have f: "place (p\<lparr>stp := s\<rparr>) = place p" "blk (p\<lparr>stp := s\<rparr>) = blk p" "sp (p\<lparr>stp := s\<rparr>) = sp p"
    by (simp_all add: place_def fun_eq_iff blk_def sp_def r)
  show ?thesis using assms(1)
    unfolding planned_def ring_ok_def speeds_valid_def timed_def exit_speed_def f feedrates_ok_def by (simp add: r)
qed

text \<open>Without its first block, the plan is still valid.\<close>

lemma planned_shift:
  assumes "planned p (Suc n)" "block_buffer s = block_buffer (stp p)" "block_buffer_head s = head_of p"
    "block_buffer_tail s = next_block_index (tail_of p)"
  shows "planned (p\<lparr>stp := s\<rparr>) n"
proof -
  define p' where "p' = p\<lparr>stp := s\<rparr>"
  have pl: "place p' k = place p (Suc k)" for k by (simp add: place_def p'_def assms(4) funpow_swap1)
  have f: "sp p' k = sp p (Suc k)" "blk p' k = blk p (Suc k)" for k
    by (simp_all add: sp_def blk_def pl) (simp_all add: p'_def assms(2))
  have o: "ring_ok p (Suc n)" "speeds_valid p (Suc n)" "acceleration p' = acceleration p" using assms(1) by (simp_all add: planned_def p'_def)
  have "tail_of p' < BLOCK_BUFFER_SIZE"
    using next_block_index_unat [of "tail_of p"] o(1) by (simp add: p'_def assms(4) ring_ok_def BLOCK_BUFFER_SIZE_def word_less_nat_alt)
  then have ring: "ring_ok p' n" using o(1) pl [of n] by (simp add: ring_ok_def p'_def assms(3))
  have valid: "speeds_valid p' n" using valid_plan_tail [OF o(2) [unfolded speeds_valid_def]] unfolding speeds_valid_def o(3) f .
  have time: "timed p' n k" if "k < n" for k
  proof -
    have "timed p (Suc n) (Suc k)" using assms(1) that by (simp add: planned_def)
    then show ?thesis by (cases "Suc k = n") (auto simp: timed_def exit_speed_def f)
  qed
  have "0 < n \<longrightarrow> nominal_speed (sp p' (n - 1)) = nominal_speed (sp p n)" by (cases n) (simp_all add: f)
  then show ?thesis using assms(1) ring valid time
    unfolding p'_def [symmetric] planned_def by (auto simp: f) (auto simp: p'_def feedrates_ok_def)
qed

lemma planned_event:
  assumes "planned p n"
  shows "\<exists>n'. planned (p\<lparr>stp := st_event ev (stp p)\<rparr>) n'"
proof -
  let ?s = "st_event ev (stp p)"
  have "ring_of ?s = ring_of (stp p) \<or> head_of p \<noteq> tail_of p \<and> ring_of ?s = ring_of (plan_discard_current_block (stp p))"
    using st_event_discards [of "stp p" ev] by (auto simp: discards_def plan_discard_current_block_def)
  then show ?thesis
  proof
    assume "ring_of ?s = ring_of (stp p)"
    then show ?thesis using planned_ring [OF assms] by blast
  next
    assume d: "head_of p \<noteq> tail_of p \<and> ring_of ?s = ring_of (plan_discard_current_block (stp p))"
    then obtain m where n: "n = Suc m" using assms by (cases n) (auto simp: planned_def ring_ok_def)
    show ?thesis using planned_shift [OF assms [unfolded n], of ?s] d by (auto simp: plan_discard_current_block_def ring_of_def)
  qed
qed

lemma planned_position:
  assumes "planned p n" "plan_set_current_position t p = Some p'"
  shows "planned p' n"
proof -
  obtain x y z e where p': "p' = p\<lparr>startpoint := t, position_x := x, position_y := y, position_z := z, position_e := e,
      previous_nominal_speed := 0, previous_unit_vec := (0, 0, 0)\<rparr>"
    using assms(2) by (auto simp: plan_set_current_position_def split: option.splits)
  have f: "place p' = place p" "blk p' = blk p" "sp p' = sp p" by (simp_all add: p' place_def fun_eq_iff blk_def sp_def)
  show ?thesis using assms(1) is_double_int [of 0]
    unfolding planned_def ring_ok_def speeds_valid_def timed_def exit_speed_def f feedrates_ok_def by (simp add: p')
qed

lemma planned_feed: "planned p n \<Longrightarrow> planned (plan_set_feed_rate t p) n"
proof -
  assume a: "planned p n"
  have f: "place (plan_set_feed_rate t p) = place p" "blk (plan_set_feed_rate t p) = blk p" "sp (plan_set_feed_rate t p) = sp p"
    by (simp_all add: plan_set_feed_rate_def place_def fun_eq_iff blk_def sp_def)
  show ?thesis using a
    unfolding planned_def ring_ok_def speeds_valid_def timed_def exit_speed_def f feedrates_ok_def by (simp add: plan_set_feed_rate_def)
qed

lemma motion_step_planned:
  assumes "motion_step p p'" "planned p n"
  shows "\<exists>n'. planned p' n'"
  using assms
proof cases
  case (line a t)
  then show ?thesis using plan_buffer_line_planned [OF assms(2)] assms(2) by blast
qed (use assms(2) planned_position planned_feed planned_event in blast)+

lemma motion_steps_planned: "motion_step\<^sup>*\<^sup>* p p' \<Longrightarrow> planned p n \<Longrightarrow> \<exists>n'. planned p' n'"
  by (induction arbitrary: n rule: rtranclp_induct) (blast intro: motion_step_planned)+

lemma plan_init_planned:
  assumes "plan_init p0 = Done p" "0 \<le> acceleration p0" "feedrates_ok p0"
  shows "planned p 0"
  using assms is_double_int [of 0]
  by (auto simp: plan_init_def plan_set_acceleration_manager_enabled_def plan_get_current_block_def Let_def planned_def ring_ok_def
      place_def BLOCK_BUFFER_SIZE_def speeds_valid_def valid_plan_def feedrates_ok_def split: if_splits)

section \<open>What a valid plan gives\<close>

text \<open>The speeds of a block lie below its limits, and its speed can be changed as planned within its length.\<close>

definition speeds_feasible :: "motion \<Rightarrow> nat \<Rightarrow> nat \<Rightarrow> bool" where
  "speeds_feasible p n k \<longleftrightarrow>
     (let s = sp p k; v = entry_speed s; w = exit_speed p n k
      in 0 \<le> v \<and> v \<le> max_entry_speed s \<and> max_entry_speed s \<le> nominal_speed s \<and> 0 \<le> w \<and> w \<le> nominal_speed s
         \<and> w \<le> reach (acceleration p) v (millimeters s) \<and> v \<le> reach (acceleration p) w (millimeters s))"

lemma planned_feasible:
  assumes "planned p n" "k < n"
  shows "speeds_feasible p n k"
proof -
  have v: "valid_plan speed_ok (reach (acceleration p)) (length_ok (acceleration p)) (\<lambda>k. entry_speed (sp p k)) (\<lambda>k. max_entry_speed (sp p k))
       (\<lambda>k. nominal_speed (sp p k)) (\<lambda>k. millimeters (sp p k)) (\<lambda>k. nominal_length_flag (sp p k)) n"
    using assms(1) by (simp add: planned_def speeds_valid_def)
  have b: "valid_block speed_ok (reach (acceleration p)) (length_ok (acceleration p)) (entry_speed (sp p j)) (max_entry_speed (sp p j))
      (nominal_speed (sp p j)) (millimeters (sp p j)) (nominal_length_flag (sp p j))" if "j < n" for j
    using v that by (simp add: valid_plan_def)
  have bk: "0 \<le> entry_speed (sp p k)" "entry_speed (sp p k) \<le> max_entry_speed (sp p k)" "max_entry_speed (sp p k) \<le> nominal_speed (sp p k)"
    "length_ok (acceleration p) (millimeters (sp p k))"
    using b [OF assms(2)] speed_ok_nonneg by (auto simp: valid_block_def)
  show ?thesis
  proof (cases "Suc k = n")
    case True
    then have "entry_speed (sp p k) \<le> reach (acceleration p) 0 (millimeters (sp p k))" using v by (auto simp: valid_plan_def)
    moreover have "0 \<le> reach (acceleration p) (entry_speed (sp p k)) (millimeters (sp p k))"
      using bk(4) by (intro reach_nonneg) (simp_all add: length_ok_def)
    ultimately show ?thesis using bk True by (simp add: speeds_feasible_def exit_speed_def)
  next
    case False
    then have k: "Suc k < n" using assms(2) by simp
    then have "max_entry_speed (sp p (Suc k)) \<le> nominal_speed (sp p k)"
        "feasible (reach (acceleration p)) (millimeters (sp p k)) (entry_speed (sp p k)) (entry_speed (sp p (Suc k)))"
      using v by (simp_all add: valid_plan_def)
    then show ?thesis using bk False b [OF k] speed_ok_nonneg by (auto simp: speeds_feasible_def exit_speed_def feasible_def valid_block_def)
  qed
qed

text \<open>The trapezoid of a block stays within the block and below its nominal rate.\<close>

definition trapezoid_within :: "block_t \<Rightarrow> bool" where
  "trapezoid_within b \<longleftrightarrow>
     initial_rate b \<le> nominal_rate b \<and> final_rate b \<le> nominal_rate b
     \<and> accelerate_until b \<le> decelerate_after b \<and> decelerate_after b \<le> step_event_count b"

lemma fdiv_le_1: "fdiv x y = Some z \<Longrightarrow> x \<le> y \<Longrightarrow> 0 \<le> y \<Longrightarrow> z \<le> 1"
  using double_of_le [of "x / y" 1] is_double_int [of 1] by (auto simp: fdiv_def divide_le_eq split: if_splits)

lemma planned_within:
  assumes "planned p n" "k < n"
  shows "trapezoid_within (blk p k)"
proof -
  obtain ef xf where e: "fdiv (entry_speed (sp p k)) (nominal_speed (sp p k)) = Some ef" "fdiv (exit_speed p n k) (nominal_speed (sp p k)) = Some xf"
      "calculate_trapezoid_for_block ef xf (blk p k) = Some (blk p k)"
    using assms by (auto simp: planned_def timed_def profiled_def)
  have "ef \<le> 1" "xf \<le> 1"
    using fdiv_le_1 [OF e(1)] fdiv_le_1 [OF e(2)] planned_feasible [OF assms] by (auto simp: speeds_feasible_def Let_def)
  then show ?thesis using trapezoid_bounds [OF e(3)] assms by (simp add: planned_def trapezoid_within_def)
qed

section \<open>Properties\<close>

text \<open>An idle machine, and the state after a move of 8 mm along X.\<close>

definition example_motion :: motion where
  "example_motion = planner.extend example_planner
     \<lparr>block_speeds = (\<lambda>_. \<lparr>nominal_speed = 0, entry_speed = 0, max_entry_speed = 0, millimeters = 0, recalculate_flag = False,
                           nominal_length_flag = False\<rparr>),
      stp = example_stepper\<lparr>block_buffer_head := 0\<rparr>\<rparr>"

definition example_steps_8 :: move where
  "example_steps_8 = \<lparr>move_bits = 0, move_x = 640, move_y = 0, move_z = 0, move_e = 0, move_events = 640, move_endstops = False\<rparr>"

definition example_block_8 :: block_t where
  "example_block_8 = new_block example_steps_8 120000 480 example_block"

definition example_speeds_8 :: "bool \<Rightarrow> speeds" where
  "example_speeds_8 b = \<lparr>nominal_speed = 1500, entry_speed = 0, max_entry_speed = 0, millimeters = 8, recalculate_flag = b,
     nominal_length_flag = True\<rparr>"

definition example_lined :: motion where
  "example_lined = (set_speeds 0 (example_speeds_8 True) (set_block 0 example_block_8 example_motion))
     \<lparr>previous_unit_vec := (1, 0, 0), previous_nominal_speed := 1500\<rparr>"

definition example_queued :: motion where
  "example_queued = (push_block example_lined)\<lparr>position_x := 640, position_y := 0, position_z := 0, position_e := 0,
     startpoint := example_target 8 0\<rparr>"

definition example_timed :: motion where
  "example_timed = set_speeds 0 (example_speeds_8 False)
     (set_block 0 (example_block_8\<lparr>initial_rate := 0, final_rate := 0, accelerate_until := 250, decelerate_after := 390\<rparr>) example_queued)"

lemma example_numbers:
  "line_length 8 0 0 0 = Some 8" "max_allowable_speed (- 100) 0 8 = Some 2400"
  "fdiv 640 80 = Some 8" "fdiv 0 80 = Some 0" "fdiv 0 2560 = Some 0" "fdiv 0 700 = Some 0" "fdiv 1 8 = Some (1 / 8)" "fdiv 0 1500 = Some 0"
  "double_of 1500 = 1500" "double_of 120000 = 120000" "double_of 1 = 1" "double_of 28800000 = 28800000"
  "double_of (double_of (double_of (double_of 80 * 100) * 60) / 1000) = 480"
  "trapezoid_steps 640 28800000 0 120000 0 = Some (250, 140)"
  "to_uint32 (double_of (double_of (double_of (double_of 158400 * 200) / 1024) / 10)) = Some 3093"
  "to_uint32 120000 = Some 120000" "to_uint32 0 = Some 0" "to_int32 28800000 = Some 28800000"
  by code_simp+

lemma example_multiplier: "speed_multiplier example_planner 8 0 0 0 8 1500 = Some (375 / 2)"
  by code_simp

lemma speed_multiplier_cong:
  assumes "maximum_feedrate_x p = maximum_feedrate_x q" "maximum_feedrate_y p = maximum_feedrate_y q"
    "maximum_feedrate_z p = maximum_feedrate_z q" "maximum_feedrate_e p = maximum_feedrate_e q"
  shows "speed_multiplier p dx dy dz de mm feed = speed_multiplier q dx dy dz de mm feed"
  unfolding speed_multiplier_def assms by (rule refl)

lemma example_fields:
  "position_x example_motion = 0" "position_y example_motion = 0" "position_z example_motion = 0" "position_e example_motion = 0"
  "steps_per_mm_x example_motion = 80" "steps_per_mm_y example_motion = 80" "steps_per_mm_z example_motion = 2560"
  "steps_per_mm_e example_motion = 700" "acceleration example_motion = 100" "acceleration_manager_enabled example_motion"
  "head_of example_motion = 0" "tail_of example_motion = 0" "block_buffer (stp example_motion) 0 = example_block"
  by (simp_all add: example_motion_def planner.defs example_planner_def example_stepper_def)

lemma example_plan_steps: "plan_steps False (example_target 8 0) example_motion
    = Some (Some example_steps_8, example_motion\<lparr>position_x := 640, startpoint := example_target 8 0\<rparr>)"
  using to_steps_whole [of 640 8 80]
  by (simp add: example_motion_def planner.defs example_planner_def example_steps plan_steps_def example_target_def axis_steps_def
      direction_def Let_def example_steps_8_def)

lemma example_plan_line:
  "plan_line example_steps_8 1500 (planner.truncate (example_motion\<lparr>position_x := 640, startpoint := example_target 8 0\<rparr>)) example_motion
    = Some example_lined"
proof -
  have m: "speed_multiplier example_motion 8 0 0 0 8 1500 = Some (375 / 2)"
    using example_multiplier speed_multiplier_cong [of example_motion example_planner] by (simp add: example_motion_def planner.defs)
  show ?thesis
    by (simp add: plan_line_def planner.defs example_fields example_numbers m new_speeds_def vmax_junction_def MINIMUM_PLANNER_SPEED_def
        example_lined_def example_block_8_def example_speeds_8_def Let_def int32_def in_int32_def example_steps_8_def)
qed

lemma example_trapezoid: "calculate_trapezoid_for_block 0 0 example_block_8
    = Some (example_block_8\<lparr>initial_rate := 0, final_rate := 0, accelerate_until := 250, decelerate_after := 390\<rparr>)"
  by (simp add: calculate_trapezoid_for_block_def example_block_8_def new_block_def example_numbers ACCELERATION_TICKS_PER_SECOND_def
      int32_def in_int32_def example_steps_8_def)

lemma example_recalculate: "planner_recalculate example_queued = Some example_timed"
proof -
  have e: "head_of example_queued = 1" "tail_of example_queued = 0" "block_buffer (stp example_queued) 0 = example_block_8"
    "block_speeds example_queued 0 = example_speeds_8 True"
    by (simp_all add: example_queued_def push_block_def example_lined_def set_speeds_def set_block_def example_motion_def planner.defs
        example_stepper_def next_block_index_def BLOCK_BUFFER_SIZE_def)
  have i: "prev_block_index 1 = 0" "next_block_index 0 = 1" "unat BLOCK_BUFFER_SIZE = Suc (Suc (Suc (Suc (Suc 0))))"
    by (simp_all add: prev_block_index_def next_block_index_def BLOCK_BUFFER_SIZE_def)
  have r: "planner_reverse_pass example_queued = Some example_queued"
    by (simp add: planner_reverse_pass_def e i reverse_loop.simps planner_reverse_pass_kernel_def)
  have f: "planner_forward_pass example_queued = Some example_queued"
    by (simp add: planner_forward_pass_def e i forward_loop.simps planner_forward_pass_kernel_def)
  have "planner_recalculate_trapezoids example_queued = Some example_timed"
    using e(4) example_trapezoid
    by (simp add: planner_recalculate_trapezoids_def e i trapezoids_loop.simps recalculate_junction_def recalculate_block_def
        MINIMUM_PLANNER_SPEED_def example_numbers example_timed_def example_speeds_8_def)
  with r f show ?thesis by (simp add: planner_recalculate_def)
qed

lemma example_planned: obtains p' where "plan_buffer_line AT_MOVE (example_target 8 0) example_motion = Done p'"
    "wake_up example_timed = Some p'"
proof -
  have "wake_up example_timed \<noteq> None"
    using example_numbers by (simp add: wake_up_def example_timed_def example_queued_def push_block_def example_lined_def set_speeds_def
        set_block_def example_fields)
  then obtain p' where w: "wake_up example_timed = Some p'" by auto
  have q: "\<not> plan_queue_full (stp example_motion)"
    by (simp add: plan_queue_full_def example_fields next_block_index_def BLOCK_BUFFER_SIZE_def)
  have k: "acceleration_manager_enabled (push_block example_lined)" "feed_rate (example_target 8 0) = 1500"
    by (simp_all add: push_block_def example_lined_def set_speeds_def set_block_def example_fields example_target_def)
  have "plan_buffer_line AT_MOVE (example_target 8 0) example_motion = Done p'"
    using w example_recalculate
    by (simp add: plan_buffer_line_def example_plan_steps q k example_plan_line outcome_of_def Let_def example_fields example_queued_def [symmetric])
  then show ?thesis using that w by blast
qed

text \<open>
  C20. Planned speeds are always possible. Start the planner, then let move requests, changes of the
  position and interrupts of the stepper happen in any order: at any moment the blocks in the buffer form a valid plan.
  Every block enters at a speed between zero and the maximum of its junction, which is below its nominal
  speed; from its entry speed it can reach its exit speed, the entry speed of the next block or zero for
  the newest one, and it can brake to it, both with the configured acceleration within the length of
  the block, by the formula of \<open>max_allowable_speed\<close> in double precision. The trapezoid the stepper
  follows lies within the block: both rates are at most the nominal rate, and acceleration ends before
  deceleration starts, which is before the last step.
\<close>

theorem reachable_plan_feasible:
  assumes "plan_init p0 = Done p" "0 \<le> acceleration p0" "feedrates_ok p0" "motion_step\<^sup>*\<^sup>* p p'"
  shows "\<exists>n. ring_ok p' n \<and> (\<forall>k<n. speeds_feasible p' n k \<and> trapezoid_within (blk p' k))"
proof -
  obtain n where n: "planned p' n" using motion_steps_planned [OF assms(4) plan_init_planned [OF assms(1-3)]] by blast
  then show ?thesis using planned_feasible [OF n] planned_within [OF n] by (auto simp: planned_def)
qed

theorem reachable_plan_feasible_witness:
  "\<exists>p'. plan_buffer_line AT_MOVE (example_target 8 0) example_motion = Done p' \<and> head_of p' = 1
     \<and> accelerate_until (block_at p' 0) = 250 \<and> (\<exists>n. ring_ok p' n \<and> (\<forall>k<n. speeds_feasible p' n k \<and> trapezoid_within (blk p' k)))"
proof -
  obtain p' where p': "plan_buffer_line AT_MOVE (example_target 8 0) example_motion = Done p'" "wake_up example_timed = Some p'"
    using example_planned .
  have b: "block_speeds p' = block_speeds example_timed" using wake_up_planned(3) [OF p'(2)] .
  have "max_allowable_speed (- 100) 0 8 = Some (reach 100 0 8)" by (rule max_allowable_speed_reach) simp_all
  then have "reach 100 0 8 = 2400" using example_numbers(2) by simp
  moreover have "TINY \<le> 2 powi 0" unfolding TINY_def powi_le_iff by simp
  then have "TINY \<le> 2400" by simp
  ultimately have o: "ordinary (acceleration example_motion) (speeds_at p' (head_of example_motion))"
    by (simp add: b ordinary_def example_fields example_timed_def set_speeds_def example_speeds_8_def)
  have "motion_step example_motion p'" using motion_step.line [OF p'(1)] o by (simp add: example_target_def)
  moreover have "plan_init example_motion = Done example_motion"
    by (simp add: plan_init_def plan_set_acceleration_manager_enabled_def example_motion_def planner.defs example_planner_def
        example_stepper_def Let_def)
  moreover have "feedrates_ok example_motion" by (simp add: feedrates_ok_def example_motion_def planner.defs example_planner_def)
  ultimately have "\<exists>n. ring_ok p' n \<and> (\<forall>k<n. speeds_feasible p' n k \<and> trapezoid_within (blk p' k))"
    using reachable_plan_feasible [of example_motion example_motion p'] by (simp add: example_fields r_into_rtranclp)
  moreover have "head_of p' = 1" "accelerate_until (block_at p' 0) = 250"
    using p'(2) by (auto simp: wake_up_def example_timed_def example_queued_def push_block_def example_lined_def set_speeds_def set_block_def
        st_wake_up_def example_fields next_block_index_def BLOCK_BUFFER_SIZE_def)
  ultimately show ?thesis using p'(1) by blast
qed

text \<open>
  C33. With acceleration management on, which is how \<open>plan_init\<close> leaves it, a wait in the motion buffer
  (\<open>AT_WAIT_TEMPS\<close> after M109) has no defined outcome: \<open>plan_buffer_wait\<close> gives its block no
  acceleration (\<open>rate_delta = 0\<close>), and the recalculation of the plan divides by it and
  converts the result to an integer.
\<close>

theorem plan_buffer_wait_undefined:
  assumes "planned p n" "\<not> plan_queue_full (stp p)"
  shows "plan_buffer_wait a p = Undefined"
proof -
  have pn: "ring_ok p n" "speeds_valid p n" "0 \<le> acceleration p" "acceleration_manager_enabled p" using assms(1) by (simp_all add: planned_def)
  have n5: "Suc n < 5" using not_full [OF pn(1) assms(2)] .
  have h: "head_of p = place p n" using pn(1) by (simp add: ring_ok_def)
  define c where "c = constant_rate ((block_at p (head_of p))\<lparr>action_type := a, nominal_rate := 1200, step_event_count := 1000\<rparr>)"
  define s where "s = (speeds_at p (head_of p))\<lparr>millimeters := 10, nominal_speed := 600, entry_speed := 600\<rparr>"
  define p1 where "p1 = (set_speeds (head_of p) s (set_block (head_of p) c p))\<lparr>previous_unit_vec := previous_unit_vec p,
      previous_nominal_speed := previous_nominal_speed p\<rparr>"
  define p2 where "p2 = (push_block p1)\<lparr>position_x := position_x p, position_y := position_y p, position_z := position_z p,
      position_e := position_e p, startpoint := startpoint p\<rparr>"
  note en = entered [OF pn(1) n5 p1_def p2_def]
  have e: "p2 = push_block (set_speeds (head_of p) s (set_block (head_of p) c p))"
    by (simp add: p2_def p1_def push_block_def set_speeds_def set_block_def)
  have m: "\<forall>j<Suc n. 0 \<le> millimeters (sp p2 j)"
    using en(2) n5 pn(2) by (auto simp: less_Suc_eq s_def speeds_valid_def valid_plan_def valid_block_def length_ok_def)
  have "planner_recalculate p2 = None"
  proof (rule ccontr)
    assume "planner_recalculate p2 \<noteq> None"
    then obtain p' where p': "planner_recalculate p2 = Some p'" by auto
    have "0 \<le> acceleration p2" using pn(3) en(4) by simp
    then obtain q where q: "ring_ok q (Suc n)" "blk q = blk p2" "planner_recalculate_trapezoids q = Some p'"
      using passes_spec [OF en(1) _ m p'] by metis
    have "retimed q p' (Suc n) n" using planner_recalculate_trapezoids_spec(2) [OF q(1) _ q(3), of n] by simp
    then have "profiled (sp q n) 0 (blk q n) (blk p' n)" by (simp add: retimed_def)
    moreover have "rate_delta (blk q n) = 0" using q(2) en(3) [of n] n5 by (simp add: c_def constant_rate_def)
    moreover have "trapezoid_steps k 0 i v f = None" for k i v f
      by (simp add: trapezoid_steps_def estimate_acceleration_distance_def fdiv_def)
    ultimately show False
      by (auto simp: profiled_def calculate_trapezoid_for_block_def Option.bind_eq_Some_conv to_int32_def truncated_def Let_def)
  qed
  then show ?thesis using assms(2) en(6) pn(4)
    unfolding plan_buffer_wait_def Let_def s_def [symmetric] c_def [symmetric] e [symmetric] by (simp add: outcome_of_def)
qed

theorem plan_buffer_wait_undefined_witness: "plan_buffer_wait AT_WAIT_TEMPS example_motion = Undefined"
proof (rule plan_buffer_wait_undefined)
  have "plan_init example_motion = Done example_motion"
    by (simp add: plan_init_def plan_set_acceleration_manager_enabled_def example_motion_def planner.defs example_planner_def
        example_stepper_def Let_def)
  then show "planned example_motion 0"
    by (rule plan_init_planned) (simp_all add: example_fields feedrates_ok_def example_motion_def planner.defs example_planner_def)
  show "\<not> plan_queue_full (stp example_motion)"
    by (simp add: plan_queue_full_def example_fields next_block_index_def BLOCK_BUFFER_SIZE_def)
qed

text \<open>
  With the default configuration, 6400 steps per millimetre and 100 \<open>mm/s\<^sup>2\<close>, the acceleration
  of a move along Z in steps does not fit into the 32-bit variable of \<open>calculate_trapezoid_for_block\<close>.
\<close>

lemma z_acceleration_overflows: "rate_delta b = 38400 \<Longrightarrow> calculate_trapezoid_for_block ef xf b = None"
proof -
  have "to_int32 (double_of 2304000000) = None" by code_simp
  moreover assume "rate_delta b = 38400"
  ultimately show ?thesis
    by (simp add: calculate_trapezoid_for_block_def ACCELERATION_TICKS_PER_SECOND_def int32_def in_int32_def bind_eq_None_conv)
qed

end
