(* ===== verification/R2C2_Serial.thy ===== *)
theory R2C2_Serial
  imports Ring_Buffer C_Double
begin

text \<open>
  The serial line of the board (\<open>src/libraries/R2C2\<close>): the receive and transmit buffers
  (\<open>serial_fifo.c\<close>) and the USB handlers that fill and empty them (\<open>usb.c\<close>), reading and writing characters (\<open>serial.c\<close>), numbers in hexadecimal and
  decimal (\<open>sermsg.c\<close>) and formatted output (\<open>sersendf.c\<close>).
\<close>

section \<open>Buffers\<close>

definition SERIAL_FIFO_SIZE :: int where "SERIAL_FIFO_SIZE = 256"

record fifo =
  head :: int
  tail :: int
  buf :: "nat \<Rightarrow> U8"

definition fifo_init :: "(nat \<Rightarrow> U8) \<Rightarrow> fifo" where
  "fifo_init b = \<lparr>head = 0, tail = 0, buf = b\<rparr>"

text \<open>
  The operations with interrupts of the USB controller disabled are the same functions; the
  buffer is only touched with that interrupt disabled or inside it.
\<close>

definition fifo_put :: "U8 \<Rightarrow> fifo \<Rightarrow> bool \<times> fifo" where
  "fifo_put c f =
     (let nxt = (head f + 1) mod SERIAL_FIFO_SIZE
      in if nxt = tail f then (False, f)
         else (True, f\<lparr>buf := (buf f)(nat (head f) := c), head := nxt\<rparr>))"

definition fifo_get :: "fifo \<Rightarrow> U8 option \<times> fifo" where
  "fifo_get f =
     (if head f = tail f then (None, f)
      else
        (let nxt = (tail f + 1) mod SERIAL_FIFO_SIZE
         in (Some (buf f (nat (tail f))), f\<lparr>tail := nxt\<rparr>)))"

definition fifo_avail :: "fifo \<Rightarrow> int" where
  "fifo_avail f = (SERIAL_FIFO_SIZE + head f - tail f) mod SERIAL_FIFO_SIZE"

definition fifo_free :: "fifo \<Rightarrow> int" where
  "fifo_free f = SERIAL_FIFO_SIZE - 1 - fifo_avail f"

section \<open>The port\<close>

record serial =
  rxfifo :: fifo
  txfifo :: fifo

definition serial_rxchars :: "serial \<Rightarrow> int" where
  "serial_rxchars s = fifo_avail (rxfifo s)"

definition serial_popchar :: "serial \<Rightarrow> U8 \<times> serial" where
  "serial_popchar s =
     (case fifo_get (rxfifo s) of (r, f) \<Rightarrow> (case r of None \<Rightarrow> 0 | Some c \<Rightarrow> c, s\<lparr>rxfifo := f\<rparr>))"

definition serial_txchars :: "serial \<Rightarrow> U8" where
  "serial_txchars s = word_of_int (fifo_avail (txfifo s))"

definition serial_writechar :: "U8 \<Rightarrow> serial \<Rightarrow> serial" where
  "serial_writechar c s = s\<lparr>txfifo := snd (fifo_put c (txfifo s))\<rparr>"

fun serial_writeblock :: "U8 list \<Rightarrow> serial \<Rightarrow> serial" where
  "serial_writeblock [] s = s"
| "serial_writeblock (c # cs) s = serial_writeblock cs (serial_writechar c s)"

text \<open>
  \<open>serial_writestr\<close> counts the characters in a byte: it prints a string of at most 255 characters
  up to its null character. A longer string is printed from the start again and again; \<open>None\<close>: it does not end.
\<close>

definition cstring :: "U8 list \<Rightarrow> U8 list" where
  "cstring cs = takeWhile (\<lambda>c. c \<noteq> 0) cs"

definition serial_writestr :: "U8 list \<Rightarrow> serial \<Rightarrow> serial option" where
  "serial_writestr cs s = (if length (cstring cs) \<le> 255 then Some (serial_writeblock (cstring cs) s) else None)"

text \<open>String literals.\<close>

definition ascii :: "string \<Rightarrow> U8 list" where
  "ascii s = map (\<lambda>c. word_of_nat (of_char c)) s"

definition crlf :: "U8 list" where "crlf = [13, 10]"

section \<open>The USB interrupt\<close>

definition MAX_PACKET_SIZE :: nat where "MAX_PACKET_SIZE = 64"

text \<open>
  Incoming data: the handler leaves the packet in the controller when the buffer may be too small;
  otherwise it stores the characters until the buffer is full. The first result is whether the packet was read.
\<close>

fun bulk_put :: "U8 list \<Rightarrow> fifo \<Rightarrow> fifo" where
  "bulk_put [] f = f"
| "bulk_put (c # cs) f = (case fifo_put c f of (ok, f) \<Rightarrow> if ok then bulk_put cs f else f)"

definition BulkOut :: "U8 list \<Rightarrow> serial \<Rightarrow> bool \<times> serial" where
  "BulkOut packet s =
     (if fifo_free (rxfifo s) < int MAX_PACKET_SIZE then (False, s)
      else (True, s\<lparr>rxfifo := bulk_put packet (rxfifo s)\<rparr>))"

text \<open>Outgoing data: a packet of at most \<open>n\<close> characters; \<open>None\<close>: there is nothing to send.\<close>

fun bulk_get :: "nat \<Rightarrow> fifo \<Rightarrow> U8 list \<times> fifo" where
  "bulk_get 0 f = ([], f)"
| "bulk_get (Suc n) f =
     (case fifo_get f of (None, f) \<Rightarrow> ([], f) | (Some c, f) \<Rightarrow> (case bulk_get n f of (cs, f) \<Rightarrow> (c # cs, f)))"

definition BulkIn :: "serial \<Rightarrow> U8 list option \<times> serial" where
  "BulkIn s =
     (if fifo_avail (txfifo s) = 0 then (None, s)
      else (case bulk_get MAX_PACKET_SIZE (txfifo s) of (cs, f) \<Rightarrow> (Some cs, s\<lparr>txfifo := f\<rparr>)))"

section \<open>Numbers\<close>

text \<open>The functions that print a number, as the characters they pass to \<open>serial_writechar\<close> in this order.\<close>

definition serwrite_hex4 :: "U8 \<Rightarrow> U8 list" where
  "serwrite_hex4 v = (let v = v AND 0xF in [if v < 10 then 48 + v else 65 - 10 + v])"

definition serwrite_hex8 :: "U8 \<Rightarrow> U8 list" where
  "serwrite_hex8 v = serwrite_hex4 (drop_bit 4 v) @ serwrite_hex4 (v AND 0x0F)"

definition serwrite_hex16 :: "U16 \<Rightarrow> U8 list" where
  "serwrite_hex16 v = serwrite_hex8 (ucast (drop_bit 8 v)) @ serwrite_hex8 (ucast (v AND 0xFF))"

definition serwrite_hex32 :: "U32 \<Rightarrow> U8 list" where
  "serwrite_hex32 v = serwrite_hex16 (ucast (drop_bit 16 v)) @ serwrite_hex16 (ucast (v AND 0xFFFF))"

text \<open>The loop \<open>for (t = 0; v >= d; v -= d, t++);\<close>, for the powers of ten that the code writes out.\<close>

function sub_loop :: "U32 \<Rightarrow> U32 \<Rightarrow> U8 \<Rightarrow> U32 \<times> U8" where
  "sub_loop d v t = (if d = 0 \<or> v < d then (v, t) else sub_loop d (v - d) (t + 1))"
  by auto
termination
proof (relation "measure (\<lambda>(d, v, t). unat v)", simp, clarsimp)
  fix d v :: U32
  assume "d \<noteq> 0" "\<not> v < d"
  then have "d \<le> v" "unat d \<noteq> 0" by (simp_all add: unat_eq_0)
  then show "unat (v - d) < unat v" by (simp add: unat_sub word_le_nat_alt)
qed

declare sub_loop.simps [simp del]

text \<open>One place of the number: the digit by repeated subtraction, a zero behind a digit, or nothing.\<close>

definition dec_place :: "U32 \<Rightarrow> U32 \<times> U8 \<times> U8 list \<Rightarrow> U32 \<times> U8 \<times> U8 list" where
  "dec_place d x =
     (case x of (v, t, out) \<Rightarrow>
        if v \<ge> d then (case sub_loop d v 0 of (v, t) \<Rightarrow> (v, t, out @ [t + 48]))
        else if t \<noteq> 0 then (v, t, out @ [48])
        else (v, t, out))"

text \<open>The places of hundreds and tens are computed by division.\<close>

definition div_place :: "U32 \<Rightarrow> U32 \<times> U8 \<times> U8 list \<Rightarrow> U32 \<times> U8 \<times> U8 list" where
  "div_place d x =
     (case x of (v, t, out) \<Rightarrow>
        if v \<ge> d then (let t = ucast (v div d) in (v - ucast t * d, t, out @ [t + 48]))
        else if t \<noteq> 0 then (v, t, out @ [48])
        else (v, t, out))"

definition serwrite_uint32 :: "U32 \<Rightarrow> U8 list" where
  "serwrite_uint32 v =
     (let x = (v, 0, []);
          x = dec_place 1000000000 x;
          x = dec_place 100000000 x;
          x = dec_place 10000000 x;
          x = dec_place 1000000 x;
          x = dec_place 100000 x;
          x = dec_place 10000 x;
          x = dec_place 1000 x;
          x = div_place 100 x;
          (v, t, out) = div_place 10 x
      in out @ [ucast v + 48])"

text \<open>The negation of the smallest number, which overflows in C, wraps around on this processor.\<close>

definition serwrite_int32 :: "U32 \<Rightarrow> U8 list" where
  "serwrite_int32 v = (if sint v < 0 then 45 # serwrite_uint32 (- v) else serwrite_uint32 v)"

text \<open>
  A number in floating point, with three places. \<open>None\<close>: a conversion to an integer is out of range.
\<close>

definition serwrite_double :: "rat \<Rightarrow> U8 list option" where
  "serwrite_double v =
     (let out = (if v < 0 then [45] else []);
          v = (if v < 0 then - v else v)
      in case to_range 0 4294967295 v of
           None \<Rightarrow> None
         | Some w \<Rightarrow>
             let out = out @ serwrite_uint32 w @ [46]
             in case to_range (- 2147483648) 2147483647 v of
                  None \<Rightarrow> None
                | Some w \<Rightarrow>
                    let v = double_of (v - of_int (sint (w :: U32)));
                        v = double_of (v * 1000);
                        out = (if v < 100 then out @ [48] else out);
                        out = (if v < 10 then out @ [48] else out)
                    in map_option (\<lambda>w. out @ serwrite_uint32 w) (to_range 0 4294967295 v))"

section \<open>Formatted output\<close>

datatype arg = Word U32 | Double rat | Str "U8 list"

text \<open>
  A conversion takes the next argument. An argument of another kind, or none, is undefined in C:
  \<open>None\<close>, as for a string that \<open>serial_writestr\<close> does not stop printing. \<open>j\<close> is 0 outside a conversion, 2 behind a percent sign and 4 behind \<open>l\<close>.
\<close>

fun sersendf :: "U8 \<Rightarrow> U8 list \<Rightarrow> arg list \<Rightarrow> U8 list option" where
  "sersendf j [] args = Some []"
| "sersendf j (c # cs) args =
     (if c = 0 then Some []
      else if j \<noteq> 0 then
        (if c = 108 then sersendf 4 cs args
         else if c = 117 then
           (case args of Word v # args \<Rightarrow> map_option (append (serwrite_uint32 v)) (sersendf 0 cs args) | _ \<Rightarrow> None)
         else if c = 100 then
           (case args of Word v # args \<Rightarrow> map_option (append (serwrite_int32 v)) (sersendf 0 cs args) | _ \<Rightarrow> None)
         else if c = 103 then
           (case args of
              Double d # args \<Rightarrow>
                (case serwrite_double d of None \<Rightarrow> None | Some out \<Rightarrow> map_option (append out) (sersendf 0 cs args))
            | _ \<Rightarrow> None)
         else if c = 112 \<or> c = 120 then
           (case args of
              Word v # args \<Rightarrow>
                map_option (append ([48, 120] @ (if j = 4 then serwrite_hex32 v else serwrite_hex16 (ucast v))))
                  (sersendf 0 cs args)
            | _ \<Rightarrow> None)
         else if c = 99 then
           (case args of Word v # args \<Rightarrow> map_option (append [ucast v]) (sersendf 0 cs args) | _ \<Rightarrow> None)
         else if c = 115 then
           (case args of
              Str st # args \<Rightarrow>
                if length (cstring st) \<le> 255 then map_option (append (cstring st)) (sersendf 0 cs args) else None
            | _ \<Rightarrow> None)
         else sersendf 0 cs args)
      else if c = 37 then sersendf 2 cs args
      else map_option (Cons c) (sersendf 0 cs args))"

section \<open>The buffers are bounded queues\<close>

definition fifo_ok :: "fifo \<Rightarrow> bool" where
  "fifo_ok f \<longleftrightarrow> 0 \<le> head f \<and> head f < 256 \<and> 0 \<le> tail f \<and> tail f < 256"

definition contents :: "fifo \<Rightarrow> U8 list" where
  "contents f = ring (buf f) (nat (tail f)) 256 (nat (fifo_avail f))"

lemma length_contents [simp]: "length (contents f) = nat (fifo_avail f)"
  by (simp add: contents_def)

lemma avail_cases:
  assumes "fifo_ok f"
  shows "fifo_avail f = (if tail f \<le> head f then head f - tail f else 256 + head f - tail f)"
    "nat (head f) = (nat (tail f) + nat (fifo_avail f)) mod 256" "fifo_avail f = 0 \<longleftrightarrow> head f = tail f"
proof -
  have b: "0 \<le> head f" "head f < 256" "0 \<le> tail f" "tail f < 256" using assms by (simp_all add: fifo_ok_def)
  show a: "fifo_avail f = (if tail f \<le> head f then head f - tail f else 256 + head f - tail f)"
  proof (cases "tail f \<le> head f")
    case True
    have "(256 + head f - tail f) mod 256 = (head f - tail f) mod 256"
      using mod_add_self1 [of 256 "head f - tail f"] by (simp add: add_diff_eq)
    then show ?thesis using True b by (simp add: fifo_avail_def SERIAL_FIFO_SIZE_def)
  qed (use b in \<open>simp add: fifo_avail_def SERIAL_FIFO_SIZE_def\<close>)
  show "fifo_avail f = 0 \<longleftrightarrow> head f = tail f" using a b by (auto split: if_splits)
  have "int ((nat (tail f) + nat (fifo_avail f)) mod 256) = (tail f + fifo_avail f) mod 256"
    using a b by (simp add: zmod_int split: if_splits)
  also have "\<dots> = head f" using a b by (cases "tail f \<le> head f") (simp_all add: add_diff_eq)
  finally show "nat (head f) = (nat (tail f) + nat (fifo_avail f)) mod 256" by simp
qed

lemma next_index:
  assumes "0 \<le> i" "i < 256"
  shows "(i + 1) mod SERIAL_FIFO_SIZE = (if i = 255 then 0 else i + 1)"
  using assms by (auto simp: SERIAL_FIFO_SIZE_def)

lemma fifo_put_refines:
  assumes "fifo_ok f"
  shows "fifo_ok (snd (fifo_put c f))"
    "contents (snd (fifo_put c f)) = (if length (contents f) < 255 then contents f @ [c] else contents f)"
    "fst (fifo_put c f) \<longleftrightarrow> length (contents f) < 255"
proof -
  have b: "0 \<le> head f" "head f < 256" "0 \<le> tail f" "tail f < 256" using assms by (simp_all add: fifo_ok_def)
  note av = avail_cases [OF assms] and nx = next_index [OF b(1,2)]
  have full: "(head f + 1) mod SERIAL_FIFO_SIZE = tail f \<longleftrightarrow> fifo_avail f = 255"
    using av(1) b nx by (auto split: if_splits)
  have le: "fifo_avail f \<le> 255" "0 \<le> fifo_avail f" using av(1) b by (auto split: if_splits)
  show ok: "fifo_ok (snd (fifo_put c f))" using assms nx by (simp add: fifo_put_def Let_def fifo_ok_def)
  show "fst (fifo_put c f) \<longleftrightarrow> length (contents f) < 255"
    using full le by (auto simp: fifo_put_def Let_def)
  show "contents (snd (fifo_put c f)) = (if length (contents f) < 255 then contents f @ [c] else contents f)"
  proof (cases "fifo_avail f = 255")
    case True
    then show ?thesis using full by (simp add: fifo_put_def Let_def)
  next
    case False
    define g where "g = snd (fifo_put c f)"
    have g: "head g = (head f + 1) mod SERIAL_FIFO_SIZE" "tail g = tail f" "buf g = (buf f)(nat (head f) := c)"
      using False full by (simp_all add: g_def fifo_put_def Let_def)
    have "fifo_avail g = fifo_avail f + 1"
      using avail_cases(1) [OF ok [folded g_def]] av(1) g nx b False full by (auto split: if_splits)
    then have "nat (fifo_avail g) = Suc (nat (fifo_avail f))" using le by simp
    then have "contents g = contents f @ [c]"
      using ring_push [of "nat (fifo_avail f)" 256 "buf f" "nat (tail f)" c] g av(2) False le
      by (simp add: contents_def)
    then show ?thesis using False le by (simp add: g_def)
  qed
qed

lemma fifo_get_refines:
  assumes "fifo_ok f"
  shows "contents f = [] \<Longrightarrow> fifo_get f = (None, f)"
    "contents f = x # xs \<Longrightarrow> fst (fifo_get f) = Some x \<and> fifo_ok (snd (fifo_get f)) \<and> contents (snd (fifo_get f)) = xs"
proof -
  have b: "0 \<le> head f" "head f < 256" "0 \<le> tail f" "tail f < 256" using assms by (simp_all add: fifo_ok_def)
  note av = avail_cases [OF assms] and nx = next_index [OF b(3,4)]
  have le: "0 \<le> fifo_avail f" using av(1) b by (auto split: if_splits)
  show "fifo_get f = (None, f)" if "contents f = []"
    using that av(3) length_contents [of f] le by (simp add: fifo_get_def)
  show "fst (fifo_get f) = Some x \<and> fifo_ok (snd (fifo_get f)) \<and> contents (snd (fifo_get f)) = xs" if c: "contents f = x # xs"
  proof -
    define g where "g = snd (fifo_get f)"
    have "nat (fifo_avail f) = Suc (length xs)" using length_contents [of f] c by simp
    then have ne: "head f \<noteq> tail f" using av(3) by auto
    then have g: "head g = head f" "tail g = (tail f + 1) mod SERIAL_FIFO_SIZE" "buf g = buf f"
        "fst (fifo_get f) = Some (buf f (nat (tail f)))"
      by (simp_all add: g_def fifo_get_def Let_def)
    have ok: "fifo_ok g" using assms g nx b by (simp add: fifo_ok_def)
    have "fifo_avail g = fifo_avail f - 1" using avail_cases(1) [OF ok] av(1) g nx b ne by (auto split: if_splits)
    then have l: "nat (fifo_avail g) = length xs" using \<open>nat (fifo_avail f) = Suc (length xs)\<close> by simp
    have t: "nat (tail g) = (nat (tail f) + 1) mod 256" using g(2) nx b by (auto simp: nat_add_distrib)
    have "contents f = buf f (nat (tail f)) # contents g"
      using ring_pop [of "nat (tail f)" 256 "buf f" "length xs"] b l t g(3) \<open>nat (fifo_avail f) = Suc (length xs)\<close>
      by (simp add: contents_def)
    then show ?thesis using c g(4) ok by (simp add: g_def)
  qed
qed

interpretation ser: bounded_fifo fifo_ok contents 255 "\<lambda>c f. snd (fifo_put c f)" fifo_get
proof (unfold_locales, goal_cases)
  case (1 f c)
  then show ?case using fifo_put_refines by simp
next
  case (2 f)
  then show ?case using fifo_get_refines(1) by simp
next
  case (3 f x xs)
  then show ?case by (rule fifo_get_refines(2))
qed

section \<open>Decimal numbers\<close>

text \<open>The decimal representation of a number without leading zeros, in ASCII.\<close>

fun dec :: "nat \<Rightarrow> U8 list" where
  "dec n = (if n < 10 then [48 + word_of_nat n] else dec (n div 10) @ [48 + word_of_nat (n mod 10)])"

declare dec.simps [simp del]

lemma sub_loop_eq:
  assumes "0 < d" "unat v div unat d = q"
  shows "sub_loop d v t = (v - word_of_nat q * d, t + word_of_nat q)"
  using assms(2)
proof (induction q arbitrary: v t)
  case 0
  then have "v < d" using assms(1) by (simp add: word_less_nat_alt div_eq_0_iff)
  then show ?case by (simp add: sub_loop.simps [of d v])
next
  case (Suc q)
  have d: "0 < unat d" using assms(1) by (simp add: word_less_nat_alt)
  have ge: "unat d \<le> unat v"
  proof (rule ccontr)
    assume "\<not> unat d \<le> unat v"
    then show False using Suc.prems by simp
  qed
  then have u: "unat (v - d) = unat v - unat d" by (simp add: unat_sub word_le_nat_alt)
  have "unat (v - d) div unat d = q" unfolding u using Suc.prems ge d by (simp add: le_div_geq)
  from Suc.IH [OF this, of "t + 1"]
  have "sub_loop d (v - d) (t + 1) = (v - d - word_of_nat q * d, t + 1 + word_of_nat q)" .
  moreover have "\<not> (d = 0 \<or> v < d)" using d ge by (auto simp: word_less_nat_alt)
  ultimately show ?case unfolding sub_loop.simps [of d v] by (simp add: algebra_simps)
qed

text \<open>
  The state after the place of \<open>10 ^ k\<close>: the rest of the number, whether a digit has been
  printed, and the digits of the places so far.
\<close>

definition printed :: "nat \<Rightarrow> nat \<Rightarrow> U32 \<times> U8 \<times> U8 list \<Rightarrow> bool" where
  "printed n k x \<longleftrightarrow> (case x of (v, t, out) \<Rightarrow>
     unat v = n mod 10 ^ k \<and> (t = 0 \<longleftrightarrow> n div 10 ^ k = 0) \<and> out = (if n div 10 ^ k = 0 then [] else dec (n div 10 ^ k)))"

lemma dec_snoc:
  assumes "q < 10" "a * 10 + q \<noteq> 0"
  shows "dec (a * 10 + q) = (if a = 0 then [] else dec a) @ [48 + word_of_nat q]"
proof (cases "a = 0")
  case True
  then show ?thesis using assms(1) by (simp add: dec.simps [of q])
next
  case False
  then have "(a * 10 + q) div 10 = a" "(a * 10 + q) mod 10 = q" "\<not> a * 10 + q < 10" using assms(1) by simp_all
  then show ?thesis using False dec.simps [of "a * 10 + q"] by simp
qed

lemma printed_step:
  fixes n k :: nat
  assumes x: "printed n (Suc k) (v, t, out)" and d: "unat (d::U32) = 10 ^ k"
    and q: "q = unat v div 10 ^ k" and v': "v' = (if v \<ge> d then v - word_of_nat q * d else v)"
    and t': "t' = (if v \<ge> d then word_of_nat q else t)"
    and out': "out' = (if v \<ge> d then out @ [t' + 48] else if t \<noteq> 0 then out @ [48] else out)"
  shows "printed n k (v', t', out')"
proof -
  have v: "unat v = n mod 10 ^ Suc k" and t: "t = 0 \<longleftrightarrow> n div 10 ^ Suc k = 0"
    and out: "out = (if n div 10 ^ Suc k = 0 then [] else dec (n div 10 ^ Suc k))"
    using x by (simp_all add: printed_def)
  have q10: "q < 10" using v q by (simp add: less_mult_imp_div_less)
  have div: "n div 10 ^ k = n div 10 ^ Suc k * 10 + q"
  proof -
    have "n div 10 ^ Suc k = n div 10 ^ k div 10" by (simp add: div_mult2_eq mult.commute [of 10])
    moreover have "q = n div 10 ^ k mod 10"
      using mod_mult2_eq [of n "10 ^ k" 10] by (simp add: q v mult.commute [of 10])
    ultimately show ?thesis by simp
  qed
  have mod: "unat v mod 10 ^ k = n mod 10 ^ k" unfolding v by (simp add: mod_mod_cancel)
  have ge: "v \<ge> d \<longleftrightarrow> q \<noteq> 0" using d q by (simp add: word_le_nat_alt div_eq_0_iff not_less)
  have rest: "unat v' = n mod 10 ^ k"
  proof -
    have le: "q * 10 ^ k \<le> unat v" by (simp add: q)
    then have lt: "q * 10 ^ k < 2 ^ 32" using unsigned_less [of v, where ?'a=nat] by simp
    have "unat (word_of_nat q * d) = q * 10 ^ k"
      using lt q10 d by (simp add: unat_word_ariths unat_of_nat)
    then have "unat (v - word_of_nat q * d) = unat v mod 10 ^ k"
      using le by (simp add: unat_sub word_le_nat_alt q minus_div_mult_eq_mod)
    moreover have "q = 0 \<Longrightarrow> unat v mod 10 ^ k = unat v" using q by (simp add: div_eq_0_iff)
    ultimately show ?thesis using mod v' ge by (cases "q = 0") simp_all
  qed
  show ?thesis
  proof (cases "q = 0")
    case True
    then have "n div 10 ^ k = n div 10 ^ Suc k * 10" using div by simp
    then show ?thesis using True rest ge t out t' out' dec_snoc [of 0 "n div 10 ^ Suc k"]
      by (auto simp: printed_def)
  next
    case False
    have "unat (word_of_nat q :: U8) = q" using q10 by (simp add: unat_of_nat)
    then have "word_of_nat q \<noteq> (0 :: U8)" using False by auto
    moreover have "n div 10 ^ k \<noteq> 0" using div False by simp
    moreover have "dec (n div 10 ^ k) = out @ [48 + word_of_nat q]"
      using dec_snoc [OF q10, of "n div 10 ^ Suc k"] False div out by simp
    ultimately show ?thesis using False rest ge t' out' by (simp add: printed_def add.commute)
  qed
qed

lemma dec_place_printed:
  assumes "printed n (Suc k) x" "unat d = 10 ^ k"
  shows "printed n k (dec_place d x)"
proof -
  obtain v t out where x: "x = (v, t, out)" by (cases x)
  have "0 < d" using assms(2) by (simp add: word_less_nat_alt)
  from sub_loop_eq [OF this refl, of v 0] assms(2)
  have "sub_loop d v 0 = (v - word_of_nat (unat v div 10 ^ k) * d, word_of_nat (unat v div 10 ^ k))" by simp
  then show ?thesis
    using printed_step [OF assms(1) [unfolded x] assms(2) refl refl refl refl] by (simp add: dec_place_def x split: if_splits)
qed

lemma div_place_printed:
  assumes "printed n (Suc k) x" "unat d = 10 ^ k"
  shows "printed n k (div_place d x)"
proof -
  obtain v t out where x: "x = (v, t, out)" by (cases x)
  define q where "q = unat v div 10 ^ k"
  have "q < 10" using assms(1) by (simp add: q_def x printed_def less_mult_imp_div_less)
  moreover have "unat (v div d) = q" by (simp add: unat_div q_def assms(2))
  ultimately have "ucast (v div d) = (word_of_nat q :: U8)" "ucast (word_of_nat q :: U8) = (word_of_nat q :: U32)"
    by (simp_all add: word_unat_eq_iff unat_of_nat unsigned_ucast_eq take_bit_nat_def)
  then show ?thesis
    using printed_step [OF assms(1) [unfolded x] assms(2) q_def refl refl refl] by (simp add: div_place_def x Let_def split: if_splits)
qed

lemma serwrite_uint32_dec: "serwrite_uint32 v = dec (unat v)"
proof -
  define n where "n = unat v"
  define x1 where "x1 = dec_place 1000000000 (v, 0, [])"
  define x2 where "x2 = dec_place 100000000 x1"
  define x3 where "x3 = dec_place 10000000 x2"
  define x4 where "x4 = dec_place 1000000 x3"
  define x5 where "x5 = dec_place 100000 x4"
  define x6 where "x6 = dec_place 10000 x5"
  define x7 where "x7 = dec_place 1000 x6"
  define x8 where "x8 = div_place 100 x7"
  obtain w t out where x9: "div_place 10 x8 = (w, t, out)" by (cases "div_place 10 x8")
  have "n < 10 ^ Suc 9" using unsigned_less [of v, where ?'a=nat] by (simp add: n_def)
  then have "printed n (Suc 9) (v, 0, [])" by (simp add: printed_def n_def)
  from dec_place_printed [OF this, of 1000000000] have "printed n (Suc 8) x1" by (simp add: x1_def)
  from dec_place_printed [OF this, of 100000000] have "printed n (Suc 7) x2" by (simp add: x2_def)
  from dec_place_printed [OF this, of 10000000] have "printed n (Suc 6) x3" by (simp add: x3_def)
  from dec_place_printed [OF this, of 1000000] have "printed n (Suc 5) x4" by (simp add: x4_def)
  from dec_place_printed [OF this, of 100000] have "printed n (Suc 4) x5" by (simp add: x5_def)
  from dec_place_printed [OF this, of 10000] have "printed n (Suc 3) x6" by (simp add: x6_def)
  from dec_place_printed [OF this, of 1000] have "printed n (Suc 2) x7" by (simp add: x7_def)
  from div_place_printed [OF this, of 100] have "printed n 2 x8" by (simp add: x8_def)
  then have "printed n (Suc 1) x8" by (simp add: numeral_2_eq_2)
  from div_place_printed [OF this, of 10] have p: "printed n 1 (w, t, out)" by (simp add: x9)
  then have "w = word_of_nat (n mod 10)" by (simp add: printed_def word_unat_eq_iff unat_of_nat)
  then have "ucast w = (word_of_nat (n mod 10) :: U8)"
    by (simp add: word_unat_eq_iff unat_of_nat unsigned_ucast_eq take_bit_nat_def)
  moreover have "serwrite_uint32 v = out @ [ucast w + 48]"
    by (simp add: serwrite_uint32_def Let_def x9 flip: x1_def x2_def x3_def x4_def x5_def x6_def x7_def x8_def)
  ultimately show ?thesis
    using p dec.simps [of n] by (simp add: printed_def add.commute n_def div_eq_0_iff)
qed

lemma uminus_unat:
  fixes v :: U32
  assumes "sint v < 0"
  shows "unat (- v) = nat (- sint v)"
proof -
  have "- (2 ^ 31) \<le> sint v" using sint_greater_eq [of v] by simp
  then have r: "0 \<le> - sint v" "- sint v < 2 ^ 32" using assms by simp_all
  have "- v = word_of_int (- sint v)" by simp
  then have "uint (- v) = - sint v" using r by (simp add: uint_word_of_int del: of_int_minus)
  then show ?thesis by (simp flip: nat_uint_eq)
qed

text \<open>The value that a string of decimal digits denotes.\<close>

definition dec_value :: "U8 list \<Rightarrow> nat" where
  "dec_value cs = fold (\<lambda>c n. n * 10 + unat (c - 48)) cs 0"

lemma dec_value_dec: "dec_value (dec n) = n"
proof (induction n rule: dec.induct)
  case (1 n)
  have "unat (word_of_nat (n mod 10) :: U8) = n mod 10" by (simp add: unat_of_nat)
  then show ?case using 1 by (cases "n < 10") (simp_all add: dec_value_def dec.simps [of n] unat_of_nat)
qed

lemma dec_no_leading_zero: "hd (dec n) = 48 \<Longrightarrow> n = 0"
proof (induction n rule: dec.induct)
  case (1 n)
  show ?case
  proof (cases "n < 10")
    case True
    then have "word_of_nat n = (0 :: U8)" using 1(2) by (simp add: dec.simps [of n])
    then have "unat (word_of_nat n :: U8) = 0" by simp
    then show ?thesis using True by (simp add: unat_of_nat)
  next
    case False
    have "dec (n div 10) \<noteq> []" by (simp add: dec.simps [of "n div 10"])
    then have "hd (dec (n div 10)) = 48" using 1(2) False by (simp add: dec.simps [of n])
    then show ?thesis using 1(1) [OF False] False by simp
  qed
qed

lemma serwrite_int32_dec:
  "serwrite_int32 v = (if sint v < 0 then 45 # dec (nat (- sint v)) else dec (nat (sint v)))"
proof -
  have "unat v = nat (sint v)" if "0 \<le> sint v"
  proof -
    have "sint v < 2 ^ 32" using sint_less [of v] by simp
    then have "uint (word_of_int (sint v) :: U32) = sint v"
      using that by (simp only: uint_word_of_int) simp
    then have "uint v = sint v" by simp
    then show ?thesis by (simp flip: nat_uint_eq)
  qed
  then show ?thesis using uminus_unat [of v] by (simp add: serwrite_int32_def serwrite_uint32_dec)
qed

text \<open>
  C12. The number routines of the serial output, which find the digits by repeated subtraction
  of powers of ten and by division, print every 32-bit number as its decimal representation without
  leading zeros, so that the digits denote the number again; a negative number has a minus sign, the
  smallest one, whose negation wraps around, included.
\<close>

theorem serwrite_int32_decimal:
  "serwrite_uint32 v = dec (unat v) \<and> dec_value (serwrite_uint32 v) = unat v
   \<and> (v \<noteq> 0 \<longrightarrow> hd (serwrite_uint32 v) \<noteq> 48)
   \<and> serwrite_int32 v = (if sint v < 0 then 45 # dec (nat (- sint v)) else dec (nat (sint v)))"
  using dec_no_leading_zero [of "unat v"] serwrite_int32_dec [of v]
  by (auto simp: serwrite_uint32_dec dec_value_dec unat_eq_0)

theorem serwrite_int32_decimal_witness:
  "hd (serwrite_uint32 4294967295) \<noteq> 48 \<and> dec_value (serwrite_uint32 4294967295) = 4294967295"
  using serwrite_int32_decimal [of 4294967295] by auto

text \<open>Every run of writers and readers on an empty buffer is one of a list of at most 255 characters.\<close>

lemma serial_buffer_fifo:
  "list_run 255 ops [] = (contents (fst (queue_run (\<lambda>c f. snd (fifo_put c f)) fifo_get ops (fifo_init b))),
     snd (queue_run (\<lambda>c f. snd (fifo_put c f)) fifo_get ops (fifo_init b)))"
proof -
  have "fifo_ok (fifo_init b)" "contents (fifo_init b) = []"
    by (simp_all add: fifo_ok_def fifo_init_def contents_def fifo_avail_def SERIAL_FIFO_SIZE_def)
  then show ?thesis using ser.run_refines [of "fifo_init b" ops] by simp
qed

text \<open>A whole number in floating point is printed as that number with three zeros behind the point.\<close>

lemma serwrite_double_whole:
  assumes "n < 2 ^ 31"
  shows "serwrite_double (of_nat n) = Some (dec n @ [46, 48, 48, 48])"
proof -
  have u: "unat (word_of_nat n :: U32) = n" using assms by (simp add: unat_of_nat)
  have "sint (word_of_nat n :: U32) = int n"
    using assms by (simp add: signed_of_nat signed_take_bit_int_eq_self)
  moreover have "double_of 0 = 0" by (simp add: double_of_def)
  moreover have "to_range 0 4294967295 0 = Some (0 :: U32)" using to_range_nat [of 0 0 4294967295] by simp
  moreover have "to_range 0 4294967295 (of_nat n) = Some (word_of_nat n :: U32)"
      "to_range (- 2147483648) 2147483647 (of_nat n) = Some (word_of_nat n :: U32)"
    using assms by (simp_all add: to_range_nat)
  ultimately show ?thesis
    using u by (simp add: serwrite_double_def Let_def serwrite_uint32_dec dec.simps [of 0])
qed

text \<open>A doubled percent sign prints nothing.\<close>

lemma sersendf_percent: "sersendf 0 (37 # 37 # cs) args = sersendf 0 cs args"
  by simp

section \<open>Packets\<close>

lemma bulk_put_stores:
  "fifo_ok f \<Longrightarrow> length (contents f) + length cs \<le> 255 \<Longrightarrow> fifo_ok (bulk_put cs f) \<and> contents (bulk_put cs f) = contents f @ cs"
proof (induction cs arbitrary: f)
  case (Cons c cs)
  obtain ok g where g: "fifo_put c f = (ok, g)" by (cases "fifo_put c f")
  have "ok" "fifo_ok g" "contents g = contents f @ [c]"
    using fifo_put_refines [OF Cons.prems(1), of c] Cons.prems(2) g by (simp_all del: length_contents)
  then show ?case using Cons.IH [of g] Cons.prems(2) g by (simp del: length_contents)
qed simp

text \<open>A packet that is read is stored completely: the handler never loses characters of it.\<close>

lemma BulkOut_stores:
  assumes "fifo_ok (rxfifo s)" "length packet \<le> MAX_PACKET_SIZE" "fst (BulkOut packet s)"
  shows "fifo_ok (rxfifo (snd (BulkOut packet s)))"
    "contents (rxfifo (snd (BulkOut packet s))) = contents (rxfifo s) @ packet" "txfifo (snd (BulkOut packet s)) = txfifo s"
proof -
  have "length (contents (rxfifo s)) + length packet \<le> 255"
    using assms(2,3) by (auto simp: BulkOut_def fifo_free_def SERIAL_FIFO_SIZE_def MAX_PACKET_SIZE_def split: if_splits)
  from bulk_put_stores [OF assms(1) this] assms(3)
  show "fifo_ok (rxfifo (snd (BulkOut packet s)))"
    "contents (rxfifo (snd (BulkOut packet s))) = contents (rxfifo s) @ packet" "txfifo (snd (BulkOut packet s)) = txfifo s"
    by (auto simp: BulkOut_def split: if_splits)
qed

lemma bulk_get_takes:
  "fifo_ok f \<Longrightarrow> fst (bulk_get n f) = take n (contents f) \<and> fifo_ok (snd (bulk_get n f)) \<and> contents (snd (bulk_get n f)) = drop n (contents f)"
proof (induction n arbitrary: f)
  case (Suc n)
  show ?case
  proof (cases "contents f")
    case Nil
    then show ?thesis using fifo_get_refines(1) [OF Suc.prems Nil] Suc.prems by simp
  next
    case (Cons c cs)
    obtain g where g: "fifo_get f = (Some c, g)" "fifo_ok g" "contents g = cs"
      using fifo_get_refines(2) [OF Suc.prems Cons] by (metis prod.collapse)
    then show ?thesis using Suc.IH [OF g(2)] Cons by (simp add: case_prod_beta)
  qed
qed simp

text \<open>A packet to the host has the oldest characters of the transmit buffer, at most 64 of them.\<close>

lemma BulkIn_takes:
  assumes "fifo_ok (txfifo s)"
  shows "fst (BulkIn s) = (if contents (txfifo s) = [] then None else Some (take 64 (contents (txfifo s))))"
    "contents (txfifo (snd (BulkIn s))) = drop 64 (contents (txfifo s))" "fifo_ok (txfifo (snd (BulkIn s)))"
    "rxfifo (snd (BulkIn s)) = rxfifo s"
proof -
  have z: "fifo_avail (txfifo s) = 0 \<longleftrightarrow> contents (txfifo s) = []"
    using avail_cases(1) [OF assms] assms length_contents [of "txfifo s"]
    by (auto simp: fifo_ok_def simp flip: length_0_conv split: if_splits)
  note g = bulk_get_takes [OF assms, of MAX_PACKET_SIZE]
  show "fst (BulkIn s) = (if contents (txfifo s) = [] then None else Some (take 64 (contents (txfifo s))))"
    "contents (txfifo (snd (BulkIn s))) = drop 64 (contents (txfifo s))" "fifo_ok (txfifo (snd (BulkIn s)))"
    "rxfifo (snd (BulkIn s)) = rxfifo s"
    using g assms z by (auto simp: BulkIn_def MAX_PACKET_SIZE_def case_prod_beta)
qed


text \<open>Packets arrive one after the other, as long as there is room for a whole packet.\<close>

lemma BulkOut_run:
  "fifo_ok (rxfifo s) \<Longrightarrow> \<forall>p \<in> set ps. length p \<le> MAX_PACKET_SIZE \<Longrightarrow> length (contents (rxfifo s)) + length (concat ps) \<le> 191 \<Longrightarrow>
    fifo_ok (rxfifo (fold (\<lambda>p s. snd (BulkOut p s)) ps s))
    \<and> contents (rxfifo (fold (\<lambda>p s. snd (BulkOut p s)) ps s)) = contents (rxfifo s) @ concat ps
    \<and> txfifo (fold (\<lambda>p s. snd (BulkOut p s)) ps s) = txfifo s"
proof (induction ps arbitrary: s)
  case (Cons p ps)
  have "fst (BulkOut p s)"
    using Cons.prems(3) by (auto simp: BulkOut_def fifo_free_def SERIAL_FIFO_SIZE_def MAX_PACKET_SIZE_def)
  note b = BulkOut_stores [OF Cons.prems(1) _ this]
  then show ?case using Cons.IH [of "snd (BulkOut p s)"] Cons.prems by (simp del: length_contents)
qed simp


end
