(* ===== verification/Mendel_Gcode.thy ===== *)
theory Mendel_Gcode
  imports R2C2_Serial Grbl_Planner
begin

text \<open>
  Command lines (\<open>src/libraries/Mendel\<close>): how \<open>app_main\<close> of \<open>mendel.c\<close> collects the characters
  of a line, and the parser of \<open>gcode_parse.c\<close> that reads a line character by character, checks
  its checksum and hands the command to \<open>process_gcode_command\<close>. That function and the accesses
  to the card are arguments here. None of \<open>REQUIRE_LINENUMBER\<close>, \<open>REQUIRE_CHECKSUM\<close> and
  \<open>ASTERISK_IN_CHECKSUM_INCLUDED\<close> is defined in \<open>gcode_parse.h\<close>.
\<close>

section \<open>Numbers\<close>

primrec power_loop :: "rat \<Rightarrow> nat \<Rightarrow> rat \<Rightarrow> rat" where
  "power_loop x 0 result = result"
| "power_loop x (Suc n) result = power_loop x n (double_of (result * x))"

definition power_dbl :: "rat \<Rightarrow> nat \<Rightarrow> rat" where
  "power_dbl x n = power_loop x n 1"

definition inch_to_mm :: "rat \<Rightarrow> rat" where
  "inch_to_mm inches = double_of (inches * double_of (254 / 10))"

section \<open>State\<close>

record GCODE_COMMAND =
  seen_G :: bool
  seen_M :: bool
  seen_X :: bool
  seen_Y :: bool
  seen_Z :: bool
  seen_E :: bool
  seen_F :: bool
  seen_S :: bool
  seen_P :: bool
  seen_N :: bool
  seen_checksum :: bool
  seen_semi_comment :: bool
  seen_parens_comment :: bool
  getting_string :: bool
  option_relative :: bool
  option_inches :: bool
  cmd_G :: U8
  cmd_M :: U16
  target :: tTarget
  cmd_S :: U16
  cmd_P :: U16
  cmd_N :: U32
  N_expected :: U32
  checksum_read :: U8
  checksum_calculated :: U8
  chpos :: U8
  filename :: "U8 list"

text \<open>\<open>cmd_S\<close> is read as a signed number (\<open>int16_t\<close>); \<open>filename\<close> has 120 cells.\<close>

record parser =
  next_target :: GCODE_COMMAND
  last_field :: U8
  read_sign :: bool
  read_exponent :: nat
  read_value :: rat

datatype eParseResult = PR_OK | PR_RESEND | PR_ERROR | PR_BUSY

text \<open>What C leaves undefined: a conversion out of range, and an access outside an array.\<close>

datatype fault = Conversion | Overrun

section \<open>One character\<close>

abbreviation ch_A :: U8 where "ch_A \<equiv> 65"
abbreviation ch_E :: U8 where "ch_E \<equiv> 69"
abbreviation ch_F :: U8 where "ch_F \<equiv> 70"
abbreviation ch_G :: U8 where "ch_G \<equiv> 71"
abbreviation ch_M :: U8 where "ch_M \<equiv> 77"
abbreviation ch_N :: U8 where "ch_N \<equiv> 78"
abbreviation ch_P :: U8 where "ch_P \<equiv> 80"
abbreviation ch_S :: U8 where "ch_S \<equiv> 83"
abbreviation ch_X :: U8 where "ch_X \<equiv> 88"
abbreviation ch_Y :: U8 where "ch_Y \<equiv> 89"
abbreviation ch_Z :: U8 where "ch_Z \<equiv> 90"
abbreviation ch_star :: U8 where "ch_star \<equiv> 42"

definition upper :: "U8 \<Rightarrow> U8" where
  "upper c = (if 97 \<le> c \<and> c \<le> 122 then c AND NOT 32 else c)"

definition starts_field :: "U8 \<Rightarrow> bool" where
  "starts_field c \<longleftrightarrow> ch_A \<le> c \<and> c \<le> ch_Z \<or> c = ch_star"

definition in_mm :: "GCODE_COMMAND \<Rightarrow> rat \<Rightarrow> rat" where
  "in_mm t v = (if option_inches t then inch_to_mm v else v)"

definition converted :: "'a option \<Rightarrow> ('a \<Rightarrow> 'b) \<Rightarrow> fault + 'b" where
  "converted r f = (case r of None \<Rightarrow> Inl Conversion | Some w \<Rightarrow> Inr (f w))"

text \<open>The value of a complete field is stored.\<close>

definition store_field :: "U8 \<Rightarrow> rat \<Rightarrow> GCODE_COMMAND \<Rightarrow> fault + GCODE_COMMAND" where
  "store_field f v t =
     (if f = ch_G then converted (to_range 0 255 v) (\<lambda>w. t\<lparr>cmd_G := w\<rparr>)
      else if f = ch_M then
        converted (to_range 0 65535 v)
          (\<lambda>w. if w = 23 \<or> w = 28 then t\<lparr>cmd_M := w, getting_string := True\<rparr> else t\<lparr>cmd_M := w\<rparr>)
      else if f = ch_X then Inr (t\<lparr>target := (target t)\<lparr>target_x := in_mm t v\<rparr>\<rparr>)
      else if f = ch_Y then Inr (t\<lparr>target := (target t)\<lparr>target_y := in_mm t v\<rparr>\<rparr>)
      else if f = ch_Z then Inr (t\<lparr>target := (target t)\<lparr>target_z := in_mm t v\<rparr>\<rparr>)
      else if f = ch_E then Inr (t\<lparr>target := (target t)\<lparr>target_e := in_mm t v\<rparr>\<rparr>)
      else if f = ch_F then Inr (t\<lparr>target := (target t)\<lparr>feed_rate := in_mm t v\<rparr>\<rparr>)
      else if f = ch_S then converted (to_range (- 32768) 32767 v) (\<lambda>w. t\<lparr>cmd_S := w\<rparr>)
      else if f = ch_P then
        converted (to_range 0 65535 (if cmd_G t = 4 then double_of (v * 1000) else v)) (\<lambda>w. t\<lparr>cmd_P := w\<rparr>)
      else if f = ch_N then converted (to_range 0 4294967295 v) (\<lambda>w. t\<lparr>cmd_N := w\<rparr>)
      else if f = ch_star then converted (to_range 0 255 v) (\<lambda>w. t\<lparr>checksum_read := w\<rparr>)
      else Inr t)"

definition end_field :: "U8 \<Rightarrow> parser \<Rightarrow> fault + parser" where
  "end_field c p =
     (if last_field p \<noteq> 0 \<and> (starts_field c \<or> c = 10 \<or> c = 13) then
        (case store_field (last_field p) (if read_sign p then - read_value p else read_value p) (next_target p) of
           Inl e \<Rightarrow> Inl e
         | Inr t \<Rightarrow> Inr \<lparr>next_target = t, last_field = 0, read_sign = False, read_exponent = 0, read_value = 0\<rparr>)
      else Inr p)"

text \<open>
  A file name. The code tests \<open>chpos < 120\<close> and then writes the cells \<open>chpos\<close> and \<open>chpos + 1\<close>.
\<close>

definition take_string :: "U8 \<Rightarrow> GCODE_COMMAND \<Rightarrow> fault + GCODE_COMMAND" where
  "take_string c t =
     (if getting_string t then
        (if c = 10 \<or> c = 13 \<or> c = 32 \<or> c = ch_star then Inr (t\<lparr>getting_string := False\<rparr>)
         else if unat (chpos t) < 120 then
           (if unat (chpos t) + 1 < 120 then
              Inr (t\<lparr>filename := (filename t)[unat (chpos t) := c, unat (chpos t) + 1 := 0], chpos := chpos t + 1\<rparr>)
            else Inl Overrun)
         else Inr t)
      else Inr t)"

text \<open>The switch on a character outside comments and file names: a field is seen, or a part of a number.\<close>

definition see_field :: "U8 \<Rightarrow> GCODE_COMMAND \<Rightarrow> GCODE_COMMAND" where
  "see_field c t =
     (if c = ch_G then t\<lparr>seen_G := True, seen_M := False, cmd_M := 0\<rparr>
      else if c = ch_M then t\<lparr>seen_M := True, seen_G := False, cmd_G := 0\<rparr>
      else if c = ch_X then t\<lparr>seen_X := True\<rparr>
      else if c = ch_Y then t\<lparr>seen_Y := True\<rparr>
      else if c = ch_Z then t\<lparr>seen_Z := True\<rparr>
      else if c = ch_E then t\<lparr>seen_E := True\<rparr>
      else if c = ch_F then t\<lparr>seen_F := True\<rparr>
      else if c = ch_S then t\<lparr>seen_S := True\<rparr>
      else if c = ch_P then t\<lparr>seen_P := True\<rparr>
      else if c = ch_N then t\<lparr>seen_N := True\<rparr>
      else if c = ch_star then t\<lparr>seen_checksum := True\<rparr>
      else if c = 59 \<or> c = 94 then t\<lparr>seen_semi_comment := True\<rparr>
      else if c = 40 then t\<lparr>seen_parens_comment := True\<rparr>
      else t)"

definition read_digit :: "U8 \<Rightarrow> parser \<Rightarrow> parser" where
  "read_digit c p =
     (if c = 45 then p\<lparr>read_sign := True, read_exponent := 0\<rparr>
      else if c = 46 then (if read_exponent p = 0 then p\<lparr>read_exponent := 1\<rparr> else p)
      else if 48 \<le> c \<and> c \<le> 57 then
        (if read_exponent p = 0 then
           p\<lparr>read_value := double_of (double_of (read_value p * 10) + of_nat (unat (c - 48)))\<rparr>
         else
           p\<lparr>read_value := double_of (read_value p
                 + double_of (of_nat (unat (c - 48)) / power_dbl 10 (read_exponent p))),
             read_exponent := read_exponent p + 1\<rparr>)
      else p)"

definition read_char :: "U8 \<Rightarrow> parser \<Rightarrow> parser" where
  "read_char c p =
     (let p = (if starts_field c then p\<lparr>last_field := c\<rparr> else p)
      in read_digit c (p\<lparr>next_target := see_field c (next_target p)\<rparr>))"

definition crc :: "U8 \<Rightarrow> GCODE_COMMAND \<Rightarrow> GCODE_COMMAND" where
  "crc c t = (if seen_checksum t then t else t\<lparr>checksum_calculated := checksum_calculated t XOR c\<rparr>)"

definition gcode_parse_char :: "U8 \<Rightarrow> parser \<Rightarrow> fault + parser" where
  "gcode_parse_char save_ch p =
     (let c = upper save_ch in
      case end_field c p of
        Inl e \<Rightarrow> Inl e
      | Inr p \<Rightarrow>
          (case take_string c (next_target p) of
             Inl e \<Rightarrow> Inl e
           | Inr t \<Rightarrow>
               let p = p\<lparr>next_target := t\<rparr>;
                   p = (if \<not> seen_semi_comment t \<and> \<not> seen_parens_comment t \<and> \<not> getting_string t then read_char c p
                        else if seen_parens_comment t \<and> c = 41 then p\<lparr>next_target := t\<lparr>seen_parens_comment := False\<rparr>\<rparr>
                        else p)
               in Inr (p\<lparr>next_target := crc save_ch (next_target p)\<rparr>)))"

fun gcode_parse_chars :: "U8 list \<Rightarrow> parser \<Rightarrow> fault + parser" where
  "gcode_parse_chars [] p = Inr p"
| "gcode_parse_chars (c # cs) p = (case gcode_parse_char c p of Inl e \<Rightarrow> Inl e | Inr p \<Rightarrow> gcode_parse_chars cs p)"

section \<open>One line\<close>

text \<open>
  The rest of the firmware, as far as a command line touches it: the parser, whether a file is being
  written, the characters sent to the host, and everything else.
\<close>

record 'w app =
  prs :: parser
  sd_writing_file :: bool
  sent :: "U8 list"
  env :: 'w

definition say :: "U8 list \<Rightarrow> 'w app \<Rightarrow> 'w app" where
  "say cs a = a\<lparr>sent := sent a @ cs\<rparr>"

definition request_resend :: "'w app \<Rightarrow> 'w app" where
  "request_resend a = say (ascii ''rs '' @ serwrite_uint32 (cmd_N (next_target (prs a))) @ crlf) a"

definition reset_line :: "parser \<Rightarrow> parser" where
  "reset_line p =
     (let t = (next_target p)\<lparr>seen_X := False, seen_Y := False, seen_Z := False, seen_E := False, seen_F := False,
                seen_S := False, seen_P := False, seen_N := False, seen_M := False, seen_checksum := False,
                seen_semi_comment := False, seen_parens_comment := False, checksum_read := 0,
                checksum_calculated := 0, chpos := 0, seen_G := False, cmd_G := 0\<rparr>;
          t = (if option_relative t then
                 t\<lparr>target := (target t)\<lparr>target_x := 0, target_y := 0, target_z := 0, target_e := 0\<rparr>\<rparr>
               else t)
      in \<lparr>next_target = t, last_field = 0, read_sign = False, read_exponent = 0, read_value = 0\<rparr>)"

text \<open>While a file is written, a line goes to the file, except the commands of the card, M20 to M29.\<close>

definition write_line ::
  "('w app \<Rightarrow> 'w app) \<Rightarrow> (U8 list \<Rightarrow> 'w app \<Rightarrow> bool \<times> 'w app) \<Rightarrow> U8 list \<Rightarrow> 'w app \<Rightarrow> fault + 'w app" where
  "write_line sd_close sd_write_to_file line a =
     (let t = next_target (prs a) in
      if seen_M t \<and> 20 \<le> cmd_M t \<and> cmd_M t \<le> 29 then
        (if cmd_M t = 29 then
           Inr (say (ascii ''Done saving file'' @ crlf) (sd_close (a\<lparr>sd_writing_file := False\<rparr>)))
         else Inr (say (ascii ''ok'' @ crlf) a))
      else if line = [] then Inl Overrun
      else
        (let line = (if last line = 13 then line[length line - 1 := 10] else line) in
         case sd_write_to_file line a of (ok, a) \<Rightarrow>
           Inr (say (if ok then ascii ''ok'' @ crlf else ascii ''error writing to file'' @ crlf) a)))"

definition process_line ::
  "('w app \<Rightarrow> eParseResult \<times> 'w app) \<Rightarrow> 'w app \<Rightarrow> eParseResult \<times> 'w app" where
  "process_line process_gcode_command a =
     (case process_gcode_command a of (result, a) \<Rightarrow>
        let t = next_target (prs a) in
        (result, if seen_N t then a\<lparr>prs := (prs a)\<lparr>next_target := t\<lparr>N_expected := cmd_N t + 1\<rparr>\<rparr>\<rparr> else a))"

definition gcode_parse_line ::
  "('w app \<Rightarrow> eParseResult \<times> 'w app) \<Rightarrow> ('w app \<Rightarrow> 'w app) \<Rightarrow> (U8 list \<Rightarrow> 'w app \<Rightarrow> bool \<times> 'w app) \<Rightarrow>
     U8 list \<Rightarrow> 'w app \<Rightarrow> fault + eParseResult \<times> 'w app" where
  "gcode_parse_line process_gcode_command sd_close sd_write_to_file line a =
     (case gcode_parse_chars line (prs a) of
        Inl e \<Rightarrow> Inl e
      | Inr p \<Rightarrow>
          (let a = a\<lparr>prs := p\<rparr>; t = next_target p;
               r = (if checksum_calculated t = checksum_read t \<or> \<not> seen_checksum t then
                      (if sd_writing_file a then map_sum id (Pair PR_OK) (write_line sd_close sd_write_to_file line a)
                       else Inr (process_line process_gcode_command a))
                    else
                      Inr (PR_OK, request_resend
                        (say (ascii ''Expected checksum '' @ serwrite_uint32 (ucast (checksum_calculated t)) @ crlf) a)))
           in case r of
                Inl e \<Rightarrow> Inl e
              | Inr (result, a) \<Rightarrow> Inr (result, a\<lparr>prs := reset_line (prs a)\<rparr>)))"

section \<open>Collecting a line\<close>

definition MAX_LINE :: nat where "MAX_LINE = 120"

text \<open>\<open>data\<close> are the first \<open>len\<close> characters of the array.\<close>

record tLineBuffer =
  data :: "U8 list"
  seen_lf :: bool

definition receive_char :: "U8 \<Rightarrow> tLineBuffer \<Rightarrow> tLineBuffer" where
  "receive_char c b =
     (let b = (if length (data b) < MAX_LINE then b\<lparr>data := data b @ [c]\<rparr> else b)
      in if c = 10 \<or> c = 13 then (if length (data b) > 1 then b\<lparr>seen_lf := True\<rparr> else b\<lparr>data := []\<rparr>)
         else b)"

text \<open>
  The loop over the received characters. The USB interrupt only adds characters; \<open>n\<close> bounds the
  number of rounds, and \<open>None\<close> is that they were not enough.
\<close>

fun receive_line :: "nat \<Rightarrow> serial \<Rightarrow> tLineBuffer \<Rightarrow> (serial \<times> tLineBuffer) option" where
  "receive_line n s b =
     (if \<not> seen_lf b \<and> serial_rxchars s \<noteq> 0 then
        (case n of
           0 \<Rightarrow> None
         | Suc n \<Rightarrow> (case serial_popchar s of (c, s) \<Rightarrow> receive_line n s (receive_char c b)))
      else Some (s, b))"

declare receive_line.simps [simp del]

text \<open>A complete line is parsed when the planner has room; a line from the host goes before one from the card.\<close>

definition dispatch_line ::
  "(U8 list \<Rightarrow> 'w app \<Rightarrow> fault + eParseResult \<times> 'w app) \<Rightarrow> bool \<Rightarrow> tLineBuffer \<Rightarrow> tLineBuffer \<Rightarrow> 'w app \<Rightarrow>
     fault + tLineBuffer \<times> tLineBuffer \<times> 'w app" where
  "dispatch_line parse_line queue_full serial_line_buf sd_line_buf a =
     (if queue_full then Inr (serial_line_buf, sd_line_buf, a)
      else if seen_lf serial_line_buf then
        map_sum id (\<lambda>(r, a). (\<lparr>data = [], seen_lf = False\<rparr>, sd_line_buf, a)) (parse_line (data serial_line_buf) a)
      else if seen_lf sd_line_buf then
        map_sum id (\<lambda>(r, a). (serial_line_buf, \<lparr>data = [], seen_lf = False\<rparr>, a)) (parse_line (data sd_line_buf) a)
      else Inr (serial_line_buf, sd_line_buf, a))"

section \<open>Fields\<close>

text \<open>The parser within a field \<open>l\<close> whose digits so far are the number \<open>v\<close>; \<open>l = 0\<close> between fields.\<close>

definition reading :: "U8 \<Rightarrow> rat \<Rightarrow> GCODE_COMMAND \<Rightarrow> parser" where
  "reading l v t = \<lparr>next_target = t, last_field = l, read_sign = False, read_exponent = 0, read_value = v\<rparr>"

lemma reading_sel [simp]:
  "next_target (reading l v t) = t" "last_field (reading l v t) = l" "read_sign (reading l v t) = False"
  "read_exponent (reading l v t) = 0" "read_value (reading l v t) = v"
  "(reading l v t)\<lparr>next_target := t'\<rparr> = reading l v t'" "(reading l v t)\<lparr>last_field := l'\<rparr> = reading l' v t"
  "(reading l v t)\<lparr>read_value := v'\<rparr> = reading l v' t"
  by (simp_all add: reading_def)

text \<open>Neither in a comment nor in a file name.\<close>

definition quiet :: "GCODE_COMMAND \<Rightarrow> bool" where
  "quiet t \<longleftrightarrow> \<not> seen_semi_comment t \<and> \<not> seen_parens_comment t \<and> \<not> getting_string t"

lemma quiet_crc [simp]: "quiet (crc c t) = quiet t"
  by (simp add: quiet_def crc_def)

lemma take_string_quiet: "quiet t \<Longrightarrow> take_string c t = Inr t"
  by (simp add: quiet_def take_string_def)

lemma digit_facts:
  assumes "d < 10"
  shows "upper (48 + word_of_nat d) = 48 + word_of_nat d" "\<not> starts_field (48 + word_of_nat d)"
    "48 + word_of_nat d \<noteq> (10 :: U8)" "48 + word_of_nat d \<noteq> (13 :: U8)"
    "see_field (48 + word_of_nat d) t = t"
    "read_digit (48 + word_of_nat d) (reading l v t) = reading l (double_of (double_of (v * 10) + of_nat d)) t"
proof -
  define c where "c = (48 + word_of_nat d :: U8)"
  have u: "unat c = 48 + d" using assms by (simp add: c_def unat_word_ariths unat_of_nat)
  have m: "c - 48 = word_of_nat d" "unat (word_of_nat d :: U8) = d" using assms by (simp_all add: c_def unat_of_nat)
  note s = word_unat_eq_iff word_le_nat_alt u
  show "upper c = c" "\<not> starts_field c" "c \<noteq> 10" "c \<noteq> 13" using assms by (simp_all add: upper_def starts_field_def s)
  show "see_field c t = t" using assms by (simp add: see_field_def s)
  show "read_digit c (reading l v t) = reading l (double_of (double_of (v * 10) + of_nat d)) t"
    using assms m by (simp add: read_digit_def word_le_nat_alt u) (simp add: s)
qed

lemma parse_digit:
  assumes "quiet t" "d < 10" "n * 10 + d < 2 ^ 53"
  shows "gcode_parse_char (48 + word_of_nat d) (reading l (of_nat n) t)
    = Inr (reading l (of_nat (n * 10 + d)) (crc (48 + word_of_nat d) t))"
proof -
  have "double_of (of_nat n * 10) = of_nat (n * 10)" using double_of_nat [of "n * 10"] assms(3) by simp
  moreover have "double_of (of_nat (n * 10) + of_nat d) = of_nat (n * 10 + d)"
    using double_of_nat [OF assms(3)] by simp
  ultimately show ?thesis
    using assms(1) digit_facts [OF assms(2)]
    by (simp add: gcode_parse_char_def Let_def end_field_def take_string_quiet read_char_def quiet_def)
qed

lemma gcode_parse_chars_append:
  "gcode_parse_chars (cs @ ds) p
    = (case gcode_parse_chars cs p of Inl e \<Rightarrow> Inl e | Inr p \<Rightarrow> gcode_parse_chars ds p)"
  by (induction cs arbitrary: p) (simp_all split: sum.split)

definition crc_all :: "U8 list \<Rightarrow> GCODE_COMMAND \<Rightarrow> GCODE_COMMAND" where
  "crc_all cs t = fold crc cs t"

lemma crc_all_simps [simp]:
  "crc_all [] t = t" "crc_all (c # cs) t = crc_all cs (crc c t)" "crc_all (cs @ ds) t = crc_all ds (crc_all cs t)"
  by (simp_all add: crc_all_def)

lemma quiet_crc_all [simp]: "quiet (crc_all cs t) = quiet t"
  by (induction cs arbitrary: t) simp_all

text \<open>The digits that \<open>serwrite_uint32\<close> prints are read as the number they denote.\<close>

lemma parse_dec:
  "n < 2 ^ 53 \<Longrightarrow> quiet t \<Longrightarrow> gcode_parse_chars (dec n) (reading l 0 t) = Inr (reading l (of_nat n) (crc_all (dec n) t))"
proof (induction n rule: dec.induct)
  case (1 n)
  show ?case
  proof (cases "n < 10")
    case True
    then show ?thesis using parse_digit [of t n 0 l] 1(3) by (simp add: dec.simps [of n])
  next
    case False
    have IH: "gcode_parse_chars (dec (n div 10)) (reading l 0 t)
        = Inr (reading l (of_nat (n div 10)) (crc_all (dec (n div 10)) t))"
      using 1 False by simp
    show ?thesis
      using IH parse_digit [of "crc_all (dec (n div 10)) t" "n mod 10" "n div 10" l] 1(2,3) False
      by (simp add: dec.simps [of n] gcode_parse_chars_append)
  qed
qed

lemma parse_spaces:
  "quiet t \<Longrightarrow> gcode_parse_chars (replicate k 32) (reading l v t) = Inr (reading l v (crc_all (replicate k 32) t))"
proof (induction k arbitrary: t)
  case (Suc k)
  have "gcode_parse_char 32 (reading l v t) = Inr (reading l v (crc 32 t))"
    using Suc.prems
    by (simp add: gcode_parse_char_def Let_def upper_def end_field_def starts_field_def take_string_quiet
        read_char_def quiet_def see_field_def read_digit_def)
  then show ?case using Suc by simp
qed simp

text \<open>The field that is being read is stored as \<open>t'\<close> by the next letter, asterisk or end of line.\<close>

definition settles :: "U8 \<Rightarrow> rat \<Rightarrow> GCODE_COMMAND \<Rightarrow> GCODE_COMMAND \<Rightarrow> bool" where
  "settles l v t t' \<longleftrightarrow> (if l = 0 then v = 0 \<and> t' = t else store_field l v t = Inr t')"

lemma end_field_settles:
  assumes "settles l v t t'" "starts_field c \<or> c = 10 \<or> c = 13"
  shows "end_field c (reading l v t) = Inr (reading 0 0 t')"
  using assms by (auto simp: settles_def end_field_def reading_def split: if_splits)

lemma starts_field_facts:
  assumes "starts_field c"
  shows "upper c = c" "c \<noteq> 0" "quiet (see_field c t) = quiet t" "read_digit c p = p"
proof -
  have c: "65 \<le> unat c \<and> unat c \<le> 90 \<or> unat c = 42"
    using assms by (auto simp: starts_field_def word_le_nat_alt)
  then show "upper c = c" "c \<noteq> 0" "read_digit c p = p"
    by (auto simp: upper_def read_digit_def word_le_nat_alt)
  have "c \<noteq> 59" "c \<noteq> 94" "c \<noteq> 40" using c by auto
  then show "quiet (see_field c t) = quiet t" by (simp add: see_field_def quiet_def)
qed

lemma parse_letter:
  assumes "settles l v t t'" "quiet t'" "starts_field c"
  shows "gcode_parse_char c (reading l v t) = Inr (reading c 0 (crc c (see_field c t')))"
  using starts_field_facts [OF assms(3)] assms end_field_settles [OF assms(1), of c]
  by (simp add: gcode_parse_char_def Let_def take_string_quiet read_char_def) (simp add: quiet_def)

lemma parse_lf:
  assumes "settles l v t t'" "quiet t'"
  shows "gcode_parse_char 10 (reading l v t) = Inr (reading 0 0 (crc 10 t'))"
  using assms(2) end_field_settles [OF assms(1), of 10]
  by (simp add: gcode_parse_char_def Let_def upper_def take_string_quiet read_char_def starts_field_def
      see_field_def read_digit_def)

text \<open>What a field with a whole number means for the command.\<close>

definition field_meaning :: "U8 \<Rightarrow> nat \<Rightarrow> GCODE_COMMAND \<Rightarrow> GCODE_COMMAND" where
  "field_meaning l n t =
     (if l = ch_G then t\<lparr>seen_G := True, seen_M := False, cmd_M := 0, cmd_G := word_of_nat n\<rparr>
      else if l = ch_M then t\<lparr>seen_M := True, seen_G := False, cmd_G := 0, cmd_M := word_of_nat n\<rparr>
      else if l = ch_X then t\<lparr>seen_X := True, target := (target t)\<lparr>target_x := in_mm t (of_nat n)\<rparr>\<rparr>
      else if l = ch_Y then t\<lparr>seen_Y := True, target := (target t)\<lparr>target_y := in_mm t (of_nat n)\<rparr>\<rparr>
      else if l = ch_Z then t\<lparr>seen_Z := True, target := (target t)\<lparr>target_z := in_mm t (of_nat n)\<rparr>\<rparr>
      else if l = ch_E then t\<lparr>seen_E := True, target := (target t)\<lparr>target_e := in_mm t (of_nat n)\<rparr>\<rparr>
      else if l = ch_F then t\<lparr>seen_F := True, target := (target t)\<lparr>feed_rate := in_mm t (of_nat n)\<rparr>\<rparr>
      else if l = ch_S then t\<lparr>seen_S := True, cmd_S := word_of_nat n\<rparr>
      else if l = ch_P then t\<lparr>seen_P := True, cmd_P := word_of_nat (if cmd_G t = 4 then n * 1000 else n)\<rparr>
      else if l = ch_N then t\<lparr>seen_N := True, cmd_N := word_of_nat n\<rparr>
      else if l = ch_star then t\<lparr>seen_checksum := True, checksum_read := word_of_nat n\<rparr>
      else t)"

definition field_fits :: "GCODE_COMMAND \<Rightarrow> U8 \<Rightarrow> nat \<Rightarrow> bool" where
  "field_fits t l n \<longleftrightarrow> starts_field l \<and> n < 2 ^ 53
     \<and> (l = ch_G \<or> l = ch_star \<longrightarrow> n < 256)
     \<and> (l = ch_M \<longrightarrow> n < 65536 \<and> n \<noteq> 23 \<and> n \<noteq> 28)
     \<and> (l = ch_S \<longrightarrow> n < 32768)
     \<and> (l = ch_P \<longrightarrow> (if cmd_G t = 4 then n * 1000 else n) < 65536)
     \<and> (l = ch_N \<longrightarrow> n < 2 ^ 32)"

lemma crc_all_eq:
  "crc_all cs t = (if seen_checksum t then t else t\<lparr>checksum_calculated := fold (\<lambda>c x. x XOR c) cs (checksum_calculated t)\<rparr>)"
  by (induction cs arbitrary: t) (simp_all add: crc_def)

lemma crc_all_fields [simp]:
  "cmd_G (crc_all cs t) = cmd_G t" "in_mm (crc_all cs t) = in_mm t" "target (crc_all cs t) = target t"
  by (simp_all add: crc_all_eq in_mm_def fun_eq_iff)

lemma crc_all_upd:
  "(crc_all cs t)\<lparr>cmd_G := w8\<rparr> = crc_all cs (t\<lparr>cmd_G := w8\<rparr>)" "(crc_all cs t)\<lparr>cmd_M := w\<rparr> = crc_all cs (t\<lparr>cmd_M := w\<rparr>)"
  "(crc_all cs t)\<lparr>cmd_S := w\<rparr> = crc_all cs (t\<lparr>cmd_S := w\<rparr>)" "(crc_all cs t)\<lparr>cmd_P := w\<rparr> = crc_all cs (t\<lparr>cmd_P := w\<rparr>)"
  "(crc_all cs t)\<lparr>cmd_N := w32\<rparr> = crc_all cs (t\<lparr>cmd_N := w32\<rparr>)"
  "(crc_all cs t)\<lparr>checksum_read := w8\<rparr> = crc_all cs (t\<lparr>checksum_read := w8\<rparr>)"
  "(crc_all cs t)\<lparr>target := g\<rparr> = crc_all cs (t\<lparr>target := g\<rparr>)"
  by (simp_all add: crc_all_eq)

lemma store_seen:
  assumes "field_fits t l n"
  shows "store_field l (of_nat n) (crc_all cs (see_field l t)) = Inr (crc_all cs (field_meaning l n t))"
proof -
  have P: "double_of (of_nat n * 1000) = of_nat (n * 1000)" if "n * 1000 < 65536"
    using double_of_nat [of "n * 1000"] that by simp
  have M: "word_of_nat n \<noteq> (23 :: U16)" "word_of_nat n \<noteq> (28 :: U16)" if "n < 65536" "n \<noteq> 23" "n \<noteq> 28"
    using that by (simp_all add: word_unat_eq_iff unat_of_nat)
  have l: "l \<noteq> 59" "l \<noteq> 94" "l \<noteq> 40" using assms by (auto simp: field_fits_def starts_field_def)
  have r: "l = ch_G \<or> l = ch_star \<Longrightarrow> to_range 0 255 (of_nat n) = Some (word_of_nat n :: U8)"
      "l = ch_M \<Longrightarrow> to_range 0 65535 (of_nat n) = Some (word_of_nat n :: U16)"
      "l = ch_S \<Longrightarrow> to_range (- 32768) 32767 (of_nat n) = Some (word_of_nat n :: U16)"
      "l = ch_N \<Longrightarrow> to_range 0 4294967295 (of_nat n) = Some (word_of_nat n :: U32)"
    using assms by (auto simp: field_fits_def to_range_nat)
  have p: "l = ch_P \<Longrightarrow> cmd_G t \<noteq> 4 \<Longrightarrow> to_range 0 65535 (of_nat n) = Some (word_of_nat n :: U16)"
    using assms by (simp add: field_fits_def to_range_nat)
  have m: "l = ch_M \<Longrightarrow> word_of_nat n \<noteq> (23 :: U16) \<and> word_of_nat n \<noteq> (28 :: U16)"
    using assms M by (simp add: field_fits_def)
  show ?thesis
  proof (cases "l = ch_P \<and> cmd_G t = 4")
    case True
    then have "n * 1000 < 65536" using assms by (simp add: field_fits_def)
    then have "to_range 0 65535 (double_of (of_nat n * 1000)) = Some (word_of_nat (n * 1000) :: U16)"
      using P to_range_nat [of 0 "n * 1000" 65535] by simp
    then show ?thesis using True by (simp add: store_field_def see_field_def field_meaning_def converted_def crc_all_upd)
  next
    case False
    then show ?thesis
      using l r p m by (simp add: store_field_def see_field_def field_meaning_def converted_def crc_all_upd in_mm_def)
  qed
qed

lemma quiet_meaning: "field_fits t l n \<Longrightarrow> quiet (field_meaning l n t) = quiet t"
  by (simp add: field_meaning_def quiet_def)

section \<open>Lines\<close>

text \<open>A line as a host prints it: each field is a letter, a number in decimal and some spaces.\<close>

type_synonym field = "U8 \<times> nat \<times> nat"

fun print_field :: "field \<Rightarrow> U8 list" where
  "print_field (l, n, k) = l # dec n @ replicate k 32"

definition print_fields :: "field list \<Rightarrow> U8 list" where
  "print_fields fs = concat (map print_field fs)"

lemma print_fields_simps [simp]:
  "print_fields [] = []" "print_fields (f # fs) = print_field f @ print_fields fs"
  "print_fields (fs @ gs) = print_fields fs @ print_fields gs"
  by (simp_all add: print_fields_def)

fun command :: "field list \<Rightarrow> GCODE_COMMAND \<Rightarrow> GCODE_COMMAND" where
  "command [] t = t"
| "command ((l, n, k) # fs) t = command fs (crc_all (print_field (l, n, k)) (field_meaning l n t))"

fun fields_fit :: "field list \<Rightarrow> GCODE_COMMAND \<Rightarrow> bool" where
  "fields_fit [] t = True"
| "fields_fit ((l, n, k) # fs) t
     \<longleftrightarrow> field_fits t l n \<and> fields_fit fs (crc_all (print_field (l, n, k)) (field_meaning l n t))"

lemma parse_field:
  assumes "settles l v t t'" "quiet t'" "field_fits t' m n"
  shows "gcode_parse_chars (print_field (m, n, k)) (reading l v t)
      = Inr (reading m (of_nat n) (crc_all (print_field (m, n, k)) (see_field m t')))"
    "settles m (of_nat n) (crc_all (print_field (m, n, k)) (see_field m t'))
      (crc_all (print_field (m, n, k)) (field_meaning m n t'))"
proof -
  have m: "starts_field m" "n < 2 ^ 53" using assms(3) by (simp_all add: field_fits_def)
  note sf = starts_field_facts [OF m(1)]
  define t1 where "t1 = crc m (see_field m t')"
  have "quiet t1" using sf(3) assms(2) by (simp add: t1_def)
  then show "gcode_parse_chars (print_field (m, n, k)) (reading l v t)
      = Inr (reading m (of_nat n) (crc_all (print_field (m, n, k)) (see_field m t')))"
    using parse_letter [OF assms(1,2) m(1)] parse_dec [OF m(2), of t1 m] parse_spaces [of "crc_all (dec n) t1" k m "of_nat n"]
    by (simp add: gcode_parse_chars_append t1_def)
  show "settles m (of_nat n) (crc_all (print_field (m, n, k)) (see_field m t'))
      (crc_all (print_field (m, n, k)) (field_meaning m n t'))"
    using store_seen [OF assms(3)] sf(2) by (simp add: settles_def del: print_field.simps)
qed

lemma parse_fields:
  "settles l v t t' \<Longrightarrow> quiet t' \<Longrightarrow> fields_fit fs t' \<Longrightarrow>
    gcode_parse_chars (print_fields fs @ [10]) (reading l v t) = Inr (reading 0 0 (crc 10 (command fs t')))"
proof (induction fs arbitrary: l v t t')
  case Nil
  then show ?case using parse_lf by simp
next
  case (Cons f fs)
  obtain m n k where f: "f = (m, n, k)" by (cases f)
  then have fit: "field_fits t' m n" using Cons.prems(3) by simp
  note field = parse_field [OF Cons.prems(1,2) fit, of k]
  have "quiet (crc_all (print_field (m, n, k)) (field_meaning m n t'))" using quiet_meaning [OF fit] Cons.prems(2) by simp
  from Cons.IH [OF field(2) this] field(1) Cons.prems(3) f
  show ?case by (simp add: gcode_parse_chars_append del: print_field.simps)
qed

text \<open>The checksum that the parser computes is the exclusive or of the characters in front of the asterisk.\<close>

definition xor_all :: "U8 list \<Rightarrow> U8" where
  "xor_all cs = fold (\<lambda>c x. x XOR c) cs 0"

lemma command_crc:
  "\<forall>(l, n, k) \<in> set fs. l \<noteq> ch_star \<Longrightarrow> \<not> seen_checksum t \<Longrightarrow>
    \<not> seen_checksum (command fs t)
    \<and> checksum_calculated (command fs t) = fold (\<lambda>c x. x XOR c) (print_fields fs) (checksum_calculated t)"
proof (induction fs arbitrary: t)
  case (Cons f fs)
  obtain l n k where f: "f = (l, n, k)" by (cases f)
  define u where "u = crc_all (print_field (l, n, k)) (field_meaning l n t)"
  have u: "\<not> seen_checksum u" "checksum_calculated u = fold (\<lambda>c x. x XOR c) (print_field (l, n, k)) (checksum_calculated t)"
    using Cons.prems f by (simp_all add: u_def crc_all_eq field_meaning_def del: print_field.simps)
  show ?case using Cons.IH [OF _ u(1)] Cons.prems(1) f u(2) by (simp add: u_def [symmetric] del: print_field.simps)
qed simp

lemma command_append: "command (fs @ gs) t = command gs (command fs t)"
  by (induction fs t rule: command.induct) simp_all

lemma crc_seen [simp]: "seen_checksum t \<Longrightarrow> crc c t = t" "seen_checksum t \<Longrightarrow> crc_all cs t = t"
  by (simp_all add: crc_def crc_all_eq)

lemma command_star:
  fixes s :: nat
  assumes "\<forall>(l, n, k) \<in> set fs. l \<noteq> ch_star" "\<not> seen_checksum t" "checksum_calculated t = 0"
  defines "c \<equiv> command (fs @ [(ch_star, s, 0)]) t"
  shows "seen_checksum c" "checksum_read c = word_of_nat s" "checksum_calculated c = xor_all (print_fields fs)"
    "cmd_N c = cmd_N (command fs t)"
  using command_crc [OF assms(1,2)] assms(3) by (simp_all add: c_def command_append field_meaning_def xor_all_def)

lemma fields_fit_append: "fields_fit (fs @ gs) t \<longleftrightarrow> fields_fit fs t \<and> fields_fit gs (command fs t)"
  by (induction fs t rule: command.induct) (simp_all del: print_field.simps)

lemma settles_fresh: "settles 0 0 t t"
  by (simp add: settles_def)

section \<open>File names\<close>

definition line_start :: "parser \<Rightarrow> bool" where
  "line_start p \<longleftrightarrow> last_field p = 0 \<and> \<not> getting_string (next_target p) \<and> chpos (next_target p) = 0"

text \<open>After \<open>k\<close> characters at most \<open>k - 1\<close> of them belong to a file name.\<close>

definition name_bound :: "nat \<Rightarrow> parser \<Rightarrow> bool" where
  "name_bound k p \<longleftrightarrow> unat (chpos (next_target p)) \<le> k - 1
     \<and> (getting_string (next_target p) \<or> last_field p \<noteq> 0 \<longrightarrow> 0 < k)"

lemma store_field_name:
  assumes "store_field f v t = Inr t'"
  shows "chpos t' = chpos t" "getting_string t' \<Longrightarrow> getting_string t \<or> f \<noteq> 0"
  using assms by (auto simp: store_field_def converted_def split: if_splits option.splits)

lemma end_field_name:
  assumes "end_field c p = Inr p'" "name_bound k p"
  shows "name_bound k p'" "chpos (next_target p') = chpos (next_target p)"
  using assms store_field_name
  by (auto simp: end_field_def name_bound_def split: if_splits sum.splits)

lemma store_field_conversion: "store_field f v t = Inl e \<Longrightarrow> e = Conversion"
  by (auto simp: store_field_def converted_def split: if_splits option.splits)

lemma see_field_name [simp]: "chpos (see_field c t) = chpos t" "getting_string (see_field c t) = getting_string t"
  by (simp_all add: see_field_def)

lemma read_digit_name [simp]: "next_target (read_digit c p) = next_target p" "last_field (read_digit c p) = last_field p"
  by (simp_all add: read_digit_def)

lemma crc_name [simp]: "chpos (crc c t) = chpos t" "getting_string (crc c t) = getting_string t"
  by (simp_all add: crc_def)

lemma take_string_name:
  assumes "unat (chpos t) \<le> k - 1" "getting_string t \<longrightarrow> 0 < k" "k < 120"
  obtains t' where "take_string c t = Inr t'" "unat (chpos t') \<le> k" "getting_string t' \<Longrightarrow> getting_string t"
    "c = 10 \<or> c = 13 \<Longrightarrow> \<not> getting_string t'" "\<not> getting_string t \<Longrightarrow> t' = t"
proof (cases "getting_string t \<and> \<not> (c = 10 \<or> c = 13 \<or> c = 32 \<or> c = ch_star)")
  case True
  then have "unat (chpos t) + 1 \<le> k" "unat (chpos t) + 1 < 120" using assms by auto
  moreover from this have "unat (chpos t + 1) = unat (chpos t) + 1" by (simp add: unat_word_ariths)
  moreover define t' where
    "t' = t\<lparr>filename := (filename t)[unat (chpos t) := c, unat (chpos t) + 1 := 0], chpos := chpos t + 1\<rparr>"
  ultimately have "take_string c t = Inr t'" "unat (chpos t') \<le> k" "getting_string t' = getting_string t"
    using True by (simp_all add: take_string_def)
  then show ?thesis using True that [of t'] by blast
next
  case False
  show ?thesis
  proof (cases "getting_string t")
    case True
    then show ?thesis using False assms(1) that [of "t\<lparr>getting_string := False\<rparr>"] by (auto simp: take_string_def)
  next
    case f: False
    then show ?thesis using assms(1) that [of t] by (auto simp: take_string_def)
  qed
qed

lemma parse_char_name:
  assumes "name_bound k p" "k < 120"
  shows "case gcode_parse_char c p of
      Inl e \<Rightarrow> e = Conversion
    | Inr p' \<Rightarrow> name_bound (Suc k) p' \<and> (c = 10 \<or> c = 13 \<longrightarrow> \<not> getting_string (next_target p'))"
proof (cases "end_field (upper c) p")
  case (Inl e)
  then show ?thesis by (auto simp: gcode_parse_char_def Let_def end_field_def store_field_conversion split: if_splits sum.splits)
next
  case (Inr q)
  have q: "unat (chpos (next_target q)) \<le> k - 1" "getting_string (next_target q) \<longrightarrow> 0 < k"
    using end_field_name(1) [OF Inr assms(1)] by (simp_all add: name_bound_def)
  obtain t where "take_string (upper c) (next_target q) = Inr t" "unat (chpos t) \<le> k"
      "getting_string t \<Longrightarrow> getting_string (next_target q)" "upper c = 10 \<or> upper c = 13 \<Longrightarrow> \<not> getting_string t"
    using take_string_name [OF q assms(2), of "upper c"] by metis
  moreover have "c = 10 \<or> c = 13 \<Longrightarrow> upper c = c" by (auto simp: upper_def)
  ultimately show ?thesis using Inr
    by (auto simp: gcode_parse_char_def Let_def read_char_def name_bound_def)
qed

lemma parse_chars_name:
  "name_bound k p \<Longrightarrow> k + length cs \<le> 120 \<Longrightarrow>
    (case gcode_parse_chars cs p of
       Inl e \<Rightarrow> e = Conversion
     | Inr p' \<Rightarrow> cs \<noteq> [] \<longrightarrow> last cs = 10 \<or> last cs = 13 \<longrightarrow> \<not> getting_string (next_target p'))"
proof (induction cs arbitrary: k p)
  case (Cons c cs)
  then have "k < 120" by simp
  note step = parse_char_name [OF Cons.prems(1) this, of c]
  show ?case
  proof (cases "gcode_parse_char c p")
    case (Inr q)
    then show ?thesis using step Cons.IH [of "Suc k" q] Cons.prems(2) by (cases "cs = []") (auto split: sum.splits)
  qed (use step in simp)
qed simp

text \<open>Letters of a file name are stored one after the other; the next one behind cell 118 is out of bounds.\<close>

lemma parse_name_char:
  assumes "last_field p = 0" "getting_string (next_target p)" "unat (chpos (next_target p)) + 1 < 120"
  obtains q where "gcode_parse_char ch_A p = Inr q" "last_field q = 0" "getting_string (next_target q)"
    "unat (chpos (next_target q)) = unat (chpos (next_target p)) + 1"
proof -
  have "unat (chpos (next_target p) + 1) = unat (chpos (next_target p)) + 1"
    using assms(3) by (simp add: unat_word_ariths)
  then show ?thesis using assms that by (simp add: gcode_parse_char_def upper_def end_field_def take_string_def Let_def)
qed

lemma parse_name_chars:
  "last_field p = 0 \<Longrightarrow> getting_string (next_target p) \<Longrightarrow> unat (chpos (next_target p)) + k < 120 \<Longrightarrow>
    \<exists>q. gcode_parse_chars (replicate k ch_A) p = Inr q \<and> last_field q = 0 \<and> getting_string (next_target q)
      \<and> unat (chpos (next_target q)) = unat (chpos (next_target p)) + k"
proof (induction k arbitrary: p)
  case (Suc k)
  then have "unat (chpos (next_target p)) + 1 < 120" by simp
  from parse_name_char [OF Suc.prems(1,2) this]
  obtain q where q: "gcode_parse_char ch_A p = Inr q" "last_field q = 0" "getting_string (next_target q)"
      "unat (chpos (next_target q)) = unat (chpos (next_target p)) + 1" .
  show ?case using Suc.IH [OF q(2,3)] Suc.prems(3) q(1,4) by simp
qed simp

lemma parse_name_overrun:
  assumes "last_field p = 0" "getting_string (next_target p)" "chpos (next_target p) = 0"
  shows "gcode_parse_chars (replicate 120 ch_A) p = Inl Overrun"
proof -
  obtain q where q: "gcode_parse_chars (replicate 119 ch_A) p = Inr q" "last_field q = 0" "getting_string (next_target q)"
      "unat (chpos (next_target q)) = 119"
    using parse_name_chars [OF assms(1,2), of 119] assms(3) by auto
  have "gcode_parse_char ch_A q = Inl Overrun"
    using q(2-4) by (simp add: gcode_parse_char_def upper_def end_field_def take_string_def Let_def)
  moreover have "replicate 120 ch_A = replicate 119 ch_A @ [ch_A]" using replicate_add [of 119 1 ch_A] by simp
  ultimately show ?thesis using q(1) by (simp only: gcode_parse_chars_append) simp
qed

section \<open>Receiving a line\<close>

text \<open>The same loop on the characters that wait in the buffer.\<close>

fun collect :: "U8 list \<Rightarrow> tLineBuffer \<Rightarrow> U8 list \<times> tLineBuffer" where
  "collect [] b = ([], b)"
| "collect (c # cs) b = (if seen_lf b then (c # cs, b) else collect cs (receive_char c b))"

lemma receive_line_refines:
  "fifo_ok (rxfifo s) \<Longrightarrow> length (contents (rxfifo s)) \<le> n \<Longrightarrow>
    \<exists>s'. receive_line n s b = Some (s', snd (collect (contents (rxfifo s)) b))
      \<and> fifo_ok (rxfifo s') \<and> contents (rxfifo s') = fst (collect (contents (rxfifo s)) b) \<and> txfifo s' = txfifo s"
proof (induction n arbitrary: s b)
  case 0
  then have "contents (rxfifo s) = []" by (simp add: contents_def)
  moreover from this have "serial_rxchars s = 0"
    using 0 avail_cases(1) [of "rxfifo s"] length_contents [of "rxfifo s"] by (auto simp: serial_rxchars_def fifo_ok_def split: if_splits)
  ultimately show ?case using 0 by (simp add: receive_line.simps)
next
  case (Suc n)
  have av: "serial_rxchars s = int (length (contents (rxfifo s)))"
    using avail_cases(1) [OF Suc.prems(1)] Suc.prems(1) by (auto simp: serial_rxchars_def fifo_ok_def)
  show ?case
  proof (cases "contents (rxfifo s)")
    case Nil
    then show ?thesis using Suc.prems av by (simp add: receive_line.simps)
  next
    case (Cons c cs)
    have pop: "serial_popchar s = (c, s\<lparr>rxfifo := snd (fifo_get (rxfifo s))\<rparr>)"
        "fifo_ok (snd (fifo_get (rxfifo s)))" "contents (snd (fifo_get (rxfifo s))) = cs"
      using fifo_get_refines(2) [OF Suc.prems(1) Cons] by (auto simp: serial_popchar_def case_prod_beta)
    show ?thesis
    proof (cases "seen_lf b")
      case True
      then show ?thesis using Suc.prems Cons by (simp add: receive_line.simps)
    next
      case False
      then show ?thesis
        using Suc.IH [of "s\<lparr>rxfifo := snd (fifo_get (rxfifo s))\<rparr>" "receive_char c b"] Suc.prems(2) Cons av pop
        by (simp add: receive_line.simps [of "Suc n"])
    qed
  qed
qed

lemma collect_body:
  "\<forall>c \<in> set cs. c \<noteq> 10 \<and> c \<noteq> 13 \<Longrightarrow> length (data b) + length cs \<le> MAX_LINE \<Longrightarrow> \<not> seen_lf b \<Longrightarrow>
    collect (cs @ ds) b = collect ds (b\<lparr>data := data b @ cs\<rparr>)"
  by (induction cs arbitrary: b) (simp_all add: receive_char_def Let_def)

lemma collect_line:
  assumes "\<forall>c \<in> set cs. c \<noteq> 10 \<and> c \<noteq> 13" "cs \<noteq> []" "length cs < MAX_LINE"
  shows "collect (cs @ 10 # rest) \<lparr>data = [], seen_lf = False\<rparr> = (rest, \<lparr>data = cs @ [10], seen_lf = True\<rparr>)"
proof -
  have "collect (10 # rest) \<lparr>data = cs, seen_lf = False\<rparr> = collect rest \<lparr>data = cs @ [10], seen_lf = True\<rparr>"
    using assms(2,3) by (simp add: receive_char_def Let_def)
  moreover have "collect rest \<lparr>data = cs @ [10], seen_lf = True\<rparr> = (rest, \<lparr>data = cs @ [10], seen_lf = True\<rparr>)"
    by (cases rest) simp_all
  ultimately show ?thesis using collect_body [OF assms(1), of "\<lparr>data = [], seen_lf = False\<rparr>" "10 # rest"] assms(3) by simp
qed

lemma dec_chars: "c \<in> set (dec n) \<Longrightarrow> c \<noteq> 10 \<and> c \<noteq> 13"
proof (induction n rule: dec.induct)
  case (1 n)
  have "n mod 10 < 10" by simp
  note d = digit_facts(3,4) [OF this] digit_facts(3,4) [of n]
  show ?case
  proof (cases "n < 10")
    case True
    then show ?thesis using 1(2) d by (simp add: dec.simps [of n])
  next
    case False
    then show ?thesis using 1 d by (auto simp: dec.simps [of n])
  qed
qed

lemma print_fields_chars: "fields_fit fs t \<Longrightarrow> \<forall>c \<in> set (print_fields fs). c \<noteq> 10 \<and> c \<noteq> 13"
proof (induction fs t rule: fields_fit.induct)
  case (2 l n k fs t)
  then have "starts_field l" by (simp add: field_fits_def)
  then have "l \<noteq> 10" "l \<noteq> 13" by (auto simp: starts_field_def)
  then show ?case using 2 dec_chars by auto
qed simp

section \<open>Properties\<close>

text \<open>
  C9. Round trip of a command line: a line of fields, each a letter with a whole number as
  \<open>serwrite_uint32\<close> would print it and any number of spaces, is read back as the command it stands
  for. Every field arrives in its variable with its value (N up to 32 bits, a dwell in milliseconds,
  coordinates in inches converted), the checksum is that of the characters, and the parser is ready
  for the next field.
\<close>

theorem gcode_line_round_trip:
  assumes "quiet t" "fields_fit fs t"
  shows "gcode_parse_chars (print_fields fs @ [10]) (reading 0 0 t) = Inr (reading 0 0 (crc 10 (command fs t)))"
  by (rule parse_fields [OF settles_fresh assms])

definition blank_command :: GCODE_COMMAND where
  "blank_command =
     \<lparr>seen_G = False, seen_M = False, seen_X = False, seen_Y = False, seen_Z = False, seen_E = False,
      seen_F = False, seen_S = False, seen_P = False, seen_N = False, seen_checksum = False,
      seen_semi_comment = False, seen_parens_comment = False, getting_string = False,
      option_relative = False, option_inches = False, cmd_G = 0, cmd_M = 0,
      target = \<lparr>target_x = 0, target_y = 0, target_z = 0, target_e = 0, feed_rate = 0, invert_feed_rate = 0\<rparr>,
      cmd_S = 0, cmd_P = 0, cmd_N = 0, N_expected = 0, checksum_read = 0, checksum_calculated = 0, chpos = 0,
      filename = replicate 120 0\<rparr>"

text \<open>\<open>N7 G1 X150\<close>.\<close>

definition example_line :: "field list" where
  "example_line = [(ch_N, 7, 1), (ch_G, 1, 1), (ch_X, 150, 0)]"

lemma example_line_fits: "quiet blank_command" "fields_fit example_line blank_command"
    "\<forall>(l, n, k) \<in> set example_line. l \<noteq> ch_star"
  by (simp_all add: quiet_def blank_command_def example_line_def field_fits_def starts_field_def field_meaning_def)

lemma example_line_chars: "print_fields example_line = [78, 55, 32, 71, 49, 32, 88, 49, 53, 48]"
  by (simp add: example_line_def dec.simps)

theorem gcode_line_round_trip_witness:
  "\<exists>t. gcode_parse_chars [78, 55, 32, 71, 49, 32, 88, 49, 53, 48, 10] (reading 0 0 blank_command) = Inr (reading 0 0 t)
     \<and> seen_N t \<and> cmd_N t = 7 \<and> seen_G t \<and> cmd_G t = 1 \<and> seen_X t \<and> target_x (target t) = 150"
proof (intro exI [of _ "crc 10 (command example_line blank_command)"] conjI)
  show "gcode_parse_chars [78, 55, 32, 71, 49, 32, 88, 49, 53, 48, 10] (reading 0 0 blank_command)
      = Inr (reading 0 0 (crc 10 (command example_line blank_command)))"
    using gcode_line_round_trip [OF example_line_fits(1,2)] by (simp add: example_line_chars)
qed (simp_all add: example_line_def field_meaning_def crc_def crc_all_eq in_mm_def blank_command_def)



text \<open>
  C30. The file name of M23 and M28 stays within its array: a line of at most 120 characters that
  ends with an end of line and starts between two lines can only fail in the conversion of a number,
  and it leaves the parser between two lines again.
\<close>

theorem file_name_in_bounds:
  assumes "line_start p" "length line \<le> MAX_LINE" "line \<noteq> []" "last line = 10 \<or> last line = 13"
  shows "case gcode_parse_chars line p of Inl e \<Rightarrow> e = Conversion | Inr p' \<Rightarrow> line_start (reset_line p')"
proof -
  have "name_bound 0 p" using assms(1) by (simp add: line_start_def name_bound_def)
  from parse_chars_name [OF this, of line] assms(2-4)
  show ?thesis by (auto simp: MAX_LINE_def line_start_def reset_line_def Let_def split: sum.splits)
qed

theorem file_name_in_bounds_witness:
  "case gcode_parse_chars ([77, 50, 51, 32] @ replicate 115 ch_A @ [10]) (reading 0 0 blank_command) of
     Inl e \<Rightarrow> e = Conversion | Inr p' \<Rightarrow> line_start (reset_line p')"
  by (rule file_name_in_bounds) (simp_all add: line_start_def blank_command_def MAX_LINE_def)

text \<open>
  A longer line loses its end of line in the line buffer. With M23 it leaves the parser inside
  the file name, and 120 characters of the next line write the cell behind the array.
\<close>

lemma file_name_overrun:
  assumes "quiet t" "chpos t = 0"
  shows "\<exists>q. gcode_parse_chars ([ch_M, 50, 51] @ replicate 117 ch_A) (reading 0 0 t) = Inr q
    \<and> gcode_parse_chars (replicate 120 ch_A) (reset_line q) = Inl Overrun"
proof -
  have m: "starts_field ch_M" "starts_field ch_A" by (simp_all add: starts_field_def)
  define u where "u = crc ch_M (see_field ch_M t)"
  have "quiet u" using assms(1) starts_field_facts(3) [OF m(1)] by (simp add: u_def)
  from parse_dec [OF _ this, of 23 ch_M]
  have "gcode_parse_chars [50, 51] (reading ch_M 0 u) = Inr (reading ch_M 23 (crc_all [50, 51] u))" by (simp add: dec.simps)
  then have a: "gcode_parse_chars [ch_M, 50, 51] (reading 0 0 t) = Inr (reading ch_M 23 (crc_all [50, 51] u))"
    using parse_letter [OF settles_fresh assms(1) m(1)] by (simp add: u_def)
  have "to_range 0 65535 23 = Some (23 :: U16)" using to_range_nat [of 0 23 65535] by simp
  moreover have "chpos (crc_all [50, 51] u) = 0" using assms(2) by (simp add: u_def)
  ultimately obtain v where v: "gcode_parse_char ch_A (reading ch_M 23 (crc_all [50, 51] u)) = Inr v" "last_field v = 0"
      "getting_string (next_target v)" "chpos (next_target v) = 1"
    by (simp add: gcode_parse_char_def upper_def end_field_def m(2) store_field_def converted_def take_string_def Let_def)
  obtain q where q: "gcode_parse_chars (replicate 116 ch_A) v = Inr q" "getting_string (next_target q)"
    using parse_name_chars [OF v(2,3), of 116] v(4) by auto
  have "replicate 117 ch_A = ch_A # replicate 116 ch_A" using replicate_Suc [of 116 ch_A] by simp
  then have "gcode_parse_chars ([ch_M, 50, 51] @ replicate 117 ch_A) (reading 0 0 t) = Inr q"
    using a v(1) q(1) by (simp only: gcode_parse_chars_append gcode_parse_chars.simps sum.case)
  moreover have "gcode_parse_chars (replicate 120 ch_A) (reset_line q) = Inl Overrun"
    using q(2) by (intro parse_name_overrun) (simp_all add: reset_line_def Let_def)
  ultimately show ?thesis by blast
qed


text \<open>An idle port, and the line of the example in two packets.\<close>

definition example_port :: serial where
  "example_port = \<lparr>rxfifo = fifo_init (\<lambda>_. 0), txfifo = fifo_init (\<lambda>_. 0)\<rparr>"


text \<open>The parser state is well typed: the last field is a letter, an asterisk or none, and the file name has its 120 cells.\<close>

definition parser_typed :: "parser \<Rightarrow> bool" where
  "parser_typed p \<longleftrightarrow> (last_field p = 0 \<or> starts_field (last_field p)) \<and> length (filename (next_target p)) = 120
     \<and> unat (chpos (next_target p)) < 120"

lemma store_field_typed: "store_field f v t = Inr t' \<Longrightarrow> filename t' = filename t \<and> chpos t' = chpos t"
  by (auto simp: store_field_def converted_def split: if_splits option.splits)

lemma take_string_typed:
  assumes "take_string c t = Inr t'" "length (filename t) = 120" "unat (chpos t) < 120"
  shows "length (filename t') = 120 \<and> unat (chpos t') < 120"
proof -
  have "unat (chpos t + 1) < 120" if "unat (chpos t) + 1 < 120" using that by (simp add: unat_word_ariths)
  then show ?thesis using assms by (auto simp: take_string_def split: if_splits)
qed

lemma read_char_typed: "parser_typed p \<Longrightarrow> parser_typed (read_char c p)"
  by (simp add: read_char_def Let_def parser_typed_def read_digit_def see_field_def)

lemma gcode_parse_char_typed:
  assumes "parser_typed p" "gcode_parse_char c p = Inr p'"
  shows "parser_typed p'"
proof -
  obtain q t where q: "end_field (upper c) p = Inr q" and t: "take_string (upper c) (next_target q) = Inr t"
    and p': "p' = (let p = q\<lparr>next_target := t\<rparr>;
        p = (if \<not> seen_semi_comment t \<and> \<not> seen_parens_comment t \<and> \<not> getting_string t then read_char (upper c) p
             else if seen_parens_comment t \<and> upper c = 41 then p\<lparr>next_target := t\<lparr>seen_parens_comment := False\<rparr>\<rparr> else p)
        in p\<lparr>next_target := crc c (next_target p)\<rparr>)"
    using assms(2) by (auto simp: gcode_parse_char_def Let_def split: sum.splits)
  have "parser_typed q"
    using q assms(1) store_field_typed by (fastforce simp: end_field_def parser_typed_def split: if_splits sum.splits)
  then have "parser_typed (q\<lparr>next_target := t\<rparr>)" using take_string_typed [OF t] by (simp add: parser_typed_def)
  then show ?thesis using read_char_typed [of "q\<lparr>next_target := t\<rparr>" "upper c"]
    unfolding p' Let_def by (auto simp: parser_typed_def crc_def)
qed

lemma gcode_parse_chars_typed: "parser_typed p \<Longrightarrow> gcode_parse_chars cs p = Inr p' \<Longrightarrow> parser_typed p'"
  by (induction cs arbitrary: p) (auto split: sum.splits intro: gcode_parse_char_typed)

text \<open>How a line ends: with a request to send it again, in the file, or as a command.\<close>

lemma parse_line_cases:
  assumes "gcode_parse_line cmd close write line a = Inr (r, a')"
  obtains p b where "gcode_parse_chars line (prs a) = Inr p" "a' = b\<lparr>prs := reset_line (prs b)\<rparr>"
    "(\<exists>cs. b = request_resend (say cs (a\<lparr>prs := p\<rparr>))) \<or> write_line close write line (a\<lparr>prs := p\<rparr>) = Inr b
      \<or> b = snd (process_line cmd (a\<lparr>prs := p\<rparr>))"
proof -
  obtain p where p: "gcode_parse_chars line (prs a) = Inr p" using assms by (auto simp: gcode_parse_line_def split: sum.splits)
  define a1 where "a1 = a\<lparr>prs := p\<rparr>"
  define ok where "ok = (checksum_calculated (next_target p) = checksum_read (next_target p) \<or> \<not> seen_checksum (next_target p))"
  let ?s = "say (ascii ''Expected checksum '' @ serwrite_uint32 (ucast (checksum_calculated (next_target p))) @ crlf) a1"
  consider "\<not> ok" "a' = (request_resend ?s)\<lparr>prs := reset_line (prs (request_resend ?s))\<rparr>"
    | b where "write_line close write line a1 = Inr b" "a' = b\<lparr>prs := reset_line (prs b)\<rparr>"
    | "a' = (snd (process_line cmd a1))\<lparr>prs := reset_line (prs (snd (process_line cmd a1)))\<rparr>"
  proof (cases ok)
    case False
    then show ?thesis using assms p that(1) by (simp add: gcode_parse_line_def Let_def a1_def ok_def)
  next
    case True
    then show ?thesis using assms p that(2,3)
      by (cases "sd_writing_file a"; cases "write_line close write line a1")
        (auto simp: gcode_parse_line_def Let_def a1_def ok_def split: prod.splits)
  qed
  then show ?thesis using that [OF p] by cases (auto simp: a1_def)
qed

end
