(* ===== verification/Mendel_Temp.thy ===== *)
theory Mendel_Temp
  imports R2C2_Serial "HOL-Library.Signed_Division"
begin

text \<open>
  The temperature control (\<open>src/libraries/Mendel/src/temp.c\<close>): the filter of the converter values, the
  interpolation in the table of the sensors, the heaters of the extruder and of the bed, and the
  report to the host. The values of the converter are inputs of the tick.
\<close>

section \<open>State\<close>

definition NUMBER_OF_SENSORS :: nat where "NUMBER_OF_SENSORS = 2"
definition EXTRUDER_0 :: nat where "EXTRUDER_0 = 0"
definition HEATED_BED_0 :: nat where "HEATED_BED_0 = 1"
definition NUMTEMPS :: nat where "NUMTEMPS = 31"
definition NUM_TICKS :: U16 where "NUM_TICKS = 20"

text \<open>A row of the table: the converter values of the extruder and of the bed at a temperature.\<close>

type_synonym row = "U16 \<times> U16 \<times> U16"

definition col :: "nat \<Rightarrow> row \<Rightarrow> U16" where
  "col k r = (case r of (a, b, c) \<Rightarrow> if k = 0 then a else if k = 1 then b else c)"

definition set_col :: "nat \<Rightarrow> U16 \<Rightarrow> row \<Rightarrow> row" where
  "set_col k v r = (case r of (a, b, c) \<Rightarrow> if k = 0 then (v, b, c) else if k = 1 then (a, v, c) else (a, b, v))"

definition temptable_init :: "row list" where
  "temptable_init =
     [(1009, 36, 300), (1119, 42, 290), (1240, 48, 280), (1372, 56, 270),
      (1517, 65, 260), (1673, 76, 250), (1839, 90, 240), (2015, 106, 230),
      (2198, 126, 220), (2385, 151, 210), (2573, 182, 200), (2759, 220, 190),
      (2940, 268, 180), (3112, 328, 170), (3270, 402, 160), (3415, 496, 150),
      (3544, 614, 140), (3655, 761, 130), (3750, 941, 120), (3830, 1161, 110),
      (3894, 1420, 100), (3946, 1719, 90), (3986, 2048, 80), (4017, 2394, 70),
      (4041, 2737, 60), (4058, 3056, 50), (4070, 3335, 40), (4079, 3563, 30),
      (4085, 3738, 20), (4089, 3866, 10), (4092, 3954, 0)]"

record temp_state =
  temptable :: "row list"
  current_temp :: "nat \<Rightarrow> U16"
  target_temp :: "nat \<Rightarrow> U16"
  adc_filtered :: "nat \<Rightarrow> U32"
  ticks :: U16
  extruder_heater :: bool
  heated_bed :: bool
  steptimeout :: U16

section \<open>Operations\<close>

definition temp_set :: "U16 \<Rightarrow> nat \<Rightarrow> temp_state \<Rightarrow> temp_state" where
  "temp_set t n s =
     (let s = (if t \<noteq> 0 then s\<lparr>steptimeout := 0\<rparr> else s) in s\<lparr>target_temp := (target_temp s)(n := t)\<rparr>)"

definition temp_get :: "nat \<Rightarrow> temp_state \<Rightarrow> U16" where
  "temp_get n s = current_temp s n"

definition temp_get_target :: "nat \<Rightarrow> temp_state \<Rightarrow> U16" where
  "temp_get_target n s = target_temp s n"

text \<open>The comparison is one of integers, since the operands are promoted.\<close>

definition temp_achieved :: "nat \<Rightarrow> temp_state \<Rightarrow> U8" where
  "temp_achieved n s = (if uint (current_temp s n) \<ge> uint (target_temp s n) - 2 then 255 else 0)"

definition temp_print :: "temp_state \<Rightarrow> U8 list option" where
  "temp_print s =
     sersendf 0 (ascii ''ok T:%u.0 B:%u.0'' @ crlf)
       [Word (ucast (current_temp s EXTRUDER_0)), Word (ucast (current_temp s HEATED_BED_0))]"

text \<open>The loop over the table from row \<open>i\<close> on; \<open>raw\<close> is behind the first row.\<close>

fun interpolate :: "nat \<Rightarrow> int \<Rightarrow> row list \<Rightarrow> int" where
  "interpolate k raw (p # r # rs) =
     (if raw < uint (col k r) then
        uint (col 2 p) + ((raw - uint (col k p)) * (uint (col 2 r) - uint (col 2 p))) sdiv (uint (col k r) - uint (col k p))
      else interpolate k raw (r # rs))"
| "interpolate k raw _ = 0"

definition table_temp :: "nat \<Rightarrow> int \<Rightarrow> row list \<Rightarrow> int" where
  "table_temp k raw tab =
     (if raw < uint (col k (tab ! 0)) then uint (col 2 (tab ! 0))
      else if raw \<ge> uint (col k (tab ! (NUMTEMPS - 1))) then uint (col 2 (tab ! (NUMTEMPS - 1)))
      else interpolate k raw tab)"

text \<open>\<open>adc\<close>: the values of the converter for the two sensors.\<close>

definition read_temp :: "(nat \<Rightarrow> U16) \<Rightarrow> nat \<Rightarrow> temp_state \<Rightarrow> U16 \<times> temp_state" where
  "read_temp adc n s =
     (let raw = (if n = EXTRUDER_0 \<or> n = HEATED_BED_0 then ucast (adc n) else 0);
          s = s\<lparr>adc_filtered := (adc_filtered s)(n := (adc_filtered s n * 7 + raw) div 8)\<rparr>
      in (word_of_int (table_temp n (sint (adc_filtered s n)) (temptable s)), s))"

definition temp_tick :: "(nat \<Rightarrow> U16) \<Rightarrow> temp_state \<Rightarrow> temp_state" where
  "temp_tick adc s =
     (let (t, s) = read_temp adc EXTRUDER_0 s;
          s = s\<lparr>current_temp := (current_temp s)(EXTRUDER_0 := t)\<rparr>;
          (t, s) = read_temp adc HEATED_BED_0 s;
          s = s\<lparr>current_temp := (current_temp s)(HEATED_BED_0 := t)\<rparr>;
          s = s\<lparr>ticks := ticks s + 1\<rparr>
      in if ticks s = NUM_TICKS then
           s\<lparr>extruder_heater := current_temp s EXTRUDER_0 < target_temp s EXTRUDER_0,
             heated_bed := current_temp s HEATED_BED_0 < target_temp s HEATED_BED_0,
             ticks := 0\<rparr>
         else s)"

text \<open>The first row with this temperature, from row \<open>i\<close> on.\<close>

fun find_row :: "U16 \<Rightarrow> nat \<Rightarrow> row list \<Rightarrow> nat option" where
  "find_row t i [] = None"
| "find_row t i (r # rs) = (if col 2 r = t then Some i else find_row t (i + 1) rs)"

definition temp_set_table_entry :: "nat \<Rightarrow> U16 \<Rightarrow> U16 \<Rightarrow> temp_state \<Rightarrow> bool \<times> temp_state" where
  "temp_set_table_entry n t v s =
     (if n < NUMBER_OF_SENSORS then
        (case find_row t 0 (temptable s) of
           None \<Rightarrow> (False, s)
         | Some i \<Rightarrow> (True, s\<lparr>temptable := (temptable s)[i := set_col n v (temptable s ! i)]\<rparr>))
      else (False, s))"

definition temp_get_table_entry :: "nat \<Rightarrow> U16 \<Rightarrow> temp_state \<Rightarrow> U16" where
  "temp_get_table_entry n t s =
     (if n < NUMBER_OF_SENSORS then
        (case find_row t 0 (temptable s) of None \<Rightarrow> 0xffff | Some i \<Rightarrow> col n (temptable s ! i))
      else 0xffff)"

section \<open>Interpolation\<close>

text \<open>The temperature between two rows falls linearly, rounded towards the warmer one.\<close>

lemma segment_eq:
  assumes "0 \<le> (x :: int)" "0 < d" "0 \<le> c"
  shows "(x * - c) sdiv d = - (x * c div d)"
proof (cases "x * c = 0")
  case True
  then have "x * - c = 0" by simp
  then show ?thesis using True by (simp only:) (simp add: signed_divide_int_def)
next
  case False
  then have "0 < x * c" using assms by (metis less_le mult_nonneg_nonneg)
  then have "sgn (x * - c) = - 1" "\<bar>x * - c\<bar> = x * c" using False by (simp_all add: sgn_if)
  then show ?thesis using assms(2) by (simp add: signed_divide_int_def)
qed

lemma segment_bounds:
  assumes "0 \<le> (x :: int)" "x < d" "0 \<le> c"
  shows "0 \<le> x * c div d" "x * c div d \<le> c"
proof -
  show "0 \<le> x * c div d" using assms by (simp add: pos_imp_zdiv_nonneg_iff)
  have "x * c \<le> c * d" using assms by (simp add: mult.commute mult_left_mono)
  then have "x * c div d \<le> c * d div d" using assms by (intro zdiv_mono1) auto
  then show "x * c div d \<le> c" using assms by simp
qed

definition falling :: "row list \<Rightarrow> bool" where
  "falling tab \<longleftrightarrow> sorted_wrt (\<lambda>p r. uint (col 2 r) \<le> uint (col 2 p)) tab"

lemma interpolate_segment:
  assumes "uint (col k p) \<le> raw" "raw < uint (col k r)" "uint (col 2 r) \<le> uint (col 2 p)"
  shows "interpolate k raw (p # r # rs)
    = uint (col 2 p) - (raw - uint (col k p)) * (uint (col 2 p) - uint (col 2 r)) div (uint (col k r) - uint (col k p))"
  using assms segment_eq [of "raw - uint (col k p)" "uint (col k r) - uint (col k p)" "uint (col 2 p) - uint (col 2 r)"]
  by simp

lemma interpolate_bounds:
  "falling tab \<Longrightarrow> tab \<noteq> [] \<Longrightarrow> uint (col k (hd tab)) \<le> raw \<Longrightarrow> raw < uint (col k (last tab)) \<Longrightarrow>
    uint (col 2 (last tab)) \<le> interpolate k raw tab \<and> interpolate k raw tab \<le> uint (col 2 (hd tab))"
proof (induction k raw tab rule: interpolate.induct)
  case (1 k raw p r rs)
  have f: "falling (r # rs)" "uint (col 2 r) \<le> uint (col 2 p)" using 1(2) by (simp_all add: falling_def)
  have l: "uint (col 2 (last (r # rs))) \<le> uint (col 2 r)" using f(1) by (auto simp: falling_def)
  show ?case
  proof (cases "raw < uint (col k r)")
    case True
    have "0 \<le> raw - uint (col k p)" "raw - uint (col k p) < uint (col k r) - uint (col k p)"
        "0 \<le> uint (col 2 p) - uint (col 2 r)"
      using True 1(4) f(2) by simp_all
    from segment_bounds [OF this] interpolate_segment [of k p raw r rs] True 1(4) f(2) l show ?thesis by simp
  next
    case False
    then show ?thesis using 1 f l by simp
  qed
qed auto

text \<open>A hotter sensor has a smaller converter value: the temperature never rises with the value.\<close>

lemma interpolate_antitone:
  "falling tab \<Longrightarrow> tab \<noteq> [] \<Longrightarrow> uint (col k (hd tab)) \<le> raw \<Longrightarrow> raw \<le> raw' \<Longrightarrow> raw' < uint (col k (last tab)) \<Longrightarrow>
    interpolate k raw' tab \<le> interpolate k raw tab"
proof (induction k raw tab rule: interpolate.induct)
  case (1 k raw p r rs)
  have f: "falling (r # rs)" "uint (col 2 r) \<le> uint (col 2 p)" using 1(2) by (simp_all add: falling_def)
  show ?case
  proof (cases "raw < uint (col k r)")
    case lo: True
    let ?c = "uint (col 2 p) - uint (col 2 r)" and ?d = "uint (col k r) - uint (col k p)"
    have s: "interpolate k raw (p # r # rs) = uint (col 2 p) - (raw - uint (col k p)) * ?c div ?d"
      using interpolate_segment 1(4) lo f(2) by simp
    show ?thesis
    proof (cases "raw' < uint (col k r)")
      case True
      have "(raw - uint (col k p)) * ?c div ?d \<le> (raw' - uint (col k p)) * ?c div ?d"
        using 1(5) f(2) 1(4) lo by (intro zdiv_mono1 mult_right_mono) auto
      then show ?thesis using s interpolate_segment [of k p raw' r rs] True 1(4,5) f(2) by simp
    next
      case False
      have "interpolate k raw' (r # rs) \<le> uint (col 2 r)"
        using interpolate_bounds [OF f(1), of k raw'] False 1(6) by simp
      moreover have "uint (col 2 r) \<le> interpolate k raw (p # r # rs)"
        using s segment_bounds(2) [of "raw - uint (col k p)" ?d ?c] 1(4) lo f(2) by simp
      ultimately show ?thesis using False by simp
    qed
  next
    case False
    then show ?thesis using 1 f by simp
  qed
qed auto

section \<open>Invariant\<close>

definition temp_init :: temp_state where
  "temp_init = \<lparr>temptable = temptable_init, current_temp = (\<lambda>_. 0), target_temp = (\<lambda>_. 0), adc_filtered = (\<lambda>_. 0),
     ticks = 0, extruder_heater = False, heated_bed = False, steptimeout = 0\<rparr>"

text \<open>The converter has twelve bits. The host sets target temperatures and entries of the table (M500, M501).\<close>

inductive temp_step :: "temp_state \<Rightarrow> temp_state \<Rightarrow> bool" where
  tick: "\<forall>n. unat (adc n) \<le> 4095 \<Longrightarrow> temp_step s (temp_tick adc s)"
| target: "temp_step s (temp_set t n s)"
| entry: "temp_step s (snd (temp_set_table_entry n t v s))"

inductive_cases temp_stepE: "temp_step s s'"

definition table_ok :: "row list \<Rightarrow> bool" where
  "table_ok tab \<longleftrightarrow> map (col 2) tab = map (col 2) temptable_init"

definition temps_ok :: "temp_state \<Rightarrow> bool" where
  "temps_ok s \<longleftrightarrow> table_ok (temptable s) \<and> (\<forall>n. unat (adc_filtered s n) \<le> 4095) \<and> (\<forall>n. unat (current_temp s n) \<le> 300)
     \<and> unat (ticks s) < 20"

lemma table_ok_facts:
  assumes "table_ok tab"
  shows "length tab = 31" "tab \<noteq> []" "falling tab" "uint (col 2 (hd tab)) = 300" "uint (col 2 (last tab)) = 0"
proof -
  have "length (map (col 2) tab) = length temptable_init" using assms by (simp add: table_ok_def)
  then show l: "length tab = 31" by (simp add: temptable_init_def)
  then show n: "tab \<noteq> []" by auto
  have "sorted_wrt (\<lambda>x y. uint y \<le> uint x) (map (col 2) temptable_init)" by (simp add: temptable_init_def col_def)
  then have "sorted_wrt (\<lambda>x y. uint y \<le> uint x) (map (col 2) tab)" using assms by (simp add: table_ok_def)
  then show "falling tab" by (simp add: falling_def sorted_wrt_map)
  have "col 2 (hd tab) = hd (map (col 2) temptable_init)" "col 2 (last tab) = last (map (col 2) temptable_init)"
    using assms n by (metis hd_map table_ok_def) (use assms n in \<open>metis last_map table_ok_def\<close>)
  then show "uint (col 2 (hd tab)) = 300" "uint (col 2 (last tab)) = 0" by (simp_all add: temptable_init_def col_def)
qed

lemma table_temp_cases:
  assumes "table_ok tab"
  shows "table_temp k raw tab = (if raw < uint (col k (hd tab)) then 300
    else if raw \<ge> uint (col k (last tab)) then 0 else interpolate k raw tab)"
  using table_ok_facts [OF assms]
  by (simp add: table_temp_def NUMTEMPS_def hd_conv_nth last_conv_nth)

lemma table_temp_range:
  assumes "table_ok tab" shows "0 \<le> table_temp k raw tab \<and> table_temp k raw tab \<le> 300"
  using interpolate_bounds [of tab k raw] table_ok_facts [OF assms] by (simp add: table_temp_cases [OF assms])

lemma table_temp_antitone:
  assumes "table_ok tab" "raw \<le> raw'"
  shows "table_temp k raw' tab \<le> table_temp k raw tab"
  using interpolate_antitone [of tab k raw raw'] interpolate_bounds [of tab k raw] interpolate_bounds [of tab k raw']
    table_ok_facts [OF assms(1)] assms(2)
  by (simp add: table_temp_cases [OF assms(1)])

lemma filter_bound:
  fixes f :: U32 and a :: U16
  assumes "unat f \<le> 4095" "unat a \<le> 4095"
  shows "unat ((f * 7 + ucast a) div 8) \<le> 4095"
proof -
  have "unat (ucast a :: U32) = unat a" using assms(2) by (simp add: unsigned_ucast_eq take_bit_nat_def)
  then have "unat (f * 7 + ucast a) = unat f * 7 + unat a" using assms by (simp add: unat_word_ariths)
  then show ?thesis using assms by (simp add: unat_div)
qed

lemma read_temp_ok:
  assumes "temps_ok s" "\<forall>n. unat (adc n) \<le> 4095"
  shows "unat (fst (read_temp adc n s)) \<le> 300" "temps_ok (snd (read_temp adc n s))"
    "current_temp (snd (read_temp adc n s)) = current_temp s" "ticks (snd (read_temp adc n s)) = ticks s"
    "target_temp (snd (read_temp adc n s)) = target_temp s"
proof -
  have tab: "table_ok (temptable s)" using assms(1) by (simp add: temps_ok_def)
  have w: "unat (word_of_int i :: U16) \<le> 300" if "0 \<le> i \<and> i \<le> 300" for i
    using that by (simp add: uint_word_of_int nat_le_iff flip: nat_uint_eq)
  show "unat (fst (read_temp adc n s)) \<le> 300"
    unfolding read_temp_def Let_def fst_conv using w table_temp_range [OF tab] by simp
  have f: "unat ((adc_filtered s n * 7 + ucast (adc n)) div 8) \<le> 4095"
    using filter_bound assms by (simp add: temps_ok_def)
  moreover have "unat ((adc_filtered s n * 7 + 0) div 8) \<le> 4095"
    using filter_bound [of "adc_filtered s n" 0] assms by (simp add: temps_ok_def)
  ultimately show "temps_ok (snd (read_temp adc n s))"
    using assms(1) by (auto simp: temps_ok_def read_temp_def Let_def)
qed (simp_all add: read_temp_def Let_def)

lemma temp_tick_ok:
  assumes "temps_ok s" "\<forall>n. unat (adc n) \<le> 4095"
  shows "temps_ok (temp_tick adc s)"
    "ticks (temp_tick adc s) = (if ticks s = 19 then 0 else ticks s + 1)"
    "target_temp (temp_tick adc s) = target_temp s"
    "ticks s = 19 \<Longrightarrow> extruder_heater (temp_tick adc s)
      \<longleftrightarrow> current_temp (temp_tick adc s) EXTRUDER_0 < target_temp s EXTRUDER_0"
    "ticks s = 19 \<Longrightarrow> heated_bed (temp_tick adc s)
      \<longleftrightarrow> current_temp (temp_tick adc s) HEATED_BED_0 < target_temp s HEATED_BED_0"
proof -
  define s1 where "s1 = snd (read_temp adc EXTRUDER_0 s)"
  define s2 where "s2 = s1\<lparr>current_temp := (current_temp s1)(EXTRUDER_0 := fst (read_temp adc EXTRUDER_0 s))\<rparr>"
  define s3 where "s3 = snd (read_temp adc HEATED_BED_0 s2)"
  define s4 where "s4 = s3\<lparr>current_temp := (current_temp s3)(HEATED_BED_0 := fst (read_temp adc HEATED_BED_0 s2))\<rparr>"
  note r1 = read_temp_ok [OF assms, of EXTRUDER_0, folded s1_def]
  have ok2: "temps_ok s2" using r1 by (simp add: s2_def temps_ok_def)
  note r3 = read_temp_ok [OF ok2 assms(2), of HEATED_BED_0, folded s3_def]
  have ok4: "temps_ok s4" using r3 by (simp add: s4_def temps_ok_def)
  have t4: "ticks s3 = ticks s" "ticks s4 = ticks s" "target_temp s4 = target_temp s" using r1 r3 by (simp_all add: s4_def s2_def)
  have "ticks s + 1 = NUM_TICKS \<longleftrightarrow> ticks s = 19"
    using add_right_cancel [of "ticks s" 1 19] by (simp add: NUM_TICKS_def)
  then have tick: "temp_tick adc s = (if ticks s = 19 then
      s4\<lparr>extruder_heater := current_temp s4 EXTRUDER_0 < target_temp s4 EXTRUDER_0,
         heated_bed := current_temp s4 HEATED_BED_0 < target_temp s4 HEATED_BED_0, ticks := 0\<rparr>
      else s4\<lparr>ticks := ticks s + 1\<rparr>)"
    by (simp add: temp_tick_def Let_def case_prod_beta t4(1,2) flip: s1_def s2_def s3_def s4_def)
  have "unat (ticks s + 1) < 20" if "ticks s \<noteq> 19"
  proof -
    have "unat (ticks s) \<noteq> 19" using that by (simp add: word_unat_eq_iff)
    then show ?thesis using assms(1) by (simp add: temps_ok_def unat_word_ariths)
  qed
  then show "temps_ok (temp_tick adc s)" using ok4 by (simp add: tick temps_ok_def)
  show "ticks (temp_tick adc s) = (if ticks s = 19 then 0 else ticks s + 1)"
    "target_temp (temp_tick adc s) = target_temp s" by (simp_all add: tick t4)
  show "extruder_heater (temp_tick adc s) \<longleftrightarrow> current_temp (temp_tick adc s) EXTRUDER_0 < target_temp s EXTRUDER_0"
    "heated_bed (temp_tick adc s) \<longleftrightarrow> current_temp (temp_tick adc s) HEATED_BED_0 < target_temp s HEATED_BED_0"
    if "ticks s = 19" using that by (simp_all add: tick t4)
qed

lemma find_row_found: "find_row t i tab = Some j \<Longrightarrow> i \<le> j \<and> j < i + length tab \<and> col 2 (tab ! (j - i)) = t"
proof (induction t i tab rule: find_row.induct)
  case (2 t i r rs)
  then show ?case by (cases "j = i") (auto simp: nth_Cons' split: if_splits)
qed simp

lemma col_set_col: "n < 2 \<Longrightarrow> col 2 (set_col n v r) = col 2 r" "n < 2 \<Longrightarrow> col n (set_col n v r) = v"
    "n < 2 \<Longrightarrow> m < 2 \<Longrightarrow> m \<noteq> n \<Longrightarrow> col m (set_col n v r) = col m r"
  by (auto simp: col_def set_col_def split: prod.splits)

lemma map_col_update: "n < 2 \<Longrightarrow> map (col 2) (tab[i := set_col n v (tab ! i)]) = map (col 2) tab"
  using list_update_id [of "map (col 2) tab" i]
  by (cases "i < length tab") (simp_all add: map_update col_set_col list_update_beyond)

lemma temp_step_ok: "temp_step s s' \<Longrightarrow> temps_ok s \<Longrightarrow> temps_ok s'"
proof (induction rule: temp_step.induct)
  case (tick adc s)
  then show ?case using temp_tick_ok(1) by blast
next
  case (target s t n)
  then show ?case by (simp add: temps_ok_def temp_set_def Let_def)
next
  case (entry s n t v)
  then show ?case
    using map_col_update [of n] by (simp add: temp_set_table_entry_def temps_ok_def table_ok_def NUMBER_OF_SENSORS_def split: option.split)
qed

lemma temp_init_ok: "temps_ok temp_init"
  by (simp add: temp_init_def temps_ok_def table_ok_def)

lemma reachable_temps_ok: "temp_step\<^sup>*\<^sup>* temp_init s \<Longrightarrow> temps_ok s"
  by (induction rule: rtranclp_induct) (simp_all add: temp_init_ok temp_step_ok)

section \<open>Properties\<close>

lemma ticks_run:
  "temps_ok s \<Longrightarrow> \<forall>adc \<in> set adcs. \<forall>n. unat (adc n) \<le> 4095 \<Longrightarrow> unat (ticks s) + length adcs = 19 \<Longrightarrow>
    temps_ok (fold temp_tick adcs s) \<and> ticks (fold temp_tick adcs s) = 19 \<and> target_temp (fold temp_tick adcs s) = target_temp s"
proof (induction adcs arbitrary: s)
  case Nil
  then show ?case by (simp add: word_unat_eq_iff)
next
  case (Cons adc adcs)
  note t = temp_tick_ok(1-3) [OF Cons.prems(1), of adc]
  have "unat (ticks s + 1) = unat (ticks s) + 1" "ticks s \<noteq> 19" using Cons.prems(3) by (auto simp: unat_word_ariths)
  then show ?case using Cons.IH [of "temp_tick adc s"] Cons.prems t by simp
qed

text \<open>
  C8. Temperature control, whatever entries and targets the host has set: the temperatures stay in
  the range of the table, 0 to 300 degrees, and a larger converter value never reads as a higher
  temperature. At every twentieth tick each heater is switched on if its last reading is below its
  target and off otherwise.
\<close>

theorem temperature_control:
  assumes "temp_step\<^sup>*\<^sup>* temp_init s" "raw \<le> raw'"
    and "ticks s = 0" "length adcs = 20" "\<forall>adc \<in> set adcs. \<forall>n. unat (adc n) \<le> 4095"
  shows "unat (temp_get n s) \<le> 300 \<and> table_temp n raw' (temptable s) \<le> table_temp n raw (temptable s)
    \<and> (let s' = fold temp_tick adcs s in ticks s' = 0
        \<and> (extruder_heater s' \<longleftrightarrow> temp_get EXTRUDER_0 s' < temp_get_target EXTRUDER_0 s)
        \<and> (heated_bed s' \<longleftrightarrow> temp_get HEATED_BED_0 s' < temp_get_target HEATED_BED_0 s))"
proof -
  have ok: "temps_ok s" using reachable_temps_ok [OF assms(1)] .
  obtain as a where as: "adcs = as @ [a]" "length as = 19" using assms(4)
    by (cases adcs rule: rev_cases) simp_all
  then have r: "temps_ok (fold temp_tick as s)" "ticks (fold temp_tick as s) = 19" "target_temp (fold temp_tick as s) = target_temp s"
    using ticks_run [OF ok, of as] assms(3,5) by simp_all
  have "\<forall>n. unat (a n) \<le> 4095" using assms(5) as(1) by simp
  note t = temp_tick_ok [OF r(1) this]
  show ?thesis
    using ok table_temp_antitone [OF _ assms(2)] t r(2,3)
    by (simp add: temps_ok_def temp_get_def temp_get_target_def as(1) Let_def)
qed

theorem temperature_control_witness:
  "table_temp 0 3000 temptable_init \<le> table_temp 0 2000 temptable_init
   \<and> \<not> extruder_heater (fold temp_tick (replicate 20 (\<lambda>_. 4000)) temp_init)"
  using temperature_control [of temp_init 2000 3000 "replicate 20 (\<lambda>_. 4000)" 0]
  by (simp add: Let_def temp_get_target_def temp_init_def del: fold_simps fold_replicate)

lemma find_row_cong: "map (col 2) xs = map (col 2) ys \<Longrightarrow> find_row u j xs = find_row u j ys"
proof (induction xs arbitrary: j ys)
  case (Cons x xs)
  then obtain y zs where "ys = y # zs" "col 2 x = col 2 y" "map (col 2) xs = map (col 2) zs" by (cases ys) simp_all
  then show ?case using Cons.IH by simp
qed simp

text \<open>An entry of the table that the host sets is read back, and the entries of the other sensor stay.\<close>

lemma table_entry_round_trip:
  assumes "n < 2" "find_row t 0 (temptable s) = Some i"
  shows "fst (temp_set_table_entry n t v s)"
    "find_row t 0 (temptable (snd (temp_set_table_entry n t v s))) = Some i"
    "temp_get_table_entry n t (snd (temp_set_table_entry n t v s)) = v"
    "m < 2 \<Longrightarrow> m \<noteq> n \<Longrightarrow> temp_get_table_entry m u (snd (temp_set_table_entry n t v s)) = temp_get_table_entry m u s"
proof -
  have i: "i < length (temptable s)" using find_row_found [OF assms(2)] by simp
  note same = find_row_cong [OF map_col_update [OF assms(1)]]
  show "fst (temp_set_table_entry n t v s)" using assms by (simp add: temp_set_table_entry_def NUMBER_OF_SENSORS_def)
  show "find_row t 0 (temptable (snd (temp_set_table_entry n t v s))) = Some i"
    using assms same by (simp add: temp_set_table_entry_def NUMBER_OF_SENSORS_def)
  show "temp_get_table_entry n t (snd (temp_set_table_entry n t v s)) = v"
    using assms same i by (simp add: temp_set_table_entry_def temp_get_table_entry_def NUMBER_OF_SENSORS_def col_set_col)
  show "temp_get_table_entry m u (snd (temp_set_table_entry n t v s)) = temp_get_table_entry m u s" if "m < 2" "m \<noteq> n"
    using assms same i that
    by (simp add: temp_set_table_entry_def temp_get_table_entry_def NUMBER_OF_SENSORS_def col_set_col nth_list_update
        split: option.split)
qed

text \<open>The report of the temperatures.\<close>

lemma temp_print_report:
  "temp_print s = Some ([111, 107, 32, 84, 58] @ dec (unat (current_temp s EXTRUDER_0)) @ [46, 48, 32, 66, 58]
     @ dec (unat (current_temp s HEATED_BED_0)) @ [46, 48, 13, 10])"
proof -
  have "unat (ucast w :: U32) = unat w" for w :: U16
    using unsigned_less [of w, where ?'a=nat] by (simp add: unsigned_ucast_eq take_bit_nat_def)
  then show ?thesis by (simp add: temp_print_def serwrite_uint32_dec ascii_def crlf_def)
qed

end
