(* ===== verification/Mendel_Config.thy ===== *)
theory Mendel_Config
  imports R2C2_Serial
begin

text \<open>
  The configuration (\<open>src/libraries/Mendel/src/config.c\<close>): the table of its items with their defaults,
  the tokens of a line of \<open>config.txt\<close>, the numbers in it, reading the file and printing the values.
  The lines that the file system delivers are an argument.
\<close>

section \<open>Items\<close>

text \<open>The fields of \<open>struct configuration\<close>; the table points to them.\<close>

datatype cfg_field =
  STEPS_PER_MM_X | STEPS_PER_MM_Y | STEPS_PER_MM_Z | STEPS_PER_MM_E | MAXIMUM_FEEDRATE_X | MAXIMUM_FEEDRATE_Y
  | MAXIMUM_FEEDRATE_Z | MAXIMUM_FEEDRATE_E | ACCELERATION | JUNCTION_DEVIATION | SEARCH_FEEDRATE_X
  | SEARCH_FEEDRATE_Y | SEARCH_FEEDRATE_Z | SEARCH_FEEDRATE_E | HOMING_FEEDRATE_X | HOMING_FEEDRATE_Y
  | HOMING_FEEDRATE_Z | HOME_DIRECTION_X | HOME_DIRECTION_Y | HOME_DIRECTION_Z | HOME_POS_X | HOME_POS_Y
  | HOME_POS_Z | PRINTING_VOL_X | PRINTING_VOL_Y | PRINTING_VOL_Z | HAVE_DUMP_POS | DUMP_POS_X | DUMP_POS_Y
  | HAVE_REST_POS | REST_POS_X | REST_POS_Y | HAVE_WIPE_POS | WIPE_POS_X | WIPE_POS_Y
  | STEPS_PER_REVOLUTION_E | WAIT_ON_TEMP | ENABLE_EXTRUDER_1 | DHCP | IPADDR | IPMASK | IPGW | IPDNS | HTTPD
  | HTTPD_PORT | HTTPD_DOCROOT

record configuration =
  cfg_i :: "cfg_field \<Rightarrow> U32"
  cfg_d :: "cfg_field \<Rightarrow> rat"

text \<open>The type of an item, with its default.\<close>

datatype cfg_type = TYPE_INT int | TYPE_DOUBLE rat | TYPE_IPADDR "U8 list" | TYPE_STRING string

type_synonym tConfigItem = "string \<times> cfg_field \<times> cfg_type"

definition config_lookup :: "tConfigItem list" where
  "config_lookup =
     [(''steps_per_mm_x'', STEPS_PER_MM_X, TYPE_DOUBLE 80),
      (''steps_per_mm_y'', STEPS_PER_MM_Y, TYPE_DOUBLE 80),
      (''steps_per_mm_z'', STEPS_PER_MM_Z, TYPE_DOUBLE 6400),
      (''steps_per_mm_e'', STEPS_PER_MM_E, TYPE_DOUBLE 36),
      (''maximum_feedrate_x'', MAXIMUM_FEEDRATE_X, TYPE_INT 3000),
      (''maximum_feedrate_y'', MAXIMUM_FEEDRATE_Y, TYPE_INT 3000),
      (''maximum_feedrate_z'', MAXIMUM_FEEDRATE_Z, TYPE_INT 60),
      (''maximum_feedrate_e'', MAXIMUM_FEEDRATE_E, TYPE_INT 3000),
      (''acceleration'', ACCELERATION, TYPE_DOUBLE 100),
      (''junction_deviation'', JUNCTION_DEVIATION, TYPE_DOUBLE (double_of (5 / 100))),
      (''search_feedrate_x'', SEARCH_FEEDRATE_X, TYPE_INT 120),
      (''search_feedrate_y'', SEARCH_FEEDRATE_Y, TYPE_INT 120),
      (''search_feedrate_z'', SEARCH_FEEDRATE_Z, TYPE_INT 60),
      (''search_feedrate_e'', SEARCH_FEEDRATE_E, TYPE_INT 1600),
      (''homing_feedrate_x'', HOMING_FEEDRATE_X, TYPE_INT 3000),
      (''homing_feedrate_y'', HOMING_FEEDRATE_Y, TYPE_INT 3000),
      (''homing_feedrate_z'', HOMING_FEEDRATE_Z, TYPE_INT 60),
      (''home_direction_x'', HOME_DIRECTION_X, TYPE_INT (-1)),
      (''home_direction_y'', HOME_DIRECTION_Y, TYPE_INT (-1)),
      (''home_direction_z'', HOME_DIRECTION_Z, TYPE_INT (-1)),
      (''home_pos_x'', HOME_POS_X, TYPE_INT 0),
      (''home_pos_y'', HOME_POS_Y, TYPE_INT 0),
      (''home_pos_z'', HOME_POS_Z, TYPE_INT 0),
      (''printing_vol_x'', PRINTING_VOL_X, TYPE_INT 0),
      (''printing_vol_y'', PRINTING_VOL_Y, TYPE_INT 0),
      (''printing_vol_z'', PRINTING_VOL_Z, TYPE_INT 0),
      (''have_dump_pos'', HAVE_DUMP_POS, TYPE_INT 0),
      (''dump_pos_x'', DUMP_POS_X, TYPE_INT 0),
      (''dump_pos_y'', DUMP_POS_X, TYPE_INT 0),
      (''have_rest_pos'', HAVE_REST_POS, TYPE_INT 0),
      (''rest_pos_x'', REST_POS_X, TYPE_INT 0),
      (''rest_pos_y'', REST_POS_Y, TYPE_INT 0),
      (''have_wipe_pos'', HAVE_WIPE_POS, TYPE_INT 0),
      (''wipe_pos_x'', WIPE_POS_X, TYPE_INT 0),
      (''wipe_pos_y'', WIPE_POS_Y, TYPE_INT 0),
      (''steps_per_revolution_e'', STEPS_PER_REVOLUTION_E, TYPE_INT 3200),
      (''wait_on_temp'', WAIT_ON_TEMP, TYPE_INT 0),
      (''enable_extruder_1'', ENABLE_EXTRUDER_1, TYPE_INT 1),
      (''dhcp'', DHCP, TYPE_INT 1),
      (''ip_addr'', IPADDR, TYPE_IPADDR [192, 168, 1, 100]),
      (''ip_mask'', IPMASK, TYPE_IPADDR [255, 255, 255, 0]),
      (''ip_gw'', IPGW, TYPE_IPADDR [192, 168, 1, 1]),
      (''httpd'', HTTPD, TYPE_INT 1),
      (''httpd_port'', HTTPD_PORT, TYPE_INT 80),
      (''http_docroot'', HTTPD_DOCROOT, TYPE_STRING ''/www'')]"

section \<open>Tokens\<close>

definition is_alpha :: "U8 \<Rightarrow> bool" where
  "is_alpha c \<longleftrightarrow> 65 \<le> c \<and> c \<le> 90 \<or> 97 \<le> c \<and> c \<le> 122"

definition is_digit :: "U8 \<Rightarrow> bool" where
  "is_digit c \<longleftrightarrow> 48 \<le> c \<and> c \<le> 57"

definition char_match :: "U8 \<Rightarrow> U8 list \<Rightarrow> bool" where
  "char_match c s \<longleftrightarrow> c \<in> set s"

text \<open>
  \<open>get_token\<close> marks the end of a token with a null character, which its next call takes back. Here it
  maps the rest of the line to the token and the rest behind it; \<open>None\<close> at the end of the line.
\<close>

definition number_token :: "U8 list \<Rightarrow> U8 list \<times> U8 list" where
  "number_token cs =
     (let (ds, cs) = (takeWhile is_digit cs, dropWhile is_digit cs)
      in case cs of
           [] \<Rightarrow> (ds, cs)
         | c # r \<Rightarrow> if c = 46 then (ds @ c # takeWhile is_digit r, dropWhile is_digit r) else (ds, cs))"

definition get_token :: "U8 list \<Rightarrow> (U8 list \<times> U8 list) option" where
  "get_token line =
     (case dropWhile (\<lambda>c. char_match c [32, 9, 10]) line of
        [] \<Rightarrow> None
      | c # cs \<Rightarrow>
          Some (if is_alpha c then
                  (let p = (\<lambda>c. is_alpha c \<or> is_digit c \<or> c = 95) in (takeWhile p (c # cs), dropWhile p (c # cs)))
                else if is_digit c \<or> char_match c [43, 45] then
                  (case number_token cs of (t, r) \<Rightarrow> (c # t, r))
                else ([c], cs)))"

section \<open>Numbers\<close>

text \<open>\<open>atoi\<close> of the C library, on a token: its result is undefined where the number does not fit.\<close>

definition digits_value :: "U8 list \<Rightarrow> int" where
  "digits_value cs = fold (\<lambda>c n. n * 10 + (uint c - 48)) (takeWhile is_digit cs) 0"

definition atoi :: "U8 list \<Rightarrow> U32 option" where
  "atoi cs =
     (let i = (case cs of [] \<Rightarrow> 0
               | c # r \<Rightarrow> if c = 45 then - digits_value r else if c = 43 then digits_value r else digits_value cs)
      in if - (2 ^ 31) \<le> i \<and> i < 2 ^ 31 then Some (word_of_int i) else None)"

text \<open>\<open>atod\<close>: every character counts as a digit, the sign of the number too.\<close>

definition atod_digit :: "U8 \<Rightarrow> rat \<Rightarrow> rat" where
  "atod_digit c r = double_of (double_of (r * 10) + of_int (uint c - 48))"

primrec atod_places :: "nat \<Rightarrow> rat \<Rightarrow> rat" where
  "atod_places 0 fr = fr"
| "atod_places (Suc n) fr = atod_places n (double_of (fr / 10))"

definition atod :: "U8 list \<Rightarrow> rat" where
  "atod s =
     (let result = fold atod_digit (takeWhile (\<lambda>c. c \<noteq> 46) s) 0
      in case dropWhile (\<lambda>c. c \<noteq> 46) s of
           [] \<Rightarrow> result
         | _ # fs \<Rightarrow> double_of (result + atod_places (length fs) (fold atod_digit fs 0)))"

section \<open>Reading\<close>

definition lower :: "U8 \<Rightarrow> U8" where
  "lower c = (if 65 \<le> c \<and> c \<le> 90 then c + 32 else c)"

definition same_name :: "U8 list \<Rightarrow> string \<Rightarrow> bool" where
  "same_name t n \<longleftrightarrow> map lower t = map lower (ascii n)"

definition set_default :: "tConfigItem \<Rightarrow> configuration \<Rightarrow> configuration" where
  "set_default it c =
     (case it of (n, f, t) \<Rightarrow>
        (case t of
           TYPE_INT i \<Rightarrow> c\<lparr>cfg_i := (cfg_i c)(f := word_of_int i)\<rparr>
         | TYPE_DOUBLE d \<Rightarrow> c\<lparr>cfg_d := (cfg_d c)(f := d)\<rparr>
         | _ \<Rightarrow> c))"

definition set_value :: "tConfigItem \<Rightarrow> U8 list \<Rightarrow> configuration \<Rightarrow> configuration option" where
  "set_value it tok c =
     (case it of (n, f, t) \<Rightarrow>
        (case t of
           TYPE_INT _ \<Rightarrow> map_option (\<lambda>v. c\<lparr>cfg_i := (cfg_i c)(f := v)\<rparr>) (atoi tok)
         | TYPE_DOUBLE _ \<Rightarrow> Some (c\<lparr>cfg_d := (cfg_d c)(f := atod tok)\<rparr>)
         | _ \<Rightarrow> Some c))"

text \<open>
  One line of the file, with the message to the host. \<open>None\<close>: the number does not fit. The message
  about a missing equals sign prints the line up to the token that is not one.
\<close>

definition config_line :: "U8 list \<Rightarrow> configuration \<Rightarrow> (configuration \<times> U8 list) option" where
  "config_line line c =
     (case get_token line of
        None \<Rightarrow> Some (c, [])
      | Some (tok, rest) \<Rightarrow>
          if hd tok = 35 then Some (c, [])
          else
            (case find (\<lambda>it. same_name tok (fst it)) config_lookup of
               None \<Rightarrow> Some (c, ascii ''Unknown config: '' @ tok @ crlf)
             | Some it \<Rightarrow>
                 (case get_token rest of
                    None \<Rightarrow> Some (c, ascii ''Expected '' @ [39, 61, 39] @ line @ crlf)
                  | Some (eq, rest) \<Rightarrow>
                      if hd eq = 61 then
                        (case get_token rest of
                           None \<Rightarrow> Some (c, ascii ''Missing value for '' @ ascii (fst it) @ crlf)
                         | Some (v, rest) \<Rightarrow> map_option (\<lambda>c. (c, [])) (set_value it v c))
                      else
                        Some (c, ascii ''Expected '' @ [39, 61, 39] @ take (length line - length rest) line @ crlf))))"

fun config_lines :: "U8 list list \<Rightarrow> configuration \<Rightarrow> (configuration \<times> U8 list) option" where
  "config_lines [] c = Some (c, [])"
| "config_lines (l # ls) c =
     (case config_line l c of
        None \<Rightarrow> None
      | Some (c, out) \<Rightarrow> map_option (apsnd (append out)) (config_lines ls c))"

text \<open>The defaults, then \<open>config.txt\<close> if it can be opened.\<close>

definition read_config_txt :: "U8 list list option \<Rightarrow> configuration \<Rightarrow> (configuration \<times> U8 list) option" where
  "read_config_txt file c =
     (let c = fold set_default config_lookup c
      in case file of None \<Rightarrow> Some (c, []) | Some ls \<Rightarrow> config_lines ls c)"

section \<open>Printing\<close>

definition print_item :: "configuration \<Rightarrow> tConfigItem \<Rightarrow> U8 list option" where
  "print_item c it =
     (case it of (n, f, t) \<Rightarrow>
        (case t of
           TYPE_INT _ \<Rightarrow> sersendf 0 (ascii ''%s = %d'' @ crlf) [Str (ascii n), Word (cfg_i c f)]
         | TYPE_DOUBLE _ \<Rightarrow> sersendf 0 (ascii ''%s = %g'' @ crlf) [Str (ascii n), Double (cfg_d c f)]
         | _ \<Rightarrow> Some []))"

fun print_items :: "configuration \<Rightarrow> tConfigItem list \<Rightarrow> U8 list list option" where
  "print_items c [] = Some []"
| "print_items c (it # its) =
     (case print_item c it of None \<Rightarrow> None | Some l \<Rightarrow> map_option (Cons l) (print_items c its))"

definition print_config :: "configuration \<Rightarrow> U8 list list option" where
  "print_config c = print_items c config_lookup"

section \<open>What is printed is read back\<close>

text \<open>The names of the table are identifiers, and no two agree but for case.\<close>

definition ident :: "U8 \<Rightarrow> bool" where
  "ident c \<longleftrightarrow> is_alpha c \<or> is_digit c \<or> c = 95"

definition good_name :: "string \<Rightarrow> bool" where
  "good_name n \<longleftrightarrow> ascii n \<noteq> [] \<and> is_alpha (hd (ascii n)) \<and> list_all ident (ascii n) \<and> length n \<le> 255"

lemma names_good: "list_all (\<lambda>it. good_name (fst it)) config_lookup"
  by (simp add: config_lookup_def good_name_def ascii_def ident_def is_alpha_def is_digit_def)

lemma names_distinct: "distinct (map (\<lambda>it. map lower (ascii (fst it))) config_lookup)"
  by (simp add: config_lookup_def ascii_def lower_def)

lemma find_item: "it \<in> set config_lookup \<Longrightarrow> find (\<lambda>x. same_name (ascii (fst it)) (fst x)) config_lookup = Some it"
proof -
  have "distinct (map k xs) \<Longrightarrow> x \<in> set xs \<Longrightarrow> find (\<lambda>y. k x = k y) xs = Some x" for k :: "tConfigItem \<Rightarrow> U8 list" and x xs
    by (induction xs) (auto, metis image_eqI)
  from this [OF names_distinct] show "it \<in> set config_lookup \<Longrightarrow> ?thesis" by (simp add: same_name_def)
qed

lemma ident_nz: "ident c \<Longrightarrow> c \<noteq> 0"
  by (auto simp: ident_def is_alpha_def is_digit_def)

lemma digit_chars: "d < 10 \<Longrightarrow> is_digit (48 + word_of_nat d)" "d < 10 \<Longrightarrow> uint (48 + word_of_nat d :: U8) - 48 = int d"
proof -
  assume "d < 10"
  then have u: "unat (48 + word_of_nat d :: U8) = 48 + d" by (simp add: unat_word_ariths unat_of_nat)
  then show "is_digit (48 + word_of_nat d)" using \<open>d < 10\<close> by (simp add: is_digit_def word_le_nat_alt)
  show "uint (48 + word_of_nat d :: U8) - 48 = int d" unfolding uint_nat u by simp
qed

lemma dec_digits: "list_all is_digit (dec n)"
proof (induction n rule: dec.induct)
  case (1 n)
  then show ?case using digit_chars(1) [of n] digit_chars(1) [of "n mod 10"] by (cases "n < 10") (simp_all add: dec.simps [of n])
qed

lemma takeWhile_digits: "takeWhile is_digit (dec n) = dec n"
  using dec_digits [of n] by (simp add: takeWhile_eq_all_conv list_all_iff)

lemma digits_value_dec: "digits_value (dec n) = int n"
proof -
  have "fold (\<lambda>c n. n * 10 + (uint c - 48)) (dec n) 0 = int n"
  proof (induction n rule: dec.induct)
    case (1 n)
    show ?case
    proof (cases "n < 10")
      case True
      then show ?thesis using digit_chars(2) [of n] by (simp add: dec.simps [of n])
    next
      case False
      then show ?thesis using 1 digit_chars(2) [of "n mod 10"] by (simp add: dec.simps [of n] zdiv_int zmod_int)
    qed
  qed
  then show ?thesis by (simp add: digits_value_def takeWhile_digits)
qed

lemma dec_cons: obtains c cs where "dec n = c # cs" "is_digit c" "c \<noteq> 45" "c \<noteq> 43" "c \<noteq> 32" "c \<noteq> 9" "c \<noteq> 10" "\<not> is_alpha c"
proof -
  obtain c cs where d: "dec n = c # cs" by (cases "dec n") (simp_all add: dec.simps [of n] split: if_splits)
  then have "is_digit c" using dec_digits [of n] by simp
  moreover from this have "48 \<le> unat c" "unat c \<le> 57" by (simp_all add: is_digit_def word_le_nat_alt)
  then have "c \<noteq> 45" "c \<noteq> 43" "c \<noteq> 32" "c \<noteq> 9" "c \<noteq> 10" "\<not> is_alpha c" by (auto simp: is_alpha_def word_le_nat_alt)
  ultimately show ?thesis using that [OF d] by blast
qed

lemma atoi_int32: "atoi (serwrite_int32 v) = Some v"
proof -
  have r: "- (2 ^ 31) \<le> sint v" "sint v < 2 ^ 31" using sint_greater_eq [of v] sint_less [of v] by simp_all
  obtain c cs where d: "dec (nat (sint v)) = c # cs" "c \<noteq> 45" "c \<noteq> 43" using dec_cons [of "nat (sint v)"] by metis
  show ?thesis
  proof (cases "sint v < 0")
    case True
    then show ?thesis using r by (simp add: serwrite_int32_dec atoi_def digits_value_dec)
  next
    case False
    then have "digits_value (c # cs) = sint v" using digits_value_dec [of "nat (sint v)"] d(1) by simp
    then show ?thesis using r False d by (simp add: serwrite_int32_dec atoi_def)
  qed
qed

lemma atod_dec: "n < 2 ^ 53 \<Longrightarrow> fold atod_digit (dec n) 0 = of_nat n"
proof (induction n rule: dec.induct)
  case (1 n)
  have step: "atod_digit (48 + word_of_nat d) (of_nat a) = of_nat (a * 10 + d)" if "d < 10" "a * 10 + d < 2 ^ 53" for a d
  proof -
    have "double_of (of_nat a * 10) = of_nat (a * 10)" using double_of_nat [of "a * 10"] that(2) by simp
    moreover have "double_of (of_nat (a * 10) + of_nat d) = of_nat (a * 10 + d)" using double_of_nat [OF that(2)] by simp
    ultimately show ?thesis by (simp add: atod_digit_def digit_chars(2) [OF that(1)])
  qed
  show ?case
  proof (cases "n < 10")
    case True
    then show ?thesis using step [of n 0] 1(2) by (simp add: dec.simps [of n])
  next
    case False
    then show ?thesis using 1 step [of "n mod 10" "n div 10"] by (simp add: dec.simps [of n])
  qed
qed

lemma dec_no_point: "\<forall>c \<in> set (dec n). c \<noteq> 46"
  using dec_digits [of n] by (auto simp: list_all_iff is_digit_def)

lemma atod_whole:
  assumes "n < 2 ^ 31"
  shows "atod (dec n @ [46, 48, 48, 48]) = of_nat n"
proof -
  have z: "double_of 0 = 0" by (simp add: double_of_def)
  have "takeWhile (\<lambda>c. c \<noteq> 46) (dec n @ [46, 48, 48, 48]) = dec n" "dropWhile (\<lambda>c. c \<noteq> 46) (dec n @ [46, 48, 48, 48]) = [46, 48, 48, 48]"
    using dec_no_point [of n] by (simp_all add: takeWhile_append dropWhile_append)
  moreover have "double_of (of_nat n) = of_nat n" using assms by (intro double_of_nat) simp
  ultimately show ?thesis using assms z by (simp add: atod_def atod_dec atod_digit_def numeral_3_eq_3)
qed

lemma get_token_name:
  assumes "good_name n"
  shows "get_token (ascii n @ 32 # rest) = Some (ascii n, 32 # rest)"
proof -
  obtain c cs where n: "ascii n = c # cs" using assms by (cases "ascii n") (simp_all add: good_name_def)
  have id: "\<forall>x \<in> set (c # cs). ident x" and a: "is_alpha c" using assms n by (simp_all add: good_name_def list_all_iff)
  have sp: "\<not> ident 32" by (simp add: ident_def is_alpha_def is_digit_def)
  have "c \<noteq> 32" "c \<noteq> 9" "c \<noteq> 10" using a by (auto simp: is_alpha_def)
  moreover have "takeWhile ident (c # cs @ 32 # rest) = c # cs" "dropWhile ident (c # cs @ 32 # rest) = 32 # rest"
    using id sp takeWhile_append2 [of "c # cs" ident "32 # rest"] dropWhile_append2 [of "c # cs" ident "32 # rest"] by simp_all
  moreover have "ident = (\<lambda>c. is_alpha c \<or> is_digit c \<or> c = 95)" by (simp add: ident_def fun_eq_iff)
  ultimately show ?thesis using a by (simp add: n get_token_def char_match_def Let_def)
qed

lemma get_token_equals: "get_token (32 # 61 # rest) = Some ([61], rest)"
  by (simp add: get_token_def char_match_def is_alpha_def is_digit_def)

lemma takeWhile_dec: "takeWhile is_digit (dec n @ r) = dec n @ takeWhile is_digit r" "dropWhile is_digit (dec n @ r) = dropWhile is_digit r"
  using dec_digits [of n] takeWhile_append2 [of "dec n" is_digit r] dropWhile_append2 [of "dec n" is_digit r]
  by (simp_all add: list_all_iff)

lemma get_token_dec:
  "get_token (32 # dec n @ 13 # rest) = Some (dec n, 13 # rest)"
  "get_token (32 # dec n @ 46 # 48 # 48 # 48 # 13 # rest) = Some (dec n @ [46, 48, 48, 48], 13 # rest)"
proof -
  obtain c cs where d: "dec n = c # cs" "is_digit c" "c \<noteq> 32" "c \<noteq> 9" "c \<noteq> 10" "\<not> is_alpha c" using dec_cons [of n] by metis
  have t: "takeWhile is_digit (cs @ r) = cs @ takeWhile is_digit r" "dropWhile is_digit (cs @ r) = dropWhile is_digit r" for r
    using takeWhile_dec [of n r] d(1,2) by simp_all
  show "get_token (32 # dec n @ 13 # rest) = Some (dec n, 13 # rest)"
    "get_token (32 # dec n @ 46 # 48 # 48 # 48 # 13 # rest) = Some (dec n @ [46, 48, 48, 48], 13 # rest)"
    using d t by (simp_all add: get_token_def char_match_def number_token_def Let_def is_digit_def [of 13] is_digit_def [of 46] is_digit_def [of 48])
qed

lemma get_token_minus: "get_token (32 # 45 # dec n @ 13 # rest) = Some (45 # dec n, 13 # rest)"
  using takeWhile_dec [of n "13 # rest"]
  by (simp add: get_token_def char_match_def number_token_def Let_def is_alpha_def is_digit_def [of 13] is_digit_def [of 45])

lemma get_token_int32: "get_token (32 # serwrite_int32 v @ 13 # rest) = Some (serwrite_int32 v, 13 # rest)"
  using get_token_dec(1) get_token_minus by (simp add: serwrite_int32_dec)

text \<open>The line of an item, and reading it.\<close>

definition item_line :: "configuration \<Rightarrow> tConfigItem \<Rightarrow> U8 list" where
  "item_line c it =
     (case it of (n, f, t) \<Rightarrow>
        (case t of
           TYPE_INT _ \<Rightarrow> ascii n @ [32, 61, 32] @ serwrite_int32 (cfg_i c f) @ [13, 10]
         | TYPE_DOUBLE _ \<Rightarrow> ascii n @ [32, 61, 32] @ the (serwrite_double (cfg_d c f)) @ [13, 10]
         | _ \<Rightarrow> []))"

definition whole_doubles :: "configuration \<Rightarrow> bool" where
  "whole_doubles c \<longleftrightarrow> (\<forall>n f d. (n, f, TYPE_DOUBLE d) \<in> set config_lookup \<longrightarrow> (\<exists>k < 2 ^ 31. cfg_d c f = of_nat k))"

lemma print_item_line:
  assumes "it \<in> set config_lookup" "whole_doubles c"
  shows "print_item c it = Some (item_line c it)"
proof -
  obtain n f t where it: "it = (n, f, t)" by (cases it)
  have g: "good_name n" using names_good assms(1) it by (force simp: list_all_iff)
  then have "cstring (ascii n) = ascii n" "length (ascii n) \<le> 255"
    using ident_nz by (auto simp: cstring_def good_name_def list_all_iff takeWhile_eq_all_conv ascii_def)
  then have fmt: "sersendf 0 (ascii ''%s = '' @ cs) (Str (ascii n) # args) = map_option (\<lambda>out. ascii n @ 32 # 61 # 32 # out) (sersendf 0 cs args)"
    for cs args by (simp add: ascii_def [of "''%s = ''"] option.map_comp comp_def)
  have split: "ascii ''%s = %d'' = ascii ''%s = '' @ [37, 100]" "ascii ''%s = %g'' = ascii ''%s = '' @ [37, 103]"
    by (simp_all add: ascii_def)
  show ?thesis
  proof (cases t)
    case (TYPE_INT i)
    then show ?thesis by (simp add: print_item_def item_line_def it split fmt crlf_def)
  next
    case (TYPE_DOUBLE d)
    then obtain k where "k < 2 ^ 31" "cfg_d c f = of_nat k" using assms it unfolding whole_doubles_def by blast
    then show ?thesis using TYPE_DOUBLE by (simp add: print_item_def item_line_def it split fmt crlf_def serwrite_double_whole)
  qed (simp_all add: print_item_def item_line_def it)
qed

text \<open>Reading the line of an item sets its field to the printed value.\<close>

definition restore :: "configuration \<Rightarrow> tConfigItem \<Rightarrow> configuration \<Rightarrow> configuration" where
  "restore c it c' =
     (case it of (n, f, t) \<Rightarrow>
        (case t of
           TYPE_INT _ \<Rightarrow> c'\<lparr>cfg_i := (cfg_i c')(f := cfg_i c f)\<rparr>
         | TYPE_DOUBLE _ \<Rightarrow> c'\<lparr>cfg_d := (cfg_d c')(f := cfg_d c f)\<rparr>
         | _ \<Rightarrow> c'))"

lemma read_item_line:
  assumes "it \<in> set config_lookup" "whole_doubles c"
  shows "config_line (item_line c it) c' = Some (restore c it c', [])"
proof -
  obtain n f t where it: "it = (n, f, t)" by (cases it)
  have g: "good_name n" using names_good assms(1) it by (force simp: list_all_iff)
  have h: "hd (ascii n) \<noteq> 35" using g by (auto simp: good_name_def is_alpha_def)
  have find: "find (\<lambda>x. same_name (ascii n) (fst x)) config_lookup = Some it" using find_item [OF assms(1)] it by simp
  have read: "config_line (ascii n @ 32 # 61 # 32 # w @ [13, 10]) c' = map_option (\<lambda>c. (c, [])) (set_value it w c')"
    if "get_token (32 # w @ [13, 10]) = Some (w, [13, 10])" for w
    using that h find get_token_name [OF g] get_token_equals by (simp add: config_line_def)
  show ?thesis
  proof (cases t)
    case (TYPE_INT i)
    then show ?thesis using read [OF get_token_int32] by (simp add: it item_line_def set_value_def atoi_int32 restore_def)
  next
    case (TYPE_DOUBLE d)
    then obtain k where k: "k < 2 ^ 31" "cfg_d c f = of_nat k" using assms it unfolding whole_doubles_def by blast
    have "get_token (32 # (dec k @ [46, 48, 48, 48]) @ [13, 10]) = Some (dec k @ [46, 48, 48, 48], [13, 10])"
      using get_token_dec(2) [of k "[10]"] by simp
    from read [OF this] show ?thesis
      using TYPE_DOUBLE k by (simp add: it item_line_def set_value_def atod_whole restore_def serwrite_double_whole)
  qed (simp_all add: it item_line_def config_line_def get_token_def restore_def)
qed

lemma print_items_lines:
  "set its \<subseteq> set config_lookup \<Longrightarrow> whole_doubles c \<Longrightarrow> print_items c its = Some (map (item_line c) its)"
  by (induction its) (simp_all add: print_item_line)

lemma read_items_lines:
  "set its \<subseteq> set config_lookup \<Longrightarrow> whole_doubles c \<Longrightarrow>
    config_lines (map (item_line c) its) c' = Some (fold (restore c) its c', [])"
  by (induction its arbitrary: c') (simp_all add: read_item_line)

text \<open>The fields that items of the two printed types point to.\<close>

definition int_fields :: "tConfigItem list \<Rightarrow> cfg_field set" where
  "int_fields its = {f. \<exists>n d. (n, f, TYPE_INT d) \<in> set its}"

definition double_fields :: "tConfigItem list \<Rightarrow> cfg_field set" where
  "double_fields its = {f. \<exists>n d. (n, f, TYPE_DOUBLE d) \<in> set its}"

lemma fold_restore:
  "cfg_i (fold (restore c) its c') f = (if f \<in> int_fields its then cfg_i c f else cfg_i c' f)
    \<and> cfg_d (fold (restore c) its c') f = (if f \<in> double_fields its then cfg_d c f else cfg_d c' f)"
proof (induction its arbitrary: c')
  case Nil
  then show ?case by (simp add: int_fields_def double_fields_def)
next
  case (Cons it its)
  obtain n g t where it: "it = (n, g, t)" by (cases it)
  have "int_fields (it # its) = (case t of TYPE_INT _ \<Rightarrow> insert g (int_fields its) | _ \<Rightarrow> int_fields its)"
    "double_fields (it # its) = (case t of TYPE_DOUBLE _ \<Rightarrow> insert g (double_fields its) | _ \<Rightarrow> double_fields its)"
    by (auto simp: int_fields_def double_fields_def it split: cfg_type.splits)
  then show ?case using Cons [of "restore c it c'"] by (auto simp: restore_def it split: cfg_type.splits)
qed



text \<open>A negative number in floating point is misread: its sign counts as a digit.\<close>

lemma atod_negative: "atod [45, 53] = - 25"
proof -
  have "double_of (- 3) = - 3" "double_of (- 30) = - 30" "double_of (- 25) = - 25" "double_of 0 = 0"
    using double_of_int [of "- 3"] double_of_int [of "- 30"] double_of_int [of "- 25"] double_of_int [of 0] by simp_all
  then show ?thesis by (simp add: atod_def atod_digit_def)
qed

text \<open>No item of the table sets the field \<open>dump_pos_y\<close>.\<close>

lemma dump_pos_y_unset: "DUMP_POS_Y \<notin> int_fields config_lookup \<union> double_fields config_lookup"
  by (simp add: int_fields_def double_fields_def config_lookup_def)

end
