(* ===== verification/Mendel_Process.thy ===== *)
theory Mendel_Process
  imports Grbl_Plan Mendel_Gcode Mendel_Temp Mendel_Config
begin

text \<open>
  The execution of a command (\<open>src/libraries/Mendel/src/gcode_process.c\<close>): moves and homing through
  the planner, temperatures, reports and settings. \<open>_planner_startpoint\<close>, which no file defines,
  is taken to be \<open>startpoint\<close> of the planner. The file system and the pins are arguments.
\<close>

section \<open>State\<close>

text \<open>What a command does to devices that are not modelled further.\<close>

datatype device_action =
  FanOn | FanOff | EnableMotors | DisableMotors | StopTimer nat | Delay U16 | Beep U16 U16
  | FileClose | FileOpen "U8 list" U8 | FileSeek U32

text \<open>
  The state behind the parser. The items of the configuration that the planner reads are in its record
  \<open>mot\<close>, the others in \<open>cfg\<close>. \<open>undef\<close> is set where the behaviour is undefined in C.
\<close>

record machine =
  mot :: motion
  tmp :: temp_state
  cfg :: configuration
  sd_printing :: bool
  sd_active :: bool
  filesize :: U32
  sd_pos :: U32
  extruders_on :: U8
  extruder_1_speed :: rat
  auto_prime_steps :: U32
  auto_reverse_steps :: U32
  actions :: "device_action list"
  undef :: bool

text \<open>
  The surroundings: what the interrupts do to the stepper while the task sleeps until a condition
  holds, the results of the file system, the listing of the card, and the end stops.
\<close>

record surroundings =
  sleep :: "(stepper \<Rightarrow> bool) \<Rightarrow> stepper \<Rightarrow> stepper"
  file_open :: "U8 list \<Rightarrow> U8 \<Rightarrow> U32"
  file_size :: "U8 list \<Rightarrow> U32"
  dir_list :: "U8 list"
  endstop :: "nat \<Rightarrow> bool"

type_synonym mapp = "machine app"

definition on_env :: "(machine \<Rightarrow> machine) \<Rightarrow> mapp \<Rightarrow> mapp" where
  "on_env f a = a\<lparr>env := f (env a)\<rparr>"

definition on_mot :: "(motion \<Rightarrow> motion) \<Rightarrow> mapp \<Rightarrow> mapp" where
  "on_mot f = on_env (\<lambda>m. m\<lparr>mot := f (mot m)\<rparr>)"

definition on_cmd :: "(GCODE_COMMAND \<Rightarrow> GCODE_COMMAND) \<Rightarrow> mapp \<Rightarrow> mapp" where
  "on_cmd f a = a\<lparr>prs := (prs a)\<lparr>next_target := f (next_target (prs a))\<rparr>\<rparr>"

definition act :: "device_action \<Rightarrow> mapp \<Rightarrow> mapp" where
  "act x = on_env (\<lambda>m. m\<lparr>actions := actions m @ [x]\<rparr>)"

definition undefd :: "mapp \<Rightarrow> mapp" where
  "undefd = on_env (\<lambda>m. m\<lparr>undef := True\<rparr>)"

text \<open>Formatted output, and an update with the result of a conversion.\<close>

definition say_fmt :: "string \<Rightarrow> arg list \<Rightarrow> mapp \<Rightarrow> mapp" where
  "say_fmt f args a = (case sersendf 0 (ascii f @ crlf) args of None \<Rightarrow> undefd a | Some cs \<Rightarrow> say cs a)"

definition with_value :: "'a option \<Rightarrow> ('a \<Rightarrow> mapp \<Rightarrow> mapp) \<Rightarrow> mapp \<Rightarrow> mapp" where
  "with_value r f a = (case r of None \<Rightarrow> undefd a | Some v \<Rightarrow> f v a)"

abbreviation start_of :: "mapp \<Rightarrow> tTarget" where "start_of a \<equiv> startpoint (mot (env a))"
abbreviation cmd_of :: "mapp \<Rightarrow> GCODE_COMMAND" where "cmd_of a \<equiv> next_target (prs a)"

definition cfg_int :: "cfg_field \<Rightarrow> mapp \<Rightarrow> rat" where
  "cfg_int f a = of_int (sint (cfg_i (cfg (env a)) f))"

section \<open>Moves\<close>

definition sleep_until :: "surroundings \<Rightarrow> (stepper \<Rightarrow> bool) \<Rightarrow> motion \<Rightarrow> motion" where
  "sleep_until w c p = (if c (stp p) then p else p\<lparr>stp := sleep w c (stp p)\<rparr>)"

text \<open>A request to the planner; a full buffer is waited for.\<close>

definition buffer_action :: "surroundings \<Rightarrow> action_type \<Rightarrow> tTarget \<Rightarrow> mapp \<Rightarrow> mapp" where
  "buffer_action w k t a =
     (let p = sleep_until w (\<lambda>s. \<not> plan_queue_full s) (mot (env a))
      in case plan_buffer_action k t p of
           Done p \<Rightarrow> on_mot (\<lambda>_. p) a
         | _ \<Rightarrow> undefd (on_mot (\<lambda>_. p) a))"

definition enqueue_moved :: "surroundings \<Rightarrow> tTarget \<Rightarrow> mapp \<Rightarrow> mapp" where
  "enqueue_moved w t a =
     (let s = start_of a in
      if target_x t \<noteq> target_x s \<or> target_y t \<noteq> target_y s \<or> target_z t \<noteq> target_z s \<or> target_e t \<noteq> target_e s then
        (let r = t\<lparr>invert_feed_rate := 0\<rparr>;
             r = (if cfg_i (cfg (env a)) ENABLE_EXTRUDER_1 = 0 then r\<lparr>target_e := target_e s\<rparr> else r)
         in buffer_action w AT_MOVE r a)
      else on_mot (plan_set_feed_rate t) a)"

definition enqueue_wait_temp :: "surroundings \<Rightarrow> mapp \<Rightarrow> mapp" where
  "enqueue_wait_temp w a = buffer_action w AT_WAIT_TEMPS (start_of a) a"

definition synch_queue :: "surroundings \<Rightarrow> mapp \<Rightarrow> mapp" where
  "synch_queue w = on_mot (sleep_until w plan_queue_empty)"

definition SpecialMoveXY :: "surroundings \<Rightarrow> rat \<Rightarrow> rat \<Rightarrow> rat \<Rightarrow> mapp \<Rightarrow> mapp" where
  "SpecialMoveXY w x y f a =
     buffer_action w AT_MOVE_ENDSTOP ((start_of a)\<lparr>target_x := x, target_y := y, feed_rate := f, invert_feed_rate := 0\<rparr>) a"

definition SpecialMoveZ :: "surroundings \<Rightarrow> rat \<Rightarrow> rat \<Rightarrow> mapp \<Rightarrow> mapp" where
  "SpecialMoveZ w z f a =
     buffer_action w AT_MOVE_ENDSTOP ((start_of a)\<lparr>target_z := z, feed_rate := f, invert_feed_rate := 0\<rparr>) a"

definition SpecialMoveE :: "surroundings \<Rightarrow> rat \<Rightarrow> rat \<Rightarrow> mapp \<Rightarrow> mapp" where
  "SpecialMoveE w e f a =
     (if cfg_i (cfg (env a)) ENABLE_EXTRUDER_1 \<noteq> 0
      then enqueue_moved w ((start_of a)\<lparr>target_e := double_of (target_e (start_of a) + e), feed_rate := f\<rparr>) a
      else a)"

definition set_position :: "tTarget \<Rightarrow> mapp \<Rightarrow> mapp" where
  "set_position t a = with_value (plan_set_current_position t (mot (env a))) (\<lambda>p. on_mot (\<lambda>_. p)) a"

definition zero_x :: "surroundings \<Rightarrow> mapp \<Rightarrow> mapp" where
  "zero_x w a =
     (let move = (\<lambda>d f a. SpecialMoveXY w (double_of (target_x (start_of a) + d)) (target_y (start_of a)) (cfg_int f a) a);
          a = synch_queue w (move (- 300) HOMING_FEEDRATE_X a);
          a = move 3 SEARCH_FEEDRATE_X a;
          a = synch_queue w (move (- 6) SEARCH_FEEDRATE_X a)
      in set_position ((start_of a)\<lparr>target_x := cfg_int HOME_POS_X a\<rparr>) a)"

definition zero_y :: "surroundings \<Rightarrow> mapp \<Rightarrow> mapp" where
  "zero_y w a =
     (let dir = (if sint (cfg_i (cfg (env a)) HOME_DIRECTION_Y) < 0 then - 1 else 1);
          move = (\<lambda>d f a. SpecialMoveXY w (target_x (start_of a)) (double_of (target_y (start_of a) + d)) (cfg_int f a) a);
          a = synch_queue w (move (dir * 250) HOMING_FEEDRATE_Y a);
          a = move (- (dir * 3)) SEARCH_FEEDRATE_Y a;
          a = synch_queue w (move (dir * 6) SEARCH_FEEDRATE_Y a)
      in set_position ((start_of a)\<lparr>target_y := cfg_int HOME_POS_Y a\<rparr>) a)"

definition zero_z :: "surroundings \<Rightarrow> mapp \<Rightarrow> mapp" where
  "zero_z w a =
     (let move = (\<lambda>d f a. SpecialMoveZ w (double_of (target_z (start_of a) + d)) (cfg_int f a) a);
          a = synch_queue w (move (- 250) HOMING_FEEDRATE_Z a);
          a = synch_queue w (move 1 SEARCH_FEEDRATE_Z a);
          a = synch_queue w (move (- 6) SEARCH_FEEDRATE_Z a)
      in set_position ((start_of a)\<lparr>target_z := cfg_int HOME_POS_Z a\<rparr>) a)"

definition zero_e :: "mapp \<Rightarrow> mapp" where
  "zero_e a = set_position ((start_of a)\<lparr>target_e := 0\<rparr>) a"

definition calc_distance :: "rat \<Rightarrow> rat \<Rightarrow> rat option" where
  "calc_distance dx dy = sqrt_double (double_of (double_of (dx * dx) + double_of (dy * dy)))"

section \<open>Commands\<close>

text \<open>The target of a command: relative fields are added to the start point, absolute ones replace its fields.\<close>

definition next_targetd :: "mapp \<Rightarrow> tTarget" where
  "next_targetd a =
     (let c = cmd_of a; s = start_of a; t = target c;
          d = (if option_relative c then
                 s\<lparr>target_x := double_of (target_x s + target_x t), target_y := double_of (target_y s + target_y t),
                   target_z := double_of (target_z s + target_z t), target_e := double_of (target_e s + target_e t)\<rparr>
               else
                 s\<lparr>target_x := (if seen_X c then target_x t else target_x s), target_y := (if seen_Y c then target_y t else target_y s),
                   target_z := (if seen_Z c then target_z t else target_z s), target_e := (if seen_E c then target_e t else target_e s)\<rparr>)
      in if seen_F c then d\<lparr>feed_rate := feed_rate t\<rparr> else d)"

text \<open>G1 with the extruder switched on extrudes in proportion to the distance.\<close>

definition extruded :: "tTarget \<Rightarrow> mapp \<Rightarrow> tTarget option" where
  "extruded d a =
     (if extruders_on (env a) = 1 \<and> \<not> seen_E (cmd_of a) then
        do {
          let s = start_of a;
          dist \<leftarrow> calc_distance \<bar>double_of (target_x d - target_x s)\<bar> \<bar>double_of (target_y d - target_y s)\<bar>;
          q \<leftarrow> fdiv (double_of (dist * extruder_1_speed (env a))) (feed_rate d);
          Some (d\<lparr>target_e := double_of (target_e s + double_of (q * 24))\<rparr>)
        }
      else Some d)"

definition go_home :: "surroundings \<Rightarrow> mapp \<Rightarrow> mapp" where
  "go_home w a =
     (let c = cmd_of a in
      if seen_X c \<or> seen_Y c \<or> seen_Z c \<or> seen_E c then
        (let a = (if seen_X c then zero_x w a else a);
             a = (if seen_Y c then zero_y w a else a);
             a = (if seen_Z c then zero_z w a else a)
         in if seen_E c then zero_e a else a)
      else
        (let s = start_of a;
             a = enqueue_moved w (s\<lparr>target_z := double_of (target_z s + 3), feed_rate := cfg_int HOMING_FEEDRATE_Z a\<rparr>) a
         in zero_e (zero_z w (zero_y w (zero_x w a)))))"

definition set_home :: "surroundings \<Rightarrow> mapp \<Rightarrow> mapp" where
  "set_home w a =
     (let a = synch_queue w a; c = cmd_of a; s = start_of a; none = (\<not> seen_X c \<and> \<not> seen_Y c \<and> \<not> seen_Z c \<and> \<not> seen_E c)
      in set_position
           (s\<lparr>target_x := (if seen_X c \<or> none then 0 else target_x s), target_y := (if seen_Y c \<or> none then 0 else target_y s),
             target_z := (if seen_Z c \<or> none then 0 else target_z s), target_e := (if seen_E c \<or> none then 0 else target_e s)\<rparr>) a)"

definition g_command :: "surroundings \<Rightarrow> tTarget \<Rightarrow> mapp \<Rightarrow> mapp" where
  "g_command w d a =
     (let g = cmd_G (cmd_of a) in
      if g = 0 then
        with_value (int32 (maximum_feedrate_x (mot (env a)) * 2)) (\<lambda>f. enqueue_moved w (d\<lparr>feed_rate := of_int f\<rparr>)) a
      else if g = 1 then with_value (extruded d a) (enqueue_moved w) a
      else if g = 4 then act (Delay (cmd_P (cmd_of a))) (synch_queue w a)
      else if g = 20 then on_cmd (\<lambda>c. c\<lparr>option_inches := True\<rparr>) a
      else if g = 21 then on_cmd (\<lambda>c. c\<lparr>option_inches := False\<rparr>) a
      else if g = 30 then go_home w (enqueue_moved w d a)
      else if g = 28 then go_home w a
      else if g = 90 then on_cmd (\<lambda>c. c\<lparr>option_relative := False\<rparr>) a
      else if g = 91 then on_cmd (\<lambda>c. c\<lparr>option_relative := True\<rparr>) a
      else if g = 92 then set_home w a
      else say (ascii ''E: Bad G-code '' @ serwrite_uint32 (ucast g) @ crlf) a)"

text \<open>
  M codes. A result \<open>None\<close> says that the code is not one of the group; the truth value says that the
  reply has been sent.
\<close>

definition m_files :: "surroundings \<Rightarrow> mapp \<Rightarrow> (bool \<times> mapp) option" where
  "m_files w a =
     (let m = cmd_M (cmd_of a); name = cstring (filename (cmd_of a)); c = cmd_of a;
          silent = (\<lambda>a. Some (False, a)); activate = on_env (\<lambda>e. e\<lparr>sd_active := True\<rparr>) in
      if m = 20 then
        silent (say (ascii ''End file list'' @ crlf) (say (dir_list w) (say (ascii ''Begin file list'' @ crlf) a)))
      else if m = 21 then silent (on_env (\<lambda>e. e\<lparr>sd_printing := False, sd_active := True\<rparr>) a)
      else if m = 22 then silent (on_env (\<lambda>e. e\<lparr>sd_printing := False, sd_active := False\<rparr>) a)
      else if m = 23 then
        (let a = act (FileOpen name 1) (act FileClose (on_env (\<lambda>e. e\<lparr>sd_printing := False\<rparr>) (activate a)));
             r = file_open w name 1
         in silent
              (if r = 0 then
                 say_fmt ''File selected'' [] (on_env (\<lambda>e. e\<lparr>sd_pos := 0\<rparr>)
                   (say_fmt ''File opened: %s Size: %d'' [Str name, Word (file_size w name)]
                     (on_env (\<lambda>e. e\<lparr>filesize := file_size w name\<rparr>) a)))
               else say_fmt ''file.open failed'' [] (say (ascii ''sd_open:'' @ serwrite_int32 r) a)))
      else if m = 24 then silent (on_env (\<lambda>e. if sd_active e then e\<lparr>sd_printing := True\<rparr> else e) a)
      else if m = 25 then silent (on_env (\<lambda>e. e\<lparr>sd_printing := False\<rparr>) a)
      else if m = 26 then
        silent (if sd_active (env a) \<and> seen_S c
                then act (FileSeek (scast (cmd_S c))) (on_env (\<lambda>e. e\<lparr>sd_pos := scast (cmd_S c)\<rparr>) a) else a)
      else if m = 27 then
        silent (if sd_active (env a)
                then say_fmt ''SD printing byte %d/%d'' [Word (sd_pos (env a)), Word (filesize (env a))] a
                else say (ascii ''Not SD printing'' @ crlf) a)
      else if m = 28 then
        (let a = act (FileOpen name 10) (on_env (\<lambda>e. e\<lparr>sd_printing := False\<rparr>) (act FileClose (activate a)));
             r = file_open w name 10
         in silent
              (if r = 0 then say_fmt ''Writing to file: %s'' [Str name] (a\<lparr>sd_writing_file := True\<rparr>)
               else say_fmt ''open failed, File: %s.'' [Str name] (say (ascii ''sd_open:'' @ serwrite_int32 r) a)))
      else if m = 29 then silent a
      else None)"

definition m_extruder :: "surroundings \<Rightarrow> mapp \<Rightarrow> (bool \<times> mapp) option" where
  "m_extruder w a =
     (let m = cmd_M (cmd_of a); c = cmd_of a; e = env a; silent = (\<lambda>a. Some (False, a));
          heat = on_env (\<lambda>e. e\<lparr>tmp := temp_set (cmd_S c) EXTRUDER_0 (tmp e)\<rparr>) in
      if m = 82 \<or> m = 111 \<or> m = 113 then silent a
      else if m = 101 then
        (let a = on_env (\<lambda>e. e\<lparr>extruders_on := 1\<rparr>) a
         in silent (if auto_prime_steps e \<noteq> 0 then SpecialMoveE w (double_of (of_U32 (auto_prime_steps e) / 640)) 18000 a else a))
      else if m = 103 then
        (let a = on_env (\<lambda>e. e\<lparr>extruders_on := 0\<rparr>) a
         in silent (if auto_reverse_steps e \<noteq> 0 then SpecialMoveE w (double_of (- of_U32 (auto_reverse_steps e) / 640)) 18000 a else a))
      else if m = 104 then
        silent (if cfg_i (cfg e) ENABLE_EXTRUDER_1 \<noteq> 0 then
                  (let a = heat a in if cfg_i (cfg e) WAIT_ON_TEMP \<noteq> 0 then enqueue_wait_temp w a else a)
                else a)
      else if m = 106 then silent (act FanOn a)
      else if m = 107 then silent (act FanOff a)
      else if m = 108 then
        silent (if seen_S c then on_env (\<lambda>e. e\<lparr>extruder_1_speed := double_of (of_int (sint (cmd_S c)) / 10)\<rparr>) a else a)
      else if m = 109 then
        silent (if cfg_i (cfg e) ENABLE_EXTRUDER_1 \<noteq> 0 then enqueue_wait_temp w (heat a) else a)
      else if m = 110 then silent (on_cmd (\<lambda>c. c\<lparr>N_expected := word_of_int (sint (cmd_S c) - 1)\<rparr>) a)
      else if m = 112 then silent (act (StopTimer 0) a)
      else None)"

definition m_prime :: "surroundings \<Rightarrow> mapp \<Rightarrow> (bool \<times> mapp) option" where
  "m_prime w a =
     (let m = cmd_M (cmd_of a); c = cmd_of a; e = env a; silent = (\<lambda>a. Some (False, a)) in
      if m = 227 then
        silent (if seen_S c \<and> seen_P c
                then on_env (\<lambda>e. e\<lparr>auto_prime_steps := scast (cmd_S c), auto_reverse_steps := ucast (cmd_P c)\<rparr>) a else a)
      else if m = 228 then silent (on_env (\<lambda>e. e\<lparr>auto_prime_steps := 0, auto_reverse_steps := 0\<rparr>) a)
      else if m = 229 then
        silent (if seen_S c \<and> seen_P c
                then with_value (int32 (sint (cmd_S c) * sint (cfg_i (cfg e) STEPS_PER_REVOLUTION_E)))
                       (\<lambda>s. with_value (int32 (uint (cmd_P c) * sint (cfg_i (cfg e) STEPS_PER_REVOLUTION_E)))
                          (\<lambda>p. on_env (\<lambda>e. e\<lparr>auto_prime_steps := word_of_int s, auto_reverse_steps := word_of_int p\<rparr>))) a
                else a)
      else if m = 551 then
        silent (if seen_S c \<and> seen_P c
                then SpecialMoveE w (double_of (of_int (uint (cmd_P c)) / 256)) (of_int (sint (cmd_S c))) a else a)
      else None)"

definition m_report :: "surroundings \<Rightarrow> mapp \<Rightarrow> (bool \<times> mapp) option" where
  "m_report w a =
     (let m = cmd_M (cmd_of a); s = start_of a;
          stop = (\<lambda>i n. ascii n @ (if endstop w i then ascii ''H '' else ascii ''L '')) in
      if m = 105 then Some (True, case temp_print (tmp (env a)) of None \<Rightarrow> undefd a | Some cs \<Rightarrow> say cs a)
      else if m = 114 then
        Some (True, if option_inches (cmd_of a) then a
                    else say_fmt ''ok C: X:%g Y:%g Z:%g E:%g'' [Double (target_x s), Double (target_y s), Double (target_z s), Double (target_e s)] a)
      else if m = 115 then
        Some (False, say_fmt ''FIRMWARE_NAME:Teacup_R2C2 FIRMWARE_URL:http%%3A//github.com/bitboxelectronics/R2C2 PROTOCOL_VERSION:1.0 MACHINE_TYPE:Mendel'' [] a)
      else if m = 119 then Some (False, say (stop 0 ''x_min:'' @ stop 1 ''y_min:'' @ stop 2 ''z_min:'' @ crlf) a)
      else None)"

text \<open>The configuration with the values the planner holds.\<close>

definition config_of :: "machine \<Rightarrow> configuration" where
  "config_of e =
     (let p = mot e; c = cfg e in
      c\<lparr>cfg_d := (cfg_d c)(STEPS_PER_MM_X := steps_per_mm_x p, STEPS_PER_MM_Y := steps_per_mm_y p, STEPS_PER_MM_Z := steps_per_mm_z p,
                   STEPS_PER_MM_E := steps_per_mm_e p, ACCELERATION := acceleration p, JUNCTION_DEVIATION := junction_deviation p),
        cfg_i := (cfg_i c)(MAXIMUM_FEEDRATE_X := word_of_int (maximum_feedrate_x p), MAXIMUM_FEEDRATE_Y := word_of_int (maximum_feedrate_y p),
                   MAXIMUM_FEEDRATE_Z := word_of_int (maximum_feedrate_z p), MAXIMUM_FEEDRATE_E := word_of_int (maximum_feedrate_e p))\<rparr>)"

definition no_axis :: "GCODE_COMMAND \<Rightarrow> bool" where
  "no_axis c \<longleftrightarrow> \<not> seen_X c \<and> \<not> seen_Y c \<and> \<not> seen_Z c \<and> \<not> seen_E c"

definition set_steps :: "mapp \<Rightarrow> mapp" where
  "set_steps a =
     (let c = cmd_of a; t = target c;
          a = on_mot (\<lambda>p. p\<lparr>steps_per_mm_x := (if seen_X c then target_x t else steps_per_mm_x p),
                steps_per_mm_y := (if seen_Y c then target_y t else steps_per_mm_y p),
                steps_per_mm_z := (if seen_Z c then target_z t else steps_per_mm_z p),
                steps_per_mm_e := (if seen_E c then target_e t else steps_per_mm_e p)\<rparr>) a
      in on_cmd (\<lambda>c. c\<lparr>target := (target c)\<lparr>feed_rate := cfg_int HOMING_FEEDRATE_Z a\<rparr>\<rparr>) a)"

definition set_feedrates :: "mapp \<Rightarrow> mapp" where
  "set_feedrates a =
     (let c = cmd_of a; t = target c;
          a = (if seen_X c then with_value (to_int32 (target_x t)) (\<lambda>v. on_mot (\<lambda>p. p\<lparr>maximum_feedrate_x := v\<rparr>)) a else a);
          a = (if seen_Y c then with_value (to_int32 (target_y t)) (\<lambda>v. on_mot (\<lambda>p. p\<lparr>maximum_feedrate_y := v\<rparr>)) a else a);
          a = (if seen_Z c then with_value (to_int32 (target_z t)) (\<lambda>v. on_mot (\<lambda>p. p\<lparr>maximum_feedrate_z := v\<rparr>)) a else a)
      in if seen_E c then with_value (to_int32 (target_e t)) (\<lambda>v. on_mot (\<lambda>p. p\<lparr>maximum_feedrate_e := v\<rparr>)) a else a)"

definition table_command :: "nat \<Rightarrow> mapp \<Rightarrow> bool \<times> mapp" where
  "table_command n a =
     (let c = cmd_of a in
      if seen_S c \<and> seen_P c then (False, on_env (\<lambda>e. e\<lparr>tmp := snd (temp_set_table_entry n (cmd_S c) (cmd_P c) (tmp e))\<rparr>) a)
      else if seen_S c then
        (True, say_fmt ''ok [%d] = %d'' [Word (scast (cmd_S c)), Word (ucast (temp_get_table_entry n (cmd_S c) (tmp (env a))))] a)
      else (False, say (ascii ''E: bad param'' @ crlf) a))"

definition rest_move :: "surroundings \<Rightarrow> tTarget \<Rightarrow> mapp \<Rightarrow> mapp" where
  "rest_move w d a =
     (let s = start_of a;
          (d, a) = (if target_z s < 2
                    then (let d = s\<lparr>target_z := 2, feed_rate := of_int (maximum_feedrate_z (mot (env a)))\<rparr> in (d, enqueue_moved w d a))
                    else (d, a))
      in enqueue_moved w (d\<lparr>target_x := cfg_int REST_POS_X a, target_y := cfg_int REST_POS_Y a, target_z := target_z (start_of a),
            feed_rate := of_int (maximum_feedrate_x (mot (env a)))\<rparr>) a)"

definition m_settings :: "mapp \<Rightarrow> (bool \<times> mapp) option" where
  "m_settings a =
     (let m = cmd_M (cmd_of a); c = cmd_of a; p = mot (env a); silent = (\<lambda>a. Some (False, a)) in
      if 130 \<le> m \<and> m \<le> 134 \<or> m = 141 \<or> m = 142 then silent a
      else if m = 140 then silent (on_env (\<lambda>e. e\<lparr>tmp := temp_set (cmd_S c) HEATED_BED_0 (tmp e)\<rparr>) a)
      else if m = 190 then silent (on_env (\<lambda>e. e\<lparr>tmp := (tmp e)\<lparr>steptimeout := 0\<rparr>\<rparr>) (act EnableMotors a))
      else if m = 191 then silent (act DisableMotors a)
      else if m = 200 then
        Some (if no_axis c
              then (True, say_fmt ''ok X%g Y%g Z%g E%g'' [Double (steps_per_mm_x p), Double (steps_per_mm_y p), Double (steps_per_mm_z p), Double (steps_per_mm_e p)] a)
              else (False, set_steps a))
      else if m = 202 then
        Some (if no_axis c
              then (True, say_fmt ''ok X%d Y%d Z%d E%d'' [Word (word_of_int (maximum_feedrate_x p)), Word (word_of_int (maximum_feedrate_y p)),
                          Word (word_of_int (maximum_feedrate_z p)), Word (word_of_int (maximum_feedrate_e p))] a)
              else (False, set_feedrates a))
      else if m = 206 then
        Some (if no_axis c then (True, say_fmt ''ok X%g'' [Double (acceleration p)] a)
              else (False, if seen_X c then on_mot (\<lambda>p. p\<lparr>acceleration := target_x (target c)\<rparr>) a else a))
      else None)"

definition m_others :: "surroundings \<Rightarrow> tTarget \<Rightarrow> mapp \<Rightarrow> (bool \<times> mapp) option" where
  "m_others w d a =
     (let m = cmd_M (cmd_of a); c = cmd_of a; silent = (\<lambda>a. Some (False, a)) in
      if m = 300 then
        silent (act (Beep (if seen_S c then cmd_S c else 1000) (if seen_P c then cmd_P c else 1000)) a)
      else if m = 500 then Some (table_command EXTRUDER_0 a)
      else if m = 501 then Some (table_command HEATED_BED_0 a)
      else if m = 542 then silent (if cfg_i (cfg (env a)) HAVE_REST_POS \<noteq> 0 then rest_move w d a else a)
      else if m = 543 then silent a
      else if m = 600 then silent (case print_config (config_of (env a)) of None \<Rightarrow> undefd a | Some ls \<Rightarrow> say (concat ls) a)
      else None)"

text \<open>The groups of codes are disjoint, so that their order does not matter.\<close>

definition either :: "'a option \<Rightarrow> 'a option \<Rightarrow> 'a option" where
  "either r s = (case r of None \<Rightarrow> s | Some x \<Rightarrow> Some x)"

definition m_command :: "surroundings \<Rightarrow> tTarget \<Rightarrow> mapp \<Rightarrow> bool \<times> mapp" where
  "m_command w d a =
     (case either (m_files w a) (either (m_extruder w a) (either (m_report w a)
             (either (m_settings a) (either (m_prime w a) (m_others w d a))))) of
        Some r \<Rightarrow> r
      | None \<Rightarrow> (False, say (ascii ''E: Bad M-code '' @ serwrite_uint32 (ucast (cmd_M (cmd_of a))) @ crlf) a))"

definition process_gcode_command :: "surroundings \<Rightarrow> mapp \<Rightarrow> eParseResult \<times> mapp" where
  "process_gcode_command w a =
     (let d = next_targetd a;
          (reply_sent, a) =
            (if seen_G (cmd_of a) then (False, g_command w d a) else if seen_M (cmd_of a) then m_command w d a else (False, a))
      in (PR_OK, if reply_sent then a else say (ascii ''ok'' @ crlf) a))"

end
