(* ===== verification/Mendel_Firmware.thy ===== *)
theory Mendel_Firmware
  imports Mendel_Process
begin

text \<open>
  What executed commands do to the planner: moves arrive, and the firmware always knows its position
  (\<open>src/libraries/Mendel/src/gcode_process.c\<close> with the parser and the planner).
\<close>

section \<open>Where the planner stands\<close>

text \<open>What \<open>plan_ok\<close> depends on.\<close>

definition stand :: "'a planner_scheme \<Rightarrow> tTarget \<times> int list \<times> rat list" where
  "stand p = (startpoint p, [position_x p, position_y p, position_z p, position_e p],
     [steps_per_mm_x p, steps_per_mm_y p, steps_per_mm_z p, steps_per_mm_e p])"

lemma plan_ok_stand: "stand p = stand q \<Longrightarrow> plan_ok p = plan_ok q"
  by (simp add: stand_def plan_ok_def)

lemma stand_set [simp]:
  "stand (set_speeds i b p) = stand p" "stand (set_block i c p) = stand p" "stand (push_block p) = stand p"
  "stand (p\<lparr>stp := s\<rparr>) = stand p"
  "stand (p\<lparr>previous_unit_vec := u, previous_nominal_speed := v\<rparr>) = stand p"
  by (simp_all add: stand_def set_speeds_def set_block_def push_block_def)

lemma wake_up_stand: "wake_up p = Some p' \<Longrightarrow> stand p' = stand p"
  by (auto simp: wake_up_def)

lemma kernel_stand:
  "planner_reverse_pass_kernel b c p = Some p' \<Longrightarrow> stand p' = stand p"
  "planner_forward_pass_kernel b c p = Some p' \<Longrightarrow> stand p' = stand p"
  "recalculate_block i v p = Some p' \<Longrightarrow> stand p' = stand p"
  "recalculate_junction b i p = Some p' \<Longrightarrow> stand p' = stand p"
  by (auto simp: planner_reverse_pass_kernel_def planner_forward_pass_kernel_def recalculate_block_def recalculate_junction_def
      Option.bind_eq_Some_conv split: option.splits if_splits)

lemma reverse_loop_stand: "reverse_loop fuel i b0 b1 p = Some p' \<Longrightarrow> stand p' = stand p"
proof (induction fuel arbitrary: i b0 b1 p)
  case (Suc fuel)
  then show ?case by (subst (asm) (2) reverse_loop.simps) (auto simp: Let_def Option.bind_eq_Some_conv kernel_stand split: if_splits)
qed (subst (asm) reverse_loop.simps, simp split: if_splits)

lemma forward_loop_stand: "forward_loop fuel i b1 b2 p = Some p' \<Longrightarrow> stand p' = stand p"
proof (induction fuel arbitrary: i b1 b2 p)
  case (Suc fuel)
  then show ?case by (subst (asm) (2) forward_loop.simps) (auto simp: Option.bind_eq_Some_conv kernel_stand split: if_splits)
qed (subst (asm) forward_loop.simps, simp add: kernel_stand split: if_splits)

lemma trapezoids_loop_stand: "trapezoids_loop fuel i b p = Some p' \<Longrightarrow> stand p' = stand p"
proof (induction fuel arbitrary: i b p)
  case (Suc fuel)
  then show ?case
    by (subst (asm) (2) trapezoids_loop.simps) (auto simp: Option.bind_eq_Some_conv kernel_stand split: if_splits option.splits)
qed (subst (asm) trapezoids_loop.simps, simp add: kernel_stand split: if_splits option.splits)

lemma planner_recalculate_stand: "planner_recalculate p = Some p' \<Longrightarrow> stand p' = stand p"
  by (auto simp: planner_recalculate_def planner_reverse_pass_def planner_forward_pass_def planner_recalculate_trapezoids_def
      Option.bind_eq_Some_conv dest!: reverse_loop_stand forward_loop_stand trapezoids_loop_stand)

lemma plan_line_stand: "plan_line m f q p = Some p' \<Longrightarrow> stand p' = stand p"
  by (auto simp: plan_line_def Let_def Option.bind_eq_Some_conv split: if_splits)

lemma outcome_of_Done [simp]: "outcome_of r = Done p \<longleftrightarrow> r = Some p"
  by (simp add: outcome_of_def split: option.splits)

text \<open>A move that is done leaves the planner where its steps lead.\<close>

lemma plan_buffer_line_stand:
  assumes "plan_buffer_line k t p = Done p'"
  shows "\<exists>m q. plan_steps (k \<noteq> AT_MOVE) t p = Some (m, q) \<and> stand p' = stand q"
proof -
  obtain m q where q: "plan_steps (k \<noteq> AT_MOVE) t p = Some (m, q)"
    using assms by (auto simp: plan_buffer_line_def split: option.splits)
  show ?thesis
  proof (cases m)
    case None
    then have "p' = p" using assms q by (simp add: plan_buffer_line_def split: if_splits)
    then show ?thesis using q plan_steps_none q None by blast
  next
    case (Some n)
    then obtain p1 p2 where "plan_line n (feed_rate t) (planner.truncate q) p = Some p1"
      and r: "(if acceleration_manager_enabled p2 then planner_recalculate p2 else Some p2) \<bind> wake_up = Some p'"
      and p2: "p2 = (push_block p1)\<lparr>position_x := position_x q, position_y := position_y q, position_z := position_z q,
                 position_e := position_e q, startpoint := t\<rparr>"
      using assms q that [OF _ _ refl] by (simp add: plan_buffer_line_def Let_def split: if_splits) (auto simp: bind_eq_Some_conv)
    then have "stand p1 = stand p" by (simp add: plan_line_stand)
    moreover have "steps_per_mm_x q = steps_per_mm_x p \<and> steps_per_mm_y q = steps_per_mm_y p \<and> steps_per_mm_z q = steps_per_mm_z p
        \<and> steps_per_mm_e q = steps_per_mm_e p"
      by (rule plan_steps_cases [OF q]) (auto simp: Let_def split: if_splits)
    moreover have "startpoint q = t" using plan_steps_moves(6) q Some by blast
    ultimately have "stand p2 = stand q" by (simp add: p2 stand_def push_block_def)
    moreover have "stand p' = stand p2"
      using r by (auto simp: Option.bind_eq_Some_conv dest!: planner_recalculate_stand wake_up_stand split: if_splits)
    ultimately show ?thesis using q by auto
  qed
qed

lemma plan_buffer_action_ok:
  assumes "plan_buffer_action k t p = Done p'" "plan_ok p"
  shows "plan_ok p'"
proof (cases "k = AT_MOVE \<or> k = AT_MOVE_ENDSTOP")
  case True
  then obtain m q where "plan_steps (k \<noteq> AT_MOVE) t p = Some (m, q)" "stand p' = stand q"
    using assms plan_buffer_line_stand [of k t p p'] by (auto simp: plan_buffer_action_def)
  then show ?thesis using plan_steps_ok [OF _ assms(2)] plan_ok_stand by blast
next
  case False
  then have "stand p' = stand p" using assms(1)
    by (auto simp: plan_buffer_action_def plan_buffer_wait_def Let_def Option.bind_eq_Some_conv
        dest!: planner_recalculate_stand wake_up_stand split: if_splits)
  then show ?thesis using assms(2) plan_ok_stand by blast
qed

section \<open>Commands keep the position\<close>

text \<open>The invariant of the firmware between two commands, with an invariant of the planner.\<close>

definition machine_ok :: "(motion \<Rightarrow> bool) \<Rightarrow> mapp \<Rightarrow> bool" where
  "machine_ok Q a \<longleftrightarrow> parser_typed (prs a) \<and> Q (mot (env a))"

lemma machine_ok_say [simp]: "machine_ok Q (say cs a) = machine_ok Q a"
  by (simp add: machine_ok_def say_def)

lemma machine_ok_on_env: "(\<And>m. mot (f m) = mot m) \<Longrightarrow> machine_ok Q (on_env f a) = machine_ok Q a"
  by (simp add: machine_ok_def on_env_def)

lemma machine_ok_act [simp]: "machine_ok Q (act x a) = machine_ok Q a" "machine_ok Q (undefd a) = machine_ok Q a"
  by (simp_all add: act_def undefd_def machine_ok_on_env)

lemma machine_ok_on_mot: "machine_ok Q a \<Longrightarrow> Q (f (mot (env a))) \<Longrightarrow> machine_ok Q (on_mot f a)"
  by (simp add: machine_ok_def on_mot_def on_env_def)

lemma machine_ok_on_cmd:
  "machine_ok Q a \<Longrightarrow> filename (f (cmd_of a)) = filename (cmd_of a) \<Longrightarrow> chpos (f (cmd_of a)) = chpos (cmd_of a) \<Longrightarrow> machine_ok Q (on_cmd f a)"
  by (simp add: machine_ok_def on_cmd_def parser_typed_def)

lemma machine_ok_fmt [simp]: "machine_ok Q (say_fmt f args a) = machine_ok Q a"
  by (simp add: say_fmt_def split: option.splits)

lemma machine_ok_value: "machine_ok Q a \<Longrightarrow> (\<And>v. r = Some v \<Longrightarrow> machine_ok Q (f v a)) \<Longrightarrow> machine_ok Q (with_value r f a)"
  by (simp add: with_value_def split: option.splits)

lemma machine_ok_env [simp]:
  "machine_ok Q (on_env (\<lambda>e. e\<lparr>tmp := f e\<rparr>) a) = machine_ok Q a"
  "machine_ok Q (on_env (\<lambda>e. e\<lparr>sd_printing := b\<rparr>) a) = machine_ok Q a"
  "machine_ok Q (on_env (\<lambda>e. e\<lparr>sd_active := b\<rparr>) a) = machine_ok Q a"
  "machine_ok Q (on_env (\<lambda>e. e\<lparr>sd_printing := b, sd_active := b'\<rparr>) a) = machine_ok Q a"
  "machine_ok Q (on_env (\<lambda>e. if sd_active e then e\<lparr>sd_printing := b\<rparr> else e) a) = machine_ok Q a"
  "machine_ok Q (on_env (\<lambda>e. e\<lparr>sd_pos := x\<rparr>) a) = machine_ok Q a"
  "machine_ok Q (on_env (\<lambda>e. e\<lparr>filesize := x\<rparr>) a) = machine_ok Q a"
  "machine_ok Q (on_env (\<lambda>e. e\<lparr>extruders_on := o1\<rparr>) a) = machine_ok Q a"
  "machine_ok Q (on_env (\<lambda>e. e\<lparr>extruder_1_speed := v\<rparr>) a) = machine_ok Q a"
  "machine_ok Q (on_env (\<lambda>e. e\<lparr>auto_prime_steps := x, auto_reverse_steps := y\<rparr>) a) = machine_ok Q a"
  "machine_ok Q (a\<lparr>sd_writing_file := b\<rparr>) = machine_ok Q a"
  by (simp_all add: machine_ok_def on_env_def)

text \<open>The accesses to the card leave parser and planner alone.\<close>

definition card_apart :: "(mapp \<Rightarrow> mapp) \<Rightarrow> (U8 list \<Rightarrow> mapp \<Rightarrow> bool \<times> mapp) \<Rightarrow> bool" where
  "card_apart close write \<longleftrightarrow> (\<forall>a. prs (close a) = prs a \<and> mot (env (close a)) = mot (env a))
     \<and> (\<forall>cs a. prs (snd (write cs a)) = prs a \<and> mot (env (snd (write cs a))) = mot (env a))"

text \<open>Only M200 with an axis changes what a position in steps means.\<close>

definition changes_steps :: "GCODE_COMMAND \<Rightarrow> bool" where
  "changes_steps c \<longleftrightarrow> \<not> seen_G c \<and> seen_M c \<and> cmd_M c = 200 \<and> \<not> no_axis c"

text \<open>
  The interface between the commands and an invariant of the planner: every request that a command
  makes to the planner keeps the invariant, and so does a change of a limit.
\<close>

locale planner_invariant =
  fixes Q :: "motion \<Rightarrow> bool"
  assumes stepper: "Q (p\<lparr>stp := s\<rparr>) = Q p"
    and buffer: "plan_buffer_action k t p = Done p' \<Longrightarrow> Q p \<Longrightarrow> Q p'"
    and position: "plan_set_current_position t p = Some p' \<Longrightarrow> Q p \<Longrightarrow> Q p'"
    and feed_rate: "Q p \<Longrightarrow> Q (plan_set_feed_rate t p)"
    and limits: "Q p \<Longrightarrow> Q (p\<lparr>maximum_feedrate_x := i\<rparr>)" "Q p \<Longrightarrow> Q (p\<lparr>maximum_feedrate_y := i\<rparr>)"
      "Q p \<Longrightarrow> Q (p\<lparr>maximum_feedrate_z := i\<rparr>)" "Q p \<Longrightarrow> Q (p\<lparr>maximum_feedrate_e := i\<rparr>)" "Q p \<Longrightarrow> Q (p\<lparr>acceleration := r\<rparr>)"
begin

lemma sleep_until_ok: "Q (sleep_until w c p) = Q p"
  by (simp add: sleep_until_def stepper)

lemma machine_ok_buffer:
  assumes "machine_ok Q a"
  shows "machine_ok Q (buffer_action w k t a)"
proof -
  define p where "p = sleep_until w (\<lambda>s. \<not> plan_queue_full s) (mot (env a))"
  have "Q p" using assms by (simp add: p_def machine_ok_def sleep_until_ok)
  then show ?thesis using assms buffer
    by (auto simp: buffer_action_def p_def [symmetric] Let_def intro!: machine_ok_on_mot split: outcome.splits)
qed

lemma machine_ok_position: "machine_ok Q a \<Longrightarrow> machine_ok Q (set_position t a)"
  by (auto simp: set_position_def simp: machine_ok_def [of Q a] intro!: machine_ok_value machine_ok_on_mot intro: position)

lemma machine_ok_synch: "machine_ok Q a \<Longrightarrow> machine_ok Q (synch_queue w a)"
  by (auto simp: synch_queue_def machine_ok_def on_mot_def on_env_def sleep_until_ok)

lemma machine_ok_feed: "machine_ok Q a \<Longrightarrow> machine_ok Q (on_mot (plan_set_feed_rate t) a)"
  by (rule machine_ok_on_mot) (simp_all add: machine_ok_def feed_rate)

lemma machine_ok_enqueue: "machine_ok Q a \<Longrightarrow> machine_ok Q (enqueue_moved w t a)" "machine_ok Q a \<Longrightarrow> machine_ok Q (enqueue_wait_temp w a)"
  by (auto simp: enqueue_moved_def enqueue_wait_temp_def Let_def machine_ok_buffer machine_ok_feed)

lemma machine_ok_special:
  "machine_ok Q a \<Longrightarrow> machine_ok Q (SpecialMoveXY w x y f a)" "machine_ok Q a \<Longrightarrow> machine_ok Q (SpecialMoveZ w z f a)"
  "machine_ok Q a \<Longrightarrow> machine_ok Q (SpecialMoveE w e f a)"
  by (simp_all add: SpecialMoveXY_def SpecialMoveZ_def SpecialMoveE_def machine_ok_buffer machine_ok_enqueue)

lemma machine_ok_zero:
  "machine_ok Q a \<Longrightarrow> machine_ok Q (zero_x w a)" "machine_ok Q a \<Longrightarrow> machine_ok Q (zero_y w a)"
  "machine_ok Q a \<Longrightarrow> machine_ok Q (zero_z w a)" "machine_ok Q a \<Longrightarrow> machine_ok Q (zero_e a)"
  by (simp_all only: zero_x_def zero_y_def zero_z_def zero_e_def Let_def machine_ok_position machine_ok_synch machine_ok_special)

lemmas machine_ok_moves = machine_ok_enqueue machine_ok_special machine_ok_zero machine_ok_synch machine_ok_position

lemma machine_ok_home: "machine_ok Q a \<Longrightarrow> machine_ok Q (go_home w a)" "machine_ok Q a \<Longrightarrow> machine_ok Q (set_home w a)"
  by (simp_all add: go_home_def set_home_def Let_def machine_ok_moves)

lemma machine_ok_g_command: "machine_ok Q a \<Longrightarrow> machine_ok Q (g_command w d a)"
  unfolding g_command_def Let_def
  by (auto simp: machine_ok_moves machine_ok_home machine_ok_on_cmd intro!: machine_ok_value)

lemma machine_ok_m_files: "machine_ok Q a \<Longrightarrow> m_files w a = Some r \<Longrightarrow> machine_ok Q (snd r)"
  by (auto simp: m_files_def Let_def split: if_splits)

lemma machine_ok_m_extruder:
  assumes "machine_ok Q a" "m_extruder w a = Some r"
  shows "machine_ok Q (snd r)"
  using assms
  by (auto simp: m_extruder_def Let_def machine_ok_moves intro!: machine_ok_value machine_ok_on_cmd split: if_splits)

lemma machine_ok_m_prime:
  assumes "machine_ok Q a" "m_prime w a = Some r"
  shows "machine_ok Q (snd r)"
  using assms by (auto simp: m_prime_def Let_def machine_ok_moves intro!: machine_ok_value split: if_splits)

lemma machine_ok_m_report: "machine_ok Q a \<Longrightarrow> m_report w a = Some r \<Longrightarrow> machine_ok Q (snd r)"
  by (auto simp: m_report_def Let_def split: if_splits option.splits)

lemma machine_ok_limits:
  assumes "machine_ok Q a"
  shows "machine_ok Q (on_mot (\<lambda>p. p\<lparr>maximum_feedrate_x := v\<rparr>) a)" "machine_ok Q (on_mot (\<lambda>p. p\<lparr>maximum_feedrate_y := v\<rparr>) a)"
    "machine_ok Q (on_mot (\<lambda>p. p\<lparr>maximum_feedrate_z := v\<rparr>) a)" "machine_ok Q (on_mot (\<lambda>p. p\<lparr>maximum_feedrate_e := v\<rparr>) a)"
    "machine_ok Q (on_mot (\<lambda>p. p\<lparr>acceleration := r\<rparr>) a)"
  using assms by (simp_all add: machine_ok_def on_mot_def on_env_def limits)

lemma machine_ok_feedrates:
  assumes "machine_ok Q a"
  shows "machine_ok Q (set_feedrates a)"
proof -
  have "machine_ok Q (if b then with_value r f c else c)"
    if "machine_ok Q c" "\<And>v. machine_ok Q (f v c)" for b c and r :: "int option" and f
    using that by (simp add: machine_ok_value)
  with assms show ?thesis by (simp add: set_feedrates_def Let_def machine_ok_limits)
qed

lemma machine_ok_steps: "machine_ok Q a \<Longrightarrow> \<forall>p. Q p \<Longrightarrow> machine_ok Q (set_steps a)"
  by (simp add: set_steps_def Let_def machine_ok_def on_mot_def on_env_def on_cmd_def parser_typed_def)

lemma machine_ok_table: "machine_ok Q a \<Longrightarrow> machine_ok Q (snd (table_command n a))"
  by (simp add: table_command_def Let_def)

lemma machine_ok_rest: "machine_ok Q a \<Longrightarrow> machine_ok Q (rest_move w d a)"
  by (simp add: rest_move_def Let_def machine_ok_moves)

lemma machine_ok_m_settings:
  assumes "machine_ok Q a" "m_settings a = Some r" "cmd_M (cmd_of a) \<noteq> 200 \<or> no_axis (cmd_of a) \<or> (\<forall>p. Q p)"
  shows "machine_ok Q (snd r)"
  using assms
  by (auto simp: m_settings_def Let_def machine_ok_steps machine_ok_feedrates machine_ok_limits split: if_splits)

lemma machine_ok_m_others: "machine_ok Q a \<Longrightarrow> m_others w d a = Some r \<Longrightarrow> machine_ok Q (snd r)"
  by (auto simp: m_others_def Let_def machine_ok_rest machine_ok_table split: if_splits option.splits)

lemma process_gcode_command_ok:
  assumes "machine_ok Q a" "\<not> changes_steps (cmd_of a) \<or> (\<forall>p. Q p)"
  shows "machine_ok Q (snd (process_gcode_command w a))"
proof -
  have "machine_ok Q (snd (m_command w d a))" if "\<not> seen_G (cmd_of a)" "seen_M (cmd_of a)" for d
    using assms that machine_ok_m_files [of a w] machine_ok_m_extruder [of a w] machine_ok_m_report [of a w] machine_ok_m_settings [of a]
      machine_ok_m_prime [of a w] machine_ok_m_others [of a w d]
    by (auto simp: m_command_def either_def changes_steps_def split: option.splits)
  then show ?thesis using assms machine_ok_g_command
    by (simp add: process_gcode_command_def Let_def case_prod_beta)
qed

lemma machine_ok_write_line:
  assumes "write_line close write cs a = Inr b" "card_apart close write" "machine_ok Q a"
  shows "machine_ok Q b"
proof (cases "seen_M (cmd_of a) \<and> 20 \<le> cmd_M (cmd_of a) \<and> cmd_M (cmd_of a) \<le> 29")
  case True
  then show ?thesis using assms by (auto simp: write_line_def Let_def card_apart_def machine_ok_def say_def split: if_splits)
next
  case False
  define l where "l = (if last cs = 13 then cs[length cs - 1 := 10] else cs)"
  obtain ok c where w: "write l a = (ok, c)" by (cases "write l a")
  then have "machine_ok Q c" using assms(2,3) by (metis card_apart_def machine_ok_def snd_conv)
  moreover have "\<exists>m. b = say m c"
    using assms(1) unfolding write_line_def Let_def l_def [symmetric] if_not_P [OF False] w by (auto split: if_splits)
  ultimately show ?thesis by auto
qed

lemma machine_ok_process_line:
  assumes "machine_ok Q a" "\<not> changes_steps (cmd_of a) \<or> (\<forall>p. Q p)"
  shows "machine_ok Q (snd (process_line (process_gcode_command w) a))"
  using process_gcode_command_ok [OF assms, of w]
  by (cases "process_gcode_command w a") (simp add: process_line_def Let_def machine_ok_def parser_typed_def)

lemma machine_ok_line:
  assumes "gcode_parse_line (process_gcode_command w) close write cs a = Inr (r, a')" "card_apart close write" "machine_ok Q a"
    and "(\<forall>p. gcode_parse_chars cs (prs a) = Inr p \<longrightarrow> \<not> changes_steps (next_target p)) \<or> (\<forall>p. Q p)"
  shows "machine_ok Q a' \<and> last_field (prs a') = 0 \<and> chpos (next_target (prs a')) = 0"
proof -
  obtain p b where p: "gcode_parse_chars cs (prs a) = Inr p" and a': "a' = b\<lparr>prs := reset_line (prs b)\<rparr>"
    and b: "(\<exists>m. b = request_resend (say m (a\<lparr>prs := p\<rparr>))) \<or> write_line close write cs (a\<lparr>prs := p\<rparr>) = Inr b
      \<or> b = snd (process_line (process_gcode_command w) (a\<lparr>prs := p\<rparr>))"
    using parse_line_cases [OF assms(1)] .
  have ok: "machine_ok Q (a\<lparr>prs := p\<rparr>)" using assms(3) gcode_parse_chars_typed [OF _ p] by (simp add: machine_ok_def)
  have "\<not> changes_steps (cmd_of (a\<lparr>prs := p\<rparr>)) \<or> (\<forall>p. Q p)" using assms(4) p by auto
  then have "machine_ok Q b"
    using b ok machine_ok_process_line [OF ok] machine_ok_write_line [OF _ assms(2)] by (auto simp: request_resend_def)
  then show ?thesis by (simp add: a' machine_ok_def reset_line_def Let_def parser_typed_def)
qed

end

text \<open>The position, and the types of the parser alone.\<close>

interpretation pos: planner_invariant "plan_ok :: motion \<Rightarrow> bool"
proof unfold_locales
  show "plan_ok p'" if "plan_buffer_action k t p = Done p'" "plan_ok p" for k t p p' using that by (rule plan_buffer_action_ok)
  show "plan_ok p'" if "plan_set_current_position t p = Some p'" for t p and p' :: motion using that by (rule plan_set_current_position_ok)
qed (simp_all add: plan_ok_def plan_set_feed_rate_def)

interpretation typed: planner_invariant "\<lambda>_. True"
  by unfold_locales simp_all

section \<open>Moves arrive\<close>

text \<open>The position in steps is a target, rounded.\<close>

definition at_target :: "tTarget \<Rightarrow> 'a planner_scheme \<Rightarrow> bool" where
  "at_target t p \<longleftrightarrow> to_steps (target_x t) (steps_per_mm_x p) = Some (position_x p)
     \<and> to_steps (target_y t) (steps_per_mm_y p) = Some (position_y p)
     \<and> to_steps (target_z t) (steps_per_mm_z p) = Some (position_z p)
     \<and> to_steps (target_e t) (steps_per_mm_e p) = Some (position_e p)"

lemma at_target_stand: "stand p = stand q \<Longrightarrow> at_target t p = at_target t q"
  by (simp add: stand_def at_target_def)

lemma plan_steps_at:
  assumes "plan_steps b t p = Some (m, q)"
  shows "at_target t q"
proof -
  have "max a b = 0 \<longleftrightarrow> a = 0 \<and> b = 0" for a b :: U32 by (auto simp: max_def)
  moreover have "x = y" if "axis_steps x y = Some 0" for x y using axis_steps_eq(1) [OF that] by simp
  ultimately show ?thesis
    by - (rule plan_steps_cases [OF assms], auto simp: Let_def at_target_def split: if_splits)
qed

lemma enqueue_moved_arrives:
  assumes "plan_ok (mot (env a))" "cfg_i (cfg (env a)) ENABLE_EXTRUDER_1 \<noteq> 0" "\<not> undef (env (enqueue_moved w d a))"
  shows "at_target d (mot (env (enqueue_moved w d a)))"
proof (cases "target_x d \<noteq> target_x (start_of a) \<or> target_y d \<noteq> target_y (start_of a) \<or> target_z d \<noteq> target_z (start_of a)
    \<or> target_e d \<noteq> target_e (start_of a)")
  case False
  then show ?thesis using assms(1)
    by (simp add: enqueue_moved_def Let_def on_mot_def on_env_def at_target_def plan_ok_def plan_set_feed_rate_def)
next
  case True
  let ?r = "d\<lparr>invert_feed_rate := 0\<rparr>"
  define p where "p = sleep_until w (\<lambda>s. \<not> plan_queue_full s) (mot (env a))"
  have e: "enqueue_moved w d a = buffer_action w AT_MOVE ?r a" using True assms(2) by (auto simp: enqueue_moved_def Let_def)
  then obtain p' where p': "plan_buffer_action AT_MOVE ?r p = Done p'"
    using assms(3) by (auto simp: buffer_action_def p_def [symmetric] undefd_def on_env_def Let_def split: outcome.splits)
  then obtain m q where "plan_steps False ?r p = Some (m, q)" "stand p' = stand q"
    using plan_buffer_line_stand [of AT_MOVE ?r p p'] by (auto simp: plan_buffer_action_def)
  then have "at_target ?r p'" using plan_steps_at at_target_stand by blast
  then show ?thesis using p' by (simp add: e buffer_action_def p_def [symmetric] Let_def on_mot_def on_env_def at_target_def)
qed

lemma enqueue_moved_rest:
  "sent (enqueue_moved w d a) = sent a" "prs (enqueue_moved w d a) = prs a" "sd_writing_file (enqueue_moved w d a) = sd_writing_file a"
  by (simp_all add: enqueue_moved_def buffer_action_def Let_def undefd_def on_mot_def on_env_def split: outcome.splits)

lemma process_move:
  assumes "seen_G (cmd_of a)" "cmd_G (cmd_of a) = 1" "extruded (next_targetd a) a = Some d"
  shows "process_gcode_command w a = (PR_OK, say (ascii ''ok'' @ crlf) (enqueue_moved w d a))"
  using assms by (simp add: process_gcode_command_def g_command_def with_value_def Let_def)

section \<open>Properties\<close>

text \<open>An idle machine; nothing happens while it sleeps, and there is no card.\<close>

definition idle_machine :: machine where
  "idle_machine =
     \<lparr>mot = example_motion,
      tmp = \<lparr>temptable = [], current_temp = (\<lambda>_. 0), target_temp = (\<lambda>_. 0), adc_filtered = (\<lambda>_. 0), ticks = 0,
             extruder_heater = False, heated_bed = False, steptimeout = 0\<rparr>,
      cfg = \<lparr>cfg_i = (\<lambda>_. 1), cfg_d = (\<lambda>_. 0)\<rparr>,
      sd_printing = False, sd_active = False, filesize = 0, sd_pos = 0, extruders_on = 0, extruder_1_speed = 0,
      auto_prime_steps = 0, auto_reverse_steps = 0, actions = [], undef = False\<rparr>"

definition quiet_surroundings :: surroundings where
  "quiet_surroundings = \<lparr>sleep = (\<lambda>_ s. s), file_open = (\<lambda>_ _. 1), file_size = (\<lambda>_. 0), dir_list = [], endstop = (\<lambda>_. False)\<rparr>"

definition idle_app :: mapp where
  "idle_app = \<lparr>prs = reading 0 0 blank_command, sd_writing_file = False, sent = [], env = idle_machine\<rparr>"

text \<open>\<open>G1 X8 F1500\<close>.\<close>

definition move_line :: "field list" where
  "move_line = [(ch_G, 1, 1), (ch_X, 8, 1), (ch_F, 1500, 0)]"

lemma move_line_facts:
  "fields_fit move_line blank_command" "\<forall>(l, n, k) \<in> set move_line. l \<noteq> ch_star"
  "seen_G (command move_line blank_command)" "cmd_G (command move_line blank_command) = 1"
  by (simp_all add: move_line_def blank_command_def field_fits_def starts_field_def field_meaning_def crc_def crc_all_eq in_mm_def)

lemma idle_app_facts:
  "plan_ok (mot (env idle_app))" "cfg_i (cfg (env idle_app)) ENABLE_EXTRUDER_1 \<noteq> 0" "machine_ok plan_ok idle_app"
  using to_steps_whole [of 0 0]
  by (simp_all add: idle_app_def idle_machine_def machine_ok_def parser_typed_def blank_command_def plan_ok_def example_motion_def planner.defs
      example_planner_def)

lemma idle_start [simp]:
  "mot (env (idle_app\<lparr>prs := r\<rparr>)) = example_motion" "extruders_on (env (idle_app\<lparr>prs := r\<rparr>)) = 0" "env (idle_app\<lparr>prs := r\<rparr>) = idle_machine"
  by (simp_all add: idle_app_def idle_machine_def)

abbreviation move_command :: GCODE_COMMAND where
  "move_command \<equiv> crc 10 (command move_line blank_command)"

lemma move_line_parsed:
  "gcode_parse_chars (print_fields move_line @ [10]) (prs idle_app) = Inr (reading 0 0 move_command)"
  "\<not> seen_checksum move_command" "seen_G move_command" "cmd_G move_command = 1" "\<not> sd_writing_file idle_app"
proof -
  have q: "prs idle_app = reading 0 0 blank_command" "quiet blank_command" "\<not> seen_checksum blank_command"
    by (simp_all add: idle_app_def quiet_def blank_command_def)
  show "gcode_parse_chars (print_fields move_line @ [10]) (prs idle_app) = Inr (reading 0 0 move_command)"
    using parse_fields [OF settles_fresh q(2) move_line_facts(1)] by (simp add: q(1))
  show "\<not> seen_checksum move_command" "seen_G move_command" "cmd_G move_command = 1" "\<not> sd_writing_file idle_app"
    using command_crc [OF move_line_facts(2) q(3)] move_line_facts(3,4) by (simp_all add: crc_def idle_app_def)
qed

lemma move_line_runs:
  obtains a' where "gcode_parse_line (process_gcode_command w) close write (print_fields move_line @ [10]) idle_app = Inr (PR_OK, a')"
proof -
  have "fst (process_gcode_command w a) = PR_OK" for w a by (simp add: process_gcode_command_def Let_def case_prod_beta)
  then show ?thesis using that move_line_parsed by (auto simp: gcode_parse_line_def process_line_def Let_def case_prod_beta)
qed

lemma move_line_target:
  "next_targetd (idle_app\<lparr>prs := reading 0 0 (crc 10 (command move_line blank_command))\<rparr>) = example_target 8 0"
proof -
  have "startpoint example_motion = \<lparr>target_x = 0, target_y = 0, target_z = 0, target_e = 0, feed_rate = 0, invert_feed_rate = 0\<rparr>"
    by (simp add: example_motion_def planner.defs example_planner_def)
  then show ?thesis
    by (simp add: next_targetd_def Let_def move_line_def field_meaning_def crc_def crc_all_eq in_mm_def blank_command_def example_target_def
        idle_machine_def)
qed

lemma move_line_enqueued:
  assumes "prs a = r" "env a = idle_machine"
  shows "\<not> undef (env (enqueue_moved w (example_target 8 0) a))"
proof -
  obtain p' where p': "plan_buffer_line AT_MOVE (example_target 8 0) example_motion = Done p'" using example_planned .
  have "startpoint example_motion = \<lparr>target_x = 0, target_y = 0, target_z = 0, target_e = 0, feed_rate = 0, invert_feed_rate = 0\<rparr>"
    by (simp add: example_motion_def planner.defs example_planner_def)
  moreover have "\<not> plan_queue_full (stp example_motion)"
    by (simp add: plan_queue_full_def example_fields next_block_index_def BLOCK_BUFFER_SIZE_def)
  moreover have "(example_target 8 0)\<lparr>invert_feed_rate := 0\<rparr> = example_target 8 0" by (simp add: example_target_def)
  ultimately show ?thesis using p' assms(2)
    by (simp add: enqueue_moved_def Let_def buffer_action_def sleep_until_def plan_buffer_action_def on_mot_def on_env_def idle_machine_def)
qed





section \<open>The firmware over time\<close>

text \<open>
  A line from the host is parsed and executed, unless it changes the steps per millimetre, or an
  interrupt of the stepper is served.
\<close>

inductive firmware_step ::
  "surroundings \<Rightarrow> (mapp \<Rightarrow> mapp) \<Rightarrow> (U8 list \<Rightarrow> mapp \<Rightarrow> bool \<times> mapp) \<Rightarrow> mapp \<Rightarrow> mapp \<Rightarrow> bool"
  for w :: surroundings and close :: "mapp \<Rightarrow> mapp" and wr :: "U8 list \<Rightarrow> mapp \<Rightarrow> bool \<times> mapp" where
  line: "gcode_parse_line (process_gcode_command w) close wr cs a = Inr (r, a')
    \<Longrightarrow> \<forall>p. gcode_parse_chars cs (prs a) = Inr p \<longrightarrow> \<not> changes_steps (next_target p) \<Longrightarrow> firmware_step w close wr a a'"
| event: "firmware_step w close wr a (on_mot (\<lambda>p. p\<lparr>stp := st_event ev (stp p)\<rparr>) a)"

inductive_cases firmware_stepE: "firmware_step w close wr a a'"

lemma firmware_step_ok:
  assumes "firmware_step w close write a a'" "card_apart close write" "machine_ok plan_ok a"
  shows "machine_ok plan_ok a'"
  using assms(1)
proof cases
  case (line cs r)
  then show ?thesis using pos.machine_ok_line [OF line(1) assms(2,3)] by blast
next
  case (event ev)
  then show ?thesis using assms(3) by (simp add: machine_ok_def on_mot_def on_env_def pos.stepper)
qed

lemma firmware_steps_ok:
  "(firmware_step w close write)\<^sup>*\<^sup>* a a' \<Longrightarrow> card_apart close write \<Longrightarrow> machine_ok plan_ok a \<Longrightarrow> machine_ok plan_ok a'"
  by (induction rule: rtranclp_induct) (auto intro: firmware_step_ok)

text \<open>
  C24. The firmware always knows where it is. Let the host send any lines, good or bad, with moves,
  homing, new origins, waits, settings and card commands, and let step interrupts happen in between:
  the position of the planner in steps is at any moment its start point in millimetres, rounded, on all four axes, and the
  parser is well typed. The only command left out is M200 with an axis. (Where C leaves an operation
  undefined, the model notes it in \<open>undef\<close> and does not move.)
\<close>

theorem firmware_keeps_position:
  assumes "(firmware_step w close write)\<^sup>*\<^sup>* a a'" "card_apart close write" "parser_typed (prs a)" "plan_ok (mot (env a))"
  shows "parser_typed (prs a') \<and> plan_ok (mot (env a'))"
  using firmware_steps_ok [OF assms(1,2)] assms(3,4) by (simp add: machine_ok_def)

theorem firmware_keeps_position_witness:
  "\<exists>a'. gcode_parse_line (process_gcode_command quiet_surroundings) id (\<lambda>_. Pair True) (print_fields move_line @ [10]) idle_app = Inr (PR_OK, a')
     \<and> parser_typed (prs a') \<and> plan_ok (mot (env a'))"
proof -
  obtain a' where a': "gcode_parse_line (process_gcode_command quiet_surroundings) id (\<lambda>_. Pair True) (print_fields move_line @ [10]) idle_app
      = Inr (PR_OK, a')"
    using move_line_runs .
  moreover have "firmware_step quiet_surroundings id (\<lambda>_. Pair True) idle_app a'"
    using firmware_step.line [OF a'] move_line_parsed by (simp add: changes_steps_def)
  moreover have "card_apart id (\<lambda>_. Pair True)" by (simp add: card_apart_def)
  ultimately show ?thesis
    using firmware_keeps_position [of quiet_surroundings id "\<lambda>_. Pair True" idle_app a'] idle_app_facts(3)
    by (simp add: machine_ok_def r_into_rtranclp)
qed

text \<open>
  M200 changes the steps per millimetre and neither the position in steps nor the start point: at 8 mm,
  \<open>M200 X160\<close> leaves 640 steps, which are 4 mm then, and the next move is wrong by 4 mm.
\<close>

lemma m200_loses_position:
  assumes "seen_X (cmd_of a)" "target_x (target (cmd_of a)) = 160" "steps_per_mm_x (mot (env a)) = 80"
    "target_x (start_of a) = 8" "plan_ok (mot (env a))"
  shows "position_x (mot (env (set_steps a))) = 640" "\<not> plan_ok (mot (env (set_steps a)))"
proof -
  have s: "to_steps 8 80 = Some 640" "to_steps 8 160 = Some 1280" by (rule to_steps_whole; simp)+
  then show p: "position_x (mot (env (set_steps a))) = 640"
    using assms by (simp add: set_steps_def Let_def on_mot_def on_env_def on_cmd_def plan_ok_def)
  show "\<not> plan_ok (mot (env (set_steps a)))"
    using assms s p by (simp add: set_steps_def Let_def on_mot_def on_env_def on_cmd_def plan_ok_def)
qed

text \<open>M114 with inches selected sends no answer at all.\<close>

lemma m114_inches_silent:
  assumes "\<not> seen_G (cmd_of a)" "seen_M (cmd_of a)" "cmd_M (cmd_of a) = 114" "option_inches (cmd_of a)"
  shows "process_gcode_command w a = (PR_OK, a)"
  using assms by (simp add: process_gcode_command_def m_command_def either_def m_files_def m_extruder_def m_report_def Let_def)

end
