(* ===== verification/Spec2Isabelle.thy ===== *)
theory Spec2Isabelle
  imports CoOS_Kheap Mendel_Firmware
begin

text \<open>
  The R2C2 3D printer firmware: the real-time kernel CoOS (\<open>src/CoOS\<close>), as configured
  by \<open>OsConfig.h\<close>, with its data and all its operations, and the parts of the printer application
  (\<open>src/libraries\<close>) from the received character through the command and the planned block to the
  step pulses, with the configuration and the temperature control.

  \<^bold>\<open>The program.\<close> The firmware runs its tasks (motion, G-code interpreter, USB, network) on
  CoOS, a preemptive priority kernel. Tasks live in \<open>TCBTbl\<close>; a ready task is in the
  ready list, ordered by priority; a blocked one may be in the delay list (a delta list:
  each entry counts ticks from the one before), in the waiting list of an event
  (semaphore, mailbox, message queue), in the list of flag nodes, or in the waiting list of
  a mutex. Every operation is a critical section between \<open>OsSchedLock\<close> and
  \<open>OsSchedUnlock\<close>, which serves the posts that interrupt handlers deferred, then calls
  \<open>Schedule\<close>. The tick interrupt counts down the heads of the delay and timer lists.
  The printer application receives command lines over USB through a circular buffer, parses each line
  and executes it; a move becomes a block in the buffer of the planner, which the step interrupt
  turns into pulses on the pins of the motors. A timer reads the temperatures and switches the
  heaters.

  \<^bold>\<open>Theories.\<close> \<open>Prelude\<close> has the types of the machine and the generic facts on linked
  cells; \<open>Linked_List\<close>, \<open>Delta_List\<close> and \<open>Ring_Buffer\<close> state the interfaces of the
  kernel's three data structures as locales, and \<open>Speed_Plan\<close> that of planned junction speeds, with the lemmas that hold of every
  implementation. \<open>CoOS_State\<close> is the record of the kernel's global variables. The
  components follow the source files:
  \<^item> \<open>CoOS_Ready\<close>: ready list, \<open>Schedule\<close> and context switch (\<open>task.c\<close>, \<open>port.c\<close>);
  \<^item> \<open>CoOS_Delay\<close>: \<open>InsertDelayList\<close> and \<open>RemoveDelayList\<close> (\<open>time.c\<close>);
  \<^item> \<open>CoOS_Event\<close> (\<open>event.c\<close>), \<open>CoOS_Srq\<close> (the request queue of \<open>serviceReq.c\<close>), \<open>CoOS_Sem\<close>,
    \<open>CoOS_Mbox\<close>, \<open>CoOS_Queue\<close>, \<open>CoOS_Flag\<close>, \<open>CoOS_Timer\<close> (the files of those names);
  \<^item> \<open>CoOS_Time\<close>: expiry of delays, delays and time conversion (\<open>time.c\<close>, \<open>utility.c\<close>);
  \<^item> \<open>CoOS_Service\<close>: \<open>RespondSRQ\<close>, \<open>OsSchedUnlock\<close>, interrupts and the tick
    (\<open>serviceReq.c\<close>, \<open>core.c\<close>, \<open>arch.c\<close>);
  \<^item> \<open>CoOS_Mutex\<close> (\<open>mutex.c\<close> and \<open>CoSetPriority\<close>), \<open>CoOS_Task\<close> (the rest of \<open>task.c\<close> and the
    start of the system), \<open>CoOS_Mem\<close> (\<open>mm.c\<close>), \<open>CoOS_Kheap\<close> (\<open>kernelHeap.c\<close>).
  \<open>CoOS_Example\<close> has a concrete kernel state and the properties of the lists;
  \<open>CoOS_Messages\<close>, \<open>CoOS_Clock\<close> and \<open>CoOS_Life\<close> have the properties of the message objects,
  of ticks and timers, and of tasks and mutexes, all through the kernel's own \<open>OsSchedUnlock\<close>.
  The application:
  \<^item> \<open>C_Double\<close>: the rounding of double precision numbers;
  \<^item> \<open>R2C2_Serial\<close>: buffers, the USB handlers at their ends, number and formatted output
    (\<open>R2C2/src/serial_fifo.c\<close>, \<open>usb.c\<close>, \<open>serial.c\<close>, \<open>sermsg.c\<close>, \<open>sersendf.c\<close>);
  \<^item> \<open>Mendel_Gcode\<close>: collection of a line in \<open>app_main\<close> (\<open>Mendel/src/mendel.c\<close>) and the parser
    (\<open>gcode_parse.c\<close>);
  \<^item> \<open>Mendel_Temp\<close>: temperature control (\<open>temp.c\<close>);
  \<^item> \<open>Mendel_Config\<close>: the configuration, from and to text (\<open>config.c\<close>);
  \<^item> \<open>Grbl_Stepper\<close>: the step interrupts (\<open>grbl/src/stepper.c\<close>) and the block buffer (\<open>planner.c\<close>);
  \<^item> \<open>Grbl_Planner\<close>: positions and steps of the planner (\<open>planner.c\<close>);
  \<^item> \<open>Grbl_Speed\<close>: speeds, junctions and trapezoids of the blocks, and the requests to the planner
    (\<open>planner.c\<close>); \<open>Grbl_Plan\<close> has the plan over time;
  \<^item> \<open>Mendel_Process\<close>: the execution of a command (\<open>gcode_process.c\<close>); \<open>Mendel_Firmware\<close> has what
    lines from the host do to the planner.

  \<^bold>\<open>Modelling.\<close> State passing on the record \<open>kernel\<close>; pointers to control blocks are
  \<open>nat option\<close> indices into their table; machine integers are words of their width;
  status codes are bytes. A dereference of the null pointer sets \<open>fault\<close>. A walk along a
  linked list is bounded by the number of cells the list can have; a walk that does not
  end within that bound goes round for ever in the code and sets \<open>hang\<close>, and the
  lemmas show that neither happens on well-formed lists. The byte-wide loop of
  \<open>CoCreateMemPartition\<close> has 257 rounds, one more than a byte counts; \<open>srq_loop\<close> has 255,
  the largest value of its counter; \<open>CoSetPriority\<close> follows at most one owner per task. A
  blocking call ends with \<open>Blocked\<close> where the context switch happens; what the task does
  when it runs again is the definition with suffix \<open>_resume\<close>. The unlock function is a
  parameter \<open>u\<close> of the operations, because \<open>OsSchedUnlock\<close> calls operations which
  call it; \<open>CoOS_Service\<close> ties the knot, and the locale \<open>sched_unlock\<close> shows that cutting
  the recursion after one level is exact. Timer callbacks and the contents of
  the task stacks are application code: parameters.
  In the application, a pin or timer access is an event of a trace, output to the host is a list of
  characters, a double is a rational number and each operation on it rounds. What C leaves undefined (a
  conversion out of range, an access outside an array) is the left result of a sum, \<open>None\<close> or
  \<open>Undefined\<close>; in the execution of a command it sets \<open>undef\<close>. A wait for the stepper is a function of
  the surroundings, since interrupts end it; a planner call that finds the buffer full is \<open>Waits\<close>. The
  loops of the planner over the ring of blocks have 5 rounds, one more than the blocks it can hold. The
  accesses to the card are arguments of
  \<open>gcode_parse_line\<close>. The loop that collects a line has 255 rounds, as many as the buffer has
  characters.

  \<^bold>\<open>What is shown.\<close>
  \<^item> The lists: insertion and removal in the pointer structures are insertion by key and
    removal on lists (ready list by priority, delay and timer lists by due time, waiting
    lists in FIFO or priority order), keep them well formed and leave the other
    lists alone. The interfaces \<open>linked_list\<close> and \<open>delta_list\<close> carry these proofs; they are
    interpreted for the ready list (\<open>rdy\<close>), the delay list (\<open>dly\<close>), the waiting lists (\<open>ev\<close>) and the
    timer list (\<open>tmr\<close>).
  \<^item> \<open>Schedule\<close> selects a task no ready task beats.
  \<^item> The service request queue (\<open>srq\<close>) and the message queues (\<open>mq\<close>) are bounded
    first-in first-out queues, by interpretation of \<open>bounded_fifo\<close>.
  \<^item> Posts wake the first waiter and hand it the message; semaphore counts stay bounded.
  \<^item> A tick makes ready exactly the tasks that are due.
  \<^item> Deferred requests are served once each and in order; the recursion of the unlock is
    well defined.
  \<^item> Mutexes inherit priorities and hand over to the first waiter.
  \<^item> Memory partitions hand out distinct blocks; the kernel heap
    refines first fit with coalescing on lists of blocks, hands out memory nobody uses and keeps
    the contents of the blocks in use.
  \<^item> The serial buffers are bounded queues too (\<open>ser\<close>); numbers are printed in decimal without leading
    zeros; a line that arrives in packets is collected, a printed line is parsed back as the command
    it stands for, a line with a wrong checksum is refused and asked for again, and file names stay in
    their array.
  \<^item> The step interrupts give every motor exactly the steps of a block, and the blocks of the planner
    add up to its rounded position: moves do not drift.
  \<^item> The speeds the planner computes are possible: in every reachable state each block starts below the
    limit of its junction and can reach and brake to the speed of the next one within its length, and
    its trapezoid lies within its steps. The interface \<open>speed_plan\<close> carries the argument about the
    two passes, interpreted for the arithmetic of the planner (\<open>jct\<close>).
  \<^item> A printed move is executed: its line is parsed, the planner arrives at the target in steps, and the
    host gets its answer. Whatever lines the host sends, the planner knows its position and the parser
    keeps its types; the commands are checked once against the interface \<open>planner_invariant\<close>,
    interpreted for the position (\<open>pos\<close>) and for the parser alone (\<open>typed\<close>).
  \<^item> The configuration that is printed is read back from the same lines.
  \<^item> Temperatures stay in the range of the table and the heaters follow the readings.
  \<^item> Defects: some functions do not do what they mean to; the theorems state what they do
    (\<open>CoSetTmrCnt_moves_others\<close>, \<open>CoAcceptSem_wraps_count\<close>, \<open>CoDelTask_unused_block\<close>,
    \<open>CoCreateMemPartition_diverges\<close>, \<open>plan_buffer_wait_undefined\<close>; and lemmas such as
    \<open>RemoveMutexList_loses_waiters\<close>, \<open>CoFreeMemoryBuffer_accepts_end\<close>, \<open>z_acceleration_overflows\<close>,
    \<open>m200_loses_position\<close>, \<open>CoKmalloc_size_wraps\<close>).

  \<^bold>\<open>Not modelled.\<close> The hardware set-up of \<open>CoInitOS\<close>, the assembly
  of the first context switch, and the code that \<open>CFG_ORDER_LIST_SCHEDULE_EN = 0\<close> would
  compile. Of the application: the start of the main loop, the functions that only call the file
  system, and the execution of \<open>autoexec.g\<close>. \<open>gcode_process.c\<close> reads its start point from a variable that
  no file defines; it is taken to be that of the planner. \<open>dda.c\<close> is the motion control that \<open>USE_GRBL\<close>
  replaces. Network stack, file systems, USB and vendor drivers are third-party code.
\<close>

end
